(* ===== verification/Prelude.thy ===== *)
theory Prelude
  imports Main "HOL-Library.Word"
begin

text \<open>
  What every component shares: the machine types of \<open>kernel/include/types.h\<close>, arrays of bytes,
  the wrap-around of unsigned C arithmetic written out on \<open>nat\<close>, and the lemmas on array slices
  that the component theories use.

  \<^item> \<open>byte\<close> is \<open>uint8_t\<close> (and \<open>char\<close> as a bit pattern), \<open>i32\<close> is the 32-bit pattern of an
    \<open>int32_t\<close>, read with \<^const>\<open>sint\<close>.
  \<^item> A static array is a function from the index to the element. An index outside the array is a
    read or a write of something else in C; the component theories prove the bounds under which
    their indices stay inside.
  \<^item> An unsigned quantity that is only counted, compared or used as an index is a \<open>nat\<close>, and the
    conversions of the source (\<open>(uint8_t)\<close>, \<open>(uint16_t)\<close>, \<open>uint32_t\<close> arithmetic) are \<open>u8\<close>,
    \<open>u16\<close>, \<open>u32\<close> and \<open>sub32\<close>.
\<close>

unbundle bit_operations_syntax

type_synonym byte = "8 word"
type_synonym i32 = "32 word"
type_synonym mem = "nat \<Rightarrow> byte"

abbreviation byte_of :: "char \<Rightarrow> byte" where
  "byte_of c \<equiv> of_char c"

abbreviation bytes_of :: "string \<Rightarrow> byte list" where
  "bytes_of s \<equiv> map of_char s"

named_theorems wrap_simps \<open>rewriting unsigned conversions away where the value fits\<close>
named_theorems seg_simps \<open>slices of arrays after updates and block copies\<close>
named_theorems model_defs \<open>the definitions a witness evaluates\<close>

section \<open>Unsigned conversions\<close>

definition u8 :: "nat \<Rightarrow> nat" where
  "u8 n = n mod 256"

definition u16 :: "nat \<Rightarrow> nat" where
  "u16 n = n mod 65536"

definition u32 :: "nat \<Rightarrow> nat" where
  "u32 n = n mod 4294967296"

text \<open>Subtraction of two \<open>uint32_t\<close> values.\<close>

definition sub32 :: "nat \<Rightarrow> nat \<Rightarrow> nat" where
  "sub32 a b = (a + (4294967296 - b mod 4294967296)) mod 4294967296"

lemma u8_id [wrap_simps]: "n < 256 \<Longrightarrow> u8 n = n"
  by (simp add: u8_def)

lemma u16_id [wrap_simps]: "n < 65536 \<Longrightarrow> u16 n = n"
  by (simp add: u16_def)

lemma u32_id [wrap_simps]: "n < 4294967296 \<Longrightarrow> u32 n = n"
  by (simp add: u32_def)

lemma sub32_id [wrap_simps]:
  assumes "b \<le> a" and "a < 4294967296"
  shows "sub32 a b = a - b"
proof -
  have eq: "a + (4294967296 - b mod 4294967296) = (a - b) + 4294967296"
    using assms by simp
  show ?thesis
    unfolding sub32_def eq mod_add_self2 using assms by simp
qed

lemma u8_less [simp]: "u8 n < 256"
  by (simp add: u8_def)

lemma u16_less [simp]: "u16 n < 65536"
  by (simp add: u16_def)

lemma u32_less [simp]: "u32 n < 4294967296"
  by (simp add: u32_def)

lemma sub32_less [simp]: "sub32 a b < 4294967296"
  by (simp add: sub32_def)

lemma unat_byte_less [simp]: "unat (b :: byte) < 256"
  using unsigned_less [of b] by simp

lemma unat_byte_of_nat [wrap_simps]: "n < 256 \<Longrightarrow> unat (word_of_nat n :: byte) = n"
  by (simp add: unat_of_nat)

lemma byte_of_nat_unat [simp]: "(word_of_nat (unat b) :: byte) = b"
  by simp

section \<open>Slices of arrays\<close>

definition seg :: "(nat \<Rightarrow> 'a) \<Rightarrow> nat \<Rightarrow> nat \<Rightarrow> 'a list" where
  "seg m a n = map m [a..<a + n]"

lemma length_seg [simp]: "length (seg m a n) = n"
  by (simp add: seg_def)

lemma nth_seg [simp]: "i < n \<Longrightarrow> seg m a n ! i = m (a + i)"
  by (simp add: seg_def)

lemma seg_0 [simp]: "seg m a 0 = []"
  by (simp add: seg_def)

lemma seg_Suc: "seg m a (Suc n) = seg m a n @ [m (a + n)]"
  by (simp add: seg_def)

lemma seg_Cons: "seg m a (Suc n) = m a # seg m (Suc a) n"
proof -
  have "[a..<a + Suc n] = a # [Suc a..<Suc a + n]"
    using upt_rec [of a "a + Suc n"] by simp
  then show ?thesis by (simp add: seg_def)
qed

lemma seg_append: "seg m a (n + k) = seg m a n @ seg m (a + n) k"
  by (induction k) (simp_all add: seg_Suc add.assoc)

lemma seg_cong:
  "(\<And>i. a \<le> i \<Longrightarrow> i < a + n \<Longrightarrow> f i = g i) \<Longrightarrow> seg f a n = seg g a n"
  by (simp add: seg_def)

lemma seg_eq_iff:
  "seg f a n = seg g b n \<longleftrightarrow> (\<forall>i < n. f (a + i) = g (b + i))"
  by (auto simp: list_eq_iff_nth_eq)

lemma seg_upd_out [simp]:
  "i < a \<or> a + n \<le> i \<Longrightarrow> seg (m(i := x)) a n = seg m a n"
  by (rule seg_cong) auto

lemma take_seg [simp]: "take k (seg m a n) = seg m a (min k n)"
  by (cases "k \<le> n") (simp_all add: seg_def take_map min_def)

lemma drop_seg [simp]: "drop k (seg m a n) = seg m (a + k) (n - k)"
  by (simp add: seg_def drop_map) (metis add.commute add.assoc nat_le_linear add_diff_inverse_nat
    diff_is_0_eq le_add_diff_inverse2 nat_add_left_cancel_le not_less upt_conv_Nil)

section \<open>Block copies between two arrays\<close>

text \<open>
  \<open>blit dst d src s n\<close> is \<open>memcpy(dst + d, src + s, n)\<close> for two arrays that do not overlap;
  theory \<open>CString\<close> proves that the byte loop of \<open>kernel/lib/string.c\<close> computes it.
\<close>

definition blit :: "(nat \<Rightarrow> 'a) \<Rightarrow> nat \<Rightarrow> (nat \<Rightarrow> 'a) \<Rightarrow> nat \<Rightarrow> nat \<Rightarrow> nat \<Rightarrow> 'a" where
  "blit dst d src s n = (\<lambda>i. if d \<le> i \<and> i < d + n then src (s + (i - d)) else dst i)"

lemma blit_in [simp]: "d \<le> i \<Longrightarrow> i < d + n \<Longrightarrow> blit dst d src s n i = src (s + (i - d))"
  by (simp add: blit_def)

lemma blit_out [simp]: "i < d \<or> d + n \<le> i \<Longrightarrow> blit dst d src s n i = dst i"
  by (auto simp: blit_def)

lemma blit_0 [simp]: "blit dst d src s 0 = dst"
  by (rule ext) (auto simp: blit_def)

lemma blit_src_cong:
  "(\<And>i. s \<le> i \<Longrightarrow> i < s + n \<Longrightarrow> f i = g i) \<Longrightarrow> blit dst d f s n = blit dst d g s n"
  by (rule ext) (auto simp: blit_def)

text \<open>One step of an upward copy loop.\<close>

lemma blit_step: "blit (dst(d := src s)) (Suc d) src (Suc s) n = blit dst d src s (Suc n)"
proof (rule ext)
  fix i
  have "Suc s + (i - Suc d) = s + (i - d)" if "Suc d \<le> i"
    using that by simp
  then show "blit (dst(d := src s)) (Suc d) src (Suc s) n i = blit dst d src s (Suc n) i"
    by (auto simp: blit_def simp del: add_Suc)
qed

lemma seg_blit [seg_simps]: "seg (blit dst d src s n) d n = seg src s n"
  by (simp add: list_eq_iff_nth_eq)

lemma seg_blit_out [seg_simps]:
  "a + k \<le> d \<or> d + n \<le> a \<Longrightarrow> seg (blit dst d src s n) a k = seg dst a k"
  by (rule seg_cong) auto

text \<open>The array that holds the elements of a list from index 0.\<close>

definition arr_of :: "'a list \<Rightarrow> (nat \<Rightarrow> 'a) \<Rightarrow> nat \<Rightarrow> 'a" where
  "arr_of xs m = (\<lambda>i. if i < length xs then xs ! i else m i)"

lemma seg_arr_of [seg_simps]: "seg (arr_of xs m) 0 (length xs) = xs"
  by (simp add: list_eq_iff_nth_eq arr_of_def)

end
