(* ===== verification/CString.thy ===== *)
theory CString
  imports Prelude "HOL-Library.List_Lexorder"
begin

text \<open>
  The byte and string routines of \<open>kernel/lib/string.c\<close> (and the ring-3 copy of them in
  \<open>apps/lib/umem.c\<close>) over one flat byte memory, loop for loop. A string routine runs until it
  meets a NUL byte, so it is a \<open>partial_function\<close>: \<open>None\<close> is the loop that never ends.
\<close>

section \<open>Block operations\<close>

fun memset :: "mem \<Rightarrow> nat \<Rightarrow> byte \<Rightarrow> nat \<Rightarrow> mem" where
  "memset m d v 0 = m"
| "memset m d v (Suc count) = memset (m(d := v)) (Suc d) v count"

fun memcpy :: "mem \<Rightarrow> nat \<Rightarrow> nat \<Rightarrow> nat \<Rightarrow> mem" where
  "memcpy m d s 0 = m"
| "memcpy m d s (Suc count) = memcpy (m(d := m s)) (Suc d) (Suc s) count"

text \<open>The downward loop of \<open>memmove\<close>: both pointers start past the end.\<close>

fun memcpy_down :: "mem \<Rightarrow> nat \<Rightarrow> nat \<Rightarrow> nat \<Rightarrow> mem" where
  "memcpy_down m d s 0 = m"
| "memcpy_down m d s (Suc count) = memcpy_down (m(d + count := m (s + count))) d s count"

definition memmove :: "mem \<Rightarrow> nat \<Rightarrow> nat \<Rightarrow> nat \<Rightarrow> mem" where
  "memmove m d s count = (if d < s then memcpy m d s count else memcpy_down m d s count)"

section \<open>NUL-terminated strings\<close>

partial_function (option) strlen_from :: "mem \<Rightarrow> nat \<Rightarrow> nat \<Rightarrow> nat option" where
  "strlen_from m str len =
     (if m (str + len) \<noteq> 0 then strlen_from m str (Suc len) else Some len)"

definition strlen :: "mem \<Rightarrow> nat \<Rightarrow> nat option" where
  "strlen m str = strlen_from m str 0"

partial_function (option) strcmp :: "mem \<Rightarrow> nat \<Rightarrow> nat \<Rightarrow> int option" where
  "strcmp m s1 s2 =
     (if m s1 \<noteq> 0 \<and> m s1 = m s2 then strcmp m (Suc s1) (Suc s2)
      else Some (uint (m s1) - uint (m s2)))"

fun strncmp :: "mem \<Rightarrow> nat \<Rightarrow> nat \<Rightarrow> nat \<Rightarrow> int" where
  "strncmp m s1 s2 0 = 0"
| "strncmp m s1 s2 (Suc n) =
     (if m s1 \<noteq> 0 \<and> m s1 = m s2 then strncmp m (Suc s1) (Suc s2) n
      else uint (m s1) - uint (m s2))"

partial_function (option) strcpy :: "mem \<Rightarrow> nat \<Rightarrow> nat \<Rightarrow> mem option" where
  "strcpy m d s =
     (if m s \<noteq> 0 then strcpy (m(d := m s)) (Suc d) (Suc s) else Some (m(d := m s)))"

text \<open>The ring-3 \<open>strncmp\<close> counts up and tests the two bytes before the terminator.\<close>

function umem_strncmp_from :: "mem \<Rightarrow> nat \<Rightarrow> nat \<Rightarrow> nat \<Rightarrow> nat \<Rightarrow> int" where
  "umem_strncmp_from m a b n i =
     (if i < n then
        if m (a + i) \<noteq> m (b + i) then uint (m (a + i)) - uint (m (b + i))
        else if m (a + i) = 0 then 0
        else umem_strncmp_from m a b n (Suc i)
      else 0)"
  by pat_completeness auto
termination
  by (relation "measure (\<lambda>(m, a, b, n, i). n - i)") auto

definition umem_strncmp :: "mem \<Rightarrow> nat \<Rightarrow> nat \<Rightarrow> nat \<Rightarrow> int" where
  "umem_strncmp m a b n = umem_strncmp_from m a b n 0"

declare umem_strncmp_from.simps [simp del]

section \<open>What the block operations compute\<close>

lemma memset_eq: "memset m d v n = (\<lambda>i. if d \<le> i \<and> i < d + n then v else m i)"
proof (induction n arbitrary: m d)
  case 0
  then show ?case by (auto simp: fun_eq_iff)
next
  case (Suc n)
  then show ?case by (auto simp: fun_eq_iff)
qed

text \<open>The upward loop is right whenever no byte is read after it was overwritten.\<close>

lemma memcpy_up:
  assumes "d \<le> s \<or> s + n \<le> d"
  shows "memcpy m d s n = blit m d m s n"
  using assms
proof (induction n arbitrary: m d s)
  case 0
  then show ?case by simp
next
  case (Suc n)
  let ?m = "m(d := m s)"
  have "memcpy ?m (Suc d) (Suc s) n = blit ?m (Suc d) ?m (Suc s) n"
    by (rule Suc.IH) (use Suc.prems in auto)
  also have "\<dots> = blit ?m (Suc d) m (Suc s) n"
    by (rule blit_src_cong) (use Suc.prems in auto)
  finally show ?case by (simp add: blit_step)
qed

lemma memcpy_down:
  assumes "s \<le> d"
  shows "memcpy_down m d s n = blit m d m s n"
proof (induction n arbitrary: m)
  case 0
  then show ?case by simp
next
  case (Suc n)
  show ?case
  proof (rule ext)
    fix i
    show "memcpy_down m d s (Suc n) i = blit m d m s (Suc n) i"
      using assms by (auto simp: Suc.IH blit_def less_Suc_eq)
  qed
qed

lemma memmove_eq: "memmove m d s n = blit m d m s n"
  by (simp add: memmove_def memcpy_up memcpy_down)

text \<open>
  Two arrays of the program are two disjoint regions of the flat memory; on the destination
  region \<open>memcpy\<close> is \<^const>\<open>blit\<close> of the two arrays, which is how the component theories copy.
\<close>

lemma memcpy_two_arrays:
  assumes "src_base + slen \<le> dst_base \<or> dst_base + dlen \<le> src_base"
    and "d + n \<le> dlen" and "s + n \<le> slen" and "i < dlen"
  shows "memcpy m (dst_base + d) (src_base + s) n (dst_base + i)
       = blit (\<lambda>i. m (dst_base + i)) d (\<lambda>i. m (src_base + i)) s n i"
proof -
  have "memcpy m (dst_base + d) (src_base + s) n
      = blit m (dst_base + d) m (src_base + s) n"
  proof (cases "dst_base + d \<le> src_base + s")
    case True
    then show ?thesis by (simp add: memcpy_up)
  next
    case False
    then have "src_base + s + n \<le> dst_base + d \<or> n = 0"
      using assms by linarith
    then show ?thesis by (auto simp: memcpy_up)
  qed
  then show ?thesis by (auto simp: blit_def add.assoc)
qed

section \<open>What the string routines compute\<close>

text \<open>\<open>cstring m a s\<close>: the bytes \<open>s\<close>, none of them NUL, stand at \<open>a\<close> and a NUL follows them.\<close>

definition cstring :: "mem \<Rightarrow> nat \<Rightarrow> byte list \<Rightarrow> bool" where
  "cstring m a s \<longleftrightarrow> seg m a (length s) = s \<and> m (a + length s) = 0 \<and> 0 \<notin> set s"

lemma cstring_Nil [simp]: "cstring m a [] \<longleftrightarrow> m a = 0"
  by (simp add: cstring_def)

lemma cstring_Cons [simp]:
  "cstring m a (c # s) \<longleftrightarrow> m a = c \<and> c \<noteq> 0 \<and> cstring m (Suc a) s"
  by (auto simp: cstring_def seg_Cons)

lemma strlen_from_cstring:
  "cstring m (str + len) s \<Longrightarrow> strlen_from m str len = Some (len + length s)"
proof (induction s arbitrary: len)
  case Nil
  then show ?case by (simp add: strlen_from.simps)
next
  case (Cons c s)
  then show ?case by (subst strlen_from.simps) simp
qed

lemma strlen_cstring: "cstring m a s \<Longrightarrow> strlen m a = Some (length s)"
  using strlen_from_cstring [of m a 0 s] by (simp add: strlen_def)

lemma uint_byte_diff: "(uint (x :: byte) - uint y < 0) = (x < y)"
  by (simp add: word_less_alt)

lemma uint_byte_pos: "(x :: byte) \<noteq> 0 \<Longrightarrow> 0 < uint x"
  by (simp add: less_le uint_0_iff)

lemma strcmp_cstring:
  "cstring m a s \<Longrightarrow> cstring m b t \<Longrightarrow>
     \<exists>r. strcmp m a b = Some r \<and> (r = 0 \<longleftrightarrow> s = t) \<and> (r < 0 \<longleftrightarrow> s < t)"
proof (induction s arbitrary: a b t)
  case Nil
  then show ?case
    using uint_byte_pos by (cases t) (simp_all add: strcmp.simps [of m a b] uint_0_iff)
next
  case (Cons c s)
  show ?case
  proof (cases t)
    case Nil
    with Cons.prems show ?thesis
      using uint_byte_pos [of c] by (simp add: strcmp.simps [of m a b])
  next
    case t: (Cons d t')
    show ?thesis
    proof (cases "c = d")
      case True
      with Cons t show ?thesis
        by (simp add: strcmp.simps [of m a b])
    next
      case False
      with Cons.prems t show ?thesis
        by (auto simp: strcmp.simps [of m a b] word_less_alt word_uint_eq_iff)
    qed
  qed
qed

lemma strcpy_cstring:
  assumes "cstring m s xs" and "d + length xs < s \<or> s + length xs < d"
  shows "strcpy m d s = Some (blit m d m s (Suc (length xs)))"
  using assms
proof (induction xs arbitrary: m d s)
  case Nil
  then show ?case by (auto simp: strcpy.simps [of m d s] blit_def fun_eq_iff)
next
  case (Cons c xs)
  let ?m = "m(d := m s)"
  have *: "cstring ?m (Suc s) xs"
    using Cons.prems by (auto simp: cstring_def seg_Cons seg_upd_out)
  have "strcpy m d s = strcpy ?m (Suc d) (Suc s)"
    using Cons.prems(1) by (subst strcpy.simps) simp
  also have "strcpy ?m (Suc d) (Suc s) = Some (blit ?m (Suc d) ?m (Suc s) (Suc (length xs)))"
    by (rule Cons.IH [OF *]) (use Cons.prems(2) in auto)
  also have "blit ?m (Suc d) ?m (Suc s) (Suc (length xs)) = blit ?m (Suc d) m (Suc s) (Suc (length xs))"
    by (rule blit_src_cong) (use Cons.prems(2) in auto)
  finally show ?case by (simp add: blit_step)
qed

lemma umem_strncmp_from_eq:
  "umem_strncmp_from m a b (i + k) i = strncmp m (a + i) (b + i) k"
proof (induction k arbitrary: i)
  case 0
  then show ?case by (simp add: umem_strncmp_from.simps [of m a b i i])
next
  case (Suc k)
  from Suc [of "Suc i"]
  have IH: "umem_strncmp_from m a b (Suc (i + k)) (Suc i) = strncmp m (Suc (a + i)) (Suc (b + i)) k"
    by simp
  show ?case
    by (simp add: umem_strncmp_from.simps [of m a b "Suc (i + k)" i] IH)
qed

section \<open>Properties\<close>

text \<open>
  C24: memmove copies the source block as it was before the call, whatever the overlap, and
  writes nothing outside the destination block.
\<close>

theorem memmove_correct:
  "memmove m d s n i = (if d \<le> i \<and> i < d + n then m (s + (i - d)) else m i)"
  by (simp add: memmove_eq blit_def)

text \<open>
  C25: on NUL-terminated strings strcmp returns, its result is zero exactly for equal strings and
  negative exactly when the first precedes the second in the lexicographic order of unsigned bytes.
\<close>

theorem strcmp_correct:
  assumes "cstring m a s" and "cstring m b t"
  shows "\<exists>r. strcmp m a b = Some r \<and> (r = 0 \<longleftrightarrow> s = t) \<and> (r < 0 \<longleftrightarrow> s < t)"
  using assms by (rule strcmp_cstring)

lemma strcmp_correct_witness:
  "\<exists>r. strcmp ((\<lambda>_. 0)(0 := 65, 1 := 66, 10 := 65, 11 := 67)) 0 10 = Some r \<and> r < 0"
proof -
  let ?m = "(\<lambda>_. 0 :: byte)(0 := 65, 1 := 66, 10 := 65, 11 := 67)"
  have "cstring ?m 0 [65, 66]" "cstring ?m 10 [65, 67]" by simp_all
  from strcmp_correct [OF this] show ?thesis by auto
qed

text \<open>C26: the ring-3 strncmp and the kernel's strncmp return the same value on every input.\<close>

theorem umem_strncmp_equiv: "umem_strncmp m a b n = strncmp m a b n"
  using umem_strncmp_from_eq [of m a b 0 n] by (simp add: umem_strncmp_def)

end
