(* ===== verification/Console.thy ===== *)
theory Console
  imports Prelude
begin

text \<open>
  The framebuffer console: the drawing functions of \<open>drivers/svga.c\<close> on the memory of the card, which
  the processor sees through a window of 64 KB moved by a bank register, and \<open>drivers/vga.c\<close>, a
  text grid of 100 x 37 cells drawn with the ROM font. The property says that the pixels always
  show the grid.
\<close>

section \<open>The card\<close>

text \<open>
  \<open>vram\<close> is the memory of the card and \<open>gr9\<close> its bank register, which moves the window in steps of
  4 KB; \<open>current_bank\<close> is the driver's copy and \<open>saved_font\<close> the font read from the card.
\<close>

record svga =
  vram :: mem
  gr9 :: nat
  current_bank :: nat
  saved_font :: mem
  palette :: "nat \<Rightarrow> nat \<times> nat \<times> nat"

definition SVGA_WIDTH :: nat where "SVGA_WIDTH = 800"
definition SVGA_HEIGHT :: nat where "SVGA_HEIGHT = 600"
definition VGA_FB_SIZE :: nat where "VGA_FB_SIZE = 65536"

definition svga_set_bank :: "nat \<Rightarrow> 'a svga_scheme \<Rightarrow> 'a svga_scheme" where
  "svga_set_bank bank s = (if bank = current_bank s then s else s\<lparr>current_bank := bank, gr9 := u8 (bank * 16)\<rparr>)"

text \<open>A byte of the window, as an index of the memory of the card.\<close>

definition window_at :: "'a svga_scheme \<Rightarrow> nat \<Rightarrow> nat" where
  "window_at s i = gr9 s * 4096 + i"

definition svga_set_palette :: "nat \<Rightarrow> nat \<Rightarrow> nat \<Rightarrow> nat \<Rightarrow> 'a svga_scheme \<Rightarrow> 'a svga_scheme" where
  "svga_set_palette index r g b s = s\<lparr>palette := (palette s)(index := (r, g, b))\<rparr>"

function svga_clear_loop :: "byte \<Rightarrow> nat \<Rightarrow> nat \<Rightarrow> 'a svga_scheme \<Rightarrow> 'a svga_scheme" where
  "svga_clear_loop color len offset s =
    (if offset < len then
       let s = svga_set_bank (u8 (offset div 65536)) s;
           chunk = len - offset;
           chunk = (if chunk > VGA_FB_SIZE then VGA_FB_SIZE else chunk)
       in svga_clear_loop color len (offset + VGA_FB_SIZE)
            (s\<lparr>vram := blit (vram s) (window_at s 0) (\<lambda>_. color) 0 chunk\<rparr>)
     else s)"
  by pat_completeness auto
termination
  by (relation "measure (\<lambda>(color, len, offset, s). len - offset)") (auto simp: VGA_FB_SIZE_def)

declare svga_clear_loop.simps [simp del]

definition svga_clear :: "byte \<Rightarrow> 'a svga_scheme \<Rightarrow> 'a svga_scheme" where
  "svga_clear color s = svga_clear_loop color (SVGA_WIDTH * SVGA_HEIGHT) 0 s"

definition svga_putpixel :: "int \<Rightarrow> int \<Rightarrow> byte \<Rightarrow> 'a svga_scheme \<Rightarrow> 'a svga_scheme" where
  "svga_putpixel x y color s =
    (if x < 0 \<or> x \<ge> int SVGA_WIDTH \<or> y < 0 \<or> y \<ge> int SVGA_HEIGHT then s
     else
       let offset = nat (y * int SVGA_WIDTH + x);
           s = svga_set_bank (u8 (offset div 65536)) s
       in s\<lparr>vram := (vram s)(window_at s (offset mod 65536) := color)\<rparr>)"

text \<open>
  \<open>fb_read off dst d count\<close> copies into the array \<open>dst\<close> from index \<open>d\<close> on, \<open>fb_write\<close> from the
  array \<open>src\<close>.
\<close>

function fb_read :: "nat \<Rightarrow> mem \<Rightarrow> nat \<Rightarrow> nat \<Rightarrow> 'a svga_scheme \<Rightarrow> mem \<times> 'a svga_scheme" where
  "fb_read off dst d count s =
    (if count > 0 then
       let s = svga_set_bank (u8 (off div 65536)) s;
           win = off mod 65536;
           n = VGA_FB_SIZE - win;
           n = (if n > count then count else n)
       in fb_read (off + n) (blit dst d (vram s) (window_at s win) n) (d + n) (count - n) s
     else (dst, s))"
  by pat_completeness auto
termination
  by (relation "measure (\<lambda>(off, dst, d, count, s). count)") (auto simp: VGA_FB_SIZE_def)

function fb_write :: "nat \<Rightarrow> mem \<Rightarrow> nat \<Rightarrow> nat \<Rightarrow> 'a svga_scheme \<Rightarrow> 'a svga_scheme" where
  "fb_write off src i count s =
    (if count > 0 then
       let s = svga_set_bank (u8 (off div 65536)) s;
           win = off mod 65536;
           n = VGA_FB_SIZE - win;
           n = (if n > count then count else n)
       in fb_write (off + n) src (i + n) (count - n) (s\<lparr>vram := blit (vram s) (window_at s win) src i n\<rparr>)
     else s)"
  by pat_completeness auto
termination
  by (relation "measure (\<lambda>(off, src, i, count, s). count)") (auto simp: VGA_FB_SIZE_def)

declare fb_read.simps [simp del] fb_write.simps [simp del]

definition svga_blit :: "mem \<Rightarrow> 'a svga_scheme \<Rightarrow> 'a svga_scheme" where
  "svga_blit src s = fb_write 0 src 0 (SVGA_WIDTH * SVGA_HEIGHT) s"

text \<open>The static bounce buffer is the array \<open>b\<close>.\<close>

function svga_copy_loop :: "nat \<Rightarrow> nat \<Rightarrow> nat \<Rightarrow> mem \<Rightarrow> 'a svga_scheme \<Rightarrow> 'a svga_scheme" where
  "svga_copy_loop dst_off src_off count b s =
    (if count > 0 then
       let n = (if count > SVGA_WIDTH then SVGA_WIDTH else count) in
       (case fb_read src_off b 0 n s of
          (b, s) \<Rightarrow> svga_copy_loop (dst_off + n) (src_off + n) (count - n) b (fb_write dst_off b 0 n s))
     else s)"
  by pat_completeness auto
termination
  by (relation "measure (\<lambda>(dst_off, src_off, count, b, s). count)") (auto simp: SVGA_WIDTH_def)

declare svga_copy_loop.simps [simp del]

definition svga_copy :: "nat \<Rightarrow> nat \<Rightarrow> nat \<Rightarrow> 'a svga_scheme \<Rightarrow> 'a svga_scheme" where
  "svga_copy dst_off src_off count s = svga_copy_loop dst_off src_off count (\<lambda>_. 0) s"

definition svga_hline :: "int \<Rightarrow> int \<Rightarrow> nat \<Rightarrow> byte \<Rightarrow> 'a svga_scheme \<Rightarrow> 'a svga_scheme" where
  "svga_hline x y w color s = fold (\<lambda>i. svga_putpixel (x + int i) y color) [0..<w] s"

definition svga_vline :: "int \<Rightarrow> int \<Rightarrow> nat \<Rightarrow> byte \<Rightarrow> 'a svga_scheme \<Rightarrow> 'a svga_scheme" where
  "svga_vline x y h color s = fold (\<lambda>i. svga_putpixel x (y + int i) color) [0..<h] s"

definition svga_fill_rect :: "int \<Rightarrow> int \<Rightarrow> nat \<Rightarrow> nat \<Rightarrow> byte \<Rightarrow> 'a svga_scheme \<Rightarrow> 'a svga_scheme" where
  "svga_fill_rect x y w h color s = fold (\<lambda>row. svga_hline x (y + int row) w color) [0..<h] s"

section \<open>The text grid\<close>

type_synonym cell = "16 word"

record console = svga +
  cursor_row :: nat
  cursor_col :: nat
  current_color :: byte
  cursor_drawn :: bool
  cells :: "nat \<Rightarrow> cell"

definition VGA_GLYPH_W :: nat where "VGA_GLYPH_W = 8"
definition VGA_GLYPH_H :: nat where "VGA_GLYPH_H = 16"
definition VGA_WIDTH :: nat where "VGA_WIDTH = 100"
definition VGA_HEIGHT :: nat where "VGA_HEIGHT = 37"

definition console_palette :: "(nat \<times> nat \<times> nat) list" where
  "console_palette =
    [(0, 0, 0), (0, 0, 42), (0, 42, 0), (0, 42, 42), (42, 0, 0), (42, 0, 42), (42, 21, 0), (42, 42, 42),
     (21, 21, 21), (21, 21, 63), (21, 63, 21), (21, 63, 63), (63, 21, 21), (63, 21, 63), (63, 63, 21), (63, 63, 63)]"

definition vga_color :: "byte \<Rightarrow> byte \<Rightarrow> byte" where
  "vga_color fg bg = fg OR push_bit 4 bg"

definition cell_of :: "byte \<Rightarrow> byte \<Rightarrow> cell" where
  "cell_of c color = ucast c OR push_bit 8 (ucast color)"

definition make_cell :: "byte \<Rightarrow> console \<Rightarrow> cell" where
  "make_cell c s = cell_of c (current_color s)"

definition vga_reset_palette :: "console \<Rightarrow> console" where
  "vga_reset_palette s = fold (\<lambda>i. case console_palette ! i of (r, g, b) \<Rightarrow> svga_set_palette i r g b) [0..<16] s"

text \<open>The colour of one pixel of a cell.\<close>

definition cell_attr :: "cell \<Rightarrow> byte" where "cell_attr cell = ucast (drop_bit 8 cell)"
definition cell_fg :: "cell \<Rightarrow> byte" where "cell_fg cell = cell_attr cell AND 0x0F"
definition cell_bg :: "cell \<Rightarrow> byte" where "cell_bg cell = drop_bit 4 (cell_attr cell) AND 0x0F"

definition glyph_pixel :: "mem \<Rightarrow> cell \<Rightarrow> nat \<Rightarrow> nat \<Rightarrow> byte" where
  "glyph_pixel font cell line b =
    (if font (unat (cell AND 0xFF) * VGA_GLYPH_H + line) AND drop_bit b 0x80 \<noteq> 0 then cell_fg cell else cell_bg cell)"

definition render_cell :: "nat \<Rightarrow> nat \<Rightarrow> cell \<Rightarrow> console \<Rightarrow> console" where
  "render_cell row col cell s =
    fold (\<lambda>line. fold (\<lambda>b. svga_putpixel (int (col * VGA_GLYPH_W + b)) (int (row * VGA_GLYPH_H + line))
             (glyph_pixel (saved_font s) cell line b)) [0..<VGA_GLYPH_W]) [0..<VGA_GLYPH_H] s"

definition blit_cell :: "nat \<Rightarrow> nat \<Rightarrow> cell \<Rightarrow> console \<Rightarrow> console" where
  "blit_cell row col cell s =
    (let idx = row * VGA_WIDTH + col in
     if cells s idx = cell then s else render_cell row col cell (s\<lparr>cells := (cells s)(idx := cell)\<rparr>))"

definition draw_cursor :: "console \<Rightarrow> console" where
  "draw_cursor s =
    (let cell = cells s (cursor_row s * VGA_WIDTH + cursor_col s);
         fg = cell_fg cell;
         fg = (if fg = cell_bg cell then 7 else fg)
     in (fold (\<lambda>line. fold (\<lambda>b. svga_putpixel (int (cursor_col s * VGA_GLYPH_W + b)) (int (cursor_row s * VGA_GLYPH_H + line)) fg)
            [0..<VGA_GLYPH_W]) [VGA_GLYPH_H - 2..<VGA_GLYPH_H] s)\<lparr>cursor_drawn := True\<rparr>)"

definition hide_cursor :: "console \<Rightarrow> console" where
  "hide_cursor s =
    (if \<not> cursor_drawn s then s
     else (render_cell (cursor_row s) (cursor_col s) (cells s (cursor_row s * VGA_WIDTH + cursor_col s)) s)\<lparr>cursor_drawn := False\<rparr>)"

definition vga_scroll :: "console \<Rightarrow> console" where
  "vga_scroll s =
    (if cursor_row s < VGA_HEIGHT then s
     else
       let row_bytes = VGA_GLYPH_H * SVGA_WIDTH;
           len = SVGA_WIDTH * SVGA_HEIGHT;
           s = svga_copy 0 row_bytes (len - row_bytes) s;
           s = s\<lparr>cells := blit (cells s) 0 (cells s) VGA_WIDTH ((VGA_HEIGHT - 1) * VGA_WIDTH)\<rparr>;
           blank = make_cell 32 s;
           bg = drop_bit 4 (current_color s) AND 0x0F;
           s = s\<lparr>cells := blit (cells s) ((VGA_HEIGHT - 1) * VGA_WIDTH) (\<lambda>_. blank) 0 VGA_WIDTH\<rparr>;
           s = svga_fill_rect 0 (int ((VGA_HEIGHT - 1) * VGA_GLYPH_H)) SVGA_WIDTH VGA_GLYPH_H bg s
       in s\<lparr>cursor_row := VGA_HEIGHT - 1\<rparr>)"

definition vga_clear :: "console \<Rightarrow> console" where
  "vga_clear s =
    (let bg = drop_bit 4 (current_color s) AND 0x0F;
         s = svga_clear bg s;
         blank = make_cell 32 s;
         s = s\<lparr>cells := blit (cells s) 0 (\<lambda>_. blank) 0 (VGA_WIDTH * VGA_HEIGHT)\<rparr>
     in draw_cursor (s\<lparr>cursor_row := 0, cursor_col := 0, cursor_drawn := False\<rparr>))"

definition vga_set_color :: "byte \<Rightarrow> byte \<Rightarrow> console \<Rightarrow> console" where
  "vga_set_color fg bg s = s\<lparr>current_color := vga_color fg bg\<rparr>"

text \<open>\<open>vga_init\<close> behind the change of the video mode, which reads the font and selects bank 0.\<close>

definition vga_init :: "mem \<Rightarrow> console \<Rightarrow> console" where
  "vga_init font s =
    (let s = svga_set_bank 0 (s\<lparr>saved_font := font, current_bank := 0xFF\<rparr>);
         s = vga_reset_palette s
     in vga_clear (s\<lparr>current_color := vga_color 10 0, cursor_drawn := False\<rparr>))"

definition newline :: "console \<Rightarrow> console" where
  "newline s = s\<lparr>cursor_col := 0, cursor_row := cursor_row s + 1\<rparr>"

definition vga_putchar :: "byte \<Rightarrow> console \<Rightarrow> console" where
  "vga_putchar c s =
    (let s = hide_cursor s;
         s = (if c = 10 then newline s
              else if c = 13 then s\<lparr>cursor_col := 0\<rparr>
              else if c = 8 then
                let s = (if cursor_col s > 0 then s\<lparr>cursor_col := cursor_col s - 1\<rparr>
                         else if cursor_row s > 0 then s\<lparr>cursor_row := cursor_row s - 1, cursor_col := VGA_WIDTH - 1\<rparr>
                         else s)
                in blit_cell (cursor_row s) (cursor_col s) (make_cell 32 s) s
              else if c = 9 then s\<lparr>cursor_col := (cursor_col s + 8) div 8 * 8\<rparr>
              else (blit_cell (cursor_row s) (cursor_col s) (make_cell c s) s)\<lparr>cursor_col := cursor_col s + 1\<rparr>);
         s = (if cursor_col s \<ge> VGA_WIDTH then newline s else s)
     in draw_cursor (vga_scroll s))"

definition vga_write :: "byte list \<Rightarrow> console \<Rightarrow> console" where
  "vga_write str s = fold vga_putchar str s"

text \<open>The digits of a number, the last one first, and \<open>vga_write_dec\<close>.\<close>

fun dec_digits :: "nat \<Rightarrow> byte list" where
  "dec_digits val = (if val > 0 then word_of_nat (48 + val mod 10) # dec_digits (val div 10) else [])"

declare dec_digits.simps [simp del]

definition vga_write_dec :: "nat \<Rightarrow> console \<Rightarrow> console" where
  "vga_write_dec val s = (if val = 0 then vga_putchar 48 s else fold vga_putchar (rev (dec_digits val)) s)"

definition vga_set_cursor :: "nat \<Rightarrow> nat \<Rightarrow> console \<Rightarrow> console" where
  "vga_set_cursor row col s =
    (let row = (if row \<ge> VGA_HEIGHT then VGA_HEIGHT - 1 else row);
         col = (if col \<ge> VGA_WIDTH then VGA_WIDTH - 1 else col)
     in draw_cursor ((hide_cursor s)\<lparr>cursor_row := row, cursor_col := col\<rparr>))"

definition vga_putchar_at :: "nat \<Rightarrow> nat \<Rightarrow> byte \<Rightarrow> byte \<Rightarrow> byte \<Rightarrow> console \<Rightarrow> console" where
  "vga_putchar_at row col c fg bg s =
    (if row \<ge> VGA_HEIGHT \<or> col \<ge> VGA_WIDTH then s else blit_cell row col (cell_of c (vga_color fg bg)) s)"

end
