(* ===== verification/ConsoleSpec.thy ===== *)
theory ConsoleSpec
  imports Console
begin

text \<open>
  The pixels of the framebuffer always show the grid of the console, apart from the two lines of the
  cursor: the effect of the drawing functions on the linear memory of the card, bank by bank, and an
  invariant of every operation of the console.
\<close>

section \<open>Drawing\<close>

definition PIXELS :: nat where "PIXELS = 480000"

definition banked :: "'a svga_scheme \<Rightarrow> bool" where
  "banked s \<longleftrightarrow> (current_bank s \<noteq> 255 \<longrightarrow> gr9 s = u8 (current_bank s * 16))"

text \<open>\<open>painted V s s'\<close>: only the memory of the card, now \<open>V\<close>, and the bank have changed.\<close>

definition painted :: "mem \<Rightarrow> 'a svga_scheme \<Rightarrow> 'a svga_scheme \<Rightarrow> bool" where
  "painted V s s' \<longleftrightarrow> (\<exists>b g. s' = s\<lparr>vram := V, current_bank := b, gr9 := g\<rparr> \<and> (b \<noteq> 255 \<longrightarrow> g = u8 (b * 16)))"

lemma painted_refl: "banked s \<Longrightarrow> painted (vram s) s s"
  unfolding painted_def banked_def by (intro exI [of _ "current_bank s"] exI [of _ "gr9 s"]) simp

lemma painted_trans: "painted V s s' \<Longrightarrow> painted W s' s'' \<Longrightarrow> painted W s s''"
proof -
  assume "painted V s s'" and "painted W s' s''"
  then obtain b g b' g' where "s' = s\<lparr>vram := V, current_bank := b, gr9 := g\<rparr>"
    and "s'' = s'\<lparr>vram := W, current_bank := b', gr9 := g'\<rparr>" "b' \<noteq> 255 \<longrightarrow> g' = u8 (b' * 16)"
    unfolding painted_def by blast
  then show ?thesis unfolding painted_def by (intro exI [of _ b'] exI [of _ g']) simp
qed

lemma paintedD:
  assumes "painted V s s'"
  shows "vram s' = V" "banked s'" "saved_font s' = saved_font s"
  using assms by (auto simp: painted_def banked_def)

lemma painted_cong: "painted V s s' \<Longrightarrow> (\<And>i. V i = W i) \<Longrightarrow> painted W s s'"
  by (metis ext)

lemma set_bank: "banked s \<Longrightarrow> b < 16 \<Longrightarrow> svga_set_bank (u8 b) s = s\<lparr>current_bank := b, gr9 := b * 16\<rparr>"
  by (auto simp: svga_set_bank_def banked_def u8_def)

text \<open>Writing a part of the window is writing the linear memory.\<close>

lemma window_write:
  assumes "banked s" and "off < 1048576"
  shows "window_at (svga_set_bank (u8 (off div 65536)) s) (off mod 65536) = off"
    and "painted V s ((svga_set_bank (u8 (off div 65536)) s)\<lparr>vram := V\<rparr>)"
    and "vram (svga_set_bank (u8 (off div 65536)) s) = vram s"
    and "painted (vram s) s (svga_set_bank (u8 (off div 65536)) s)"
proof -
  have b: "off div 65536 < 16" using assms(2) by (simp add: div_less_iff_less_mult)
  note sb = set_bank [OF assms(1) b]
  show "window_at (svga_set_bank (u8 (off div 65536)) s) (off mod 65536) = off"
    unfolding sb window_at_def by simp
  show "painted V s ((svga_set_bank (u8 (off div 65536)) s)\<lparr>vram := V\<rparr>)"
    unfolding sb painted_def using b by (intro exI [of _ "off div 65536"] exI [of _ "off div 65536 * 16"]) (simp add: u8_def)
  show "vram (svga_set_bank (u8 (off div 65536)) s) = vram s" unfolding sb by simp
  show "painted (vram s) s (svga_set_bank (u8 (off div 65536)) s)"
    unfolding sb painted_def using b by (intro exI [of _ "off div 65536"] exI [of _ "off div 65536 * 16"]) (simp add: u8_def)
qed

lemma putpixel_painted:
  assumes "banked s"
  shows "painted (\<lambda>i. if i < PIXELS \<and> i mod 800 = x \<and> i div 800 = y then c else vram s i) s (svga_putpixel (int x) (int y) c s)"
proof (cases "x < 800 \<and> y < 600")
  case True
  let ?o = "y * 800 + x"
  have o: "?o < PIXELS" "?o < 1048576" using True by (simp_all add: PIXELS_def)
  have n: "nat (int y * 800 + int x) = ?o" by simp
  have "painted ((vram s)(?o := c)) s (svga_putpixel (int x) (int y) c s)"
    using window_write [OF assms o(2)] True
    by (simp add: svga_putpixel_def SVGA_WIDTH_def SVGA_HEIGHT_def Let_def n)
  then show ?thesis
  proof (rule painted_cong)
    fix i
    have "i = ?o \<longleftrightarrow> i mod 800 = x \<and> i div 800 = y" using True div_mult_mod_eq [of i 800] by auto
    then show "((vram s)(?o := c)) i = (if i < PIXELS \<and> i mod 800 = x \<and> i div 800 = y then c else vram s i)"
      using o(1) by auto
  qed
next
  case False
  then have "svga_putpixel (int x) (int y) c s = s" by (auto simp: svga_putpixel_def SVGA_WIDTH_def SVGA_HEIGHT_def)
  moreover have "\<not> (i < PIXELS \<and> i mod 800 = x \<and> i div 800 = y)" for i
    using False by (auto simp: PIXELS_def div_less_iff_less_mult)
  moreover from this have "(\<lambda>i. if i < PIXELS \<and> i mod 800 = x \<and> i div 800 = y then c else vram s i) = vram s"
    by (intro ext) (simp only: if_False)
  ultimately show ?thesis using painted_refl [OF assms] by simp
qed

lemma pixels_painted:
  "banked s \<Longrightarrow> painted (\<lambda>i. if i < PIXELS \<and> (i mod 800, i div 800) \<in> set ps then f (i mod 800) (i div 800) else vram s i) s
     (fold (\<lambda>(x, y). svga_putpixel (int x) (int y) (f x y)) ps s)"
proof (induction ps arbitrary: s)
  case Nil
  then show ?case using painted_refl by simp
next
  case (Cons p ps)
  obtain x y where p: "p = (x, y)" by (cases p)
  note one = putpixel_painted [OF Cons.prems, of x y "f x y"]
  show ?case
    using painted_trans [OF one Cons.IH [OF paintedD(2) [OF one]]] paintedD(1) [OF one]
    by (auto simp: p elim!: painted_cong)
qed

lemma fold_nested: "fold (\<lambda>a. fold (g a) bs) as s = fold (\<lambda>(a, b). g a b) (List.product as bs) s"
  by (induction "as" arbitrary: s) (simp_all add: fold_map comp_def)

text \<open>A rectangle of pixels.\<close>

lemma rectangle_painted:
  assumes "banked s"
  shows "painted (\<lambda>i. if i < PIXELS \<and> x0 \<le> i mod 800 \<and> i mod 800 < x0 + w \<and> y0 \<le> i div 800 \<and> i div 800 < y0 + h
      then f (i div 800 - y0) (i mod 800 - x0) else vram s i) s
    (fold (\<lambda>l. fold (\<lambda>b. svga_putpixel (int (x0 + b)) (int (y0 + l)) (f l b)) [0..<w]) [0..<h] s)"
proof -
  let ?ps = "map (\<lambda>(l, b). (x0 + b, y0 + l)) (List.product [0..<h] [0..<w])"
  have "fold (\<lambda>p s. case p of (l, b) \<Rightarrow> svga_putpixel (int (x0 + b)) (int (y0 + l)) (f l b) s) ps s
    = fold (\<lambda>(x, y). svga_putpixel (int x) (int y) (f (y - y0) (x - x0))) (map (\<lambda>(l, b). (x0 + b, y0 + l)) ps) s" for ps
    by (induction ps arbitrary: s) auto
  then have e: "fold (\<lambda>l. fold (\<lambda>b. svga_putpixel (int (x0 + b)) (int (y0 + l)) (f l b)) [0..<w]) [0..<h] s
    = fold (\<lambda>(x, y). svga_putpixel (int x) (int y) (f (y - y0) (x - x0))) ?ps s"
    unfolding fold_nested by (simp add: case_prod_beta')
  have m: "(x, y) \<in> set ?ps \<longleftrightarrow> x0 \<le> x \<and> x < x0 + w \<and> y0 \<le> y \<and> y < y0 + h" for x y
  proof
    assume r: "x0 \<le> x \<and> x < x0 + w \<and> y0 \<le> y \<and> y < y0 + h"
    then have "(y - y0, x - x0) \<in> set (List.product [0..<h] [0..<w])" by auto
    from imageI [OF this, of "\<lambda>(l, b). (x0 + b, y0 + l)"] show "(x, y) \<in> set ?ps" using r by simp
  qed auto
  show ?thesis
    unfolding e using pixels_painted [OF assms, of ?ps "\<lambda>x y. f (y - y0) (x - x0)"] unfolding m by simp
qed

lemma render_painted:
  assumes "banked s"
  shows "painted (\<lambda>i. if i < PIXELS \<and> i mod 800 div 8 = col \<and> i div 800 div 16 = row
      then glyph_pixel (saved_font s) cell (i div 800 mod 16) (i mod 800 mod 8) else vram s i) s (render_cell row col cell s)"
proof -
  have x: "col * 8 \<le> i \<and> i < col * 8 + 8 \<longleftrightarrow> i div 8 = col" and y: "row * 16 \<le> i \<and> i < row * 16 + 16 \<longleftrightarrow> i div 16 = row" for i
    by auto
  show ?thesis
    unfolding render_cell_def VGA_GLYPH_W_def VGA_GLYPH_H_def
    by (rule painted_cong [OF rectangle_painted [OF assms, of "col * 8" 8 "row * 16" 16 "\<lambda>l b. glyph_pixel (saved_font s) cell l b"]])
      (use x y in \<open>auto simp: minus_mult_div_eq_mod [symmetric] mult.commute\<close>)
qed

section \<open>Moving and clearing\<close>

lemma blit_split:
  assumes "n \<le> count"
  shows "blit (blit dst d f a n) (d + n) f (a + n) (count - n) = blit dst d f a count"
proof
  fix i
  show "blit (blit dst d f a n) (d + n) f (a + n) (count - n) i = blit dst d f a count i"
    using assms by (cases "i < d"; cases "i < d + n"; simp add: blit_def; fail)
qed

lemma blit_forward:
  assumes "n \<le> count" and "dst \<le> src" and "W = blit V dst (blit b 0 V src n) 0 n"
  shows "blit W (dst + n) W (src + n) (count - n) = blit V dst V src count"
proof
  fix i
  consider "i < dst" | "dst \<le> i" "i < dst + n" | k where "i = dst + n + k"
    by (metis le_add_diff_inverse not_less)
  then show "blit W (dst + n) W (src + n) (count - n) i = blit V dst V src count i"
    by cases (use assms in \<open>auto simp: blit_def add.assoc\<close>)
qed

lemma fb_read_eq:
  "banked s \<Longrightarrow> off + count < 1048576 \<Longrightarrow>
   fst (fb_read off dst d count s) = blit dst d (vram s) off count \<and> painted (vram s) s (snd (fb_read off dst d count s))"
proof (induction count arbitrary: off dst d s rule: less_induct)
  case (less count)
  show ?case
  proof (cases "count > 0")
    case True
    let ?s = "svga_set_bank (u8 (off div 65536)) s"
    let ?n = "if 65536 - off mod 65536 > count then count else 65536 - off mod 65536"
    have o: "off < 1048576" using less.prems(2) by simp
    note w = window_write [OF less.prems(1) o]
    have p: "painted (vram s) s ?s" by (rule w(4))
    have n: "?n \<le> count" "0 < ?n" using True by auto
    have step: "fb_read off dst d count s = fb_read (off + ?n) (blit dst d (vram s) off ?n) (d + ?n) (count - ?n) ?s"
      using True w(1,3) by (subst fb_read.simps) (simp add: Let_def VGA_FB_SIZE_def)
    have ih: "fst (fb_read (off + ?n) (blit dst d (vram s) off ?n) (d + ?n) (count - ?n) ?s)
        = blit (blit dst d (vram s) off ?n) (d + ?n) (vram ?s) (off + ?n) (count - ?n) \<and>
      painted (vram ?s) ?s (snd (fb_read (off + ?n) (blit dst d (vram s) off ?n) (d + ?n) (count - ?n) ?s))"
      by (rule less.IH) (use n paintedD(2) [OF p] less.prems(2) in auto)
    have "blit (blit dst d (vram s) off ?n) (d + ?n) (vram s) (off + ?n) (count - ?n) = blit dst d (vram s) off count"
      by (rule blit_split [OF n(1)])
    then show ?thesis using ih painted_trans [OF p] unfolding step w(3) by simp
  qed (use less.prems painted_refl in \<open>simp add: fb_read.simps\<close>)
qed

lemma fb_write_eq:
  "banked s \<Longrightarrow> off + count < 1048576 \<Longrightarrow> painted (blit (vram s) off src i count) s (fb_write off src i count s)"
proof (induction count arbitrary: off i s rule: less_induct)
  case (less count)
  show ?case
  proof (cases "count > 0")
    case True
    let ?n = "if 65536 - off mod 65536 > count then count else 65536 - off mod 65536"
    let ?s = "(svga_set_bank (u8 (off div 65536)) s)\<lparr>vram := blit (vram s) off src i ?n\<rparr>"
    have o: "off < 1048576" using less.prems(2) by simp
    note w = window_write [OF less.prems(1) o]
    have p: "painted (blit (vram s) off src i ?n) s ?s" by (rule w(2))
    have n: "?n \<le> count" "0 < ?n" using True by auto
    have step: "fb_write off src i count s = fb_write (off + ?n) src (i + ?n) (count - ?n) ?s"
      using True w(1,3) by (subst fb_write.simps) (simp add: Let_def VGA_FB_SIZE_def)
    have ih: "painted (blit (vram ?s) (off + ?n) src (i + ?n) (count - ?n)) ?s (fb_write (off + ?n) src (i + ?n) (count - ?n) ?s)"
      by (rule less.IH) (use n paintedD(2) [OF p] less.prems(2) in auto)
    have "blit (blit (vram s) off src i ?n) (off + ?n) src (i + ?n) (count - ?n) = blit (vram s) off src i count"
      by (rule blit_split [OF n(1)])
    then show ?thesis using painted_trans [OF p ih] unfolding step by simp
  qed (use less.prems painted_refl in \<open>simp add: fb_write.simps\<close>)
qed

lemma copy_painted:
  "banked s \<Longrightarrow> dst \<le> src \<Longrightarrow> src + count < 1048576 \<Longrightarrow>
   painted (blit (vram s) dst (vram s) src count) s (svga_copy_loop dst src count b s)"
proof (induction count arbitrary: dst src b s rule: less_induct)
  case (less count)
  show ?case
  proof (cases "count > 0")
    case True
    let ?n = "if count > 800 then 800 else count"
    have n: "?n \<le> count" "0 < ?n" using True by auto
    obtain b1 s1 where r: "fb_read src b 0 ?n s = (b1, s1)" by fastforce
    have rd: "b1 = blit b 0 (vram s) src ?n" "painted (vram s) s s1"
      using fb_read_eq [OF less.prems(1), of src ?n b 0] less.prems(3) n unfolding r by auto
    let ?s = "fb_write dst b1 0 ?n s1"
    have wr: "painted (blit (vram s) dst b1 0 ?n) s ?s"
      using painted_trans [OF rd(2) fb_write_eq [OF paintedD(2) [OF rd(2)]]] less.prems n paintedD(1) [OF rd(2)] by simp
    have ih: "painted (blit (vram ?s) (dst + ?n) (vram ?s) (src + ?n) (count - ?n)) ?s
        (svga_copy_loop (dst + ?n) (src + ?n) (count - ?n) b1 ?s)"
      by (rule less.IH) (use n paintedD(2) [OF wr] less.prems(2,3) in auto)
    have step: "svga_copy_loop dst src count b s = svga_copy_loop (dst + ?n) (src + ?n) (count - ?n) b1 ?s"
      using True r by (subst svga_copy_loop.simps) (unfold SVGA_WIDTH_def, simp add: Let_def split del: if_split)
    have "blit (vram ?s) (dst + ?n) (vram ?s) (src + ?n) (count - ?n) = blit (vram s) dst (vram s) src count"
      by (rule blit_forward [OF n(1) less.prems(2)]) (use paintedD(1) [OF wr] rd(1) in simp)
    then show ?thesis using painted_trans [OF wr ih] unfolding step by simp
  next
    case False
    then have "svga_copy_loop dst src count b s = s" by (simp add: svga_copy_loop.simps)
    moreover have "blit (vram s) dst (vram s) src count = vram s" by (intro ext) (use False in \<open>auto simp: blit_def\<close>)
    ultimately show ?thesis using painted_refl [OF less.prems(1)] by simp
  qed
qed

lemma clear_painted:
  "banked s \<Longrightarrow> len < 1048576 \<Longrightarrow> 65536 dvd off \<Longrightarrow>
   painted (\<lambda>i. if off \<le> i \<and> i < len then color else vram s i) s (svga_clear_loop color len off s)"
proof (induction "len - off" arbitrary: off s rule: less_induct)
  case (less off)
  show ?case
  proof (cases "off < len")
    case True
    let ?n = "if len - off > 65536 then 65536 else len - off"
    let ?s = "(svga_set_bank (u8 (off div 65536)) s)\<lparr>vram := blit (vram s) off (\<lambda>_. color) 0 ?n\<rparr>"
    have o: "off < 1048576" using True less.prems(2) by simp
    note w = window_write [OF less.prems(1) o]
    have z: "off mod 65536 = 0" using less.prems(3) by simp
    have p: "painted (blit (vram s) off (\<lambda>_. color) 0 ?n) s ?s" by (rule w(2))
    have step: "svga_clear_loop color len off s = svga_clear_loop color len (off + 65536) ?s"
      using True w(1,3) z by (subst svga_clear_loop.simps) (simp add: Let_def VGA_FB_SIZE_def)
    have ih: "painted (\<lambda>i. if off + 65536 \<le> i \<and> i < len then color else vram ?s i) ?s (svga_clear_loop color len (off + 65536) ?s)"
      by (rule less.hyps) (use True paintedD(2) [OF p] less.prems(2,3) in auto)
    show ?thesis
      unfolding step by (rule painted_cong [OF painted_trans [OF p ih]]) (use True in \<open>auto simp: blit_def\<close>)
  next
    case False
    then have "svga_clear_loop color len off s = s" by (simp add: svga_clear_loop.simps)
    moreover have "(\<lambda>i. if off \<le> i \<and> i < len then color else vram s i) = vram s" by (intro ext) (use False in auto)
    ultimately show ?thesis using painted_refl [OF less.prems(1)] by simp
  qed
qed

lemma rect_painted:
  assumes "banked s"
  shows "painted (\<lambda>i. if i < PIXELS \<and> x \<le> i mod 800 \<and> i mod 800 < x + w \<and> y \<le> i div 800 \<and> i div 800 < y + h
      then c else vram s i) s (svga_fill_rect (int x) (int y) w h c s)"
  using rectangle_painted [OF assms, of x w y h "\<lambda>_ _. c"] 
  by (simp add: svga_fill_rect_def svga_hline_def [abs_def])

section \<open>The invariant\<close>

text \<open>Where a pixel lies: the cell and the place in its glyph.\<close>

definition cell_row :: "nat \<Rightarrow> nat" where "cell_row i = i div 800 div 16"
definition cell_col :: "nat \<Rightarrow> nat" where "cell_col i = i mod 800 div 8"

definition shows_cell :: "console \<Rightarrow> nat \<Rightarrow> bool" where
  "shows_cell s i \<longleftrightarrow>
    vram s i = glyph_pixel (saved_font s) (cells s (cell_row i * 100 + cell_col i)) (i div 800 mod 16) (i mod 800 mod 8)"

definition under_cursor :: "console \<Rightarrow> nat \<Rightarrow> bool" where
  "under_cursor s i \<longleftrightarrow> cursor_drawn s \<and> cell_row i = cursor_row s \<and> cell_col i = cursor_col s \<and> 14 \<le> i div 800 mod 16"

definition screen_ok :: "console \<Rightarrow> bool" where
  "screen_ok s \<longleftrightarrow> banked s \<and> (\<forall>i < PIXELS. cell_row i < 37 \<longrightarrow> shows_cell s i \<or> under_cursor s i)"

definition clean :: "console \<Rightarrow> bool" where
  "clean s \<longleftrightarrow> banked s \<and> \<not> cursor_drawn s \<and> (\<forall>i < PIXELS. cell_row i < 37 \<longrightarrow> shows_cell s i)"

definition on_grid :: "console \<Rightarrow> bool" where
  "on_grid s \<longleftrightarrow> cursor_row s < 37 \<and> cursor_col s < 100"

text \<open>The font's blank is blank: what the fast paths for clearing rely on.\<close>

definition blank_font :: "mem \<Rightarrow> bool" where
  "blank_font font \<longleftrightarrow> (\<forall>line < 16. font (32 * 16 + line) = 0)"

definition console_ok :: "console \<Rightarrow> bool" where
  "console_ok s \<longleftrightarrow> screen_ok s \<and> on_grid s \<and> cursor_drawn s \<and> blank_font (saved_font s)"

lemma paint_console:
  assumes "painted V s s'"
  shows "cells s' = cells (s :: console)" "cursor_row s' = cursor_row s" "cursor_col s' = cursor_col s"
    "current_color s' = current_color s" "cursor_drawn s' = cursor_drawn s" "saved_font s' = saved_font s"
    "vram s' = V" "banked s'"
  using assms by (auto simp: painted_def banked_def)

lemma cell_col_less: "cell_col i < 100"
proof -
  have "i mod 800 < 800" by simp
  then show ?thesis unfolding cell_col_def by linarith
qed

lemma index_eq: "(c :: nat) < 100 \<Longrightarrow> d < 100 \<Longrightarrow> r * 100 + c = q * 100 + d \<longleftrightarrow> r = q \<and> c = d"
proof
  assume e: "r * 100 + c = q * 100 + d" and "c < 100" "d < 100"
  from arg_cong [OF e, of "\<lambda>n. n div 100"] this(2,3) have "r = q" by simp
  with e show "r = q \<and> c = d" by simp
qed simp

lemma render_console [simp]:
  assumes "banked s"
  shows "cells (render_cell r c x s) = cells s" "cursor_row (render_cell r c x s) = cursor_row s"
    "cursor_col (render_cell r c x s) = cursor_col s" "current_color (render_cell r c x s) = current_color s"
    "cursor_drawn (render_cell r c x s) = cursor_drawn s" "saved_font (render_cell r c x s) = saved_font s"
    "banked (render_cell r c x s)"
    "vram (render_cell r c x s) i = (if i < PIXELS \<and> cell_col i = c \<and> cell_row i = r
       then glyph_pixel (saved_font s) x (i div 800 mod 16) (i mod 800 mod 8) else vram s i)"
  using paint_console [OF render_painted [OF assms, of c r x]] by (simp_all add: cell_col_def cell_row_def)

lemma banked_fields [simp]:
  "banked (s\<lparr>cells := f\<rparr>) = banked s" "banked (s\<lparr>cursor_row := n\<rparr>) = banked s" "banked (s\<lparr>cursor_col := n\<rparr>) = banked s"
  "banked (s\<lparr>cursor_drawn := b\<rparr>) = banked s" "banked (s\<lparr>current_color := c\<rparr>) = banked s"
  by (simp_all add: banked_def)

lemma hide_cursor_clean:
  assumes "console_ok s"
  shows "clean (hide_cursor s)" "cells (hide_cursor s) = cells s" "cursor_row (hide_cursor s) = cursor_row s"
    "cursor_col (hide_cursor s) = cursor_col s" "current_color (hide_cursor s) = current_color s" "saved_font (hide_cursor s) = saved_font s"
  using assms by (auto simp: console_ok_def screen_ok_def clean_def hide_cursor_def shows_cell_def under_cursor_def VGA_WIDTH_def)

lemma blit_fields [simp]:
  assumes "banked s"
  shows "cursor_row (blit_cell r c x s) = cursor_row s" "cursor_col (blit_cell r c x s) = cursor_col s"
    "current_color (blit_cell r c x s) = current_color s" "cursor_drawn (blit_cell r c x s) = cursor_drawn s"
    "saved_font (blit_cell r c x s) = saved_font s" "banked (blit_cell r c x s)"
    "cells (blit_cell r c x s) = (cells s)(r * 100 + c := x)"
  using assms by (auto simp: blit_cell_def Let_def VGA_WIDTH_def)

lemma blit_shows:
  assumes "banked s" and "c < 100" and "i < PIXELS"
  shows "shows_cell s i \<Longrightarrow> shows_cell (blit_cell r c x s) i"
    and "cell_row i = r \<Longrightarrow> cell_col i = c \<Longrightarrow> cells s (r * 100 + c) \<noteq> x \<Longrightarrow> shows_cell (blit_cell r c x s) i"
    and "under_cursor (blit_cell r c x s) i = under_cursor s i"
  using assms index_eq [OF cell_col_less [of i] assms(2), of "cell_row i" r]
  by (auto simp: shows_cell_def blit_cell_def Let_def VGA_WIDTH_def under_cursor_def)

lemma blit_clean: "clean s \<Longrightarrow> c < 100 \<Longrightarrow> clean (blit_cell r c x s)"
  using blit_shows(1) [of s c] by (simp add: clean_def)

lemma blit_ok: "console_ok s \<Longrightarrow> c < 100 \<Longrightarrow> console_ok (blit_cell r c x s)"
  using blit_shows [of s c] by (auto simp: console_ok_def screen_ok_def on_grid_def)

lemma draw_cursor_ok:
  assumes "clean s" and "on_grid s" and "blank_font (saved_font s)"
  shows "console_ok (draw_cursor s)" "cells (draw_cursor s) = cells s" "cursor_row (draw_cursor s) = cursor_row s"
    "cursor_col (draw_cursor s) = cursor_col s" "current_color (draw_cursor s) = current_color s"
    "saved_font (draw_cursor s) = saved_font s"
proof -
  have b: "banked s" using assms(1) by (simp add: clean_def)
  define fg where "fg = (let cell = cells s (cursor_row s * VGA_WIDTH + cursor_col s); f = cell_fg cell in if f = cell_bg cell then 7 else f)"
  define t where "t = fold (\<lambda>line. fold (\<lambda>b. svga_putpixel (int (cursor_col s * 8 + b)) (int (cursor_row s * 16 + line)) fg) [0..<8]) [14..<16] s"
  have t: "t = fold (\<lambda>l. fold (\<lambda>b. svga_putpixel (int (cursor_col s * 8 + b)) (int (cursor_row s * 16 + 14 + l)) fg) [0..<8]) [0..<2] s"
  proof -
    have "[14..<16] = [14, 15 :: nat]" "[0..<2] = [0, 1 :: nat]" by (simp_all add: upt_rec)
    then show ?thesis unfolding t_def by (simp only: fold.simps comp_apply id_apply) (simp add: add.commute)
  qed
  note p = paint_console [OF rectangle_painted [OF b, of "cursor_col s * 8" 8 "cursor_row s * 16 + 14" 2 "\<lambda>_ _. fg"], folded t]
  have d: "draw_cursor s = t\<lparr>cursor_drawn := True\<rparr>"
    by (simp add: draw_cursor_def t_def fg_def Let_def VGA_GLYPH_W_def VGA_GLYPH_H_def)
  have x: "c * 8 \<le> m \<and> m < c * 8 + 8 \<longleftrightarrow> m div 8 = c" for c m :: nat by auto
  have y: "r * 16 + 14 \<le> m \<and> m < r * 16 + 14 + 2 \<longleftrightarrow> m div 16 = r \<and> 14 \<le> m mod 16" for r m :: nat
  proof
    assume a: "r * 16 + 14 \<le> m \<and> m < r * 16 + 14 + 2"
    then have "m div 16 = r" by auto
    with a show "m div 16 = r \<and> 14 \<le> m mod 16" using div_mult_mod_eq [of m 16] by linarith
  next
    assume "m div 16 = r \<and> 14 \<le> m mod 16"
    then show "r * 16 + 14 \<le> m \<and> m < r * 16 + 14 + 2" using div_mult_mod_eq [of m 16] mod_less_divisor [of 16 m] by linarith
  qed
  have "cursor_col s * 8 \<le> i mod 800 \<and> i mod 800 < cursor_col s * 8 + 8 \<and> cursor_row s * 16 + 14 \<le> i div 800 \<and>
      i div 800 < cursor_row s * 16 + 14 + 2 \<longleftrightarrow> cell_col i = cursor_col s \<and> cell_row i = cursor_row s \<and> 14 \<le> i div 800 mod 16" for i
    using x [of "cursor_col s" "i mod 800"] y [of "cursor_row s" "i div 800"] unfolding cell_col_def cell_row_def by blast
  then have "shows_cell (draw_cursor s) i \<or> under_cursor (draw_cursor s) i" if "i < PIXELS" "cell_row i < 37" for i
    using assms(1) that by (auto simp: d p shows_cell_def under_cursor_def clean_def)
  then show "console_ok (draw_cursor s)" "cells (draw_cursor s) = cells s" "cursor_row (draw_cursor s) = cursor_row s"
    "cursor_col (draw_cursor s) = cursor_col s" "current_color (draw_cursor s) = current_color s"
    "saved_font (draw_cursor s) = saved_font s"
    using assms p by (simp_all add: console_ok_def screen_ok_def on_grid_def d)
qed


section \<open>The operations\<close>

lemma clean_fields [simp]:
  "clean (s\<lparr>cursor_row := n\<rparr>) = clean s" "clean (s\<lparr>cursor_col := n\<rparr>) = clean s" "clean (s\<lparr>current_color := c\<rparr>) = clean s"
  by (simp_all add: clean_def shows_cell_def)

lemma cell_of_parts: "cell_of c color AND 0xFF = ucast c" "cell_attr (cell_of c color) = color"
proof -
  have m: "(0xFF :: cell) = mask 8" by (simp add: mask_eq_exp_minus_1)
  show "cell_of c color AND 0xFF = ucast c"
    unfolding cell_of_def m by (rule bit_word_eqI) (auto simp: bit_simps dest: bit_imp_le_length)
  show "cell_attr (cell_of c color) = color"
    unfolding cell_of_def cell_attr_def by (rule bit_word_eqI) (auto simp: bit_simps dest: bit_imp_le_length)
qed

lemma blank_glyph:
  "blank_font font \<Longrightarrow> line < 16 \<Longrightarrow> glyph_pixel font (cell_of 32 color) line b = drop_bit 4 color AND 0x0F"
  by (simp add: glyph_pixel_def cell_of_parts blank_font_def VGA_GLYPH_H_def cell_bg_def)

lemma scroll_clean:
  assumes "clean s" and "cursor_row s \<le> 37" and "cursor_col s < 100" and "blank_font (saved_font s)"
  shows "clean (vga_scroll s)" "on_grid (vga_scroll s)" "saved_font (vga_scroll s) = saved_font s"
proof -
  have "clean (vga_scroll s) \<and> on_grid (vga_scroll s) \<and> saved_font (vga_scroll s) = saved_font s"
  proof (cases "cursor_row s < 37")
    case True
    then show ?thesis using assms by (simp add: vga_scroll_def on_grid_def VGA_HEIGHT_def)
  next
    case False
    have b: "banked s" using assms(1) by (simp add: clean_def)
    define s1 where "s1 = svga_copy 0 12800 467200 s"
    define s2 where "s2 = s1\<lparr>cells := blit (cells s1) 0 (cells s1) 100 3600\<rparr>"
    define s3 where "s3 = s2\<lparr>cells := blit (cells s2) 3600 (\<lambda>_. make_cell 32 s2) 0 100\<rparr>"
    define bg where "bg = drop_bit 4 (current_color s) AND (0x0F :: byte)"
    define s4 where "s4 = svga_fill_rect 0 576 800 16 bg s3"
    have p1: "painted (blit (vram s) 0 (vram s) 12800 467200) s s1"
      unfolding s1_def svga_copy_def by (rule copy_painted [OF b]) simp_all
    note c1 = paint_console [OF p1]
    have b3: "banked s3" using c1(8) by (simp add: s3_def s2_def)
    have p4: "painted (\<lambda>i. if i < PIXELS \<and> 576 \<le> i div 800 \<and> i div 800 < 592 then bg else vram s3 i) s3 s4"
      using rect_painted [OF b3, of 0 800 576 16 bg] by (simp add: s4_def)
    note c4 = paint_console [OF p4]
    have e: "vga_scroll s = s4\<lparr>cursor_row := 36\<rparr>"
      using False c1 by (simp add: vga_scroll_def Let_def VGA_HEIGHT_def VGA_WIDTH_def SVGA_WIDTH_def SVGA_HEIGHT_def VGA_GLYPH_H_def
          s1_def [symmetric] s4_def s3_def s2_def bg_def make_cell_def) 
    have f3: "vram s3 = blit (vram s) 0 (vram s) 12800 467200" "saved_font s3 = saved_font s" "cursor_drawn s3 = cursor_drawn s"
      "cursor_col s3 = cursor_col s"
      using c1 by (simp_all add: s3_def s2_def)
    have "shows_cell (s4\<lparr>cursor_row := 36\<rparr>) i" if i: "i < PIXELS" "cell_row i < 37" for i
    proof (cases "cell_row i = 36")
      case True
      then have "576 \<le> i div 800 \<and> i div 800 < 592" unfolding cell_row_def by linarith
      moreover have "cells s3 (3600 + cell_col i) = cell_of 32 (current_color s)"
        using cell_col_less [of i] c1 by (simp add: s3_def s2_def blit_def make_cell_def)
      ultimately show ?thesis
        using i True assms(4) blank_glyph by (simp add: shows_cell_def bg_def c4 f3)
    next
      case False
      then have r: "cell_row i < 36" using i by simp
      then have "i div 800 < 576" unfolding cell_row_def by linarith
      then have small: "i < 467200" "i + 12800 < PIXELS" by (auto simp: PIXELS_def div_less_iff_less_mult)
      have d: "(i + 12800) div 800 = i div 800 + 16" "(i + 12800) mod 800 = i mod 800"
        using div_mult_self1 [of 800 i 16] mod_mult_self1 [of i 16 800] by simp_all
      have cr: "cell_row (i + 12800) = cell_row i + 1" "cell_col (i + 12800) = cell_col i" "(i + 12800) div 800 mod 16 = i div 800 mod 16"
        unfolding cell_row_def cell_col_def d by simp_all
      have "shows_cell s (i + 12800)" using assms(1) small r cr by (simp add: clean_def)
      moreover have "cells s3 (cell_row i * 100 + cell_col i) = cells s (cell_row i * 100 + cell_col i + 100)"
        using cell_col_less [of i] r c1 by (simp add: s3_def s2_def blit_def add.commute)
      moreover have "vram s4 i = vram s (i + 12800)"
        using small \<open>i div 800 < 576\<close> by (simp add: c4 f3 blit_def add.commute)
      ultimately show ?thesis
        using cr d by (simp add: shows_cell_def c4 f3 algebra_simps)
    qed
    then show ?thesis
      using assms unfolding e by (simp add: clean_def on_grid_def c4 f3)
  qed
  then show "clean (vga_scroll s)" "on_grid (vga_scroll s)" "saved_font (vga_scroll s) = saved_font s" by simp_all
qed

text \<open>What an operation works on once it has hidden the cursor, and what it draws the cursor on.\<close>

definition drawable :: "console \<Rightarrow> bool" where
  "drawable s \<longleftrightarrow> clean s \<and> blank_font (saved_font s)"

lemma hidden: "console_ok s \<Longrightarrow> drawable (hide_cursor s) \<and> on_grid (hide_cursor s)"
  using hide_cursor_clean [of s] by (simp add: drawable_def on_grid_def console_ok_def)

lemma drawable_keep:
  "drawable s \<Longrightarrow> drawable (s\<lparr>cursor_row := n\<rparr>)" "drawable s \<Longrightarrow> drawable (s\<lparr>cursor_col := n\<rparr>)"
  "drawable s \<Longrightarrow> c < 100 \<Longrightarrow> drawable (blit_cell r c x s)"
  using blit_clean [of s c r x] by (simp_all add: drawable_def, simp add: clean_def)

lemma drawn: "drawable s \<Longrightarrow> on_grid s \<Longrightarrow> console_ok (draw_cursor s)"
  by (simp add: drawable_def draw_cursor_ok(1))

text \<open>The cursor after a character: in the grid, or one line below it.\<close>

definition below :: "console \<Rightarrow> bool" where
  "below s \<longleftrightarrow> drawable s \<and> cursor_row s \<le> 37 \<and> cursor_col s < 100"

lemma finish_char: "below s \<Longrightarrow> console_ok (draw_cursor (vga_scroll s))"
  using scroll_clean [of s] by (intro drawn) (simp_all add: below_def drawable_def)

lemma wrapped:
  "drawable s \<Longrightarrow> cursor_row s < 37 \<Longrightarrow> below (if cursor_col s \<ge> VGA_WIDTH then newline s else s)"
  by (simp add: below_def newline_def drawable_keep VGA_WIDTH_def)

lemma not_wrapped: "below s \<Longrightarrow> below (if cursor_col s \<ge> VGA_WIDTH then newline s else s)"
  by (simp add: below_def VGA_WIDTH_def)

lemma vga_putchar_ok:
  assumes "console_ok s"
  shows "console_ok (vga_putchar c s)"
proof -
  let ?s = "hide_cursor s"
  have d: "drawable ?s" and g: "cursor_row ?s < 37" "cursor_col ?s < 100" using hidden [OF assms] by (simp_all add: on_grid_def)
  have b: "banked ?s" using d by (simp add: drawable_def clean_def)
  let ?nl = "\<lambda>s. if cursor_col s \<ge> VGA_WIDTH then newline s else s"
  consider "c = 10" | "c = 13" | "c = 8" | "c = 9" | "c \<noteq> 10" "c \<noteq> 13" "c \<noteq> 8" "c \<noteq> 9" by blast
  then show ?thesis
  proof cases
    case 1
    have "below (newline ?s)" using d g by (simp add: below_def newline_def drawable_keep)
    from finish_char [OF not_wrapped [OF this]] show ?thesis by (simp add: vga_putchar_def Let_def 1)
  next
    case 2
    from finish_char [OF wrapped [OF drawable_keep(2) [OF d, of 0]]] g show ?thesis by (simp add: vga_putchar_def Let_def 2)
  next
    case 3
    let ?b = "if cursor_col ?s > 0 then ?s\<lparr>cursor_col := cursor_col ?s - 1\<rparr>
      else if cursor_row ?s > 0 then ?s\<lparr>cursor_row := cursor_row ?s - 1, cursor_col := VGA_WIDTH - 1\<rparr> else ?s"
    have db: "drawable ?b" using d by (simp add: drawable_keep)
    have gb: "cursor_row ?b < 37" "cursor_col ?b < 100" using g by (auto simp: VGA_WIDTH_def)
    have bb: "banked ?b" using db by (simp add: drawable_def clean_def)
    have "below (?nl (blit_cell (cursor_row ?b) (cursor_col ?b) (make_cell 32 ?b) ?b))"
      by (rule wrapped) (use db gb bb in \<open>simp_all only: drawable_keep blit_fields\<close>)
    moreover have "(8 :: byte) \<noteq> 10" "(8 :: byte) \<noteq> 13" by simp_all
    ultimately show ?thesis using finish_char unfolding vga_putchar_def Let_def 3 by (simp only: if_True if_False simp_thms)
  next
    case 4
    from finish_char [OF wrapped [OF drawable_keep(2) [OF d, of "(cursor_col ?s + 8) div 8 * 8"]]] g
    show ?thesis by (simp add: vga_putchar_def Let_def 4)
  next
    case 5
    let ?b = "(blit_cell (cursor_row ?s) (cursor_col ?s) (make_cell c ?s) ?s)\<lparr>cursor_col := cursor_col ?s + 1\<rparr>"
    have "below (?nl ?b)" by (rule wrapped) (use d g b in \<open>simp_all add: drawable_keep\<close>)
    from finish_char [OF this] show ?thesis using 5 unfolding vga_putchar_def Let_def by (simp only: if_False)
  qed
qed

lemma vga_write_ok: "console_ok s \<Longrightarrow> console_ok (fold vga_putchar str s)"
  by (induction str arbitrary: s) (simp_all add: vga_putchar_ok)

lemma vga_set_cursor_ok:
  assumes "console_ok s"
  shows "console_ok (vga_set_cursor row col s)"
  using hidden [OF assms] unfolding vga_set_cursor_def Let_def
  by (intro drawn) (simp_all add: drawable_keep on_grid_def VGA_HEIGHT_def VGA_WIDTH_def)

lemma vga_putchar_at_ok: "console_ok s \<Longrightarrow> console_ok (vga_putchar_at row col c fg bg s)"
  by (simp add: vga_putchar_at_def blit_ok VGA_WIDTH_def)

lemma vga_set_color_ok: "console_ok s \<Longrightarrow> console_ok (vga_set_color fg bg s)"
  by (auto simp: vga_set_color_def console_ok_def screen_ok_def on_grid_def shows_cell_def under_cursor_def)

lemma vga_clear_ok:
  assumes "banked s" and "blank_font (saved_font s)"
  shows "console_ok (vga_clear s)" "cursor_col (vga_clear s) = 0" "cursor_row (vga_clear s) = 0"
proof -
  define bg where "bg = drop_bit 4 (current_color s) AND (0x0F :: byte)"
  define s1 where "s1 = svga_clear bg s"
  have p: "painted (\<lambda>i. if 0 \<le> i \<and> i < 480000 then bg else vram s i) s s1"
    unfolding s1_def svga_clear_def SVGA_WIDTH_def SVGA_HEIGHT_def using clear_painted [OF assms(1), of 480000 0 bg] by simp
  note c = paint_console [OF p]
  let ?s = "s1\<lparr>cells := blit (cells s) 0 (\<lambda>_. cell_of 32 (current_color s)) 0 3700, cursor_row := 0, cursor_col := 0, cursor_drawn := False\<rparr>"
  have e: "vga_clear s = draw_cursor ?s"
    using c by (simp add: vga_clear_def Let_def make_cell_def VGA_HEIGHT_def VGA_WIDTH_def bg_def [symmetric] s1_def [symmetric])
  have "shows_cell ?s i" if "i < PIXELS" "cell_row i < 37" for i
  proof -
    have "cell_row i * 100 + cell_col i < 3700" using that(2) cell_col_less [of i] by linarith
    then show ?thesis
      using that(1) blank_glyph [OF assms(2)] by (simp add: shows_cell_def c blit_def bg_def PIXELS_def)
  qed
  then have "drawable ?s" "on_grid ?s" using assms(2) c by (simp_all add: drawable_def clean_def on_grid_def)
  then show "console_ok (vga_clear s)" "cursor_col (vga_clear s) = 0" "cursor_row (vga_clear s) = 0"
    using draw_cursor_ok [of ?s] unfolding e drawable_def by simp_all
qed

lemma reset_palette_fields: "\<exists>p. vga_reset_palette s = s\<lparr>palette := p\<rparr>"
proof -
  have "\<exists>p. fold (\<lambda>i. case console_palette ! i of (r, g, b) \<Rightarrow> svga_set_palette i r g b) is s = s\<lparr>palette := p\<rparr>" for "is" :: "nat list"
  proof (induction "is" arbitrary: s)
    case Nil
    show ?case by (intro exI [of _ "palette s"]) simp
  next
    case (Cons i "is")
    obtain r g b where "console_palette ! i = (r, g, b)" by (metis prod_cases3)
    then show ?case using Cons [of "svga_set_palette i r g b s"] by (auto simp: svga_set_palette_def)
  qed
  then show ?thesis unfolding vga_reset_palette_def .
qed

lemma vga_init_ok:
  assumes "blank_font font"
  shows "console_ok (vga_init font s)" "cursor_col (vga_init font s) = 0"
proof -
  let ?s = "svga_set_bank 0 (s\<lparr>saved_font := font, current_bank := 0xFF\<rparr>)"
  obtain p where p: "vga_reset_palette ?s = ?s\<lparr>palette := p\<rparr>" using reset_palette_fields by blast
  have "banked (?s\<lparr>palette := p, current_color := vga_color 10 0, cursor_drawn := False\<rparr>)"
    by (simp add: banked_def svga_set_bank_def)
  from vga_clear_ok(1,2) [OF this]
  show "console_ok (vga_init font s)" "cursor_col (vga_init font s) = 0"
    using assms unfolding vga_init_def Let_def p by (simp_all add: svga_set_bank_def)
qed

section \<open>The console\<close>

datatype console_op =
    Putchar byte
  | Write_dec nat
  | Set_cursor nat nat
  | Putchar_at nat nat byte byte byte
  | Set_color byte byte
  | Clear

fun console_do :: "console_op \<Rightarrow> console \<Rightarrow> console" where
  "console_do (Putchar c) = vga_putchar c"
| "console_do (Write_dec n) = vga_write_dec n"
| "console_do (Set_cursor row col) = vga_set_cursor row col"
| "console_do (Putchar_at row col c fg bg) = vga_putchar_at row col c fg bg"
| "console_do (Set_color fg bg) = vga_set_color fg bg"
| "console_do Clear = vga_clear"

lemma console_ok_clear: "console_ok s \<Longrightarrow> console_ok (vga_clear s)"
  by (rule vga_clear_ok(1)) (simp_all add: console_ok_def screen_ok_def)

lemma console_do_ok: "console_ok s \<Longrightarrow> console_ok (console_do a s)"
  by (cases a) (simp_all add: vga_putchar_ok vga_write_ok vga_write_dec_def vga_set_cursor_ok vga_putchar_at_ok
      vga_set_color_ok console_ok_clear)

lemma console_run_ok: "console_ok s \<Longrightarrow> console_ok (fold console_do ops s)"
  by (induction ops arbitrary: s) (simp_all add: console_do_ok)

text \<open>A character that is not a control character is put into the cell of the cursor, which moves on.\<close>

lemma putchar_plain:
  assumes "console_ok s" and "c \<notin> {8, 9, 10, 13}" and "cursor_col s + 1 < 100"
  shows "cells (vga_putchar c s) = (cells s)(cursor_row s * 100 + cursor_col s := cell_of c (current_color s))"
    "cursor_row (vga_putchar c s) = cursor_row s" "cursor_col (vga_putchar c s) = cursor_col s + 1"
    "current_color (vga_putchar c s) = current_color s" "saved_font (vga_putchar c s) = saved_font s"
proof -
  let ?s = "hide_cursor s"
  note h = hide_cursor_clean [OF assms(1)]
  have b: "banked ?s" using h(1) by (simp add: clean_def)
  let ?b = "(blit_cell (cursor_row ?s) (cursor_col ?s) (make_cell c ?s) ?s)\<lparr>cursor_col := cursor_col ?s + 1\<rparr>"
  have r: "cursor_row s < 37" using assms(1) by (simp add: console_ok_def on_grid_def)
  have e: "vga_putchar c s = draw_cursor ?b"
    using assms(2,3) b r h by (simp add: vga_putchar_def Let_def vga_scroll_def VGA_WIDTH_def VGA_HEIGHT_def)
  have d: "clean ?b" "on_grid ?b" "blank_font (saved_font ?b)"
    using hidden [OF assms(1)] assms(3) b h by (simp_all add: blit_clean drawable_def on_grid_def)
  show "cells (vga_putchar c s) = (cells s)(cursor_row s * 100 + cursor_col s := cell_of c (current_color s))"
    "cursor_row (vga_putchar c s) = cursor_row s" "cursor_col (vga_putchar c s) = cursor_col s + 1"
    "current_color (vga_putchar c s) = current_color s" "saved_font (vga_putchar c s) = saved_font s"
    using draw_cursor_ok [OF d] b h unfolding e by (simp_all add: make_cell_def)
qed

definition plain :: "byte list \<Rightarrow> bool" where
  "plain str \<longleftrightarrow> (\<forall>c \<in> set str. c \<notin> {8, 9, 10, 13})"

lemma write_plain:
  "console_ok s \<Longrightarrow> plain str \<Longrightarrow> cursor_col s + length str < 100 \<Longrightarrow>
   console_ok (vga_write str s) \<and> cursor_row (vga_write str s) = cursor_row s \<and>
   cursor_col (vga_write str s) = cursor_col s + length str \<and> saved_font (vga_write str s) = saved_font s \<and>
   cells (vga_write str s) = (\<lambda>j. if cursor_row s * 100 + cursor_col s \<le> j \<and> j < cursor_row s * 100 + cursor_col s + length str
      then cell_of (str ! (j - (cursor_row s * 100 + cursor_col s))) (current_color s) else cells s j)"
proof (induction str arbitrary: s)
  case Nil
  then show ?case by (auto simp: vga_write_def fun_eq_iff)
next
  case (Cons c str)
  let ?t = "vga_putchar c s"
  have p: "c \<notin> {8, 9, 10, 13}" "plain str" "cursor_col s + 1 < 100 \<or> str = [] \<and> cursor_col s + 1 < 100"
    using Cons.prems by (auto simp: plain_def)
  then have l: "cursor_col s + 1 < 100" by blast
  note q = putchar_plain [OF Cons.prems(1) p(1) l]
  have ih: "console_ok (vga_write str ?t) \<and> cursor_row (vga_write str ?t) = cursor_row ?t \<and>
   cursor_col (vga_write str ?t) = cursor_col ?t + length str \<and> saved_font (vga_write str ?t) = saved_font ?t \<and>
   cells (vga_write str ?t) = (\<lambda>j. if cursor_row ?t * 100 + cursor_col ?t \<le> j \<and> j < cursor_row ?t * 100 + cursor_col ?t + length str
      then cell_of (str ! (j - (cursor_row ?t * 100 + cursor_col ?t))) (current_color ?t) else cells ?t j)"
    by (rule Cons.IH) (use vga_putchar_ok [OF Cons.prems(1)] p q Cons.prems(3) in simp_all)
  have w: "vga_write (c # str) s = vga_write str ?t" by (simp add: vga_write_def)
  show ?case unfolding w using ih unfolding q by (auto simp: nth_Cons' fun_eq_iff)
qed

lemma cell_pixel:
  assumes "console_ok s" and "row < 37" and "col < 100" and "line < 14" and "b < 8"
  shows "vram s ((row * 16 + line) * 800 + col * 8 + b) = glyph_pixel (saved_font s) (cells s (row * 100 + col)) line b"
proof -
  let ?i = "(row * 16 + line) * 800 + (col * 8 + b)"
  have c: "col * 8 + b < 800" using assms(3,5) by simp
  have d: "?i div 800 = row * 16 + line" "?i mod 800 = col * 8 + b" 
    using c div_mult_self3 [of 800 "row * 16 + line" "col * 8 + b"] mod_mult_self3 [of "row * 16 + line" 800 "col * 8 + b"] by simp_all
  have i: "?i < PIXELS"
  proof -
    have "row * 16 + line < 600" using assms(2,4) by simp
    then show ?thesis unfolding PIXELS_def using d(1) by (simp add: div_less_iff_less_mult [symmetric])
  qed
  have k: "cell_row ?i = row" "cell_col ?i = col" "?i div 800 mod 16 = line" "?i mod 800 mod 8 = b"
    unfolding cell_row_def cell_col_def d using assms(4,5) by simp_all
  have "shows_cell s ?i" using assms i k by (auto simp: console_ok_def screen_ok_def under_cursor_def)
  then show ?thesis unfolding shows_cell_def k by (simp only: add.assoc)
qed

text \<open>
  C39: Whatever the programs print, and wherever they put the cursor, the framebuffer shows the grid of
  the console, pixel by pixel through the bank window, apart from the two lines of the cursor, and the
  cursor stays in the grid.
\<close>

theorem console_shows_cells:
  assumes "blank_font font"
  shows "console_ok (fold console_do ops (vga_init font s))"
  by (rule console_run_ok [OF vga_init_ok(1) [OF assms]])

theorem console_shows_cells_witness:
  "\<forall>s. console_ok (fold console_do [Set_color 14 1, Putchar 72, Putchar 10, Write_dec 42, Set_cursor 36 99, Putchar 33, Clear]
     (vga_init (\<lambda>i. if i div 16 = 32 then 0 else word_of_nat i) s))"
  by (intro allI console_shows_cells) (auto simp: blank_font_def)

text \<open>
  C40: Text that is written and fits on the line appears on the screen at the cursor, in the current
  colour: the pixels of the upper fourteen lines of its cells are those of the glyphs of the font.
\<close>

theorem written_text_is_drawn:
  assumes "console_ok s" and "plain str" and "cursor_col s + length str < 100"
    and "k < length str" and "line < 14" and "b < 8"
  shows "vram (vga_write str s) ((cursor_row s * 16 + line) * 800 + (cursor_col s + k) * 8 + b) =
    glyph_pixel (saved_font s) (cell_of (str ! k) (current_color s)) line b"
proof -
  note w = write_plain [OF assms(1-3)]
  have r: "cursor_row s < 37" using assms(1) by (simp add: console_ok_def on_grid_def)
  show ?thesis
    using cell_pixel [of "vga_write str s" "cursor_row s" "cursor_col s + k" line b] w r assms(3-6)
    by (simp add: add.assoc)
qed

theorem written_text_is_drawn_witness:
  "\<forall>t. let font = (\<lambda>i. if i div 16 = 32 then 0 else 1); s = vga_init font t in
   vram (vga_write [72, 105] s) ((cursor_row s * 16 + 3) * 800 + (cursor_col s + 1) * 8 + 7) =
     glyph_pixel (saved_font s) (cell_of 105 (current_color s)) 3 7"
proof -
  have f: "blank_font (\<lambda>i. if i div 16 = 32 then 0 else 1)" by (auto simp: blank_font_def)
  show ?thesis
  proof
    fix t
    show "let font = (\<lambda>i. if i div 16 = 32 then 0 else 1); s = vga_init font t in
      vram (vga_write [72, 105] s) ((cursor_row s * 16 + 3) * 800 + (cursor_col s + 1) * 8 + 7) =
        glyph_pixel (saved_font s) (cell_of 105 (current_color s)) 3 7"
      unfolding Let_def
      using written_text_is_drawn [OF vga_init_ok(1) [OF f], of "[72, 105]" t 1 3 7] vga_init_ok(2) [OF f, of t] by (simp add: plain_def)
  qed
qed

end
