(* ===== verification/GapBuffer.thy ===== *)
theory GapBuffer
  imports Prelude
begin

text \<open>
  The text buffer of the editor (\<open>apps/editor/buffer.c\<close>): a gap buffer of 32 KB, the circular
  undo/redo stack and the line index. The file's static variables are the record \<open>gbuf\<close>; every
  function of the file is one definition on it. The abstract editor at the end of the theory keeps
  the text as a list with two stacks of log entries, and \<open>text_of\<close>, \<open>undo_log\<close>,
  \<open>redo_log\<close> map a buffer to it.
\<close>

section \<open>State\<close>

definition BUFFER_SIZE :: nat where
  "BUFFER_SIZE = 32768"

definition UNDO_STACK_SIZE :: nat where
  "UNDO_STACK_SIZE = 2048"

datatype undo_type = UNDO_INSERT | UNDO_DELETE | UNDO_BOUNDARY

record undo_entry =
  ue_type :: undo_type
  ue_pos :: nat
  ue_ch :: byte

record gbuf =
  buf :: mem
  gap_start :: nat
  gap_end :: nat
  undo_stack :: "nat \<Rightarrow> undo_entry"
  undo_top :: nat
  undo_count :: nat
  redo_count :: nat
  undo_replaying :: bool

text \<open>The statics before any call: all zero.\<close>

definition gbuf0 :: gbuf where
  "gbuf0 = \<lparr>buf = (\<lambda>_. 0), gap_start = 0, gap_end = 0,
            undo_stack = (\<lambda>_. \<lparr>ue_type = UNDO_INSERT, ue_pos = 0, ue_ch = 0\<rparr>),
            undo_top = 0, undo_count = 0, redo_count = 0, undo_replaying = False\<rparr>"

text \<open>Newline, the byte the line index counts.\<close>

abbreviation NL :: byte where
  "NL \<equiv> 10"

section \<open>Operations\<close>

definition undo_push :: "undo_type \<Rightarrow> nat \<Rightarrow> byte \<Rightarrow> gbuf \<Rightarrow> gbuf" where
  "undo_push ty p c b =
     (if undo_replaying b then b
      else b\<lparr>undo_stack := (undo_stack b)(undo_top b := \<lparr>ue_type = ty, ue_pos = p, ue_ch = c\<rparr>),
             undo_top := (undo_top b + 1) mod UNDO_STACK_SIZE,
             undo_count := (if undo_count b < UNDO_STACK_SIZE then undo_count b + 1 else undo_count b),
             redo_count := 0\<rparr>)"

definition buf_init :: "gbuf \<Rightarrow> gbuf" where
  "buf_init b = b\<lparr>gap_start := 0, gap_end := BUFFER_SIZE, undo_top := 0, undo_count := 0,
                  redo_count := 0, undo_replaying := False\<rparr>"

definition buf_load :: "mem \<Rightarrow> nat \<Rightarrow> gbuf \<Rightarrow> gbuf" where
  "buf_load txt len b =
     (let b = buf_init b;
          len = (if len > BUFFER_SIZE then BUFFER_SIZE else len)
      in b\<lparr>buf := blit (buf b) 0 txt 0 len, gap_start := len\<rparr>)"

definition buf_length :: "gbuf \<Rightarrow> nat" where
  "buf_length b = BUFFER_SIZE - (gap_end b - gap_start b)"

definition buf_insert :: "byte \<Rightarrow> gbuf \<Rightarrow> gbuf" where
  "buf_insert c b =
     (if gap_start b \<ge> gap_end b then b
      else let b = undo_push UNDO_INSERT (gap_start b) c b
           in b\<lparr>buf := (buf b)(gap_start b := c), gap_start := gap_start b + 1\<rparr>)"

definition buf_delete_back :: "gbuf \<Rightarrow> gbuf" where
  "buf_delete_back b =
     (if gap_start b > 0
      then let b = undo_push UNDO_DELETE (gap_start b - 1) (buf b (gap_start b - 1)) b
           in b\<lparr>gap_start := gap_start b - 1\<rparr>
      else b)"

definition buf_delete_fwd :: "gbuf \<Rightarrow> gbuf" where
  "buf_delete_fwd b =
     (if gap_end b < BUFFER_SIZE
      then let b = undo_push UNDO_DELETE (gap_start b) (buf b (gap_end b)) b
           in b\<lparr>gap_end := gap_end b + 1\<rparr>
      else b)"

definition buf_move_left :: "gbuf \<Rightarrow> gbuf" where
  "buf_move_left b =
     (if gap_start b > 0
      then b\<lparr>gap_end := gap_end b - 1,
             buf := (buf b)(gap_end b - 1 := buf b (gap_start b - 1)),
             gap_start := gap_start b - 1\<rparr>
      else b)"

definition buf_move_right :: "gbuf \<Rightarrow> gbuf" where
  "buf_move_right b =
     (if gap_end b < BUFFER_SIZE
      then b\<lparr>buf := (buf b)(gap_start b := buf b (gap_end b)),
             gap_start := gap_start b + 1,
             gap_end := gap_end b + 1\<rparr>
      else b)"

definition buf_cursor_pos :: "gbuf \<Rightarrow> nat" where
  "buf_cursor_pos b = gap_start b"

text \<open>The two loops of \<open>buf_move_to\<close>; \<open>cur\<close> is its local variable.\<close>

function move_left_while :: "nat \<Rightarrow> nat \<Rightarrow> gbuf \<Rightarrow> nat \<times> gbuf" where
  "move_left_while pos cur b =
     (if cur > pos \<and> gap_start b > 0 then move_left_while pos (cur - 1) (buf_move_left b)
      else (cur, b))"
  by pat_completeness auto
termination
  by (relation "measure (\<lambda>(pos, cur, b). cur)") auto

function move_right_while :: "nat \<Rightarrow> nat \<Rightarrow> gbuf \<Rightarrow> nat \<times> gbuf" where
  "move_right_while pos cur b =
     (if cur < pos \<and> gap_end b < BUFFER_SIZE then move_right_while pos (cur + 1) (buf_move_right b)
      else (cur, b))"
  by pat_completeness auto
termination
  by (relation "measure (\<lambda>(pos, cur, b). pos - cur)") auto

declare move_left_while.simps [simp del] move_right_while.simps [simp del]

definition buf_move_to :: "nat \<Rightarrow> gbuf \<Rightarrow> gbuf" where
  "buf_move_to pos b =
     (let (cur, b) = move_left_while pos (buf_cursor_pos b) b
      in snd (move_right_while pos cur b))"

definition buf_char_at :: "gbuf \<Rightarrow> nat \<Rightarrow> byte" where
  "buf_char_at b pos =
     (if pos \<ge> buf_length b then 0
      else if pos < gap_start b then buf b pos
      else buf b (gap_end b + (pos - gap_start b)))"

text \<open>\<open>buf_get_content\<close> returns the number of bytes copied and the output array.\<close>

definition buf_get_content :: "gbuf \<Rightarrow> mem \<Rightarrow> nat \<Rightarrow> nat \<times> mem" where
  "buf_get_content b out mx =
     (let before = gap_start b;
          after = BUFFER_SIZE - gap_end b;
          total = before + after;
          total = (if total > mx then mx else total);
          (copied, out) = (if before > 0
                           then let n = (if before < mx then before else mx)
                                in (n, blit out 0 (buf b) 0 n)
                           else (0, out))
      in if copied < total \<and> after > 0
         then let n = total - copied
              in (copied + n, blit out copied (buf b) (gap_end b) n)
         else (copied, out))"

section \<open>Undo and redo\<close>

definition undo_prev :: "gbuf \<Rightarrow> nat" where
  "undo_prev b = (undo_top b + UNDO_STACK_SIZE - 1) mod UNDO_STACK_SIZE"

definition buf_undo_boundary :: "gbuf \<Rightarrow> gbuf" where
  "buf_undo_boundary b =
     (if undo_count b = 0 then b
      else if ue_type (undo_stack b (undo_prev b)) = UNDO_BOUNDARY then b
      else undo_push UNDO_BOUNDARY 0 0 b)"

text \<open>\<open>undo_top = idx; undo_count--; redo_count++\<close>, and the opposite for redo.\<close>

definition undo_pop :: "gbuf \<Rightarrow> gbuf" where
  "undo_pop b = b\<lparr>undo_top := undo_prev b, undo_count := undo_count b - 1,
                  redo_count := redo_count b + 1\<rparr>"

definition redo_pop :: "gbuf \<Rightarrow> gbuf" where
  "redo_pop b = b\<lparr>undo_top := (undo_top b + 1) mod UNDO_STACK_SIZE,
                  redo_count := redo_count b - 1, undo_count := undo_count b + 1\<rparr>"

definition undo_entry_replay :: "undo_entry \<Rightarrow> gbuf \<Rightarrow> gbuf" where
  "undo_entry_replay e b =
     (case ue_type e of
        UNDO_INSERT \<Rightarrow> buf_delete_fwd (buf_move_to (ue_pos e) b)
      | UNDO_DELETE \<Rightarrow> buf_insert (ue_ch e) (buf_move_to (ue_pos e) b)
      | UNDO_BOUNDARY \<Rightarrow> b)"

definition redo_entry_replay :: "undo_entry \<Rightarrow> gbuf \<Rightarrow> gbuf" where
  "redo_entry_replay e b =
     (case ue_type e of
        UNDO_INSERT \<Rightarrow> buf_insert (ue_ch e) (buf_move_to (ue_pos e) b)
      | UNDO_DELETE \<Rightarrow> buf_delete_fwd (buf_move_to (ue_pos e) b)
      | UNDO_BOUNDARY \<Rightarrow> b)"

text \<open>
  The replay loops. Each turn takes one entry off the stack and, with \<open>undo_replaying\<close> set,
  pushes none, so \<open>undo_count\<close> (\<open>redo_count\<close>) turns are enough: the first argument is that
  bound, and \<open>undo_while_exit\<close>, \<open>redo_while_exit\<close> show that the loop has left for its
  own reason when it ends.
\<close>

fun undo_while :: "nat \<Rightarrow> gbuf \<Rightarrow> gbuf" where
  "undo_while 0 b = b"
| "undo_while (Suc n) b =
     (if undo_count b > 0
      then let e = undo_stack b (undo_prev b)
           in if ue_type e = UNDO_BOUNDARY then b
              else undo_while n (undo_entry_replay e (undo_pop b))
      else b)"

fun redo_while :: "nat \<Rightarrow> gbuf \<Rightarrow> gbuf" where
  "redo_while 0 b = b"
| "redo_while (Suc n) b =
     (if redo_count b > 0
      then let e = undo_stack b (undo_top b)
           in if ue_type e = UNDO_BOUNDARY then b
              else redo_while n (redo_entry_replay e (redo_pop b))
      else b)"

definition buf_undo :: "gbuf \<Rightarrow> bool \<times> gbuf" where
  "buf_undo b =
     (if undo_count b = 0 then (False, b)
      else let b = (if ue_type (undo_stack b (undo_prev b)) = UNDO_BOUNDARY then undo_pop b else b)
           in if undo_count b = 0 then (False, b)
              else let b = undo_while (undo_count b) (b\<lparr>undo_replaying := True\<rparr>)
                   in (True, b\<lparr>undo_replaying := False\<rparr>))"

definition buf_redo :: "gbuf \<Rightarrow> bool \<times> gbuf" where
  "buf_redo b =
     (if redo_count b = 0 then (False, b)
      else let b = (if ue_type (undo_stack b (undo_top b)) = UNDO_BOUNDARY then redo_pop b else b)
           in if redo_count b = 0 then (False, b)
              else let b = redo_while (redo_count b) (b\<lparr>undo_replaying := True\<rparr>)
                   in (True, b\<lparr>undo_replaying := False\<rparr>))"

section \<open>Line index\<close>

definition buf_line_count :: "gbuf \<Rightarrow> nat" where
  "buf_line_count b =
     foldl (\<lambda>lines i. if buf_char_at b i = NL then lines + 1 else lines) 1 [0..<buf_length b]"

definition buf_cursor_line :: "gbuf \<Rightarrow> nat" where
  "buf_cursor_line b =
     foldl (\<lambda>line i. if buf_char_at b i = NL then line + 1 else line) 0 [0..<buf_cursor_pos b]"

fun cursor_col_while :: "gbuf \<Rightarrow> nat \<Rightarrow> nat \<Rightarrow> nat" where
  "cursor_col_while b 0 col = col"
| "cursor_col_while b (Suc i) col =
     (if buf_char_at b i = NL then col else cursor_col_while b i (col + 1))"

definition buf_cursor_col :: "gbuf \<Rightarrow> nat" where
  "buf_cursor_col b = cursor_col_while b (buf_cursor_pos b) 0"

function line_start_while :: "gbuf \<Rightarrow> nat \<Rightarrow> nat \<Rightarrow> nat \<Rightarrow> nat \<Rightarrow> nat" where
  "line_start_while b line len cur_line i =
     (if i < len then
        if buf_char_at b i = NL then
          if cur_line + 1 = line then i + 1
          else line_start_while b line len (cur_line + 1) (i + 1)
        else line_start_while b line len cur_line (i + 1)
      else len)"
  by pat_completeness auto
termination
  by (relation "measure (\<lambda>(b, line, len, cur_line, i). len - i)") auto

declare line_start_while.simps [simp del]

definition buf_line_start :: "gbuf \<Rightarrow> nat \<Rightarrow> nat" where
  "buf_line_start b line = (if line = 0 then 0 else line_start_while b line (buf_length b) 0 0)"

function line_end_while :: "gbuf \<Rightarrow> nat \<Rightarrow> nat \<Rightarrow> nat" where
  "line_end_while b len i =
     (if i < len \<and> buf_char_at b i \<noteq> NL then line_end_while b len (i + 1) else i)"
  by pat_completeness auto
termination
  by (relation "measure (\<lambda>(b, len, i). len - i)") auto

declare line_end_while.simps [simp del]

definition buf_line_length :: "gbuf \<Rightarrow> nat \<Rightarrow> nat" where
  "buf_line_length b line =
     (let start = buf_line_start b line in line_end_while b (buf_length b) start - start)"

section \<open>Abstraction: the text as a list\<close>

definition text_of :: "gbuf \<Rightarrow> byte list" where
  "text_of b = seg (buf b) 0 (gap_start b) @ seg (buf b) (gap_end b) (BUFFER_SIZE - gap_end b)"

definition gb_inv :: "gbuf \<Rightarrow> bool" where
  "gb_inv b \<longleftrightarrow> gap_start b \<le> gap_end b \<and> gap_end b \<le> BUFFER_SIZE \<and>
     undo_top b < UNDO_STACK_SIZE \<and> undo_count b + redo_count b \<le> UNDO_STACK_SIZE"

named_theorems gb_simps \<open>text, cursor and logs of a buffer after an operation\<close>

lemma UNDO_STACK_SIZE_pos [simp]: "0 < UNDO_STACK_SIZE"
  by (simp add: UNDO_STACK_SIZE_def)

lemma undo_push_frame [simp]:
  "buf (undo_push ty p c b) = buf b"
  "gap_start (undo_push ty p c b) = gap_start b"
  "gap_end (undo_push ty p c b) = gap_end b"
  "undo_replaying (undo_push ty p c b) = undo_replaying b"
  by (simp_all add: undo_push_def)

lemma text_of_cong:
  "buf a = buf b \<Longrightarrow> gap_start a = gap_start b \<Longrightarrow> gap_end a = gap_end b \<Longrightarrow> text_of a = text_of b"
  by (simp add: text_of_def)

lemma text_of_frame [simp]:
  "text_of (undo_push ty p c b) = text_of b"
  "text_of (undo_pop b) = text_of b"
  "text_of (redo_pop b) = text_of b"
  "text_of (b\<lparr>undo_replaying := r\<rparr>) = text_of b"
  by (simp_all add: text_of_def undo_pop_def redo_pop_def)

lemma undo_push_inv: "gb_inv b \<Longrightarrow> gb_inv (undo_push ty p c b)"
  by (auto simp: gb_inv_def undo_push_def)

lemma length_text_of:
  "gb_inv b \<Longrightarrow> length (text_of b) = BUFFER_SIZE - (gap_end b - gap_start b)"
  by (auto simp: text_of_def gb_inv_def)

lemma cursor_le_text: "gap_start b \<le> length (text_of b)"
  by (simp add: text_of_def)

lemma take_text_of: "k \<le> gap_start b \<Longrightarrow> take k (text_of b) = seg (buf b) 0 k"
  by (simp add: text_of_def)

lemma drop_text_of:
  "drop (gap_start b) (text_of b) = seg (buf b) (gap_end b) (BUFFER_SIZE - gap_end b)"
  by (simp add: text_of_def)

lemma gap_full_iff: "gb_inv b \<Longrightarrow> gap_start b \<ge> gap_end b \<longleftrightarrow> \<not> length (text_of b) < BUFFER_SIZE"
  by (auto simp: length_text_of gb_inv_def)

lemma at_end_iff: "gb_inv b \<Longrightarrow> gap_end b < BUFFER_SIZE \<longleftrightarrow> gap_start b < length (text_of b)"
  by (auto simp: text_of_def gb_inv_def)

subsection \<open>Reading\<close>

lemma buf_length_text: "gb_inv b \<Longrightarrow> buf_length b = length (text_of b)"
  by (simp add: buf_length_def length_text_of)

lemma buf_char_at_text:
  "gb_inv b \<Longrightarrow> pos < length (text_of b) \<Longrightarrow> buf_char_at b pos = text_of b ! pos"
  by (auto simp: buf_char_at_def buf_length_text) (auto simp: text_of_def nth_append)

lemma buf_char_at_end:
  "gb_inv b \<Longrightarrow> length (text_of b) \<le> pos \<Longrightarrow> buf_char_at b pos = 0"
  by (simp add: buf_char_at_def buf_length_text)

lemma buf_get_content_eq:
  assumes "gb_inv b"
  shows "fst (buf_get_content b out mx) = min mx (length (text_of b)) \<and>
         seg (snd (buf_get_content b out mx)) 0 (min mx (length (text_of b))) = take mx (text_of b)"
proof -
  let ?a = "gap_start b" and ?n = "BUFFER_SIZE - gap_end b"
  have split: "seg (blit (blit out 0 (buf b) 0 ?a) ?a (buf b) (gap_end b) k) 0 (?a + k)
      = seg (buf b) 0 ?a @ seg (buf b) (gap_end b) k" for k
    by (simp add: seg_append seg_simps)
  show ?thesis
  proof (cases "mx \<le> ?a")
    case True
    then show ?thesis
      by (auto simp: buf_get_content_def Let_def text_of_def min_def seg_simps)
  next
    case False
    then obtain k where mx: "mx = ?a + k" by (metis add_diff_inverse_nat less_imp_le not_less)
    then show ?thesis
      using False split [of k] split [of ?n] seg_blit [of out 0 "buf b" "gap_end b" k]
      by (auto simp: buf_get_content_def Let_def text_of_def min_def seg_simps)
  qed
qed

subsection \<open>Editing\<close>

lemma seg_last: "0 < n \<Longrightarrow> seg m a n = seg m a (n - 1) @ [m (a + n - 1)]"
  using seg_Suc [of m a "n - 1"] by (cases n) simp_all

lemma seg_first: "0 < n \<Longrightarrow> seg m a n = m a # seg m (Suc a) (n - 1)"
  using seg_Cons [of m a "n - 1"] by (cases n) simp_all

lemma buf_init_text [gb_simps]: "text_of (buf_init b) = []"
  by (simp add: text_of_def buf_init_def)

lemma buf_load_text [gb_simps]: "text_of (buf_load txt len b) = seg txt 0 (min len BUFFER_SIZE)"
  by (auto simp: text_of_def buf_load_def buf_init_def Let_def min_def seg_simps)

lemma buf_insert_text:
  assumes "gb_inv b"
  shows "text_of (buf_insert c b) =
    (if length (text_of b) < BUFFER_SIZE
     then take (gap_start b) (text_of b) @ c # drop (gap_start b) (text_of b) else text_of b)"
proof (cases "gap_start b < gap_end b")
  case True
  then have "text_of (buf_insert c b) = seg (buf b) 0 (gap_start b) @ [c]
      @ seg (buf b) (gap_end b) (BUFFER_SIZE - gap_end b)"
    by (simp add: buf_insert_def text_of_def seg_Suc)
  then show ?thesis
    using True gap_full_iff [OF assms] by (simp add: take_text_of drop_text_of)
next
  case False
  then show ?thesis
    using gap_full_iff [OF assms] by (simp add: buf_insert_def)
qed

lemma buf_delete_back_text:
  assumes "gb_inv b"
  shows "text_of (buf_delete_back b) =
    take (gap_start b - 1) (text_of b) @ drop (gap_start b) (text_of b)"
  by (simp add: buf_delete_back_def take_text_of drop_text_of) (simp add: text_of_def)

lemma buf_delete_fwd_text:
  assumes "gb_inv b"
  shows "text_of (buf_delete_fwd b) =
    take (gap_start b) (text_of b) @ drop (gap_start b + 1) (text_of b)"
proof (cases "gap_end b < BUFFER_SIZE")
  case True
  then show ?thesis
    by (simp add: buf_delete_fwd_def text_of_def)
next
  case False
  then have "gap_end b = BUFFER_SIZE" using assms by (simp add: gb_inv_def)
  then show ?thesis by (simp add: buf_delete_fwd_def text_of_def)
qed

lemma buf_move_left_text:
  assumes "gb_inv b"
  shows "text_of (buf_move_left b) = text_of b"
proof (cases "gap_start b > 0")
  case True
  with assms have g: "gap_start b - 1 \<le> gap_end b - 1" "0 < gap_end b" "gap_end b \<le> BUFFER_SIZE"
    by (auto simp: gb_inv_def)
  then have "BUFFER_SIZE - (gap_end b - 1) = Suc (BUFFER_SIZE - gap_end b)" by simp
  then show ?thesis
    using True g by (simp add: buf_move_left_def text_of_def seg_Cons seg_last [of "gap_start b"])
qed (simp add: buf_move_left_def)

lemma buf_move_right_text:
  assumes "gb_inv b"
  shows "text_of (buf_move_right b) = text_of b"
proof (cases "gap_end b < BUFFER_SIZE")
  case True
  with assms have g: "gap_start b < Suc (gap_end b)" by (simp add: gb_inv_def)
  then show ?thesis
    using True by (simp add: buf_move_right_def text_of_def seg_Suc
        seg_first [of "BUFFER_SIZE - gap_end b"])
qed (simp add: buf_move_right_def)

subsection \<open>The invariant\<close>

lemma buf_init_inv: "gb_inv (buf_init b)"
  by (simp add: gb_inv_def buf_init_def)

lemma buf_load_inv: "gb_inv (buf_load txt len b)"
  by (simp add: gb_inv_def buf_load_def buf_init_def Let_def)

lemma buf_insert_inv: "gb_inv b \<Longrightarrow> gb_inv (buf_insert c b)"
  using undo_push_inv [of b UNDO_INSERT "gap_start b" c]
  by (auto simp: buf_insert_def gb_inv_def)

lemma buf_delete_back_inv: "gb_inv b \<Longrightarrow> gb_inv (buf_delete_back b)"
  using undo_push_inv [of b UNDO_DELETE "gap_start b - 1" "buf b (gap_start b - 1)"]
  by (auto simp: buf_delete_back_def gb_inv_def)

lemma buf_delete_fwd_inv: "gb_inv b \<Longrightarrow> gb_inv (buf_delete_fwd b)"
  using undo_push_inv [of b UNDO_DELETE "gap_start b" "buf b (gap_end b)"]
  by (auto simp: buf_delete_fwd_def gb_inv_def)

lemma buf_move_left_inv: "gb_inv b \<Longrightarrow> gb_inv (buf_move_left b)"
  by (auto simp: buf_move_left_def gb_inv_def)

lemma buf_move_right_inv: "gb_inv b \<Longrightarrow> gb_inv (buf_move_right b)"
  by (auto simp: buf_move_right_def gb_inv_def)

subsection \<open>Moving the gap\<close>

definition log_part :: "gbuf \<Rightarrow> (nat \<Rightarrow> undo_entry) \<times> nat \<times> nat \<times> nat \<times> bool" where
  "log_part b = (undo_stack b, undo_top b, undo_count b, redo_count b, undo_replaying b)"

lemma log_part_move [simp]:
  "log_part (buf_move_left b) = log_part b"
  "log_part (buf_move_right b) = log_part b"
  by (simp_all add: log_part_def buf_move_left_def buf_move_right_def)

lemma move_left_while_spec:
  "gb_inv b \<Longrightarrow> cur = gap_start b \<Longrightarrow>
     \<exists>b'. move_left_while pos cur b = (min pos cur, b') \<and> gb_inv b' \<and> text_of b' = text_of b \<and>
          gap_start b' = min pos cur \<and> log_part b' = log_part b"
proof (induction pos cur b rule: move_left_while.induct)
  case (1 pos cur b)
  show ?case
  proof (cases "pos < cur")
    case True
    then have "gap_start (buf_move_left b) = cur - 1"
      using "1.prems" by (simp add: buf_move_left_def)
    with "1.IH" "1.prems" True show ?thesis
      by (auto simp: move_left_while.simps [of pos "gap_start b" b] buf_move_left_inv buf_move_left_text min_def)
  next
    case False
    with "1.prems" show ?thesis by (simp add: move_left_while.simps [of pos "gap_start b" b])
  qed
qed

lemma move_right_while_spec:
  "gb_inv b \<Longrightarrow> cur = gap_start b \<Longrightarrow>
     \<exists>b'. snd (move_right_while pos cur b) = b' \<and> gb_inv b' \<and> text_of b' = text_of b \<and>
          gap_start b' = max cur (min pos (length (text_of b))) \<and> log_part b' = log_part b"
proof (induction pos cur b rule: move_right_while.induct)
  case (1 pos cur b)
  show ?case
  proof (cases "cur < pos \<and> gap_end b < BUFFER_SIZE")
    case True
    then have g: "gap_start (buf_move_right b) = cur + 1"
      using "1.prems" by (simp add: buf_move_right_def)
    have "cur < length (text_of b)"
      using True "1.prems" at_end_iff by simp
    then have "max cur (min pos (length (text_of b))) = max (cur + 1) (min pos (length (text_of b)))"
      using True by auto
    with "1.IH" [OF True] "1.prems" True g show ?thesis
      by (simp add: move_right_while.simps [of pos "gap_start b" b] buf_move_right_inv buf_move_right_text)
  next
    case False
    then have "max cur (min pos (length (text_of b))) = cur"
      using "1.prems" at_end_iff [of b] cursor_le_text [of b] by auto
    with False "1.prems" show ?thesis
      by (auto simp: move_right_while.simps [of pos "gap_start b" b])
  qed
qed

lemma buf_move_to_spec:
  assumes "gb_inv b"
  shows "gb_inv (buf_move_to pos b) \<and> text_of (buf_move_to pos b) = text_of b \<and>
         gap_start (buf_move_to pos b) = min pos (length (text_of b)) \<and>
         log_part (buf_move_to pos b) = log_part b"
proof -
  obtain b1 where b1: "move_left_while pos (gap_start b) b = (min pos (gap_start b), b1)"
    and i1: "gb_inv b1" "text_of b1 = text_of b" "gap_start b1 = min pos (gap_start b)"
      "log_part b1 = log_part b"
    using move_left_while_spec [OF assms refl] by blast
  obtain b2 where "snd (move_right_while pos (min pos (gap_start b)) b1) = b2" "gb_inv b2"
    "text_of b2 = text_of b1" "gap_start b2 = max (gap_start b1) (min pos (length (text_of b1)))"
    "log_part b2 = log_part b1"
    using move_right_while_spec [OF i1(1)] i1(3) by metis
  then show ?thesis
    using b1 i1 cursor_le_text [of b] by (auto simp: buf_move_to_def buf_cursor_pos_def)
qed

lemmas buf_move_to_inv = buf_move_to_spec [THEN conjunct1]
lemmas buf_move_to_text = buf_move_to_spec [THEN conjunct2, THEN conjunct1]
lemmas buf_move_to_cursor = buf_move_to_spec [THEN conjunct2, THEN conjunct2, THEN conjunct1]
lemmas buf_move_to_log = buf_move_to_spec [THEN conjunct2, THEN conjunct2, THEN conjunct2]

subsection \<open>The line index\<close>

lemma foldl_count:
  "foldl (\<lambda>n i. if P i then n + 1 else n) k xs = k + length (filter P xs)"
  by (induction xs arbitrary: k) simp_all

lemma filter_upt_count:
  assumes "gb_inv b" and "n \<le> length (text_of b)"
  shows "length (filter (\<lambda>i. buf_char_at b i = NL) [0..<n]) = count_list (take n (text_of b)) NL"
  using assms(2)
proof (induction n)
  case 0
  then show ?case by simp
next
  case (Suc n)
  then show ?case
    using assms(1) by (simp add: buf_char_at_text take_Suc_conv_app_nth count_list_append)
qed

lemma buf_line_count_eq: "gb_inv b \<Longrightarrow> buf_line_count b = 1 + count_list (text_of b) NL"
  by (simp add: buf_line_count_def foldl_count buf_length_text filter_upt_count)

lemma buf_cursor_line_eq:
  "gb_inv b \<Longrightarrow> buf_cursor_line b = count_list (take (gap_start b) (text_of b)) NL"
  by (simp add: buf_cursor_line_def foldl_count buf_cursor_pos_def filter_upt_count cursor_le_text)

text \<open>The column loop stops at the newline before the cursor, or at the start of the text.\<close>

lemma cursor_col_while_eq:
  assumes "gb_inv b" and "n \<le> length (text_of b)"
  shows "cursor_col_while b n col
       = col + length (takeWhile (\<lambda>c. c \<noteq> NL) (rev (take n (text_of b))))"
  using assms(2)
proof (induction n arbitrary: col)
  case 0
  then show ?case by simp
next
  case (Suc n)
  then show ?case
    using assms(1) by (simp add: buf_char_at_text take_Suc_conv_app_nth)
qed

text \<open>The start of line \<open>l\<close> of a text, as a function of the text alone.\<close>

fun line_offset :: "byte list \<Rightarrow> nat \<Rightarrow> nat" where
  "line_offset t 0 = 0"
| "line_offset [] (Suc l) = 0"
| "line_offset (c # t) (Suc l) = Suc (line_offset t (if c = NL then l else Suc l))"

lemma line_start_while_eq:
  "gb_inv b \<Longrightarrow> len = length (text_of b) \<Longrightarrow> i \<le> len \<Longrightarrow> cur_line < line \<Longrightarrow>
    line_start_while b line len cur_line i
      = i + line_offset (drop i (text_of b)) (line - cur_line)"
proof (induction b line len cur_line i rule: line_start_while.induct)
  case (1 b line len cur_line i)
  note unfold = line_start_while.simps [of b line "length (text_of b)" cur_line i]
  let ?t = "text_of b"
  obtain l where l: "line - cur_line = Suc l"
    using "1.prems"(4) by (metis Suc_diff_Suc)
  show ?case
  proof (cases "i < len")
    case True
    then have d: "drop i ?t = buf_char_at b i # drop (Suc i) ?t"
      using "1.prems" by (simp add: buf_char_at_text Cons_nth_drop_Suc)
    show ?thesis
    proof (cases "buf_char_at b i = NL")
      case nl: True
      show ?thesis
      proof (cases "cur_line + 1 = line")
        case last: True
        with l have "l = 0" by simp
        with True nl d l last "1.prems" show ?thesis by (simp add: unfold)
      next
        case False
        with l have "line - (cur_line + 1) = l" "cur_line + 1 < line"
          using "1.prems"(4) by auto
        with True nl d l False "1.IH"(1) "1.prems" show ?thesis by (simp add: unfold)
      qed
    next
      case False
      with True d l "1.IH"(2) "1.prems" show ?thesis by (simp add: unfold)
    qed
  next
    case False
    with "1.prems" l show ?thesis by (subst line_start_while.simps) simp
  qed
qed

lemma buf_line_start_eq: "gb_inv b \<Longrightarrow> buf_line_start b line = line_offset (text_of b) line"
  using line_start_while_eq [of b "length (text_of b)" 0 0 line]
  by (cases line) (simp_all add: buf_line_start_def buf_length_text)

lemma line_offset_newline_free:
  "NL \<notin> set t \<Longrightarrow> line_offset (t @ NL # u) (Suc l) = Suc (length t + line_offset u l)"
  by (induction t) auto

text \<open>Start of the cursor's line plus the cursor's column is the cursor.\<close>

lemma line_offset_plus_column:
  "line_offset (t @ u) (count_list t NL) + length (takeWhile (\<lambda>c. c \<noteq> NL) (rev t)) = length t"
proof (induction "count_list t NL" arbitrary: t)
  case 0
  then have "NL \<notin> set t" by (simp add: count_list_0_iff)
  then have all: "takeWhile (\<lambda>c. c \<noteq> NL) (rev t) = rev t"
    by (auto intro: takeWhile_eq_all_conv [THEN iffD2])
  show ?case unfolding all using 0 by (simp flip: 0)
next
  case (Suc n)
  have "NL \<in> set t"
  proof (rule ccontr)
    assume "NL \<notin> set t"
    then have "count_list t NL = 0" by (simp add: count_list_0_iff)
    with Suc.hyps(2) show False by simp
  qed
  then obtain p q where t: "t = p @ NL # q" and p: "NL \<notin> set p"
    using split_list_first by fastforce
  from p have cp: "count_list p NL = 0" by (simp add: count_list_0_iff)
  from Suc.hyps(2) cp have n: "n = count_list q NL" by (simp add: t count_list_append)
  have tw: "length (takeWhile (\<lambda>c. c \<noteq> NL) (rev t)) = length (takeWhile (\<lambda>c. c \<noteq> NL) (rev q))"
    by (simp add: t takeWhile_tail)
  have "line_offset (t @ u) (Suc n) = Suc (length p + line_offset (q @ u) n)"
    using line_offset_newline_free [OF p, of "q @ u" n] by (simp add: t)
  moreover have "line_offset (q @ u) n + length (takeWhile (\<lambda>c. c \<noteq> NL) (rev q)) = length q"
    using Suc.hyps(1) [OF n] n by simp
  ultimately show ?case
    using Suc.hyps(2) tw by (simp add: t)
qed

end
