(* ===== verification/EditHistory.thy ===== *)
theory EditHistory
  imports GapBuffer
begin

text \<open>
  The contract of the editor's buffer: the locale \<open>text_buffer\<close> that the editor's commands rely
  on, its interpretation on the gap buffer, and the undo history. \<open>undo_log\<close> and \<open>redo_log\<close>
  read the circular stack as two lists (newest entry first, next entry to redo first); the history
  invariant says that every logged entry can be taken back from the text it stands on.
\<close>

section \<open>The buffer as the editor's commands see it\<close>

locale text_buffer =
  fixes inv :: "'b \<Rightarrow> bool"
    and content :: "'b \<Rightarrow> byte list"
    and cursor :: "'b \<Rightarrow> nat"
    and capacity :: nat
    and ins :: "byte \<Rightarrow> 'b \<Rightarrow> 'b"
    and del :: "'b \<Rightarrow> 'b"
    and goto :: "nat \<Rightarrow> 'b \<Rightarrow> 'b"
  assumes cursor_bound: "inv b \<Longrightarrow> cursor b \<le> length (content b)"
    and ins_inv: "inv b \<Longrightarrow> inv (ins c b)"
    and ins_content: "inv b \<Longrightarrow> length (content b) < capacity \<Longrightarrow>
          content (ins c b) = take (cursor b) (content b) @ c # drop (cursor b) (content b)"
    and ins_cursor: "inv b \<Longrightarrow> length (content b) < capacity \<Longrightarrow> cursor (ins c b) = cursor b + 1"
    and del_inv: "inv b \<Longrightarrow> inv (del b)"
    and del_content: "inv b \<Longrightarrow> content (del b) = take (cursor b) (content b) @ drop (cursor b + 1) (content b)"
    and del_cursor: "inv b \<Longrightarrow> cursor (del b) = cursor b"
    and goto_inv: "inv b \<Longrightarrow> inv (goto p b)"
    and goto_content: "inv b \<Longrightarrow> content (goto p b) = content b"
    and goto_cursor: "inv b \<Longrightarrow> cursor (goto p b) = min p (length (content b))"
begin

lemma ins_all:
  "inv b \<Longrightarrow> length (content b) + length cs \<le> capacity \<Longrightarrow>
     inv (fold ins cs b) \<and> cursor (fold ins cs b) = cursor b + length cs \<and>
     content (fold ins cs b) = take (cursor b) (content b) @ cs @ drop (cursor b) (content b)"
proof (induction cs arbitrary: b)
  case Nil
  then show ?case by simp
next
  case (Cons c cs)
  have room: "length (content b) < capacity" using Cons.prems(2) by simp
  have cur: "cursor b \<le> length (content b)" using Cons.prems(1) by (rule cursor_bound)
  let ?b = "ins c b"
  have t: "content ?b = take (cursor b) (content b) @ c # drop (cursor b) (content b)"
    using Cons.prems(1) room by (rule ins_content)
  have "inv (fold ins cs ?b) \<and> cursor (fold ins cs ?b) = cursor ?b + length cs \<and>
        content (fold ins cs ?b) = take (cursor ?b) (content ?b) @ cs @ drop (cursor ?b) (content ?b)"
    by (rule Cons.IH) (use Cons.prems t cur in \<open>auto intro: ins_inv\<close>)
  then show ?case
    using t cur ins_cursor [OF Cons.prems(1) room] by simp
qed

lemma del_n:
  "inv b \<Longrightarrow> inv ((del ^^ n) b) \<and> cursor ((del ^^ n) b) = cursor b \<and>
     content ((del ^^ n) b) = take (cursor b) (content b) @ drop (cursor b + n) (content b)"
proof (induction n)
  case 0
  then show ?case by simp
next
  case (Suc n)
  have cur: "cursor b \<le> length (content b)" using Suc.prems by (rule cursor_bound)
  let ?b = "(del ^^ n) b"
  have IH: "inv ?b" "cursor ?b = cursor b"
    "content ?b = take (cursor b) (content b) @ drop (cursor b + n) (content b)"
    using Suc by auto
  have "content (del ?b) = take (cursor b) (content ?b) @ drop (cursor b + 1) (content ?b)"
    using del_content [OF IH(1)] IH(2) by simp
  also have "\<dots> = take (cursor b) (content b) @ drop (cursor b + Suc n) (content b)"
    using cur by (simp add: IH(3))
  finally show ?case
    using IH del_inv [OF IH(1)] del_cursor [OF IH(1)] by simp
qed

text \<open>Deleting the range \<open>[p, p + n)\<close>: what an operator with a motion does.\<close>

lemma delete_range_content:
  assumes "inv b" and "p \<le> length (content b)"
  shows "content ((del ^^ n) (goto p b)) = take p (content b) @ drop (p + n) (content b)"
  using del_n [OF goto_inv [OF assms(1)], of n p] assms
  by (simp add: goto_content goto_cursor min_def)

text \<open>Deleting what was just inserted gives the text back.\<close>

lemma delete_inserted:
  assumes "inv b" and "length (content b) + length cs \<le> capacity"
  shows "content ((del ^^ length cs) (goto (cursor b) (fold ins cs b))) = content b"
proof -
  note i = ins_all [OF assms]
  have cur: "cursor b \<le> length (content b)" using assms(1) by (rule cursor_bound)
  have "content ((del ^^ length cs) (goto (cursor b) (fold ins cs b)))
      = take (cursor b) (content (fold ins cs b)) @ drop (cursor b + length cs) (content (fold ins cs b))"
    using i cur by (intro delete_range_content) auto
  then show ?thesis using i cur by simp
qed

end

lemma buf_insert_cursor:
  "gb_inv b \<Longrightarrow> gap_start (buf_insert c b) =
     (if length (text_of b) < BUFFER_SIZE then gap_start b + 1 else gap_start b)"
  using gap_full_iff [of b] by (simp add: buf_insert_def)

lemma buf_delete_fwd_cursor: "gap_start (buf_delete_fwd b) = gap_start b"
  by (simp add: buf_delete_fwd_def)

lemma buf_delete_back_cursor: "gap_start (buf_delete_back b) = gap_start b - 1"
  by (simp add: buf_delete_back_def)

interpretation gb: text_buffer gb_inv text_of gap_start BUFFER_SIZE buf_insert buf_delete_fwd buf_move_to
  by unfold_locales
    (simp_all add: cursor_le_text buf_insert_inv buf_insert_text buf_insert_cursor buf_delete_fwd_inv
      buf_delete_fwd_text buf_delete_fwd_cursor buf_move_to_inv buf_move_to_text buf_move_to_cursor)

section \<open>The logs as lists\<close>

definition undo_log :: "gbuf \<Rightarrow> undo_entry list" where
  "undo_log b = map (\<lambda>k. undo_stack b ((undo_top b + UNDO_STACK_SIZE - 1 - k) mod UNDO_STACK_SIZE))
                    [0..<undo_count b]"

definition redo_log :: "gbuf \<Rightarrow> undo_entry list" where
  "redo_log b = map (\<lambda>k. undo_stack b ((undo_top b + k) mod UNDO_STACK_SIZE)) [0..<redo_count b]"

lemma length_logs [simp]:
  "length (undo_log b) = undo_count b" "length (redo_log b) = redo_count b"
  by (simp_all add: undo_log_def redo_log_def)

lemma logs_cong:
  "log_part a = log_part b \<Longrightarrow> undo_log a = undo_log b \<and> redo_log a = redo_log b \<and>
     undo_replaying a = undo_replaying b \<and> undo_count a = undo_count b \<and> redo_count a = redo_count b"
  by (simp add: log_part_def undo_log_def redo_log_def)

lemma logs_frame [simp]:
  "undo_log (b\<lparr>undo_replaying := r\<rparr>) = undo_log b"
  "redo_log (b\<lparr>undo_replaying := r\<rparr>) = redo_log b"
  by (simp_all add: undo_log_def redo_log_def)

lemma nth_undo_log:
  "k < undo_count b \<Longrightarrow>
     undo_log b ! k = undo_stack b ((undo_top b + UNDO_STACK_SIZE - Suc k) mod UNDO_STACK_SIZE)"
  by (simp add: undo_log_def)

lemma nth_redo_log:
  "k < redo_count b \<Longrightarrow> redo_log b ! k = undo_stack b ((undo_top b + k) mod UNDO_STACK_SIZE)"
  by (simp add: redo_log_def)

text \<open>Arithmetic of the circular index.\<close>

lemma ring_pred_succ:
  assumes "k < (n :: nat)"
  shows "(Suc t mod n + n - Suc k) mod n = (t + n - k) mod n"
proof -
  have "Suc t mod n + n - Suc k = Suc t mod n + (n - Suc k)" using assms by simp
  then have "(Suc t mod n + n - Suc k) mod n = (Suc t + (n - Suc k)) mod n"
    by (simp only: mod_add_left_eq)
  also have "Suc t + (n - Suc k) = t + n - k" using assms by simp
  finally show ?thesis .
qed

lemma ring_neq:
  assumes "0 < k" and "k < (n :: nat)" and "t < n"
  shows "(t + n - k) mod n \<noteq> t"
proof (cases "k \<le> t")
  case True
  then have "t + n - k = (t - k) + n" by simp
  then have "(t + n - k) mod n = (t - k) mod n" by (simp only: mod_add_self2)
  then show ?thesis using True assms by simp
next
  case False
  then have "t + n - k < n" "t < t + n - k" using assms by auto
  then show ?thesis by simp
qed

lemma undo_log_push:
  assumes "gb_inv b" and "\<not> undo_replaying b"
  shows "undo_log (undo_push ty p c b)
       = take UNDO_STACK_SIZE (\<lparr>ue_type = ty, ue_pos = p, ue_ch = c\<rparr> # undo_log b)"
    (is "undo_log ?b = take _ (?e # _)")
proof (rule nth_equalityI)
  have cnt: "undo_count b \<le> UNDO_STACK_SIZE" and t: "undo_top b < UNDO_STACK_SIZE"
    using assms(1) by (auto simp: gb_inv_def)
  show "length (undo_log ?b) = length (take UNDO_STACK_SIZE (?e # undo_log b))"
    using assms(2) cnt by (auto simp: undo_push_def)
  fix k
  assume "k < length (undo_log ?b)"
  then have k: "k < undo_count ?b" by simp
  then have kN: "k < UNDO_STACK_SIZE" "k < Suc (undo_count b)"
    using assms(2) cnt by (auto simp: undo_push_def split: if_splits)
  have "undo_log ?b ! k = undo_stack ?b ((undo_top b + UNDO_STACK_SIZE - k) mod UNDO_STACK_SIZE)"
    using k assms(2) kN(1) by (simp add: nth_undo_log) (simp add: undo_push_def ring_pred_succ)
  also have "\<dots> = (?e # undo_log b) ! k"
  proof (cases k)
    case 0
    then show ?thesis using assms(2) t by (simp add: undo_push_def)
  next
    case (Suc j)
    then have "undo_stack ?b ((undo_top b + UNDO_STACK_SIZE - k) mod UNDO_STACK_SIZE)
        = undo_stack b ((undo_top b + UNDO_STACK_SIZE - k) mod UNDO_STACK_SIZE)"
      using assms(2) t kN(1) ring_neq [of k UNDO_STACK_SIZE "undo_top b"] by (simp add: undo_push_def)
    then show ?thesis using Suc kN(2) by (simp add: nth_undo_log)
  qed
  finally show "undo_log ?b ! k = take UNDO_STACK_SIZE (?e # undo_log b) ! k"
    using kN(1) by simp
qed

lemma redo_log_push:
  "\<not> undo_replaying b \<Longrightarrow> redo_log (undo_push ty p c b) = [] \<and> redo_count (undo_push ty p c b) = 0"
  by (simp add: redo_log_def undo_push_def)

lemma undo_log_Cons:
  assumes "gb_inv b" and "0 < undo_count b"
  shows "undo_log b = undo_stack b (undo_prev b) # undo_log (undo_pop b)"
proof (rule nth_equalityI)
  show "length (undo_log b) = length (undo_stack b (undo_prev b) # undo_log (undo_pop b))"
    using assms(2) by (simp add: undo_pop_def)
  fix k
  assume "k < length (undo_log b)"
  then have k: "k < undo_count b" "k < UNDO_STACK_SIZE" using assms(1) by (auto simp: gb_inv_def)
  show "undo_log b ! k = (undo_stack b (undo_prev b) # undo_log (undo_pop b)) ! k"
  proof (cases k)
    case 0
    then show ?thesis using k by (simp add: nth_undo_log undo_prev_def)
  next
    case (Suc j)
    let ?N = UNDO_STACK_SIZE
    have "undo_prev b + ?N - Suc j = undo_prev b + (?N - Suc j)"
      using k Suc by simp
    then have "(undo_prev b + ?N - Suc j) mod ?N = (undo_top b + ?N - 1 + (?N - Suc j)) mod ?N"
      by (simp only: undo_prev_def mod_add_left_eq)
    also have "undo_top b + ?N - 1 + (?N - Suc j) = (undo_top b + ?N - Suc k) + ?N"
      using k Suc by simp
    also have "((undo_top b + ?N - Suc k) + ?N) mod ?N = (undo_top b + ?N - Suc k) mod ?N"
      by (rule mod_add_self2)
    finally show ?thesis
      using k Suc by (simp add: nth_undo_log undo_pop_def)
  qed
qed

lemma redo_log_undo_pop:
  assumes "gb_inv b"
  shows "redo_log (undo_pop b) = undo_stack b (undo_prev b) # redo_log b"
proof (rule nth_equalityI)
  show "length (redo_log (undo_pop b)) = length (undo_stack b (undo_prev b) # redo_log b)"
    by (simp add: undo_pop_def)
  fix k
  assume "k < length (redo_log (undo_pop b))"
  then have k: "k < Suc (redo_count b)" by (simp add: undo_pop_def)
  show "redo_log (undo_pop b) ! k = (undo_stack b (undo_prev b) # redo_log b) ! k"
  proof (cases k)
    case 0
    then show ?thesis by (simp add: nth_redo_log undo_pop_def undo_prev_def)
  next
    case (Suc j)
    let ?N = UNDO_STACK_SIZE
    have "(undo_prev b + Suc j) mod ?N = (undo_top b + ?N - 1 + Suc j) mod ?N"
      by (simp only: undo_prev_def mod_add_left_eq)
    also have "undo_top b + ?N - 1 + Suc j = (undo_top b + j) + ?N"
      using UNDO_STACK_SIZE_pos by linarith
    finally show ?thesis
      using k Suc by (simp add: nth_redo_log undo_pop_def)
  qed
qed

lemma redo_log_Cons:
  assumes "gb_inv b" and "0 < redo_count b"
  shows "redo_log b = undo_stack b (undo_top b) # redo_log (redo_pop b)"
proof (rule nth_equalityI)
  show "length (redo_log b) = length (undo_stack b (undo_top b) # redo_log (redo_pop b))"
    using assms(2) by (simp add: redo_pop_def)
  fix k
  assume "k < length (redo_log b)"
  then have "k < redo_count b" by simp
  then show "redo_log b ! k = (undo_stack b (undo_top b) # redo_log (redo_pop b)) ! k"
    using assms(1) by (cases k) (simp_all add: nth_redo_log redo_pop_def mod_simps gb_inv_def)
qed

lemma undo_log_redo_pop:
  assumes "gb_inv b" and "0 < redo_count b"
  shows "undo_log (redo_pop b) = undo_stack b (undo_top b) # undo_log b"
proof (rule nth_equalityI)
  show "length (undo_log (redo_pop b)) = length (undo_stack b (undo_top b) # undo_log b)"
    by (simp add: redo_pop_def)
  fix k
  assume "k < length (undo_log (redo_pop b))"
  then have k: "k < UNDO_STACK_SIZE" "k < Suc (undo_count b)"
    using assms by (auto simp: redo_pop_def gb_inv_def)
  then show "undo_log (redo_pop b) ! k = (undo_stack b (undo_top b) # undo_log b) ! k"
    using assms(1)
    by (cases k) (simp_all add: nth_undo_log redo_pop_def ring_pred_succ gb_inv_def)
qed

lemma undo_pop_inv: "gb_inv b \<Longrightarrow> 0 < undo_count b \<Longrightarrow> gb_inv (undo_pop b)"
  by (auto simp: gb_inv_def undo_pop_def undo_prev_def)

lemma redo_pop_inv: "gb_inv b \<Longrightarrow> 0 < redo_count b \<Longrightarrow> gb_inv (redo_pop b)"
  by (auto simp: gb_inv_def redo_pop_def)

section \<open>Log entries on the text\<close>

abbreviation is_mark :: "undo_entry \<Rightarrow> bool" where
  "is_mark e \<equiv> ue_type e = UNDO_BOUNDARY"

definition put_at :: "nat \<Rightarrow> byte \<Rightarrow> byte list \<Rightarrow> byte list" where
  "put_at p c t = take p t @ c # drop p t"

definition cut_at :: "nat \<Rightarrow> byte list \<Rightarrow> byte list" where
  "cut_at p t = take p t @ drop (p + 1) t"

definition apply_entry :: "undo_entry \<Rightarrow> byte list \<Rightarrow> byte list" where
  "apply_entry e t = (case ue_type e of
     UNDO_INSERT \<Rightarrow> put_at (ue_pos e) (ue_ch e) t | UNDO_DELETE \<Rightarrow> cut_at (ue_pos e) t | UNDO_BOUNDARY \<Rightarrow> t)"

definition revert_entry :: "undo_entry \<Rightarrow> byte list \<Rightarrow> byte list" where
  "revert_entry e t = (case ue_type e of
     UNDO_INSERT \<Rightarrow> cut_at (ue_pos e) t | UNDO_DELETE \<Rightarrow> put_at (ue_pos e) (ue_ch e) t | UNDO_BOUNDARY \<Rightarrow> t)"

definition fits_put :: "nat \<Rightarrow> byte list \<Rightarrow> bool" where
  "fits_put p t \<longleftrightarrow> p \<le> length t \<and> length t < BUFFER_SIZE"

definition fits_cut :: "nat \<Rightarrow> byte \<Rightarrow> byte list \<Rightarrow> bool" where
  "fits_cut p c t \<longleftrightarrow> p < length t \<and> t ! p = c \<and> length t \<le> BUFFER_SIZE"

definition fits_apply :: "undo_entry \<Rightarrow> byte list \<Rightarrow> bool" where
  "fits_apply e t = (case ue_type e of
     UNDO_INSERT \<Rightarrow> fits_put (ue_pos e) t | UNDO_DELETE \<Rightarrow> fits_cut (ue_pos e) (ue_ch e) t | UNDO_BOUNDARY \<Rightarrow> True)"

definition fits_revert :: "undo_entry \<Rightarrow> byte list \<Rightarrow> bool" where
  "fits_revert e t = (case ue_type e of
     UNDO_INSERT \<Rightarrow> fits_cut (ue_pos e) (ue_ch e) t | UNDO_DELETE \<Rightarrow> fits_put (ue_pos e) t | UNDO_BOUNDARY \<Rightarrow> True)"

lemma cut_put: "fits_put p t \<Longrightarrow> cut_at p (put_at p c t) = t \<and> fits_cut p c (put_at p c t)"
  by (auto simp: fits_put_def put_at_def cut_at_def fits_cut_def nth_append)

lemma put_cut: "fits_cut p c t \<Longrightarrow> put_at p c (cut_at p t) = t \<and> fits_put p (cut_at p t)"
  by (auto simp: fits_put_def put_at_def cut_at_def fits_cut_def Cons_nth_drop_Suc min_def)

lemma apply_revert:
  "fits_revert e t \<Longrightarrow> apply_entry e (revert_entry e t) = t \<and> fits_apply e (revert_entry e t)"
  by (auto simp: fits_revert_def fits_apply_def apply_entry_def revert_entry_def cut_put put_cut
      split: undo_type.splits)

lemma revert_apply:
  "fits_apply e t \<Longrightarrow> revert_entry e (apply_entry e t) = t \<and> fits_revert e (apply_entry e t)"
  by (auto simp: fits_revert_def fits_apply_def apply_entry_def revert_entry_def cut_put put_cut
      split: undo_type.splits)

primrec undo_ok :: "byte list \<Rightarrow> undo_entry list \<Rightarrow> bool" where
  "undo_ok t [] = True"
| "undo_ok t (e # es) = (fits_revert e t \<and> undo_ok (revert_entry e t) es)"

primrec redo_ok :: "byte list \<Rightarrow> undo_entry list \<Rightarrow> bool" where
  "redo_ok t [] = True"
| "redo_ok t (e # es) = (fits_apply e t \<and> redo_ok (apply_entry e t) es)"

lemma undo_ok_append:
  "undo_ok t (es @ fs) \<longleftrightarrow> undo_ok t es \<and> undo_ok (fold revert_entry es t) fs"
  by (induction es arbitrary: t) auto

lemma redo_ok_append:
  "redo_ok t (es @ fs) \<longleftrightarrow> redo_ok t es \<and> redo_ok (fold apply_entry es t) fs"
  by (induction es arbitrary: t) auto

lemma undo_ok_take: "undo_ok t es \<Longrightarrow> undo_ok t (take n es)"
  by (metis append_take_drop_id undo_ok_append)

text \<open>Redoing what was undone, and undoing what was redone.\<close>

lemma undone_redo:
  "undo_ok t es \<Longrightarrow> redo_ok (fold revert_entry es t) (rev es) \<and>
     fold apply_entry (rev es) (fold revert_entry es t) = t"
  by (induction es arbitrary: t) (auto simp: redo_ok_append apply_revert)

lemma redone_undo:
  "redo_ok t es \<Longrightarrow> undo_ok (fold apply_entry es t) (rev es) \<and>
     fold revert_entry (rev es) (fold apply_entry es t) = t"
  by (induction es arbitrary: t) (auto simp: undo_ok_append revert_apply)

section \<open>The replay loops compute on the lists\<close>

lemma buf_insert_replaying [simp]: "undo_replaying b \<Longrightarrow> log_part (buf_insert c b) = log_part b"
  by (simp add: buf_insert_def undo_push_def log_part_def)

lemma buf_delete_fwd_replaying [simp]: "undo_replaying b \<Longrightarrow> log_part (buf_delete_fwd b) = log_part b"
  by (simp add: buf_delete_fwd_def undo_push_def log_part_def)

lemma replaying_log_part: "log_part a = log_part b \<Longrightarrow> undo_replaying a = undo_replaying b"
  by (simp add: log_part_def)

lemma replay_put:
  assumes "gb_inv b" and "undo_replaying b" and "fits_put p (text_of b)"
  shows "gb_inv (buf_insert c (buf_move_to p b)) \<and>
         text_of (buf_insert c (buf_move_to p b)) = put_at p c (text_of b) \<and>
         log_part (buf_insert c (buf_move_to p b)) = log_part b"
  using assms by (auto simp: buf_insert_inv buf_move_to_inv buf_insert_text buf_move_to_text
      buf_move_to_cursor buf_move_to_log put_at_def fits_put_def min_def
      replaying_log_part [OF buf_move_to_log])

lemma replay_cut:
  assumes "gb_inv b" and "undo_replaying b" and "fits_cut p c (text_of b)"
  shows "gb_inv (buf_delete_fwd (buf_move_to p b)) \<and>
         text_of (buf_delete_fwd (buf_move_to p b)) = cut_at p (text_of b) \<and>
         log_part (buf_delete_fwd (buf_move_to p b)) = log_part b"
  using assms by (auto simp: buf_delete_fwd_inv buf_move_to_inv buf_delete_fwd_text buf_move_to_text
      buf_move_to_cursor buf_move_to_log cut_at_def fits_cut_def min_def
      replaying_log_part [OF buf_move_to_log])

lemma undo_entry_replay_spec:
  assumes "gb_inv b" and "undo_replaying b" and "fits_revert e (text_of b)"
  shows "gb_inv (undo_entry_replay e b) \<and>
         text_of (undo_entry_replay e b) = revert_entry e (text_of b) \<and>
         log_part (undo_entry_replay e b) = log_part b"
  using assms replay_put replay_cut
  by (cases "ue_type e") (auto simp: undo_entry_replay_def fits_revert_def revert_entry_def)

lemma redo_entry_replay_spec:
  assumes "gb_inv b" and "undo_replaying b" and "fits_apply e (text_of b)"
  shows "gb_inv (redo_entry_replay e b) \<and>
         text_of (redo_entry_replay e b) = apply_entry e (text_of b) \<and>
         log_part (redo_entry_replay e b) = log_part b"
  using assms replay_put replay_cut
  by (cases "ue_type e") (auto simp: redo_entry_replay_def fits_apply_def apply_entry_def)

type_synonym hist = "undo_entry list \<times> undo_entry list \<times> byte list"

definition hist_of :: "gbuf \<Rightarrow> hist" where
  "hist_of b = (undo_log b, redo_log b, text_of b)"

fun undo_list :: "hist \<Rightarrow> hist" where
  "undo_list (u, r, t) =
     (let g = takeWhile (\<lambda>e. \<not> is_mark e) u
      in (dropWhile (\<lambda>e. \<not> is_mark e) u, rev g @ r, fold revert_entry g t))"

fun redo_list :: "hist \<Rightarrow> hist" where
  "redo_list (u, r, t) =
     (let g = takeWhile (\<lambda>e. \<not> is_mark e) r
      in (rev g @ u, dropWhile (\<lambda>e. \<not> is_mark e) r, fold apply_entry g t))"

lemma undo_pop_replaying [simp]: "undo_replaying (undo_pop b) = undo_replaying b"
  by (simp add: undo_pop_def)

lemma redo_pop_replaying [simp]: "undo_replaying (redo_pop b) = undo_replaying b"
  by (simp add: redo_pop_def)

lemma undo_while_spec:
  "gb_inv b \<Longrightarrow> undo_replaying b \<Longrightarrow> undo_ok (text_of b) (undo_log b) \<Longrightarrow> undo_count b \<le> n \<Longrightarrow>
     hist_of (undo_while n b) = undo_list (hist_of b) \<and> gb_inv (undo_while n b)"
proof (induction n arbitrary: b)
  case 0
  then have "undo_log b = []" by (simp flip: length_0_conv)
  with 0 show ?case by (simp add: hist_of_def)
next
  case (Suc n)
  show ?case
  proof (cases "0 < undo_count b")
    case False
    then have "undo_log b = []" by (simp flip: length_0_conv)
    with Suc.prems False show ?thesis by (simp add: hist_of_def)
  next
    case True
    let ?e = "undo_stack b (undo_prev b)"
    let ?b = "undo_entry_replay ?e (undo_pop b)"
    note log = undo_log_Cons [OF Suc.prems(1) True] redo_log_undo_pop [OF Suc.prems(1)]
    show ?thesis
    proof (cases "is_mark ?e")
      case mark: True
      with True log Suc.prems show ?thesis by (simp add: hist_of_def Let_def)
    next
      case False
      have fit: "fits_revert ?e (text_of b)" "undo_ok (revert_entry ?e (text_of b)) (undo_log (undo_pop b))"
        using Suc.prems(3) log by simp_all
      have spec: "gb_inv ?b" "text_of ?b = revert_entry ?e (text_of b)"
        "log_part ?b = log_part (undo_pop b)"
        using undo_entry_replay_spec [of "undo_pop b" ?e] undo_pop_inv Suc.prems fit True by simp_all
      note logs = logs_cong [OF spec(3)]
      have "undo_count ?b \<le> n"
        using logs Suc.prems(4) by (simp add: undo_pop_def)
      then have "hist_of (undo_while n ?b) = undo_list (hist_of ?b) \<and> gb_inv (undo_while n ?b)"
        using spec logs fit Suc.prems by (intro Suc.IH) auto
      then show ?thesis
        using True False log logs spec(2) by (simp add: hist_of_def Let_def)
    qed
  qed
qed

lemma redo_while_spec:
  "gb_inv b \<Longrightarrow> undo_replaying b \<Longrightarrow> redo_ok (text_of b) (redo_log b) \<Longrightarrow> redo_count b \<le> n \<Longrightarrow>
     hist_of (redo_while n b) = redo_list (hist_of b) \<and> gb_inv (redo_while n b)"
proof (induction n arbitrary: b)
  case 0
  then have "redo_log b = []" by (simp flip: length_0_conv)
  with 0 show ?case by (simp add: hist_of_def)
next
  case (Suc n)
  show ?case
  proof (cases "0 < redo_count b")
    case False
    then have "redo_log b = []" by (simp flip: length_0_conv)
    with Suc.prems False show ?thesis by (simp add: hist_of_def)
  next
    case True
    let ?e = "undo_stack b (undo_top b)"
    let ?b = "redo_entry_replay ?e (redo_pop b)"
    note log = redo_log_Cons [OF Suc.prems(1) True] undo_log_redo_pop [OF Suc.prems(1) True]
    show ?thesis
    proof (cases "is_mark ?e")
      case mark: True
      with True log Suc.prems show ?thesis by (simp add: hist_of_def Let_def)
    next
      case False
      have fit: "fits_apply ?e (text_of b)" "redo_ok (apply_entry ?e (text_of b)) (redo_log (redo_pop b))"
        using Suc.prems(3) log by simp_all
      have spec: "gb_inv ?b" "text_of ?b = apply_entry ?e (text_of b)"
        "log_part ?b = log_part (redo_pop b)"
        using redo_entry_replay_spec [of "redo_pop b" ?e] redo_pop_inv Suc.prems fit True by simp_all
      note logs = logs_cong [OF spec(3)]
      have "redo_count ?b \<le> n"
        using logs Suc.prems(4) by (simp add: redo_pop_def)
      then have "hist_of (redo_while n ?b) = redo_list (hist_of ?b) \<and> gb_inv (redo_while n ?b)"
        using spec logs fit Suc.prems by (intro Suc.IH) auto
      then show ?thesis
        using True False log logs spec(2) by (simp add: hist_of_def Let_def)
    qed
  qed
qed

lemma hd_undo_log: "0 < undo_count b \<Longrightarrow> hd (undo_log b) = undo_stack b (undo_prev b)"
  by (simp add: undo_log_def undo_prev_def hd_map upt_rec)

lemma hd_redo_log: "gb_inv b \<Longrightarrow> 0 < redo_count b \<Longrightarrow> hd (redo_log b) = undo_stack b (undo_top b)"
  using redo_log_Cons [of b] by simp

lemma undo_log_Nil [simp]: "undo_log b = [] \<longleftrightarrow> undo_count b = 0"
  by (simp flip: length_0_conv)

lemma redo_log_Nil [simp]: "redo_log b = [] \<longleftrightarrow> redo_count b = 0"
  by (simp flip: length_0_conv)

lemma hd_dropWhile_mark: "dropWhile (\<lambda>e. \<not> is_mark e) u \<noteq> [] \<Longrightarrow> is_mark (hd (dropWhile (\<lambda>e. \<not> is_mark e) u))"
  using hd_dropWhile [of "\<lambda>e. \<not> is_mark e" u] by simp

text \<open>When a replay loop ends it has met a boundary or emptied the stack.\<close>

lemma undo_while_exit:
  assumes "gb_inv b" "undo_replaying b" "undo_ok (text_of b) (undo_log b)" "undo_count b \<le> n"
    and "undo_count (undo_while n b) > 0"
  shows "is_mark (undo_stack (undo_while n b) (undo_prev (undo_while n b)))"
proof -
  have "undo_log (undo_while n b) = dropWhile (\<lambda>e. \<not> is_mark e) (undo_log b)"
    using undo_while_spec [OF assms(1-4)] by (simp add: hist_of_def Let_def)
  with assms(5) show ?thesis
    using hd_dropWhile_mark [of "undo_log b"] hd_undo_log [OF assms(5)] undo_log_Nil [of "undo_while n b"]
    by simp
qed

lemma redo_while_exit:
  assumes "gb_inv b" "undo_replaying b" "redo_ok (text_of b) (redo_log b)" "redo_count b \<le> n"
    and "redo_count (redo_while n b) > 0"
  shows "is_mark (undo_stack (redo_while n b) (undo_top (redo_while n b)))"
proof -
  have "redo_log (redo_while n b) = dropWhile (\<lambda>e. \<not> is_mark e) (redo_log b)"
    and inv: "gb_inv (redo_while n b)"
    using redo_while_spec [OF assms(1-4)] by (simp_all add: hist_of_def Let_def)
  with assms(5) show ?thesis
    using hd_dropWhile_mark [of "redo_log b"] hd_redo_log [OF inv assms(5)] redo_log_Nil [of "redo_while n b"]
    by simp
qed

section \<open>Undo and redo on the lists\<close>

fun skip_undo_mark :: "hist \<Rightarrow> hist" where
  "skip_undo_mark (e # u, r, t) = (if is_mark e then (u, e # r, t) else (e # u, r, t))"
| "skip_undo_mark ([], r, t) = ([], r, t)"

fun skip_redo_mark :: "hist \<Rightarrow> hist" where
  "skip_redo_mark (u, e # r, t) = (if is_mark e then (e # u, r, t) else (u, e # r, t))"
| "skip_redo_mark (u, [], t) = (u, [], t)"

definition undo_hist :: "hist \<Rightarrow> bool \<times> hist" where
  "undo_hist h = (let h = skip_undo_mark h in if fst h = [] then (False, h) else (True, undo_list h))"

definition redo_hist :: "hist \<Rightarrow> bool \<times> hist" where
  "redo_hist h = (let h = skip_redo_mark h in if fst (snd h) = [] then (False, h) else (True, redo_list h))"

lemma gb_inv_replaying [simp]: "gb_inv (b\<lparr>undo_replaying := r\<rparr>) = gb_inv b"
  by (simp add: gb_inv_def)

lemma hist_of_replaying [simp]: "hist_of (b\<lparr>undo_replaying := r\<rparr>) = hist_of b"
  by (simp add: hist_of_def)

lemma revert_mark: "is_mark e \<Longrightarrow> revert_entry e t = t"
  by (simp add: revert_entry_def)

lemma apply_mark: "is_mark e \<Longrightarrow> apply_entry e t = t"
  by (simp add: apply_entry_def)

text \<open>Dropping the trailing boundary, in the buffer and on the lists.\<close>

definition undo_skip :: "gbuf \<Rightarrow> gbuf" where
  "undo_skip b = (if is_mark (undo_stack b (undo_prev b)) then undo_pop b else b)"

definition redo_skip :: "gbuf \<Rightarrow> gbuf" where
  "redo_skip b = (if is_mark (undo_stack b (undo_top b)) then redo_pop b else b)"

lemma undo_skip_spec:
  assumes "gb_inv b" and "0 < undo_count b" and "undo_ok (text_of b) (undo_log b)"
  shows "gb_inv (undo_skip b) \<and> hist_of (undo_skip b) = skip_undo_mark (hist_of b) \<and>
         undo_ok (text_of (undo_skip b)) (undo_log (undo_skip b))"
  using assms undo_pop_inv [OF assms(1,2)] undo_log_Cons [OF assms(1,2)] redo_log_undo_pop [OF assms(1)]
  by (auto simp: undo_skip_def hist_of_def revert_mark)

lemma redo_skip_spec:
  assumes "gb_inv b" and "0 < redo_count b" and "redo_ok (text_of b) (redo_log b)"
  shows "gb_inv (redo_skip b) \<and> hist_of (redo_skip b) = skip_redo_mark (hist_of b) \<and>
         redo_ok (text_of (redo_skip b)) (redo_log (redo_skip b))"
  using assms redo_pop_inv [OF assms(1,2)] redo_log_Cons [OF assms(1,2)] undo_log_redo_pop [OF assms(1,2)]
  by (auto simp: redo_skip_def hist_of_def apply_mark)

lemma buf_undo_spec:
  assumes "gb_inv b" and "undo_ok (text_of b) (undo_log b)"
  shows "fst (buf_undo b) = fst (undo_hist (hist_of b)) \<and>
         hist_of (snd (buf_undo b)) = snd (undo_hist (hist_of b)) \<and> gb_inv (snd (buf_undo b))"
proof (cases "undo_count b = 0")
  case True
  then have "undo_log b = []" by simp
  with True assms(1) show ?thesis by (simp add: buf_undo_def undo_hist_def hist_of_def Let_def del: undo_log_Nil)
next
  case False
  then have skip: "gb_inv (undo_skip b)" "hist_of (undo_skip b) = skip_undo_mark (hist_of b)"
    "undo_ok (text_of (undo_skip b)) (undo_log (undo_skip b))"
    using undo_skip_spec assms by simp_all
  have empty: "fst (skip_undo_mark (hist_of b)) = [] \<longleftrightarrow> undo_count (undo_skip b) = 0"
    by (simp flip: skip(2)) (simp add: hist_of_def)
  have undo: "buf_undo b = (if undo_count (undo_skip b) = 0 then (False, undo_skip b)
      else (True, (undo_while (undo_count (undo_skip b)) (undo_skip b\<lparr>undo_replaying := True\<rparr>))
        \<lparr>undo_replaying := False\<rparr>))"
    using False by (simp add: buf_undo_def undo_skip_def Let_def)
  show ?thesis
    using undo_while_spec [of "undo_skip b\<lparr>undo_replaying := True\<rparr>" "undo_count (undo_skip b)"] skip empty
    by (simp add: undo undo_hist_def Let_def)
qed

lemma buf_redo_spec:
  assumes "gb_inv b" and "redo_ok (text_of b) (redo_log b)"
  shows "fst (buf_redo b) = fst (redo_hist (hist_of b)) \<and>
         hist_of (snd (buf_redo b)) = snd (redo_hist (hist_of b)) \<and> gb_inv (snd (buf_redo b))"
proof (cases "redo_count b = 0")
  case True
  then have "redo_log b = []" by simp
  with True assms(1) show ?thesis by (simp add: buf_redo_def redo_hist_def hist_of_def Let_def del: redo_log_Nil)
next
  case False
  then have skip: "gb_inv (redo_skip b)" "hist_of (redo_skip b) = skip_redo_mark (hist_of b)"
    "redo_ok (text_of (redo_skip b)) (redo_log (redo_skip b))"
    using redo_skip_spec assms by simp_all
  have empty: "fst (snd (skip_redo_mark (hist_of b))) = [] \<longleftrightarrow> redo_count (redo_skip b) = 0"
    by (simp flip: skip(2)) (simp add: hist_of_def)
  have redo: "buf_redo b = (if redo_count (redo_skip b) = 0 then (False, redo_skip b)
      else (True, (redo_while (redo_count (redo_skip b)) (redo_skip b\<lparr>undo_replaying := True\<rparr>))
        \<lparr>undo_replaying := False\<rparr>))"
    using False by (simp add: buf_redo_def redo_skip_def Let_def)
  show ?thesis
    using redo_while_spec [of "redo_skip b\<lparr>undo_replaying := True\<rparr>" "redo_count (redo_skip b)"] skip empty
    by (simp add: redo redo_hist_def Let_def)
qed

section \<open>The history invariant\<close>

text \<open>
  The whole history is \<open>rev u @ r\<close>: no two boundaries stand next to each other in it, and the
  point between the two stacks is next to a boundary unless one stack is empty.
\<close>

definition marks_apart :: "undo_entry list \<Rightarrow> bool" where
  "marks_apart es = successively (\<lambda>e f. \<not> (is_mark e \<and> is_mark f)) es"

fun hist_ok :: "hist \<Rightarrow> bool" where
  "hist_ok (u, r, t) \<longleftrightarrow> undo_ok t u \<and> redo_ok t r \<and> marks_apart (rev u @ r) \<and>
     (u = [] \<or> r = [] \<or> is_mark (hd u) \<or> is_mark (hd r))"

definition buf_ok :: "gbuf \<Rightarrow> bool" where
  "buf_ok b \<longleftrightarrow> gb_inv b \<and> \<not> undo_replaying b \<and> hist_ok (hist_of b)"

lemma buf_okD:
  assumes "buf_ok b"
  shows "gb_inv b" "\<not> undo_replaying b" "undo_ok (text_of b) (undo_log b)"
    "redo_ok (text_of b) (redo_log b)" "hist_ok (hist_of b)"
  using assms by (auto simp: buf_ok_def hist_of_def)

lemma skip_undo_mark_ok: "hist_ok h \<Longrightarrow> hist_ok (skip_undo_mark h)"
  by (induction h rule: skip_undo_mark.induct) (auto simp: revert_mark apply_mark fits_apply_def)

lemma skip_redo_mark_ok: "hist_ok h \<Longrightarrow> hist_ok (skip_redo_mark h)"
  by (induction h rule: skip_redo_mark.induct) (auto simp: revert_mark apply_mark fits_revert_def)

lemma undo_list_ok:
  assumes "hist_ok (u, r, t)"
  shows "hist_ok (undo_list (u, r, t))"
proof -
  let ?g = "takeWhile (\<lambda>e. \<not> is_mark e) u" and ?u = "dropWhile (\<lambda>e. \<not> is_mark e) u"
  have u: "?g @ ?u = u" by (rule takeWhile_dropWhile_id)
  then have ok: "undo_ok t ?g" "undo_ok (fold revert_entry ?g t) ?u"
    using assms undo_ok_append [of t ?g ?u] by simp_all
  have eq: "rev ?u @ rev ?g @ r = rev u @ r"
    by (metis append.assoc rev_append u)
  have "marks_apart (rev ?u @ rev ?g @ r)" unfolding eq using assms by simp
  then show ?thesis
    using assms ok undone_redo [OF ok(1)] hd_dropWhile_mark [of u]
    by (auto simp: Let_def redo_ok_append)
qed

lemma redo_list_ok:
  assumes "hist_ok (u, r, t)"
  shows "hist_ok (redo_list (u, r, t))"
proof -
  let ?g = "takeWhile (\<lambda>e. \<not> is_mark e) r" and ?r = "dropWhile (\<lambda>e. \<not> is_mark e) r"
  have r: "?g @ ?r = r" by (rule takeWhile_dropWhile_id)
  then have ok: "redo_ok t ?g" "redo_ok (fold apply_entry ?g t) ?r"
    using assms redo_ok_append [of t ?g ?r] by simp_all
  have eq: "rev (rev ?g @ u) @ ?r = rev u @ r"
    by (metis append.assoc rev_append rev_rev_ident r)
  have "marks_apart (rev (rev ?g @ u) @ ?r)" unfolding eq using assms by simp
  then show ?thesis
    using assms ok redone_undo [OF ok(1)] hd_dropWhile_mark [of r]
    by (auto simp: Let_def undo_ok_append)
qed

lemma undo_hist_ok: "hist_ok h \<Longrightarrow> hist_ok (snd (undo_hist h))"
  using skip_undo_mark_ok [of h] undo_list_ok by (cases "skip_undo_mark h") (auto simp: undo_hist_def Let_def)

lemma redo_hist_ok: "hist_ok h \<Longrightarrow> hist_ok (snd (redo_hist h))"
  using skip_redo_mark_ok [of h] redo_list_ok by (cases "skip_redo_mark h") (auto simp: redo_hist_def Let_def)

text \<open>Undo, then redo: the same stacks and the same text, up to a boundary moved across.\<close>

lemma takeWhile_group:
  "\<forall>e \<in> set g. \<not> is_mark e \<Longrightarrow> r = [] \<or> is_mark (hd r) \<Longrightarrow>
     takeWhile (\<lambda>e. \<not> is_mark e) (g @ r) = g \<and> dropWhile (\<lambda>e. \<not> is_mark e) (g @ r) = r"
  by (cases r) (auto simp: takeWhile_append dropWhile_append)

lemma marks_apart_hd:
  "marks_apart (rev u @ r) \<Longrightarrow> u \<noteq> [] \<Longrightarrow> r \<noteq> [] \<Longrightarrow> \<not> (is_mark (hd u) \<and> is_mark (hd r))"
  by (auto simp: marks_apart_def successively_append_iff last_rev)

lemma undo_hist_redo:
  assumes ok: "hist_ok h" and undo: "undo_hist h = (True, h')"
  shows "fst (redo_hist h') \<and> snd (snd (snd (redo_hist h'))) = snd (snd h)"
proof -
  obtain u r t where h: "skip_undo_mark h = (u, r, t)" by (cases "skip_undo_mark h")
  have t: "snd (snd h) = t" using h by (cases h rule: skip_undo_mark.cases) (auto split: if_splits)
  have ok': "hist_ok (u, r, t)" using skip_undo_mark_ok [OF ok] h by simp
  have ne: "u \<noteq> []" and h': "h' = undo_list (u, r, t)"
    using undo h by (auto simp: undo_hist_def Let_def split: if_splits)
  have hd_u: "\<not> is_mark (hd u)"
    using ok ne h by (cases h rule: skip_undo_mark.cases)
      (auto simp: marks_apart_def successively_append_iff successively_Cons last_rev hd_append split: if_splits)
  have hd_r: "r = [] \<or> is_mark (hd r)" using ok' ne hd_u by auto
  let ?g = "takeWhile (\<lambda>e. \<not> is_mark e) u"
  have g: "?g \<noteq> []" using ne hd_u by (cases u) auto
  have nomark: "\<forall>e \<in> set (rev ?g). \<not> is_mark e" by (auto dest: set_takeWhileD)
  note grp = takeWhile_group [OF nomark hd_r]
  have uok: "undo_ok t ?g"
    using ok' undo_ok_append [of t ?g "dropWhile (\<lambda>e. \<not> is_mark e) u"] by simp
  obtain e g' where e: "rev ?g = e # g'" using g by (cases "rev ?g") auto
  then have em: "\<not> is_mark e" using nomark by simp
  have h'_eq: "h' = (dropWhile (\<lambda>e. \<not> is_mark e) u, rev ?g @ r, fold revert_entry ?g t)"
    by (simp add: h' Let_def)
  have skip: "skip_redo_mark h' = h'" using e em by (simp add: h'_eq)
  have "rev ?g @ r \<noteq> []" using g by simp
  then show ?thesis
    using grp undone_redo [OF uok] t unfolding redo_hist_def Let_def skip by (simp add: h'_eq Let_def)
qed

lemma redo_hist_undo:
  assumes ok: "hist_ok h" and redo: "redo_hist h = (True, h')"
  shows "fst (undo_hist h') \<and> snd (snd (snd (undo_hist h'))) = snd (snd h)"
proof -
  obtain u r t where h: "skip_redo_mark h = (u, r, t)" by (cases "skip_redo_mark h")
  have t: "snd (snd h) = t" using h by (cases h rule: skip_redo_mark.cases) (auto split: if_splits)
  have ok': "hist_ok (u, r, t)" using skip_redo_mark_ok [OF ok] h by simp
  have ne: "r \<noteq> []" and h': "h' = redo_list (u, r, t)"
    using redo h by (auto simp: redo_hist_def Let_def split: if_splits)
  have hd_r: "\<not> is_mark (hd r)"
    using ok ne h by (cases h rule: skip_redo_mark.cases)
      (auto simp: marks_apart_def successively_append_iff successively_Cons last_rev hd_append split: if_splits)
  have hd_u: "u = [] \<or> is_mark (hd u)" using ok' ne hd_r by auto
  let ?g = "takeWhile (\<lambda>e. \<not> is_mark e) r"
  have g: "?g \<noteq> []" using ne hd_r by (cases r) auto
  have nomark: "\<forall>e \<in> set (rev ?g). \<not> is_mark e" by (auto dest: set_takeWhileD)
  note grp = takeWhile_group [OF nomark hd_u]
  have rok: "redo_ok t ?g"
    using ok' redo_ok_append [of t ?g "dropWhile (\<lambda>e. \<not> is_mark e) r"] by simp
  obtain e g' where e: "rev ?g = e # g'" using g by (cases "rev ?g") auto
  then have em: "\<not> is_mark e" using nomark by simp
  have h'_eq: "h' = (rev ?g @ u, dropWhile (\<lambda>e. \<not> is_mark e) r, fold apply_entry ?g t)"
    by (simp add: h' Let_def)
  have skip: "skip_undo_mark h' = h'" using e em by (simp add: h'_eq)
  have "rev ?g @ u \<noteq> []" using g by simp
  then show ?thesis
    using grp redone_undo [OF rok] t unfolding undo_hist_def Let_def skip by (simp add: h'_eq Let_def)
qed

section \<open>Editing sessions\<close>

text \<open>The calls a client of the buffer makes; \<open>Mark\<close> is \<open>buf_undo_boundary\<close>.\<close>

datatype edit = Insert byte | DeleteBack | DeleteFwd | MoveLeft | MoveRight | MoveTo nat
  | Mark | Undo | Redo

fun edit_step :: "edit \<Rightarrow> gbuf \<Rightarrow> gbuf" where
  "edit_step (Insert c) b = buf_insert c b"
| "edit_step DeleteBack b = buf_delete_back b"
| "edit_step DeleteFwd b = buf_delete_fwd b"
| "edit_step MoveLeft b = buf_move_left b"
| "edit_step MoveRight b = buf_move_right b"
| "edit_step (MoveTo p) b = buf_move_to p b"
| "edit_step Mark b = buf_undo_boundary b"
| "edit_step Undo b = snd (buf_undo b)"
| "edit_step Redo b = snd (buf_redo b)"

inductive buf_reach :: "gbuf \<Rightarrow> bool" where
  init: "buf_reach (buf_init b)"
| load: "buf_reach (buf_load content len b)"
| step: "buf_reach b \<Longrightarrow> buf_reach (edit_step e b)"

text \<open>What one logged edit does to the lists.\<close>

definition pushed :: "undo_entry \<Rightarrow> gbuf \<Rightarrow> gbuf \<Rightarrow> bool" where
  "pushed e b b' \<longleftrightarrow> undo_log b' = take UNDO_STACK_SIZE (e # undo_log b) \<and> redo_log b' = [] \<and>
     text_of b' = apply_entry e (text_of b) \<and> fits_apply e (text_of b)"

definition kept :: "gbuf \<Rightarrow> gbuf \<Rightarrow> bool" where
  "kept b b' \<longleftrightarrow> undo_log b' = undo_log b \<and> redo_log b' = redo_log b \<and> text_of b' = text_of b"

lemma log_part_logs: "log_part a = log_part b \<Longrightarrow> text_of a = text_of b \<Longrightarrow> kept b a"
  using logs_cong [of a b] by (simp add: kept_def)

lemma push_frame_logs [simp]:
  "undo_log (b\<lparr>buf := m, gap_start := g\<rparr>) = undo_log b"
  "redo_log (b\<lparr>buf := m, gap_start := g\<rparr>) = redo_log b"
  "undo_log (b\<lparr>buf := m\<rparr>) = undo_log b"
  "redo_log (b\<lparr>buf := m\<rparr>) = redo_log b"
  "undo_log (b\<lparr>gap_start := g\<rparr>) = undo_log b"
  "redo_log (b\<lparr>gap_start := g\<rparr>) = redo_log b"
  "undo_log (b\<lparr>gap_end := g\<rparr>) = undo_log b"
  "redo_log (b\<lparr>gap_end := g\<rparr>) = redo_log b"
  by (simp_all add: undo_log_def redo_log_def)

lemma insert_pushed:
  assumes "gb_inv b" and "\<not> undo_replaying b"
  shows "(\<exists>e. \<not> is_mark e \<and> pushed e b (buf_insert c b)) \<or> buf_insert c b = b"
proof (cases "gap_start b < gap_end b")
  case True
  let ?e = "\<lparr>ue_type = UNDO_INSERT, ue_pos = gap_start b, ue_ch = c\<rparr>"
  have "length (text_of b) < BUFFER_SIZE" using gap_full_iff [OF assms(1)] True by simp
  then have "pushed ?e b (buf_insert c b)"
    using True assms buf_insert_text [OF assms(1), of c] cursor_le_text [of b]
    by (simp add: pushed_def apply_entry_def fits_apply_def fits_put_def put_at_def)
      (simp add: buf_insert_def undo_log_push redo_log_push)
  then show ?thesis by (intro disjI1 exI [of _ ?e]) simp
qed (simp add: buf_insert_def)

lemma delete_fwd_pushed:
  assumes "gb_inv b" and "\<not> undo_replaying b"
  shows "(\<exists>e. \<not> is_mark e \<and> pushed e b (buf_delete_fwd b)) \<or> buf_delete_fwd b = b"
proof (cases "gap_end b < BUFFER_SIZE")
  case True
  let ?e = "\<lparr>ue_type = UNDO_DELETE, ue_pos = gap_start b, ue_ch = buf b (gap_end b)\<rparr>"
  have "gap_start b < length (text_of b)" using at_end_iff [OF assms(1)] True by simp
  moreover have "text_of b ! gap_start b = buf b (gap_end b)"
    using True by (simp add: text_of_def nth_append)
  ultimately have "pushed ?e b (buf_delete_fwd b)"
    using True assms buf_delete_fwd_text [OF assms(1)] length_text_of [OF assms(1)]
    by (simp add: pushed_def apply_entry_def fits_apply_def fits_cut_def cut_at_def)
      (simp add: buf_delete_fwd_def undo_log_push redo_log_push)
  then show ?thesis by (intro disjI1 exI [of _ ?e]) simp
qed (simp add: buf_delete_fwd_def)

lemma delete_back_pushed:
  assumes "gb_inv b" and "\<not> undo_replaying b"
  shows "(\<exists>e. \<not> is_mark e \<and> pushed e b (buf_delete_back b)) \<or> buf_delete_back b = b"
proof (cases "gap_start b > 0")
  case True
  let ?e = "\<lparr>ue_type = UNDO_DELETE, ue_pos = gap_start b - 1, ue_ch = buf b (gap_start b - 1)\<rparr>"
  have "gap_start b - 1 < length (text_of b)" using cursor_le_text [of b] True by simp
  moreover have "text_of b ! (gap_start b - 1) = buf b (gap_start b - 1)"
    using True by (simp add: text_of_def nth_append)
  ultimately have "pushed ?e b (buf_delete_back b)"
    using True assms buf_delete_back_text [OF assms(1)] length_text_of [OF assms(1)]
    by (simp add: pushed_def apply_entry_def fits_apply_def fits_cut_def cut_at_def)
      (simp add: buf_delete_back_def undo_log_push redo_log_push)
  then show ?thesis by (intro disjI1 exI [of _ ?e]) simp
qed (simp add: buf_delete_back_def)

lemma undo_boundary_cases:
  assumes "gb_inv b" and "\<not> undo_replaying b"
  shows "(\<exists>e. is_mark e \<and> undo_log b \<noteq> [] \<and> \<not> is_mark (hd (undo_log b)) \<and>
            pushed e b (buf_undo_boundary b)) \<or> buf_undo_boundary b = b"
proof (cases "undo_count b = 0 \<or> is_mark (undo_stack b (undo_prev b))")
  case False
  let ?e = "\<lparr>ue_type = UNDO_BOUNDARY, ue_pos = 0, ue_ch = 0\<rparr>"
  have "pushed ?e b (buf_undo_boundary b)"
    using False assms by (simp add: pushed_def apply_entry_def fits_apply_def buf_undo_boundary_def
        undo_log_push redo_log_push)
  then show ?thesis
    using False hd_undo_log [of b] by (intro disjI1 exI [of _ ?e]) simp
qed (auto simp: buf_undo_boundary_def)

lemma marks_apart_take:
  assumes "marks_apart (rev (e # u))"
  shows "marks_apart (rev (take n (e # u)))"
proof -
  have "rev (e # u) = rev (drop n (e # u)) @ rev (take n (e # u))"
    by (metis append_take_drop_id rev_append)
  then show ?thesis
    using assms unfolding marks_apart_def by (metis successively_append_iff)
qed

lemma pushed_ok:
  assumes "hist_ok (hist_of b)" and "pushed e b b'"
    and "\<not> is_mark e \<or> undo_log b = [] \<or> \<not> is_mark (hd (undo_log b))"
  shows "hist_ok (hist_of b')"
proof -
  have "marks_apart (rev (undo_log b))"
    using assms(1) by (auto simp: hist_of_def marks_apart_def successively_append_iff)
  then have "marks_apart (rev (e # undo_log b))"
    using assms(3) by (auto simp: marks_apart_def successively_append_iff last_rev)
  moreover have "undo_ok (text_of b') (e # undo_log b)"
    using assms revert_apply [of e "text_of b"] by (simp add: hist_of_def pushed_def)
  ultimately show ?thesis
    using assms(2) marks_apart_take [of e "undo_log b"] undo_ok_take
    by (simp add: hist_of_def pushed_def del: undo_log_Nil redo_log_Nil)
qed

lemma kept_ok: "hist_ok (hist_of b) \<Longrightarrow> kept b b' \<Longrightarrow> hist_ok (hist_of b')"
  by (simp add: kept_def hist_of_def)

lemma buf_undo_boundary_inv: "gb_inv b \<Longrightarrow> gb_inv (buf_undo_boundary b)"
  by (simp add: buf_undo_boundary_def undo_push_inv)

lemma buf_undo_replaying: "\<not> undo_replaying b \<Longrightarrow> \<not> undo_replaying (snd (buf_undo b))"
  by (simp add: buf_undo_def Let_def)

lemma buf_redo_replaying: "\<not> undo_replaying b \<Longrightarrow> \<not> undo_replaying (snd (buf_redo b))"
  by (simp add: buf_redo_def Let_def)

lemma move_kept:
  "gb_inv b \<Longrightarrow> kept b (buf_move_left b)" "gb_inv b \<Longrightarrow> kept b (buf_move_right b)"
  "gb_inv b \<Longrightarrow> kept b (buf_move_to p b)"
  by (simp_all add: log_part_logs buf_move_left_text buf_move_right_text buf_move_to_text buf_move_to_log)

lemma edit_step_inv:
  assumes "gb_inv b" and "hist_ok (hist_of b)"
  shows "gb_inv (edit_step e b)"
proof -
  have "undo_ok (text_of b) (undo_log b)" "redo_ok (text_of b) (redo_log b)"
    using assms(2) by (simp_all add: hist_of_def)
  then show ?thesis
    using assms(1) buf_undo_spec buf_redo_spec
    by (cases e) (simp_all add: buf_insert_inv buf_delete_back_inv buf_delete_fwd_inv
        buf_move_left_inv buf_move_right_inv buf_move_to_inv buf_undo_boundary_inv)
qed

lemma edit_step_replaying:
  assumes "gb_inv b" and "\<not> undo_replaying b"
  shows "\<not> undo_replaying (edit_step e b)"
  using assms replaying_log_part [OF buf_move_to_log] buf_undo_replaying buf_redo_replaying
  by (cases e) (auto simp: buf_insert_def buf_delete_back_def buf_delete_fwd_def buf_move_left_def
      buf_move_right_def buf_undo_boundary_def)

lemma edit_step_ok: "buf_ok b \<Longrightarrow> buf_ok (edit_step e b)"
proof -
  assume "buf_ok b"
  note ok = buf_okD [OF this]
  have inv: "gb_inv (edit_step e b)" "\<not> undo_replaying (edit_step e b)"
    using ok edit_step_inv edit_step_replaying by simp_all
  have "hist_ok (hist_of (edit_step e b))"
  proof (cases e)
    case (Insert c)
    then show ?thesis using ok insert_pushed [of b c] by (auto intro: pushed_ok)
  next
    case DeleteBack
    then show ?thesis using ok delete_back_pushed [of b] by (auto intro: pushed_ok)
  next
    case DeleteFwd
    then show ?thesis using ok delete_fwd_pushed [of b] by (auto intro: pushed_ok)
  next
    case Mark
    then show ?thesis using ok undo_boundary_cases [of b] by (auto intro: pushed_ok)
  next
    case Undo
    then show ?thesis using ok buf_undo_spec [of b] undo_hist_ok by simp
  next
    case Redo
    then show ?thesis using ok buf_redo_spec [of b] redo_hist_ok by simp
  qed (use ok move_kept in \<open>auto intro: kept_ok\<close>)
  with inv show "buf_ok (edit_step e b)" by (simp add: buf_ok_def)
qed

lemma buf_reach_ok: "buf_reach b \<Longrightarrow> buf_ok b"
proof (induction rule: buf_reach.induct)
  case (init b)
  have "undo_log (buf_init b) = []" "redo_log (buf_init b) = []"
    by (simp_all add: undo_log_def redo_log_def buf_init_def)
  then show ?case
    by (simp add: buf_ok_def hist_of_def buf_init_inv marks_apart_def del: undo_log_Nil redo_log_Nil)
      (simp add: buf_init_def)
next
  case (load content len b)
  have "undo_log (buf_load content len b) = []" "redo_log (buf_load content len b) = []"
    by (simp_all add: undo_log_def redo_log_def buf_init_def buf_load_def Let_def)
  then show ?case
    by (simp add: buf_ok_def hist_of_def buf_load_inv marks_apart_def del: undo_log_Nil redo_log_Nil)
      (simp add: buf_init_def buf_load_def Let_def)
next
  case (step b e)
  then show ?case by (simp add: edit_step_ok)
qed

section \<open>The list editor the buffer refines\<close>

fun plain_edit :: "edit \<Rightarrow> bool" where
  "plain_edit Undo = False"
| "plain_edit Redo = False"
| "plain_edit Mark = False"
| "plain_edit _ = True"

fun list_step :: "edit \<Rightarrow> byte list \<times> nat \<Rightarrow> byte list \<times> nat" where
  "list_step (Insert c) (t, k) = (if length t < BUFFER_SIZE then (take k t @ c # drop k t, k + 1) else (t, k))"
| "list_step DeleteBack (t, k) = (take (k - 1) t @ drop k t, k - 1)"
| "list_step DeleteFwd (t, k) = (take k t @ drop (k + 1) t, k)"
| "list_step MoveLeft (t, k) = (t, k - 1)"
| "list_step MoveRight (t, k) = (t, min (k + 1) (length t))"
| "list_step (MoveTo p) (t, k) = (t, min p (length t))"
| "list_step _ s = s"

definition view_of :: "gbuf \<Rightarrow> byte list \<times> nat" where
  "view_of b = (text_of b, gap_start b)"

lemma buf_move_right_cursor:
  "gb_inv b \<Longrightarrow> gap_start (buf_move_right b) = min (gap_start b + 1) (length (text_of b))"
  using at_end_iff [of b] cursor_le_text [of b] by (auto simp: buf_move_right_def)

lemma buf_move_left_cursor: "gap_start (buf_move_left b) = gap_start b - 1"
  by (simp add: buf_move_left_def)

lemma undo_boundary_view: "view_of (buf_undo_boundary b) = view_of b"
  by (simp add: view_of_def buf_undo_boundary_def)

lemma edit_step_view:
  assumes "gb_inv b" and "e \<noteq> Undo" and "e \<noteq> Redo"
  shows "view_of (edit_step e b) = list_step e (view_of b)"
  using assms by (cases e) (simp_all add: view_of_def buf_insert_text buf_insert_cursor
      buf_delete_back_text buf_delete_back_cursor buf_delete_fwd_text buf_delete_fwd_cursor
      buf_move_left_text buf_move_left_cursor buf_move_right_text buf_move_right_cursor
      buf_move_to_text buf_move_to_cursor undo_boundary_view [unfolded view_of_def])

lemma edits_view:
  "buf_ok b \<Longrightarrow> Undo \<notin> set es \<Longrightarrow> Redo \<notin> set es \<Longrightarrow>
     view_of (fold edit_step es b) = fold list_step es (view_of b)"
proof (induction es arbitrary: b)
  case Nil
  then show ?case by simp
next
  case (Cons e es)
  then have "e \<noteq> Undo" "e \<noteq> Redo" by auto
  with Cons.prems(1) have "view_of (edit_step e b) = list_step e (view_of b)"
    by (intro edit_step_view) (rule buf_okD)
  then show ?case using Cons edit_step_ok [of b e] by simp
qed

text \<open>A run of plain edits pushes a run of entries that leads back to the text it started from.\<close>

lemma fold_revert_append:
  "fold revert_entry (es @ fs) t = fold revert_entry fs (fold revert_entry es t)"
  by simp

lemma plain_step_logs:
  assumes "buf_ok b" and "plain_edit e"
  shows "\<exists>ps. undo_log (edit_step e b) = take UNDO_STACK_SIZE (ps @ undo_log b) \<and>
           (\<forall>p \<in> set ps. \<not> is_mark p) \<and> length ps \<le> 1 \<and> undo_ok (text_of (edit_step e b)) ps \<and>
           fold revert_entry ps (text_of (edit_step e b)) = text_of b"
proof -
  note ok = buf_okD [OF assms(1)]
  have short: "take UNDO_STACK_SIZE (undo_log b) = undo_log b"
    using ok(1) by (simp add: gb_inv_def)
  let ?P = "\<lambda>b' ps. undo_log b' = take UNDO_STACK_SIZE (ps @ undo_log b) \<and>
           (\<forall>p \<in> set ps. \<not> is_mark p) \<and> length ps \<le> 1 \<and> undo_ok (text_of b') ps \<and>
           fold revert_entry ps (text_of b') = text_of b"
  have one: "\<exists>ps. ?P b' ps" if "(\<exists>e. \<not> is_mark e \<and> pushed e b b') \<or> b' = b" for b'
    using that
  proof
    assume "\<exists>e. \<not> is_mark e \<and> pushed e b b'"
    then obtain e where "\<not> is_mark e" "pushed e b b'" by blast
    then have "?P b' [e]" using revert_apply [of e "text_of b"] by (simp add: pushed_def)
    then show ?thesis by blast
  next
    assume "b' = b"
    then have "?P b' []" using short by simp
    then show ?thesis by blast
  qed
  have none: "\<exists>ps. ?P b' ps" if "kept b b'" for b'
  proof -
    have "?P b' []" using that short by (simp add: kept_def)
    then show ?thesis by blast
  qed
  show ?thesis
    using assms(2) ok one [OF insert_pushed] one [OF delete_back_pushed] one [OF delete_fwd_pushed]
      none [OF move_kept(1)] none [OF move_kept(2)] none [OF move_kept(3)]
    by (cases e) simp_all
qed

lemma take_append_take: "take n (xs @ take n ys) = take n (xs @ ys)"
  by (simp add: min_def)

lemma plain_edits_logs:
  "buf_ok b \<Longrightarrow> \<forall>e \<in> set es. plain_edit e \<Longrightarrow>
     \<exists>ps. undo_log (fold edit_step es b) = take UNDO_STACK_SIZE (ps @ undo_log b) \<and>
       (\<forall>p \<in> set ps. \<not> is_mark p) \<and> length ps \<le> length es \<and>
       undo_ok (text_of (fold edit_step es b)) ps \<and>
       fold revert_entry ps (text_of (fold edit_step es b)) = text_of b"
proof (induction es arbitrary: b)
  case Nil
  then have "take UNDO_STACK_SIZE (undo_log b) = undo_log b"
    using buf_okD(1) [OF Nil(1)] by (simp add: gb_inv_def)
  then show ?case by (intro exI [of _ "[]"]) simp
next
  case (Cons e es)
  let ?b = "edit_step e b"
  obtain p1 where p1: "undo_log ?b = take UNDO_STACK_SIZE (p1 @ undo_log b)"
    "\<forall>p \<in> set p1. \<not> is_mark p" "length p1 \<le> 1" "undo_ok (text_of ?b) p1"
    "fold revert_entry p1 (text_of ?b) = text_of b"
    using plain_step_logs [OF Cons.prems(1), of e] Cons.prems(2) by auto
  obtain p2 where p2: "undo_log (fold edit_step es ?b) = take UNDO_STACK_SIZE (p2 @ undo_log ?b)"
    "\<forall>p \<in> set p2. \<not> is_mark p" "length p2 \<le> length es"
    "undo_ok (text_of (fold edit_step es ?b)) p2"
    "fold revert_entry p2 (text_of (fold edit_step es ?b)) = text_of ?b"
    using Cons.IH [OF edit_step_ok [OF Cons.prems(1)]] Cons.prems(2)
    by (metis list.set_intros(2))
  have "undo_log (fold edit_step (e # es) b) = take UNDO_STACK_SIZE ((p2 @ p1) @ undo_log b)"
    using p1(1) p2(1) by (simp only: fold.simps comp_apply take_append_take append.assoc)
  with p1 p2 show ?case
    by (intro exI [of _ "p2 @ p1"]) (auto simp: undo_ok_append)
qed

lemma edits_ok: "buf_ok b \<Longrightarrow> buf_ok (fold edit_step es b)"
  by (induction es arbitrary: b) (simp_all add: edit_step_ok)

lemma boundary_log:
  assumes "buf_ok b"
  shows "undo_log (buf_undo_boundary b) = [] \<or> is_mark (hd (undo_log (buf_undo_boundary b)))"
proof (cases "undo_count b = 0 \<or> is_mark (undo_stack b (undo_prev b))")
  case True
  then show ?thesis
    using hd_undo_log [of b] by (cases "undo_count b = 0") (auto simp: buf_undo_boundary_def)
next
  case False
  then have "undo_log (buf_undo_boundary b)
      = take UNDO_STACK_SIZE (\<lparr>ue_type = UNDO_BOUNDARY, ue_pos = 0, ue_ch = 0\<rparr> # undo_log b)"
    using buf_okD [OF assms] by (simp add: buf_undo_boundary_def undo_log_push)
  then show ?thesis by (simp add: take_Cons' del: undo_log_Nil)
qed

lemma take_group_log:
  assumes "length ps < n" and "\<forall>p \<in> set ps. \<not> is_mark p" and "u = [] \<or> is_mark (hd u)"
  shows "takeWhile (\<lambda>e. \<not> is_mark e) (take n (ps @ u)) = ps"
proof -
  have "take n (ps @ u) = ps @ take (n - length ps) u" using assms(1) by simp
  moreover have "take (n - length ps) u = [] \<or> is_mark (hd (take (n - length ps) u))"
    using assms(1,3) by (cases u) (auto simp: take_Cons')
  ultimately show ?thesis using takeWhile_group assms(2) by metis
qed

lemma undo_after_edits:
  assumes ok: "buf_ok b" and plain: "\<forall>e \<in> set es. plain_edit e" and len: "length es < UNDO_STACK_SIZE"
    and log: "undo_log b = [] \<or> is_mark (hd (undo_log b))"
    and changed: "text_of (fold edit_step es b) \<noteq> text_of b"
  shows "fst (buf_undo (fold edit_step es b)) \<and>
         text_of (snd (buf_undo (fold edit_step es b))) = text_of b"
proof -
  let ?b = "fold edit_step es b"
  obtain ps where ps: "undo_log ?b = take UNDO_STACK_SIZE (ps @ undo_log b)"
    "\<forall>p \<in> set ps. \<not> is_mark p" "length ps \<le> length es"
    "undo_ok (text_of ?b) ps" "fold revert_entry ps (text_of ?b) = text_of b"
    using plain_edits_logs [OF ok plain] by auto
  have lt: "length ps < UNDO_STACK_SIZE" using ps(3) len by simp
  have ne: "ps \<noteq> []" using ps(5) changed by auto
  then obtain e ps' where e: "ps = e # ps'" by (cases ps) auto
  have grp: "takeWhile (\<lambda>e. \<not> is_mark e) (undo_log ?b) = ps"
    using take_group_log [OF lt ps(2) log] ps(1) by simp
  have em: "\<not> is_mark e" using ps(2) e by simp
  have "take UNDO_STACK_SIZE (ps @ undo_log b) = e # take (UNDO_STACK_SIZE - 1) (ps' @ undo_log b)"
    using e by (simp add: take_Cons')
  then obtain u' where cons: "undo_log ?b = e # u'" using ps(1) by simp
  have skip: "skip_undo_mark (hist_of ?b) = hist_of ?b"
    using cons em by (simp add: hist_of_def)
  have ne': "fst (hist_of ?b) \<noteq> []" using cons by (simp add: hist_of_def del: undo_log_Nil)
  have "undo_list (hist_of ?b) = (dropWhile (\<lambda>e. \<not> is_mark e) (undo_log ?b),
      rev ps @ redo_log ?b, text_of b)"
    by (simp only: hist_of_def undo_list.simps Let_def grp ps(5))
  then have "undo_hist (hist_of ?b) = (True, dropWhile (\<lambda>e. \<not> is_mark e) (undo_log ?b),
      rev ps @ redo_log ?b, text_of b)"
    using ne' by (simp only: undo_hist_def Let_def skip if_False)
  moreover have "buf_ok ?b" using ok by (rule edits_ok)
  ultimately show ?thesis
    using buf_undo_spec [of ?b] buf_okD [of ?b] by (simp add: hist_of_def)
qed

section \<open>Properties\<close>

text \<open>
  C23: in every state the editor can reach, the gap lies inside the array, the circular undo stack
  is not over-full, and every logged entry can be taken back from (or applied to) the text it
  stands on, all the way down both stacks.
\<close>

theorem buffer_invariant:
  assumes "buf_reach b"
  shows "gap_start b \<le> gap_end b \<and> gap_end b \<le> BUFFER_SIZE \<and> undo_top b < UNDO_STACK_SIZE \<and>
         undo_count b + redo_count b \<le> UNDO_STACK_SIZE \<and>
         undo_ok (text_of b) (undo_log b) \<and> redo_ok (text_of b) (redo_log b)"
  using buf_okD [OF buf_reach_ok [OF assms]] by (simp add: gb_inv_def)

lemma buffer_invariant_witness:
  "undo_ok (text_of (edit_step (Insert 65) (buf_init gbuf0))) (undo_log (edit_step (Insert 65) (buf_init gbuf0)))"
  using buffer_invariant [OF buf_reach.step [OF buf_reach.init [of gbuf0], of "Insert 65"]] by blast

text \<open>
  C19: the gap buffer refines a list with a cursor: any sequence of insertions, deletions and cursor
  moves has on text and cursor exactly the effect of the list operations, including the insertion
  that is refused when 32768 bytes are in use.
\<close>

theorem buffer_refines_list:
  assumes "buf_reach b" and "Undo \<notin> set es" and "Redo \<notin> set es"
  shows "view_of (fold edit_step es b) = fold list_step es (view_of b)"
  using edits_view [OF buf_reach_ok [OF assms(1)] assms(2,3)] .

lemma buffer_refines_list_witness:
  "view_of (fold edit_step [Insert 65, Insert 66, MoveLeft, Insert 67, DeleteFwd] (buf_init gbuf0))
     = ([65, 67], 2)"
  using buffer_refines_list [OF buf_reach.init [of gbuf0],
      of "[Insert 65, Insert 66, MoveLeft, Insert 67, DeleteFwd]"]
  by (simp add: view_of_def buf_init_text) (simp add: buf_init_def BUFFER_SIZE_def)

text \<open>
  C6: one undo takes a whole command back: after \<open>buf_undo_boundary\<close> and fewer than 2048 plain
  edits that changed the text, \<open>buf_undo\<close> returns true and the text is again the one at the
  boundary.
\<close>

theorem undo_restores_text:
  assumes "buf_reach b" and "\<forall>e \<in> set es. plain_edit e" and "length es < UNDO_STACK_SIZE"
    and "text_of (fold edit_step es (buf_undo_boundary b)) \<noteq> text_of b"
  shows "fst (buf_undo (fold edit_step es (buf_undo_boundary b))) \<and>
         text_of (snd (buf_undo (fold edit_step es (buf_undo_boundary b)))) = text_of b"
proof -
  have ok: "buf_ok b" using assms(1) by (rule buf_reach_ok)
  then have "buf_ok (buf_undo_boundary b)" using edit_step_ok [of b Mark] by simp
  moreover have "text_of (buf_undo_boundary b) = text_of b"
    using undo_boundary_view [of b] by (simp add: view_of_def)
  ultimately show ?thesis
    using undo_after_edits [OF _ assms(2,3) boundary_log [OF ok]] assms(4) by simp
qed

lemma undo_restores_text_witness:
  "text_of (snd (buf_undo (fold edit_step [Insert 65, Insert 66] (buf_undo_boundary (buf_init gbuf0))))) = []"
proof -
  have r: "buf_reach (buf_init gbuf0)" by (rule buf_reach.init)
  have b0: "buf_undo_boundary (buf_init gbuf0) = buf_init gbuf0"
    by (simp add: buf_undo_boundary_def buf_init_def)
  have "view_of (fold edit_step [Insert 65, Insert 66] (buf_init gbuf0)) = ([65, 66], 2)"
    using edits_view [OF buf_reach_ok [OF r], of "[Insert 65, Insert 66]"]
    by (simp add: view_of_def buf_init_text) (simp add: buf_init_def BUFFER_SIZE_def)
  then have "text_of (fold edit_step [Insert 65, Insert 66] (buf_undo_boundary (buf_init gbuf0)))
      \<noteq> text_of (buf_init gbuf0)"
    by (simp only: b0 view_of_def prod.inject buf_init_text) simp
  then show ?thesis
    using undo_restores_text [OF r, of "[Insert 65, Insert 66]"]
    by (simp add: UNDO_STACK_SIZE_def buf_init_text)
qed

text \<open>
  C18: redo takes back an undo and undo takes back a redo: in a reachable state, whenever the first
  call returns true the second one does too and the text is the one before both.
\<close>

theorem undo_redo_inverse:
  assumes "buf_reach b"
  shows "(fst (buf_undo b) \<longrightarrow> fst (buf_redo (snd (buf_undo b))) \<and>
            text_of (snd (buf_redo (snd (buf_undo b)))) = text_of b) \<and>
         (fst (buf_redo b) \<longrightarrow> fst (buf_undo (snd (buf_redo b))) \<and>
            text_of (snd (buf_undo (snd (buf_redo b)))) = text_of b)"
proof -
  note ok = buf_okD [OF buf_reach_ok [OF assms]]
  note u = buf_undo_spec [OF ok(1,3)] and r = buf_redo_spec [OF ok(1,4)]
  have ou: "buf_ok (snd (buf_undo b))" and orr: "buf_ok (snd (buf_redo b))"
    using edit_step_ok [OF buf_reach_ok [OF assms], of Undo]
      edit_step_ok [OF buf_reach_ok [OF assms], of Redo] by simp_all
  note ur = buf_redo_spec [OF buf_okD(1) [OF ou] buf_okD(4) [OF ou]]
    and ru = buf_undo_spec [OF buf_okD(1) [OF orr] buf_okD(3) [OF orr]]
  have hist_text: "text_of x = snd (snd (hist_of x))" for x by (simp add: hist_of_def)
  have "undo_hist (hist_of b) = (True, hist_of (snd (buf_undo b)))" if "fst (buf_undo b)"
    using that u by (metis prod.collapse)
  moreover have "redo_hist (hist_of b) = (True, hist_of (snd (buf_redo b)))" if "fst (buf_redo b)"
    using that r by (metis prod.collapse)
  ultimately show ?thesis
    using ur ru undo_hist_redo [OF ok(5), of "hist_of (snd (buf_undo b))"]
      redo_hist_undo [OF ok(5), of "hist_of (snd (buf_redo b))"]
    by (simp add: hist_text)
qed

lemma undo_redo_inverse_witness:
  "text_of (snd (buf_redo (snd (buf_undo (buf_insert 65 (buf_init gbuf0)))))) = [65]"
proof -
  have r: "buf_reach (buf_insert 65 (buf_init gbuf0))"
    using buf_reach.step [OF buf_reach.init [of gbuf0], of "Insert 65"] by simp
  have "text_of (buf_insert 65 (buf_init gbuf0)) = [65]"
    by (simp add: buf_insert_text buf_init_inv buf_init_text) (simp add: BUFFER_SIZE_def)
  moreover have "fst (buf_undo (buf_insert 65 (buf_init gbuf0)))"
    by (simp add: buf_undo_def buf_insert_def buf_init_def undo_push_def undo_prev_def
        BUFFER_SIZE_def UNDO_STACK_SIZE_def Let_def)
  ultimately show ?thesis using undo_redo_inverse [OF r] by simp
qed

text \<open>
  The line index agrees with the text: the number of lines and the cursor's line count the
  newlines, and the start of the cursor's line plus the cursor's column is the cursor.
\<close>

theorem line_index_correct:
  assumes "buf_reach b"
  shows "buf_line_count b = 1 + count_list (text_of b) NL \<and>
         buf_cursor_line b = count_list (take (buf_cursor_pos b) (text_of b)) NL \<and>
         buf_line_start b (buf_cursor_line b) + buf_cursor_col b = buf_cursor_pos b"
proof -
  have inv: "gb_inv b" using assms by (intro buf_okD(1) buf_reach_ok)
  let ?t = "take (gap_start b) (text_of b)" and ?u = "drop (gap_start b) (text_of b)"
  have "line_offset (?t @ ?u) (count_list ?t NL) + length (takeWhile (\<lambda>c. c \<noteq> NL) (rev ?t)) = length ?t"
    by (rule line_offset_plus_column)
  then show ?thesis
    using cursor_le_text [of b] by (simp add: buf_line_count_eq inv buf_cursor_line_eq
        buf_cursor_pos_def buf_line_start_eq buf_cursor_col_def cursor_col_while_eq)
qed

lemma line_index_correct_witness:
  "buf_line_count (buf_insert NL (buf_init gbuf0)) = 2 \<and>
   buf_line_start (buf_insert NL (buf_init gbuf0)) 1 + buf_cursor_col (buf_insert NL (buf_init gbuf0)) = 1"
proof -
  have r: "buf_reach (buf_insert NL (buf_init gbuf0))"
    using buf_reach.step [OF buf_reach.init [of gbuf0], of "Insert NL"] by simp
  have "text_of (buf_insert NL (buf_init gbuf0)) = [NL]"
    by (simp add: buf_insert_text buf_init_inv buf_init_text) (simp add: BUFFER_SIZE_def)
  moreover have "buf_cursor_pos (buf_insert NL (buf_init gbuf0)) = 1"
    by (simp add: buf_cursor_pos_def buf_insert_def buf_init_def BUFFER_SIZE_def)
  ultimately show ?thesis using line_index_correct [OF r] by auto
qed

text \<open>
  What the editor saves is its text: \<open>buf_get_content\<close> returns the smaller of the text's
  length and the room in the output array, and the output array then starts with that many bytes of
  the text.
\<close>

theorem get_content_correct:
  assumes "buf_reach b"
  shows "fst (buf_get_content b out mx) = min mx (length (text_of b)) \<and>
         seg (snd (buf_get_content b out mx)) 0 (min mx (length (text_of b))) = take mx (text_of b)"
  using buf_get_content_eq buf_okD(1) buf_reach_ok assms by blast

lemma get_content_correct_witness:
  "seg (snd (buf_get_content (buf_load (\<lambda>i. of_nat i) 3 gbuf0) (\<lambda>_. 0) 2)) 0 2 = [0, 1]"
proof -
  have r: "buf_reach (buf_load (\<lambda>i. of_nat i) 3 gbuf0)" by (rule buf_reach.load)
  have "text_of (buf_load (\<lambda>i. of_nat i) 3 gbuf0) = [0, 1, 2]"
    by (simp add: buf_load_text BUFFER_SIZE_def seg_def upt_rec)
  then show ?thesis using get_content_correct [OF r, of "\<lambda>_. 0" 2] by (simp add: numeral_2_eq_2)
qed

end
