(* ===== verification/Keyboard.thy ===== *)
theory Keyboard
  imports Prelude "HOL-Library.Sublist"
begin

text \<open>
  The PS/2 keyboard driver, \<open>kernel/drivers/keyboard.c\<close>: the ring buffer between the interrupt
  handler and its readers, the scancode decoder with its modifier state, and the held-key tables.
  The byte the handler reads from the data port is an argument of \<open>keyboard_irq_handler\<close>; a
  reader that halts until an interrupt arrives is a function of the scancodes still to come. The
  locale \<open>bounded_queue\<close> is the contract of the ring, \<open>ring\<close> its interpretation.
\<close>

section \<open>State\<close>

definition KBD_BUF_SIZE :: nat where "KBD_BUF_SIZE = 64"

record kbd =
  kbd_ring :: "nat \<Rightarrow> int"
  kbd_head :: nat
  kbd_tail :: nat
  shift_held :: bool
  ctrl_held :: bool
  extended :: bool
  key_pressed :: bool
  key_down :: "nat \<Rightarrow> byte"
  ext_down :: "nat \<Rightarrow> byte"

abbreviation keys_of :: "string \<Rightarrow> int list" where
  "keys_of s \<equiv> map of_char s"

definition numpad_tail :: "char \<Rightarrow> int list" where
  "numpad_tail c = keys_of ''*'' @ [0] @ keys_of '' '' @ [0] @ replicate 10 0 @ [0, 0] @
     [0, 0, 0] @ keys_of ''-'' @ [0, 0, 0] @ keys_of ''+'' @ [0, 0, 0, 0, 0] @ [0, 0] @ [of_char c, 0]"

definition scancode_ascii :: "int list" where
  "scancode_ascii =
     [0, 27] @ keys_of ''1234567890-='' @ [8, 9] @ keys_of ''qwertzuiop[+'' @ [10] @
     [0] @ keys_of ''asdfghjkl;'' @ [39] @ keys_of ''^'' @
     [0] @ keys_of ''#yxcvbnm,.-'' @ [0] @ numpad_tail (CHR ''<'')"

definition scancode_ascii_shift :: "int list" where
  "scancode_ascii_shift =
     [0, 27] @ keys_of ''!'' @ [34] @ keys_of ''#$%&/()=?`'' @ [8, 9] @ keys_of ''QWERTZUIOP{*'' @ [10] @
     [0] @ keys_of ''ASDFGHJKL:'' @ [34] @ keys_of ''~'' @
     [0, 39] @ keys_of ''YXCVBNM;:_'' @ [0] @ numpad_tail (CHR ''>'')"

text \<open>The tables have 128 entries; those after the initialisers are zero.\<close>

definition table_entry :: "int list \<Rightarrow> nat \<Rightarrow> int" where
  "table_entry tab i = (if i < length tab then tab ! i else 0)"

definition KEY_UP :: int where "KEY_UP = 0x80"
definition KEY_DOWN :: int where "KEY_DOWN = 0x81"
definition KEY_LEFT :: int where "KEY_LEFT = 0x82"
definition KEY_RIGHT :: int where "KEY_RIGHT = 0x83"
definition KEY_HOME :: int where "KEY_HOME = 0x84"
definition KEY_END :: int where "KEY_END = 0x85"
definition KEY_PGUP :: int where "KEY_PGUP = 0x86"
definition KEY_PGDN :: int where "KEY_PGDN = 0x87"
definition KEY_DELETE :: int where "KEY_DELETE = 0x88"

lemmas key_consts = KEY_UP_def KEY_DOWN_def KEY_LEFT_def KEY_RIGHT_def KEY_HOME_def KEY_END_def
  KEY_PGUP_def KEY_PGDN_def KEY_DELETE_def

section \<open>Operations\<close>

definition kbd_push :: "int \<Rightarrow> kbd \<Rightarrow> kbd" where
  "kbd_push key s =
     (let next = (kbd_head s + 1) mod KBD_BUF_SIZE in
      if next \<noteq> kbd_tail s
      then s\<lparr>kbd_ring := (kbd_ring s)(kbd_head s := key), kbd_head := next\<rparr>
      else s)"

definition extended_key :: "byte \<Rightarrow> int" where
  "extended_key scancode =
     (if scancode = 0x48 then KEY_UP else if scancode = 0x50 then KEY_DOWN
      else if scancode = 0x4B then KEY_LEFT else if scancode = 0x4D then KEY_RIGHT
      else if scancode = 0x47 then KEY_HOME else if scancode = 0x4F then KEY_END
      else if scancode = 0x49 then KEY_PGUP else if scancode = 0x51 then KEY_PGDN
      else if scancode = 0x53 then KEY_DELETE else 0)"

definition code_index :: "byte \<Rightarrow> nat" where
  "code_index scancode = unat (scancode AND 0x7F)"

definition ctrl_code :: "bool \<Rightarrow> int \<Rightarrow> int" where
  "ctrl_code ctrl c =
     (if ctrl \<and> c \<ge> 97 \<and> c \<le> 122 then c AND 0x1F
      else if ctrl \<and> c \<ge> 65 \<and> c \<le> 90 then c AND 0x1F else c)"

definition key_press :: "int \<Rightarrow> kbd \<Rightarrow> kbd" where
  "key_press key s = kbd_push key (s\<lparr>key_pressed := True\<rparr>)"

definition irq_extended :: "byte \<Rightarrow> kbd \<Rightarrow> kbd" where
  "irq_extended scancode s =
     (let s = s\<lparr>extended := False\<rparr> in
      if scancode AND 0x80 \<noteq> 0 then s\<lparr>ext_down := (ext_down s)(code_index scancode := 0)\<rparr>
      else
        (let s = s\<lparr>ext_down := (ext_down s)(code_index scancode := 1)\<rparr>;
             key = extended_key scancode
         in if key \<noteq> 0 then key_press key s else s))"

definition irq_release :: "byte \<Rightarrow> kbd \<Rightarrow> kbd" where
  "irq_release scancode s =
     (let released = scancode AND 0x7F;
          s = s\<lparr>key_down := (key_down s)(unat released := 0)\<rparr>;
          s = (if released = 0x2A \<or> released = 0x36 then s\<lparr>shift_held := False\<rparr> else s)
      in if released = 0x1D then s\<lparr>ctrl_held := False\<rparr> else s)"

definition irq_press :: "byte \<Rightarrow> kbd \<Rightarrow> kbd" where
  "irq_press scancode s =
     (let s = s\<lparr>key_down := (key_down s)(code_index scancode := 1)\<rparr> in
      if scancode = 0x2A \<or> scancode = 0x36 then s\<lparr>shift_held := True\<rparr>
      else if scancode = 0x1D then s\<lparr>ctrl_held := True\<rparr>
      else
        (let c = (if shift_held s then table_entry scancode_ascii_shift (unat scancode)
                  else table_entry scancode_ascii (unat scancode))
         in if c \<noteq> 0 then key_press (ctrl_code (ctrl_held s) c) s else s))"

definition keyboard_irq_handler :: "byte \<Rightarrow> kbd \<Rightarrow> kbd" where
  "keyboard_irq_handler scancode s =
     (if scancode = 0xE0 then s\<lparr>extended := True\<rparr>
      else if extended s then irq_extended scancode s
      else if scancode AND 0x80 \<noteq> 0 then irq_release scancode s
      else irq_press scancode s)"

definition keyboard_init :: "kbd \<Rightarrow> kbd" where
  "keyboard_init s = s\<lparr>shift_held := False, ctrl_held := False, extended := False,
                       kbd_head := 0, kbd_tail := 0\<rparr>"

definition keyboard_has_key :: "kbd \<Rightarrow> bool" where
  "keyboard_has_key s \<longleftrightarrow> kbd_head s \<noteq> kbd_tail s"

text \<open>
  The body of \<open>keyboard_getchar\<close> once the ring is not empty, and the whole function: it halts
  until an interrupt brings a key (\<open>None\<close>: the scancodes to come never do).
\<close>

definition kbd_pop :: "kbd \<Rightarrow> int \<times> kbd" where
  "kbd_pop s = (kbd_ring s (kbd_tail s), s\<lparr>kbd_tail := (kbd_tail s + 1) mod KBD_BUF_SIZE\<rparr>)"

fun keyboard_getchar :: "byte list \<Rightarrow> kbd \<Rightarrow> (int \<times> byte list \<times> kbd) option" where
  "keyboard_getchar codes s =
     (if kbd_head s = kbd_tail s then
        (case codes of
           [] \<Rightarrow> None
         | c # codes' \<Rightarrow> keyboard_getchar codes' (keyboard_irq_handler c s))
      else Some (fst (kbd_pop s), codes, snd (kbd_pop s)))"

declare keyboard_getchar.simps [simp del]

fun wait_key_pressed :: "byte list \<Rightarrow> kbd \<Rightarrow> (byte list \<times> kbd) option" where
  "wait_key_pressed codes s =
     (if \<not> key_pressed s then
        (case codes of
           [] \<Rightarrow> None
         | c # codes' \<Rightarrow> wait_key_pressed codes' (keyboard_irq_handler c s))
      else Some (codes, s))"

declare wait_key_pressed.simps [simp del]

definition keyboard_wait_any :: "byte list \<Rightarrow> kbd \<Rightarrow> (byte list \<times> kbd) option" where
  "keyboard_wait_any codes s = wait_key_pressed codes (s\<lparr>key_pressed := False\<rparr>)"

definition keyboard_is_down :: "byte \<Rightarrow> kbd \<Rightarrow> bool" where
  "keyboard_is_down scancode s \<longleftrightarrow> key_down s (code_index scancode) \<noteq> 0"

definition keyboard_is_ext_down :: "byte \<Rightarrow> kbd \<Rightarrow> bool" where
  "keyboard_is_ext_down scancode s \<longleftrightarrow> ext_down s (code_index scancode) \<noteq> 0"

definition keyboard_flush :: "kbd \<Rightarrow> kbd" where
  "keyboard_flush s = s\<lparr>kbd_tail := kbd_head s\<rparr>"

section \<open>The contract of a bounded queue\<close>

datatype 'a queue_op = Push 'a | Pop

fun pushes :: "'a queue_op list \<Rightarrow> 'a list" where
  "pushes [] = []"
| "pushes (Push x # ops) = x # pushes ops"
| "pushes (Pop # ops) = pushes ops"

locale bounded_queue =
  fixes inv :: "'q \<Rightarrow> bool"
    and items :: "'q \<Rightarrow> 'a list"
    and capacity :: nat
    and push :: "'a \<Rightarrow> 'q \<Rightarrow> 'q"
    and is_empty :: "'q \<Rightarrow> bool"
    and pop :: "'q \<Rightarrow> 'a \<times> 'q"
  assumes bounded: "inv q \<Longrightarrow> length (items q) \<le> capacity"
    and push_inv: "inv q \<Longrightarrow> inv (push x q)"
    and push_items: "inv q \<Longrightarrow>
          items (push x q) = (if length (items q) < capacity then items q @ [x] else items q)"
    and empty_iff: "inv q \<Longrightarrow> is_empty q \<longleftrightarrow> items q = []"
    and pop_inv: "inv q \<Longrightarrow> items q \<noteq> [] \<Longrightarrow> inv (snd (pop q))"
    and pop_items: "inv q \<Longrightarrow> items q = x # xs \<Longrightarrow> fst (pop q) = x \<and> items (snd (pop q)) = xs"
begin

lemma push_all:
  "inv q \<Longrightarrow> inv (fold push xs q) \<and> items (fold push xs q) = take capacity (items q @ xs)"
proof (induction xs arbitrary: q)
  case Nil
  then show ?case using bounded by simp
next
  case (Cons x xs)
  then show ?case
    using bounded [of q] push_items [of q x] push_inv [of q x]
    by (cases "length (items q) < capacity") (auto simp: Suc_diff_Suc take_Cons')
qed

text \<open>Interleaved pushes and pops: what comes out and what is left.\<close>

fun run :: "'a queue_op list \<Rightarrow> 'q \<Rightarrow> 'a list \<times> 'q" where
  "run [] q = ([], q)"
| "run (Push x # ops) q = run ops (push x q)"
| "run (Pop # ops) q =
     (if is_empty q then run ops q
      else (case pop q of (x, q') \<Rightarrow> (case run ops q' of (ys, q'') \<Rightarrow> (x # ys, q''))))"

lemma run_order:
  "inv q \<Longrightarrow> run ops q = (ys, q') \<Longrightarrow>
     inv q' \<and> subseq (ys @ items q') (items q @ pushes ops) \<and>
     (length (items q @ pushes ops) \<le> capacity \<longrightarrow> ys @ items q' = items q @ pushes ops)"
proof (induction ops arbitrary: q ys)
  case Nil
  then show ?case by auto
next
  case (Cons op ops)
  show ?case
  proof (cases op)
    case (Push x)
    have "run ops (push x q) = (ys, q')" using Cons.prems Push by simp
    note IH = Cons.IH [OF push_inv [OF Cons.prems(1), of x] this]
    show ?thesis
    proof (cases "length (items q) < capacity")
      case True
      then show ?thesis using IH push_items [OF Cons.prems(1), of x] Push by simp
    next
      case False
      then have "items (push x q) = items q" using push_items [OF Cons.prems(1), of x] by simp
      moreover have "subseq (items q @ pushes ops) (items q @ x # pushes ops)"
        by (intro list_emb_append_mono list_emb_Cons) auto
      ultimately show ?thesis
        using IH False Push by (auto intro: subseq_order.trans)
    qed
  next
    case Pop
    show ?thesis
    proof (cases "items q")
      case Nil
      then show ?thesis
        using Cons.IH [OF Cons.prems(1)] Cons.prems empty_iff [OF Cons.prems(1)] Pop by simp
    next
      case (Cons z zs)
      obtain x q1 where p: "pop q = (x, q1)" by fastforce
      obtain ys1 where r: "run ops q1 = (ys1, q')" "ys = x # ys1"
        using Cons.prems(2) Pop p empty_iff [OF Cons.prems(1)] \<open>items q = z # zs\<close>
        by (auto split: prod.splits)
      have "x = z" "items q1 = zs" "inv q1"
        using pop_items [OF Cons.prems(1) \<open>items q = z # zs\<close>] pop_inv [OF Cons.prems(1)] p
          \<open>items q = z # zs\<close> by auto
      then show ?thesis
        using Cons.IH [OF _ r(1)] r(2) Pop \<open>items q = z # zs\<close> by auto
    qed
  qed
qed

end

section \<open>The ring meets the contract\<close>

definition ring_inv :: "kbd \<Rightarrow> bool" where
  "ring_inv s \<longleftrightarrow> kbd_head s < KBD_BUF_SIZE \<and> kbd_tail s < KBD_BUF_SIZE"

definition ring_count :: "kbd \<Rightarrow> nat" where
  "ring_count s = (kbd_head s + KBD_BUF_SIZE - kbd_tail s) mod KBD_BUF_SIZE"

definition ring_items :: "kbd \<Rightarrow> int list" where
  "ring_items s = map (\<lambda>i. kbd_ring s ((kbd_tail s + i) mod KBD_BUF_SIZE)) [0..<ring_count s]"

lemma ring_count_less: "ring_count s < KBD_BUF_SIZE"
  by (simp add: ring_count_def KBD_BUF_SIZE_def)

lemma length_ring_items: "length (ring_items s) = ring_count s"
  by (simp add: ring_items_def)

lemma wrap_index:
  "a < KBD_BUF_SIZE \<Longrightarrow> b \<le> KBD_BUF_SIZE \<Longrightarrow>
     (a + b) mod KBD_BUF_SIZE = (if a + b < 64 then a + b else a + b - 64)"
  by (simp add: KBD_BUF_SIZE_def mod_if)

lemma ring_count_cases:
  assumes "ring_inv s"
  shows "ring_count s = (if kbd_tail s \<le> kbd_head s then kbd_head s - kbd_tail s
                         else kbd_head s + 64 - kbd_tail s)"
  using assms by (auto simp: ring_inv_def ring_count_def KBD_BUF_SIZE_def mod_if)

lemma ring_full_iff:
  "ring_inv s \<Longrightarrow> (kbd_head s + 1) mod KBD_BUF_SIZE = kbd_tail s \<longleftrightarrow> ring_count s = 63"
  by (auto simp: ring_count_cases ring_inv_def KBD_BUF_SIZE_def mod_if split: if_splits)

lemma ring_slot:
  "ring_inv s \<Longrightarrow> i < ring_count s \<Longrightarrow> (kbd_tail s + i) mod KBD_BUF_SIZE \<noteq> kbd_head s"
  using ring_count_less [of s]
  by (subst wrap_index) (auto simp: ring_count_cases ring_inv_def KBD_BUF_SIZE_def split: if_splits)

lemma ring_push_room:
  assumes "ring_inv s" and "ring_count s < 63"
  shows "kbd_push k s = s\<lparr>kbd_ring := (kbd_ring s)(kbd_head s := k),
                          kbd_head := (kbd_head s + 1) mod KBD_BUF_SIZE\<rparr>"
    and "ring_count (kbd_push k s) = ring_count s + 1"
    and "ring_items (kbd_push k s) = ring_items s @ [k]"
proof -
  show p: "kbd_push k s = s\<lparr>kbd_ring := (kbd_ring s)(kbd_head s := k),
                          kbd_head := (kbd_head s + 1) mod KBD_BUF_SIZE\<rparr>"
    using assms ring_full_iff [OF assms(1)] by (simp add: kbd_push_def Let_def)
  have i: "ring_inv (kbd_push k s)" using assms(1) unfolding p by (simp add: ring_inv_def KBD_BUF_SIZE_def)
  show c: "ring_count (kbd_push k s) = ring_count s + 1"
    using assms ring_count_cases [OF i] ring_count_cases [OF assms(1)] unfolding p
    by (auto simp: ring_inv_def KBD_BUF_SIZE_def mod_if split: if_splits)
  have h: "(kbd_tail s + ring_count s) mod KBD_BUF_SIZE = kbd_head s"
    using assms unfolding ring_count_cases [OF assms(1)]
    by (auto simp: ring_inv_def KBD_BUF_SIZE_def)
  have "ring_items (kbd_push k s) =
      map (\<lambda>i. kbd_ring (kbd_push k s) ((kbd_tail s + i) mod KBD_BUF_SIZE)) ([0..<ring_count s] @ [ring_count s])"
    unfolding ring_items_def c by (simp add: p)
  then show "ring_items (kbd_push k s) = ring_items s @ [k]"
    using ring_slot [OF assms(1)] h by (simp add: p ring_items_def)
qed

lemma ring_push_full:
  "ring_inv s \<Longrightarrow> \<not> ring_count s < 63 \<Longrightarrow> kbd_push k s = s"
  using ring_full_iff [of s] ring_count_less [of s]
  by (simp add: kbd_push_def Let_def KBD_BUF_SIZE_def)

lemma ring_empty_iff: "ring_inv s \<Longrightarrow> \<not> keyboard_has_key s \<longleftrightarrow> ring_items s = []"
  by (auto simp: keyboard_has_key_def ring_items_def ring_count_cases ring_inv_def KBD_BUF_SIZE_def
      split: if_splits)

lemma ring_pop:
  assumes "ring_inv s" and "ring_items s = x # xs"
  shows "fst (kbd_pop s) = x" and "ring_items (snd (kbd_pop s)) = xs" and "ring_inv (snd (kbd_pop s))"
proof -
  show i: "ring_inv (snd (kbd_pop s))"
    using assms(1) by (simp add: ring_inv_def kbd_pop_def KBD_BUF_SIZE_def)
  have n: "ring_count s \<noteq> 0" using assms(2) length_ring_items [of s] by auto
  have c: "ring_count (snd (kbd_pop s)) = ring_count s - 1"
    using n assms(1) unfolding ring_count_cases [OF i] ring_count_cases [OF assms(1)]
    by (auto simp: kbd_pop_def ring_inv_def KBD_BUF_SIZE_def mod_if split: if_splits)
  have u: "[0..<ring_count s] = 0 # map Suc [0..<ring_count s - 1]"
    using n by (simp add: upt_conv_Cons map_Suc_upt)
  have m: "((kbd_tail s + 1) mod KBD_BUF_SIZE + j) mod KBD_BUF_SIZE = (kbd_tail s + Suc j) mod KBD_BUF_SIZE" for j
    by (simp add: mod_add_left_eq)
  have "ring_items s = kbd_ring s (kbd_tail s) # ring_items (snd (kbd_pop s))"
    using assms(1) unfolding ring_items_def c u
    by (simp add: kbd_pop_def m ring_inv_def del: One_nat_def) 
  then show "fst (kbd_pop s) = x" "ring_items (snd (kbd_pop s)) = xs"
    using assms(2) by (simp_all add: kbd_pop_def)
qed

interpretation ring: bounded_queue ring_inv ring_items 63 kbd_push "\<lambda>s. \<not> keyboard_has_key s" kbd_pop
proof
  fix s x xs
  show "ring_inv s \<Longrightarrow> length (ring_items s) \<le> 63"
    using ring_count_less [of s] by (simp add: length_ring_items KBD_BUF_SIZE_def)
  show "ring_inv s \<Longrightarrow> ring_inv (kbd_push x s)"
    by (simp add: ring_inv_def kbd_push_def Let_def KBD_BUF_SIZE_def)
  show "ring_inv s \<Longrightarrow>
      ring_items (kbd_push x s) = (if length (ring_items s) < 63 then ring_items s @ [x] else ring_items s)"
    using ring_push_room(3) [of s x] ring_push_full [of s x] by (simp add: length_ring_items)
  show "ring_inv s \<Longrightarrow> \<not> keyboard_has_key s \<longleftrightarrow> ring_items s = []"
    by (rule ring_empty_iff)
  show "ring_inv s \<Longrightarrow> ring_items s \<noteq> [] \<Longrightarrow> ring_inv (snd (kbd_pop s))"
    by (metis ring_pop(3) neq_Nil_conv)
  show "ring_inv s \<Longrightarrow> ring_items s = x # xs \<Longrightarrow> fst (kbd_pop s) = x \<and> ring_items (snd (kbd_pop s)) = xs"
    using ring_pop by blast
qed

section \<open>What was typed\<close>

text \<open>
  The reference: the scancode stream as key events, a flag for the \<open>E0\<close> prefix with each code.
  A key is held when its last event is a press, and an event's key depends on the events before
  it only through the held modifiers.
\<close>

type_synonym event = "bool \<times> byte"

fun events :: "bool \<Rightarrow> byte list \<Rightarrow> event list" where
  "events x [] = []"
| "events x (c # cs) = (if c = 0xE0 then events True cs else (x, c) # events False cs)"

definition press :: "event \<Rightarrow> bool" where
  "press e \<longleftrightarrow> snd e AND 0x80 = 0"

definition held :: "(event \<Rightarrow> bool) \<Rightarrow> event list \<Rightarrow> bool" where
  "held P evs \<longleftrightarrow> filter P evs \<noteq> [] \<and> press (last (filter P evs))"

definition on_key :: "bool \<Rightarrow> nat set \<Rightarrow> event \<Rightarrow> bool" where
  "on_key x ks e \<longleftrightarrow> fst e = x \<and> code_index (snd e) \<in> ks"

definition key_of_event :: "event list \<Rightarrow> event \<Rightarrow> int list" where
  "key_of_event before e =
     (if \<not> press e then []
      else if fst e then (if extended_key (snd e) = 0 then [] else [extended_key (snd e)])
      else if code_index (snd e) \<in> {0x2A, 0x36, 0x1D} then []
      else
        (let tab = (if held (on_key False {0x2A, 0x36}) before then scancode_ascii_shift
                    else scancode_ascii);
             c = table_entry tab (code_index (snd e))
         in if c = 0 then [] else [ctrl_code (held (on_key False {0x1D}) before) c]))"

fun typed :: "event list \<Rightarrow> event list \<Rightarrow> int list" where
  "typed before [] = []"
| "typed before (e # es) = key_of_event before e @ typed (before @ [e]) es"

lemma typed_snoc: "typed b (es @ [e]) = typed b es @ key_of_event (b @ es) e"
  by (induction b es rule: typed.induct) simp_all

lemma held_Nil [simp]: "\<not> held P []"
  by (simp add: held_def)

lemma held_snoc: "held P (es @ [e]) \<longleftrightarrow> (if P e then press e else held P es)"
  by (auto simp: held_def)

lemma on_key_simps:
  "on_key x ks (y, c) \<longleftrightarrow> y = x \<and> code_index c \<in> ks"
  by (auto simp: on_key_def)

fun pending :: "bool \<Rightarrow> byte list \<Rightarrow> bool" where
  "pending x [] = x"
| "pending x (c # cs) = pending (c = 0xE0) cs"

lemma pending_snoc [simp]: "pending x (cs @ [c]) \<longleftrightarrow> c = 0xE0"
  by (induction x cs rule: pending.induct) auto

lemma events_snoc:
  "events x (cs @ [c]) = events x cs @ (if c = 0xE0 then [] else [(pending x cs, c)])"
  by (induction x cs rule: events.induct) auto

lemma code_index_press: "c AND 0x80 = 0 \<Longrightarrow> c AND 0x7F = (c :: byte)"
proof -
  assume *: "c AND 0x80 = 0"
  have "c AND 0x80 OR c AND 0x7F = c AND (0x80 OR 0x7F)" by (rule bit.conj_disj_distrib [symmetric])
  moreover have "(0x80 OR 0x7F :: byte) = - 1" by simp
  ultimately have "c AND 0x80 OR c AND 0x7F = c" by (simp only: bit.conj_one_right)
  with * show ?thesis by simp
qed

lemma code_index_eq: "n < 256 \<Longrightarrow> c AND 0x7F = word_of_nat n \<longleftrightarrow> code_index c = n"
  unfolding code_index_def by (metis unat_byte_of_nat byte_of_nat_unat)

lemma code_index_consts:
  "c AND 0x7F = 0x2A \<longleftrightarrow> code_index c = 0x2A" "c AND 0x7F = 0x36 \<longleftrightarrow> code_index c = 0x36"
  "c AND 0x7F = 0x1D \<longleftrightarrow> code_index c = 0x1D"
  using code_index_eq [of "0x2A" c] code_index_eq [of "0x36" c] code_index_eq [of "0x1D" c] by simp_all

text \<open>The state of the driver after a stream of scancodes, read against the history.\<close>

definition decoded :: "byte list \<Rightarrow> kbd \<Rightarrow> bool" where
  "decoded cs s \<longleftrightarrow>
     (let evs = events False cs in
      ring_inv s \<and> extended s = pending False cs \<and>
      shift_held s = held (on_key False {0x2A, 0x36}) evs \<and>
      ctrl_held s = held (on_key False {0x1D}) evs \<and>
      (\<forall>n. key_down s n \<noteq> 0 \<longleftrightarrow> held (on_key False {n}) evs) \<and>
      (\<forall>n. ext_down s n \<noteq> 0 \<longleftrightarrow> held (on_key True {n}) evs))"

lemma kbd_push_fields [simp]:
  "extended (kbd_push k s) = extended s" "shift_held (kbd_push k s) = shift_held s"
  "ctrl_held (kbd_push k s) = ctrl_held s" "key_down (kbd_push k s) = key_down s"
  "ext_down (kbd_push k s) = ext_down s" "key_pressed (kbd_push k s) = key_pressed s"
  by (simp_all add: kbd_push_def Let_def)

lemma ring_congs [simp]:
  "ring_inv (s\<lparr>shift_held := b\<rparr>) = ring_inv s" "ring_inv (s\<lparr>ctrl_held := b\<rparr>) = ring_inv s"
  "ring_inv (s\<lparr>extended := b\<rparr>) = ring_inv s" "ring_inv (s\<lparr>key_pressed := b\<rparr>) = ring_inv s"
  "ring_inv (s\<lparr>key_down := d\<rparr>) = ring_inv s" "ring_inv (s\<lparr>ext_down := d\<rparr>) = ring_inv s"
  "ring_items (s\<lparr>shift_held := b\<rparr>) = ring_items s" "ring_items (s\<lparr>ctrl_held := b\<rparr>) = ring_items s"
  "ring_items (s\<lparr>extended := b\<rparr>) = ring_items s" "ring_items (s\<lparr>key_pressed := b\<rparr>) = ring_items s"
  "ring_items (s\<lparr>key_down := d\<rparr>) = ring_items s" "ring_items (s\<lparr>ext_down := d\<rparr>) = ring_items s"
  by (simp_all add: ring_inv_def ring_items_def ring_count_def)

lemma ring_key_press [simp]:
  "ring_inv s \<Longrightarrow> ring_items (key_press k s) = take 63 (ring_items s @ [k])"
  using ring.push_all [of "s\<lparr>key_pressed := True\<rparr>" "[k]"]
  by (simp add: key_press_def)

lemma ring_key_press_inv [simp]: "ring_inv s \<Longrightarrow> ring_inv (key_press k s)"
  using ring.push_inv [of "s\<lparr>key_pressed := True\<rparr>"] by (simp add: key_press_def)

lemma key_press_fields [simp]:
  "extended (key_press k s) = extended s" "shift_held (key_press k s) = shift_held s"
  "ctrl_held (key_press k s) = ctrl_held s" "key_down (key_press k s) = key_down s"
  "ext_down (key_press k s) = ext_down s" "key_pressed (key_press k s)"
  by (simp_all add: key_press_def)

lemma ring_items_bound: "ring_inv s \<Longrightarrow> take 63 (ring_items s) = ring_items s"
  using ring.bounded by simp

lemma decoded_prefix:
  "decoded cs s \<Longrightarrow> decoded (cs @ [0xE0]) (keyboard_irq_handler 0xE0 s)"
  by (simp add: decoded_def Let_def keyboard_irq_handler_def events_snoc)

lemma decoded_extended:
  assumes "decoded cs s" and "c \<noteq> 0xE0" and "pending False cs"
  shows "decoded (cs @ [c]) (irq_extended c s)"
    and "ring_items (irq_extended c s) =
           take 63 (ring_items s @ key_of_event (events False cs) (True, c))"
proof -
  have i: "ring_inv s" using assms(1) by (simp add: decoded_def Let_def)
  show "decoded (cs @ [c]) (irq_extended c s)"
    using assms by (auto simp: decoded_def Let_def irq_extended_def events_snoc held_snoc
        on_key_simps press_def)
  show "ring_items (irq_extended c s) =
           take 63 (ring_items s @ key_of_event (events False cs) (True, c))"
    using i ring_items_bound [OF i]
    by (auto simp: irq_extended_def Let_def key_of_event_def press_def simp del: take_append)
qed

lemma decoded_release:
  assumes "decoded cs s" and "c \<noteq> 0xE0" and "\<not> pending False cs" and "c AND 0x80 \<noteq> 0"
  shows "decoded (cs @ [c]) (irq_release c s)"
    and "ring_items (irq_release c s) =
           take 63 (ring_items s @ key_of_event (events False cs) (False, c))"
proof -
  have i: "ring_inv s" using assms(1) by (simp add: decoded_def Let_def)
  have u: "unat (c AND 0x7F) = code_index c" by (simp add: code_index_def)
  show "decoded (cs @ [c]) (irq_release c s)"
    using assms by (auto simp: decoded_def Let_def irq_release_def events_snoc held_snoc
        on_key_simps press_def code_index_consts u)
  show "ring_items (irq_release c s) =
           take 63 (ring_items s @ key_of_event (events False cs) (False, c))"
    using i ring_items_bound [OF i] assms(4)
    by (auto simp: irq_release_def Let_def key_of_event_def press_def simp del: take_append)
qed

lemma decoded_press:
  assumes "decoded cs s" and "c \<noteq> 0xE0" and "\<not> pending False cs" and "c AND 0x80 = 0"
  shows "decoded (cs @ [c]) (irq_press c s)"
    and "ring_items (irq_press c s) =
           take 63 (ring_items s @ key_of_event (events False cs) (False, c))"
proof -
  have i: "ring_inv s" using assms(1) by (simp add: decoded_def Let_def)
  have c: "unat c = code_index c" "c = 0x2A \<longleftrightarrow> code_index c = 0x2A"
    "c = 0x36 \<longleftrightarrow> code_index c = 0x36" "c = 0x1D \<longleftrightarrow> code_index c = 0x1D"
    using code_index_press [OF assms(4)] code_index_consts [of c] by (simp_all add: code_index_def)
  show "decoded (cs @ [c]) (irq_press c s)"
    using assms by (auto simp: decoded_def Let_def irq_press_def events_snoc held_snoc
        on_key_simps press_def c)
  show "ring_items (irq_press c s) =
           take 63 (ring_items s @ key_of_event (events False cs) (False, c))"
    using i ring_items_bound [OF i] assms
    by (auto simp: irq_press_def Let_def key_of_event_def press_def c decoded_def
        simp del: take_append)
qed

lemma irq_step:
  assumes "decoded cs s"
  shows "decoded (cs @ [c]) (keyboard_irq_handler c s)"
    and "ring_items (keyboard_irq_handler c s) =
           take 63 (ring_items s @ (if c = 0xE0 then []
                                    else key_of_event (events False cs) (pending False cs, c)))"
proof -
  have e: "extended s = pending False cs" and i: "ring_inv s"
    using assms by (simp_all add: decoded_def Let_def)
  show "decoded (cs @ [c]) (keyboard_irq_handler c s)"
    using decoded_prefix [OF assms] decoded_extended(1) [OF assms] decoded_release(1) [OF assms]
      decoded_press(1) [OF assms] e by (auto simp: keyboard_irq_handler_def)
  show "ring_items (keyboard_irq_handler c s) =
           take 63 (ring_items s @ (if c = 0xE0 then []
                                    else key_of_event (events False cs) (pending False cs, c)))"
    using decoded_extended(2) [OF assms] decoded_release(2) [OF assms]
      decoded_press(2) [OF assms] e ring_items_bound [OF i]
    by (auto simp: keyboard_irq_handler_def simp del: take_append)
qed

lemma irq_fold:
  assumes "decoded [] s"
  shows "decoded cs (fold keyboard_irq_handler cs s) \<and>
         ring_items (fold keyboard_irq_handler cs s) = take 63 (ring_items s @ typed [] (events False cs))"
proof (induction cs rule: rev_induct)
  case Nil
  then show ?case using assms ring_items_bound by (simp add: decoded_def Let_def)
next
  case (snoc c cs)
  let ?s = "fold keyboard_irq_handler cs s"
  have d: "decoded cs ?s" and r: "ring_items ?s = take 63 (ring_items s @ typed [] (events False cs))"
    using snoc by auto
  have t: "take 63 (take 63 xs @ ys) = take 63 (xs @ ys)" for xs ys :: "int list"
    by (cases "length xs \<le> 63") simp_all
  show ?case
    using irq_step [OF d, of c] unfolding r t by (simp add: events_snoc typed_snoc del: take_append)
qed

text \<open>The driver after boot: static storage is zero when \<open>keyboard_init\<close> runs.\<close>

definition kbd_boot :: kbd where
  "kbd_boot = keyboard_init \<lparr>kbd_ring = (\<lambda>_. 0), kbd_head = 0, kbd_tail = 0, shift_held = False,
     ctrl_held = False, extended = False, key_pressed = False, key_down = (\<lambda>_. 0), ext_down = (\<lambda>_. 0)\<rparr>"

lemma decoded_boot: "decoded [] kbd_boot" and ring_boot: "ring_items kbd_boot = []"
  by (auto simp: decoded_def kbd_boot_def keyboard_init_def Let_def ring_inv_def KBD_BUF_SIZE_def
      ring_items_def ring_count_def)

text \<open>
  C21: Whatever scancodes arrive after boot, the ring holds the first 63 keys they type, in
  order: prefixed codes as the special keys, codes of the main block through the table that the
  shift keys held at that moment select, letters as control codes while Ctrl is held; and the
  held-key queries answer with the last event of that key.
\<close>

theorem kbd_decodes_stream:
  fixes cs :: "byte list"
  defines "s \<equiv> fold keyboard_irq_handler cs kbd_boot"
  shows "ring_items s = take 63 (typed [] (events False cs)) \<and>
    (keyboard_has_key s \<longleftrightarrow> typed [] (events False cs) \<noteq> []) \<and>
    (keyboard_is_down k s \<longleftrightarrow> held (on_key False {code_index k}) (events False cs)) \<and>
    (keyboard_is_ext_down k s \<longleftrightarrow> held (on_key True {code_index k}) (events False cs))"
proof (intro conjI)
  have d: "decoded cs s" and r: "ring_items s = take 63 (typed [] (events False cs))"
    using irq_fold [OF decoded_boot, of cs] by (simp_all add: s_def ring_boot)
  show "ring_items s = take 63 (typed [] (events False cs))" by (rule r)
  show "keyboard_has_key s \<longleftrightarrow> typed [] (events False cs) \<noteq> []"
    using d r ring_empty_iff [of s] by (auto simp: decoded_def Let_def)
  show "keyboard_is_down k s \<longleftrightarrow> held (on_key False {code_index k}) (events False cs)"
    "keyboard_is_ext_down k s \<longleftrightarrow> held (on_key True {code_index k}) (events False cs)"
    using d by (auto simp: decoded_def Let_def keyboard_is_down_def keyboard_is_ext_down_def)
qed

text \<open>
  C20: Interleaved writes and reads of the ring never reorder, duplicate or invent keys: what the
  reader gets followed by what is left is a subsequence of what was there and what was pushes,
  and nothing is lost when at most 63 keys are involved.
\<close>

theorem kbd_ring_fifo:
  assumes "ring_inv s" and "ring.run ops s = (out, s')"
  shows "subseq (out @ ring_items s') (ring_items s @ pushes ops) \<and>
    (length (ring_items s @ pushes ops) \<le> 63 \<longrightarrow> out @ ring_items s' = ring_items s @ pushes ops)"
  using ring.run_order [OF assms] by auto

theorem kbd_ring_fifo_witness:
  "\<exists>s'. ring.run [Push 65, Push 66, Pop, Push 67, Pop, Pop, Pop] kbd_boot = ([65, 66, 67], s') \<and>
        ring_items s' = []"
proof -
  let ?ops = "[Push 65, Push 66, Pop, Push 67, Pop, Pop, Pop]"
  have i: "ring_inv kbd_boot" using decoded_boot by (simp add: decoded_def Let_def)
  obtain s' where r: "ring.run ?ops kbd_boot = ([65, 66, 67], s')"
    by (simp only: ring.run.simps)
       (simp add: kbd_boot_def keyboard_init_def keyboard_has_key_def kbd_push_def kbd_pop_def
        Let_def KBD_BUF_SIZE_def)
  show ?thesis
    using kbd_ring_fifo [OF i r] r by (simp add: ring_boot)
qed

end
