(* ===== verification/Editor.thy ===== *)
theory Editor
  imports EditHistory Keyboard
begin

text \<open>
  The editor (\<open>apps/editor/editor.c\<close>, \<open>view.c\<close>) on the text buffer of theory \<open>GapBuffer\<close>: the
  statics of \<open>editor.c\<close> are the record \<open>editor\<close>, every static function is one definition on it, and
  a session is a fold over the keys that \<open>keyboard_getchar\<close> returns. What is drawn is the list of
  calls of the screen routines; reading and writing a file are parameters that act on a state of
  the file system.
\<close>

section \<open>State\<close>

datatype editor_mode = MODE_NORMAL | MODE_INSERT | MODE_COMMAND | MODE_VISUAL | MODE_VISUAL_LINE

datatype pending_op = OP_NONE | OP_DELETE | OP_YANK | OP_CHANGE

record editor_view =
  screen_rows :: nat
  screen_cols :: nat
  top_line :: nat
  cursor_line :: nat
  cursor_col :: nat
  sel_start :: nat
  sel_end :: nat

record editor =
  gb :: gbuf
  view :: editor_view
  mode :: editor_mode
  filename :: mem
  modified :: bool
  cmd_buf :: mem
  cmd_len :: nat
  running :: bool
  awaiting_g :: bool
  awaiting_r :: bool
  awaiting_gt :: bool
  awaiting_lt :: bool
  sel_anchor :: nat
  yank_buf :: mem
  yank_len :: nat
  yank_linewise :: bool
  repeat_count :: nat
  count_active :: bool
  pending_operator :: pending_op
  op_count :: nat

definition CMD_BUF_SIZE :: nat where "CMD_BUF_SIZE = 80"
definition YANK_SIZE :: nat where "YANK_SIZE = 4096"
definition NO_SEL :: nat where "NO_SEL = 4294967295"
definition KEY_ESCAPE :: int where "KEY_ESCAPE = 0x1B"

abbreviation KEY :: "char \<Rightarrow> int" where
  "KEY c \<equiv> of_char c"

definition KEY_CTRL :: "char \<Rightarrow> int" where
  "KEY_CTRL c = (of_char c :: int) mod 32"

text \<open>The string in a static array of \<open>n\<close> characters, from index \<open>i\<close> on.\<close>

definition c_text :: "mem \<Rightarrow> nat \<Rightarrow> nat \<Rightarrow> byte list" where
  "c_text m i n = takeWhile (\<lambda>c. c \<noteq> 0) (seg m i (n - i))"

definition put_text :: "byte list \<Rightarrow> mem \<Rightarrow> mem" where
  "put_text s m = (blit m 0 ((!) s) 0 (length s))(length s := 0)"

section \<open>Cursor and view\<close>

definition view_init :: "nat \<Rightarrow> nat \<Rightarrow> editor_view" where
  "view_init rows cols =
    \<lparr>screen_rows = rows - 1, screen_cols = cols, top_line = 0, cursor_line = 0, cursor_col = 0,
     sel_start = NO_SEL, sel_end = NO_SEL\<rparr>"

definition view_scroll_to_cursor :: "editor_view \<Rightarrow> editor_view" where
  "view_scroll_to_cursor v =
    (let v = (if cursor_line v < top_line v then v\<lparr>top_line := cursor_line v\<rparr> else v)
     in if cursor_line v \<ge> top_line v + screen_rows v
        then v\<lparr>top_line := cursor_line v - screen_rows v + 1\<rparr> else v)"

definition sync_cursor :: "editor \<Rightarrow> editor" where
  "sync_cursor s =
    s\<lparr>view := view_scroll_to_cursor
        ((view s)\<lparr>cursor_line := buf_cursor_line (gb s), cursor_col := buf_cursor_col (gb s)\<rparr>)\<rparr>"

abbreviation edit_buf :: "(gbuf \<Rightarrow> gbuf) \<Rightarrow> editor \<Rightarrow> editor" where
  "edit_buf f s \<equiv> s\<lparr>gb := f (gb s)\<rparr>"

definition move_to_line_col :: "nat \<Rightarrow> nat \<Rightarrow> editor \<Rightarrow> editor" where
  "move_to_line_col line col s =
    (let pos = buf_line_start (gb s) line;
         len = buf_line_length (gb s) line;
         col = (if col > len then len else col)
     in sync_cursor (edit_buf (buf_move_to (pos + col)) s))"

definition move_vertical :: "int \<Rightarrow> editor \<Rightarrow> editor" where
  "move_vertical delta s =
    (let cur_line = buf_cursor_line (gb s);
         cur_col = buf_cursor_col (gb s);
         total = buf_line_count (gb s);
         new_line = int cur_line + delta;
         new_line = (if new_line < 0 then 0 else new_line);
         new_line = (if nat new_line \<ge> total then int total - 1 else new_line)
     in move_to_line_col (nat new_line) cur_col s)"

definition set_status :: "byte list \<Rightarrow> editor \<Rightarrow> editor" where
  "set_status msg s = s\<lparr>cmd_buf := put_text msg (cmd_buf s)\<rparr>"

section \<open>Word motions\<close>

definition is_word_char :: "byte \<Rightarrow> bool" where
  "is_word_char c \<longleftrightarrow> (97 \<le> c \<and> c \<le> 122) \<or> (65 \<le> c \<and> c \<le> 90) \<or> (48 \<le> c \<and> c \<le> 57) \<or> c = 95"

definition is_whitespace :: "byte \<Rightarrow> bool" where
  "is_whitespace c \<longleftrightarrow> c = 32 \<or> c = 9 \<or> c = 10 \<or> c = 13"

definition is_punct :: "byte \<Rightarrow> bool" where
  "is_punct c \<longleftrightarrow> \<not> is_word_char c \<and> \<not> is_whitespace c"

text \<open>
  The four shapes of the loops below: forwards while the character at \<open>pos\<close>, or behind it, is of a
  class, and backwards while the character at \<open>pos\<close>, or before it, is.
\<close>

function while_at :: "(byte \<Rightarrow> bool) \<Rightarrow> gbuf \<Rightarrow> nat \<Rightarrow> nat \<Rightarrow> nat" where
  "while_at P b len pos = (if pos < len \<and> P (buf_char_at b pos) then while_at P b len (pos + 1) else pos)"
  by pat_completeness auto
termination by (relation "measure (\<lambda>(P, b, len, pos). len - pos)") auto

function while_next :: "(byte \<Rightarrow> bool) \<Rightarrow> gbuf \<Rightarrow> nat \<Rightarrow> nat \<Rightarrow> nat" where
  "while_next P b len pos =
    (if pos + 1 < len \<and> P (buf_char_at b (pos + 1)) then while_next P b len (pos + 1) else pos)"
  by pat_completeness auto
termination by (relation "measure (\<lambda>(P, b, len, pos). len - pos)") auto

declare while_at.simps [simp del] while_next.simps [simp del]

fun back_at :: "(byte \<Rightarrow> bool) \<Rightarrow> gbuf \<Rightarrow> nat \<Rightarrow> nat" where
  "back_at P b 0 = 0"
| "back_at P b (Suc pos) = (if P (buf_char_at b (Suc pos)) then back_at P b pos else Suc pos)"

fun back_before :: "(byte \<Rightarrow> bool) \<Rightarrow> gbuf \<Rightarrow> nat \<Rightarrow> nat" where
  "back_before P b 0 = 0"
| "back_before P b (Suc pos) = (if P (buf_char_at b pos) then back_before P b pos else Suc pos)"

definition word_forward_pos :: "gbuf \<Rightarrow> nat \<Rightarrow> nat" where
  "word_forward_pos b pos =
    (let len = buf_length b in
     if pos \<ge> len then len
     else
       let c = buf_char_at b pos;
           pos = (if is_word_char c then while_at is_word_char b len pos
                  else if \<not> is_whitespace c then while_at is_punct b len pos else pos)
       in while_at is_whitespace b len pos)"

definition word_forward_big_pos :: "gbuf \<Rightarrow> nat \<Rightarrow> nat" where
  "word_forward_big_pos b pos =
    (let len = buf_length b in
     if pos \<ge> len then len
     else while_at is_whitespace b len (while_at (\<lambda>c. \<not> is_whitespace c) b len pos))"

definition word_backward_pos :: "gbuf \<Rightarrow> nat \<Rightarrow> nat" where
  "word_backward_pos b pos =
    (if pos = 0 then 0
     else
       let pos = back_at is_whitespace b (pos - 1) in
       if pos = 0 \<and> is_whitespace (buf_char_at b pos) then 0
       else if is_word_char (buf_char_at b pos) then back_before is_word_char b pos
       else back_before is_punct b pos)"

definition word_backward_big_pos :: "gbuf \<Rightarrow> nat \<Rightarrow> nat" where
  "word_backward_big_pos b pos =
    (if pos = 0 then 0
     else
       let pos = back_at is_whitespace b (pos - 1) in
       if pos = 0 \<and> is_whitespace (buf_char_at b pos) then 0
       else back_before (\<lambda>c. \<not> is_whitespace c) b pos)"

definition word_end_pos :: "gbuf \<Rightarrow> nat \<Rightarrow> nat" where
  "word_end_pos b pos =
    (let len = buf_length b in
     if pos + 1 \<ge> len then (if len > 0 then len - 1 else 0)
     else
       let pos = while_at is_whitespace b len (pos + 1) in
       if pos \<ge> len then (if len > 0 then len - 1 else 0)
       else
         let c = buf_char_at b pos in
         if is_word_char c then while_next is_word_char b len pos
         else if \<not> is_whitespace c then while_next is_punct b len pos else pos)"

definition word_end_big_pos :: "gbuf \<Rightarrow> nat \<Rightarrow> nat" where
  "word_end_big_pos b pos =
    (let len = buf_length b in
     if pos + 1 \<ge> len then (if len > 0 then len - 1 else 0)
     else
       let pos = while_at is_whitespace b len (pos + 1) in
       if pos \<ge> len then (if len > 0 then len - 1 else 0)
       else while_next (\<lambda>c. \<not> is_whitespace c) b len pos)"

section \<open>Yank, delete, selection\<close>

definition yank_range :: "nat \<Rightarrow> nat \<Rightarrow> editor \<Rightarrow> editor" where
  "yank_range start e s =
    (let len = sub32 e start;
         len = (if len > YANK_SIZE - 1 then YANK_SIZE - 1 else len)
     in s\<lparr>yank_buf := blit (yank_buf s) 0 (\<lambda>i. buf_char_at (gb s) (start + i)) 0 len, yank_len := len\<rparr>)"

definition delete_range :: "nat \<Rightarrow> nat \<Rightarrow> editor \<Rightarrow> editor" where
  "delete_range start e s =
    (let s = edit_buf (buf_move_to start) s;
         s = edit_buf (buf_delete_fwd ^^ sub32 e start) s
     in (sync_cursor s)\<lparr>modified := True\<rparr>)"

definition yank_current_line :: "editor \<Rightarrow> editor" where
  "yank_current_line s =
    (let line = buf_cursor_line (gb s);
         start = buf_line_start (gb s) line;
         len = buf_line_length (gb s) line;
         len = (if len > YANK_SIZE - 1 then YANK_SIZE - 1 else len)
     in s\<lparr>yank_buf := blit (yank_buf s) 0 (\<lambda>i. buf_char_at (gb s) (start + i)) 0 len, yank_len := len\<rparr>)"

text \<open>The loop that finds the lines of a selection: \<open>(sline, eline)\<close>.\<close>

definition sel_lines :: "gbuf \<Rightarrow> nat \<Rightarrow> nat \<Rightarrow> nat \<times> nat" where
  "sel_lines b start e =
    (case foldl (\<lambda>(line, sline, eline) i.
          (if buf_char_at b i = NL then line + 1 else line, if i = start then line else sline, if i < e then line else eline))
        (0, 0, 0) [0..<buf_length b] of
       (line, sline, eline) \<Rightarrow> (sline, eline))"

definition get_sel_bounds :: "editor \<Rightarrow> nat \<times> nat" where
  "get_sel_bounds s =
    (let b = gb s;
         cursor = buf_cursor_pos b;
         (start, e) = (if cursor \<le> sel_anchor s then (cursor, sel_anchor s + 1) else (sel_anchor s, cursor + 1));
         e = (if e > buf_length b then buf_length b else e)
     in if mode s = MODE_VISUAL_LINE
        then
          let (sline, eline) = sel_lines b start e;
              e = buf_line_start b eline + buf_line_length b eline
          in (buf_line_start b sline, if e < buf_length b then e + 1 else e)
        else (start, e))"

section \<open>Operators and motions\<close>

definition cancel_operator :: "editor \<Rightarrow> editor" where
  "cancel_operator s = s\<lparr>pending_operator := OP_NONE, op_count := 0\<rparr>"

definition apply_operator_charwise :: "nat \<Rightarrow> nat \<Rightarrow> editor \<Rightarrow> editor" where
  "apply_operator_charwise from to s =
    (let start = (if from < to then from else to);
         e = (if from < to then to else from);
         s = edit_buf buf_undo_boundary s;
         s = (yank_range start e s)\<lparr>yank_linewise := False\<rparr>;
         s = (if pending_operator s = OP_DELETE \<or> pending_operator s = OP_CHANGE then delete_range start e s else s);
         s = (if pending_operator s = OP_CHANGE then s\<lparr>mode := MODE_INSERT\<rparr> else s)
     in cancel_operator s)"

definition apply_operator_linewise :: "nat \<Rightarrow> nat \<Rightarrow> editor \<Rightarrow> editor" where
  "apply_operator_linewise from_line to_line s =
    (let (from_line, to_line) = (if from_line > to_line then (to_line, from_line) else (from_line, to_line));
         b = gb s;
         start = buf_line_start b from_line;
         e = buf_line_start b to_line + buf_line_length b to_line;
         e = (if e < buf_length b then e + 1 else e);
         s = edit_buf buf_undo_boundary s;
         s = (yank_range start e s)\<lparr>yank_linewise := True\<rparr>;
         s = (if pending_operator s = OP_DELETE then delete_range start e s
              else if pending_operator s = OP_CHANGE then
                let line_start = buf_line_start (gb s) from_line;
                    s = delete_range start e s
                in (sync_cursor (edit_buf (buf_move_to line_start) s))\<lparr>mode := MODE_INSERT\<rparr>
              else s)
     in cancel_operator s)"

definition handle_operator_motion :: "int \<Rightarrow> nat \<Rightarrow> editor \<Rightarrow> editor" where
  "handle_operator_motion key count s =
    (let b = gb s;
         cur = buf_cursor_pos b;
         cur_line = buf_cursor_line b;
         total_count = u32 (op_count s * count);
         max_line = buf_line_count b - 1
     in if (key = KEY CHR ''d'' \<and> pending_operator s = OP_DELETE) \<or>
           (key = KEY CHR ''y'' \<and> pending_operator s = OP_YANK) \<or>
           (key = KEY CHR ''c'' \<and> pending_operator s = OP_CHANGE)
        then
          let end_line = sub32 (cur_line + total_count) 1
          in apply_operator_linewise cur_line (if end_line > max_line then max_line else end_line) s
        else if key = KEY CHR ''w'' then apply_operator_charwise cur ((word_forward_pos b ^^ total_count) cur) s
        else if key = KEY CHR ''W'' then apply_operator_charwise cur ((word_forward_big_pos b ^^ total_count) cur) s
        else if key = KEY CHR ''b'' then apply_operator_charwise ((word_backward_pos b ^^ total_count) cur) cur s
        else if key = KEY CHR ''B'' then apply_operator_charwise ((word_backward_big_pos b ^^ total_count) cur) cur s
        else if key = KEY CHR ''e'' then apply_operator_charwise cur ((word_end_pos b ^^ total_count) cur + 1) s
        else if key = KEY CHR ''E'' then apply_operator_charwise cur ((word_end_big_pos b ^^ total_count) cur + 1) s
        else if key = KEY CHR ''h'' \<or> key = KEY_LEFT then apply_operator_charwise (cur - total_count) cur s
        else if key = KEY CHR ''l'' \<or> key = KEY_RIGHT then
          apply_operator_charwise cur (if cur < buf_length b then min (cur + total_count) (buf_length b) else cur) s
        else if key = KEY CHR ''0'' \<or> key = KEY_HOME then apply_operator_charwise (buf_line_start b cur_line) cur s
        else if key = KEY CHR ''$'' \<or> key = KEY_END then
          apply_operator_charwise cur (buf_line_start b cur_line + buf_line_length b cur_line) s
        else if key = KEY CHR ''j'' \<or> key = KEY_DOWN then
          let target_line = u32 (cur_line + total_count)
          in apply_operator_linewise cur_line (if target_line > max_line then max_line else target_line) s
        else if key = KEY CHR ''k'' \<or> key = KEY_UP then
          apply_operator_linewise (if total_count > cur_line then 0 else cur_line - total_count) cur_line s
        else if key = KEY CHR ''G'' then apply_operator_linewise cur_line max_line s
        else if key = KEY CHR ''g'' then s\<lparr>awaiting_g := True\<rparr>
        else cancel_operator s)"

section \<open>Saving\<close>

text \<open>The argument is \<open>None\<close> for a call with \<open>filename\<close> itself (the source compares the pointers).\<close>

definition do_save :: "(byte list \<Rightarrow> byte list \<Rightarrow> 'fs \<Rightarrow> int \<times> 'fs) \<Rightarrow> byte list option \<Rightarrow> editor \<times> 'fs \<Rightarrow> int \<times> editor \<times> 'fs" where
  "do_save wr arg s_fs =
    (case s_fs of (s, fs) \<Rightarrow>
     let save_name = (case arg of None \<Rightarrow> c_text (filename s) 0 13 | Some name \<Rightarrow> name) in
     if save_name = [] then (- 1, set_status (bytes_of ''E32: No file name'') s, fs)
     else
       (case buf_get_content (gb s) (\<lambda>_. 0) BUFFER_SIZE of (len, save_buf) \<Rightarrow>
        case wr save_name (seg save_buf 0 len) fs of (result, fs') \<Rightarrow>
          if result \<noteq> 0 then (- 1, set_status (bytes_of ''E: Write failed'') s, fs')
          else
            let s = (if arg \<noteq> None then s\<lparr>filename := put_text (take 12 save_name) (filename s)\<rparr> else s)
            in (0, set_status (bytes_of ''Written'') (s\<lparr>modified := False\<rparr>), fs')))"

section \<open>Normal mode\<close>

text \<open>The count typed before a command, and its reset.\<close>

definition count_digit :: "int \<Rightarrow> editor \<Rightarrow> editor" where
  "count_digit key s =
    (let n = u32 (repeat_count s * 10 + nat (key - 48))
     in s\<lparr>repeat_count := (if n > 9999 then 9999 else n), count_active := True\<rparr>)"

definition reset_count :: "editor \<Rightarrow> editor" where
  "reset_count s = s\<lparr>repeat_count := 0, count_active := False\<rparr>"

definition keep_count :: "nat \<Rightarrow> editor \<Rightarrow> editor" where
  "keep_count count s = s\<lparr>repeat_count := count, count_active := True\<rparr>"

definition printable :: "int \<Rightarrow> bool" where
  "printable key \<longleftrightarrow> 32 \<le> key \<and> key < 127"

definition char_of_key :: "int \<Rightarrow> byte" where
  "char_of_key key = word_of_int key"

definition replace_chars :: "nat \<Rightarrow> byte \<Rightarrow> gbuf \<Rightarrow> gbuf" where
  "replace_chars cnt c b =
    (let pos = buf_cursor_pos b;
         len = buf_length b;
         b = fold (\<lambda>i b. buf_insert c (buf_delete_fwd (buf_move_to (pos + i) b))) [0..<min cnt (len - pos)] b
     in buf_move_to (sub32 (pos + cnt) 1) b)"

definition after_r :: "int \<Rightarrow> editor \<Rightarrow> editor" where
  "after_r key s =
    (let s = s\<lparr>awaiting_r := False\<rparr>;
         cnt = (if repeat_count s > 0 then repeat_count s else 1);
         s = reset_count s
     in if printable key
        then (sync_cursor (edit_buf (\<lambda>b. replace_chars cnt (char_of_key key) (buf_undo_boundary b)) s))\<lparr>modified := True\<rparr>
        else s)"

definition after_g :: "int \<Rightarrow> editor \<Rightarrow> editor" where
  "after_g key s =
    (let s = s\<lparr>awaiting_g := False\<rparr> in
     reset_count
       (if key = KEY CHR ''g'' then
          if pending_operator s \<noteq> OP_NONE then apply_operator_linewise 0 (buf_cursor_line (gb s)) s
          else
            let cnt = repeat_count s; s = reset_count s in
            if cnt > 0 then
              let target = cnt - 1; max_line = buf_line_count (gb s) - 1
              in move_to_line_col (if target > max_line then max_line else target) 0 s
            else move_to_line_col 0 0 s
        else s))"

definition indent_line :: "nat \<Rightarrow> gbuf \<Rightarrow> gbuf" where
  "indent_line line b = (buf_insert 32 ^^ 4) (buf_move_to (buf_line_start b line) b)"

primrec lead_spaces :: "nat \<Rightarrow> gbuf \<Rightarrow> nat \<Rightarrow> nat \<Rightarrow> nat \<Rightarrow> nat" where
  "lead_spaces 0 b start llen spaces = spaces"
| "lead_spaces (Suc n) b start llen spaces =
    (if spaces < llen \<and> buf_char_at b (start + spaces) = 32 then lead_spaces n b start llen (spaces + 1) else spaces)"

definition outdent_line :: "nat \<Rightarrow> gbuf \<Rightarrow> gbuf" where
  "outdent_line line b =
    (let start = buf_line_start b line;
         llen = buf_line_length b line;
         b = buf_move_to start b
     in (buf_delete_fwd ^^ lead_spaces 4 b start llen 0) b)"

text \<open>The loop over \<open>cnt\<close> lines, left at the end of the text.\<close>

primrec each_line :: "nat \<Rightarrow> (nat \<Rightarrow> gbuf \<Rightarrow> gbuf) \<Rightarrow> nat \<Rightarrow> gbuf \<Rightarrow> gbuf" where
  "each_line 0 f line b = b"
| "each_line (Suc n) f line b = (if line \<ge> buf_line_count b then b else each_line n f (line + 1) (f line b))"

definition shift_lines :: "(nat \<Rightarrow> gbuf \<Rightarrow> gbuf) \<Rightarrow> editor \<Rightarrow> editor" where
  "shift_lines f s =
    (let cnt = (if repeat_count s > 0 then repeat_count s else 1);
         s = reset_count s
     in (sync_cursor (edit_buf (\<lambda>b. each_line cnt f (buf_cursor_line (buf_undo_boundary b)) (buf_undo_boundary b)) s))\<lparr>modified := True\<rparr>)"

definition after_gt :: "int \<Rightarrow> editor \<Rightarrow> editor" where
  "after_gt key s =
    (let s = s\<lparr>awaiting_gt := False\<rparr>
     in reset_count (if key = KEY CHR ''>'' then shift_lines indent_line s else s))"

definition after_lt :: "int \<Rightarrow> editor \<Rightarrow> editor" where
  "after_lt key s =
    (let s = s\<lparr>awaiting_lt := False\<rparr>
     in reset_count (if key = KEY CHR ''<'' then shift_lines outdent_line s else s))"

text \<open>The positions on the current line that several commands use.\<close>

definition line_begin :: "gbuf \<Rightarrow> nat" where
  "line_begin b = buf_line_start b (buf_cursor_line b)"

definition line_end :: "gbuf \<Rightarrow> nat" where
  "line_end b = buf_line_start b (buf_cursor_line b) + buf_line_length b (buf_cursor_line b)"

definition line_last :: "gbuf \<Rightarrow> nat" where
  "line_last b = (if buf_line_length b (buf_cursor_line b) > 0 then line_end b - 1 else line_end b)"

definition first_nonblank :: "gbuf \<Rightarrow> nat" where
  "first_nonblank b = while_at (\<lambda>c. c = 32 \<or> c = 9) b (line_end b) (line_begin b)"

definition go_to :: "(gbuf \<Rightarrow> nat) \<Rightarrow> editor \<Rightarrow> editor" where
  "go_to f s = sync_cursor (edit_buf (\<lambda>b. buf_move_to (f b) b) s)"

definition insert_mode :: "editor \<Rightarrow> editor" where
  "insert_mode s = s\<lparr>mode := MODE_INSERT\<rparr>"

definition changed :: "editor \<Rightarrow> editor" where
  "changed s = (sync_cursor s)\<lparr>modified := True\<rparr>"

text \<open>\<open>D\<close>, \<open>C\<close> and \<open>S\<close>: yank and delete a part of the line.\<close>

definition cut_part :: "nat \<Rightarrow> nat \<Rightarrow> editor \<Rightarrow> editor" where
  "cut_part start e s =
    (if start < e then delete_range start e ((yank_range start e s)\<lparr>yank_linewise := False\<rparr>) else s)"

definition insert_yank :: "editor \<Rightarrow> gbuf \<Rightarrow> gbuf" where
  "insert_yank s b = fold (\<lambda>i b. buf_insert (yank_buf s i) b) [0..<yank_len s] b"

definition paste_once :: "editor \<Rightarrow> gbuf \<Rightarrow> gbuf" where
  "paste_once s b =
    (if yank_linewise s then insert_yank s (buf_insert NL (buf_move_to (line_end b) b))
     else insert_yank s (buf_move_right b))"

function delete_blanks :: "gbuf \<Rightarrow> gbuf" where
  "delete_blanks b =
    (if buf_cursor_pos b < buf_length b \<and>
        (buf_char_at b (buf_cursor_pos b) = 32 \<or> buf_char_at b (buf_cursor_pos b) = 9)
     then delete_blanks (buf_delete_fwd b) else b)"
  by pat_completeness auto
termination
  by (relation "measure (\<lambda>b. BUFFER_SIZE - gap_end b)")
    (auto simp: buf_cursor_pos_def buf_length_def buf_delete_fwd_def undo_push_def)

declare delete_blanks.simps [simp del]

primrec join_lines :: "nat \<Rightarrow> editor \<Rightarrow> editor" where
  "join_lines 0 s = s"
| "join_lines (Suc n) s =
    (let b = gb s;
         line = buf_cursor_line b
     in if line + 1 \<ge> buf_line_count b then s
        else
          let nl_pos = line_end b
          in join_lines n
              (if nl_pos < buf_length b \<and> buf_char_at b nl_pos = NL
               then s\<lparr>gb := buf_insert 32 (delete_blanks (buf_delete_fwd (buf_move_to nl_pos b))), modified := True\<rparr>
               else s))"

definition toggle_case :: "byte \<Rightarrow> byte" where
  "toggle_case c = (if 97 \<le> c \<and> c \<le> 122 then c - 32 else if 65 \<le> c \<and> c \<le> 90 then c + 32 else c)"

primrec toggle_chars :: "nat \<Rightarrow> editor \<Rightarrow> editor" where
  "toggle_chars 0 s = s"
| "toggle_chars (Suc n) s =
    (let b = gb s; pos = buf_cursor_pos b in
     if pos \<ge> buf_length b then s
     else
       let c = buf_char_at b pos in
       toggle_chars n
         (if toggle_case c \<noteq> c then s\<lparr>gb := buf_insert (toggle_case c) (buf_delete_fwd b), modified := True\<rparr>
          else s\<lparr>gb := buf_move_right b\<rparr>))"

text \<open>\<open>buf_undo\<close> or \<open>buf_redo\<close> up to \<open>n\<close> times, left when one fails.\<close>

primrec repeat_while_ok :: "nat \<Rightarrow> (gbuf \<Rightarrow> bool \<times> gbuf) \<Rightarrow> gbuf \<Rightarrow> gbuf" where
  "repeat_while_ok 0 f b = b"
| "repeat_while_ok (Suc n) f b = (case f b of (ok, b') \<Rightarrow> if ok then repeat_while_ok n f b' else b')"

text \<open>The motions that normal and visual mode share, with a count.\<close>

definition motion :: "int \<Rightarrow> nat \<Rightarrow> editor \<Rightarrow> editor option" where
  "motion key count s =
    (if key = KEY CHR ''h'' \<or> key = KEY_LEFT then Some (sync_cursor (edit_buf (buf_move_left ^^ count) s))
     else if key = KEY CHR ''l'' \<or> key = KEY_RIGHT then Some (sync_cursor (edit_buf (buf_move_right ^^ count) s))
     else if key = KEY CHR ''j'' \<or> key = KEY_DOWN then Some (move_vertical (int count) s)
     else if key = KEY CHR ''k'' \<or> key = KEY_UP then Some (move_vertical (- int count) s)
     else if key = KEY CHR ''0'' \<or> key = KEY_HOME then Some (go_to line_begin s)
     else if key = KEY CHR ''$'' \<or> key = KEY_END then Some (go_to line_last s)
     else if key = KEY CHR ''w'' then Some (go_to (\<lambda>b. (word_forward_pos b ^^ count) (buf_cursor_pos b)) s)
     else if key = KEY CHR ''W'' then Some (go_to (\<lambda>b. (word_forward_big_pos b ^^ count) (buf_cursor_pos b)) s)
     else if key = KEY CHR ''b'' then Some (go_to (\<lambda>b. (word_backward_pos b ^^ count) (buf_cursor_pos b)) s)
     else if key = KEY CHR ''B'' then Some (go_to (\<lambda>b. (word_backward_big_pos b ^^ count) (buf_cursor_pos b)) s)
     else if key = KEY CHR ''e'' then Some (go_to (\<lambda>b. (word_end_pos b ^^ count) (buf_cursor_pos b)) s)
     else if key = KEY CHR ''E'' then Some (go_to (\<lambda>b. (word_end_big_pos b ^^ count) (buf_cursor_pos b)) s)
     else if key = KEY CHR ''g'' then Some (s\<lparr>awaiting_g := True\<rparr>)
     else if key = KEY_CTRL CHR ''u'' \<or> key = KEY_PGUP then Some (move_vertical (- int (screen_rows (view s) div 2) * int count) s)
     else if key = KEY_CTRL CHR ''d'' \<or> key = KEY_PGDN then Some (move_vertical (int (screen_rows (view s) div 2) * int count) s)
     else None)"

definition go_line :: "nat \<Rightarrow> editor \<Rightarrow> editor" where
  "go_line count s =
    (let max_line = buf_line_count (gb s) - 1 in
     if count > 1 then move_to_line_col (if count - 1 > max_line then max_line else count - 1) 0 s
     else move_to_line_col max_line 0 s)"

abbreviation mark :: "editor \<Rightarrow> editor" where
  "mark s \<equiv> edit_buf buf_undo_boundary s"

definition normal_command :: "int \<Rightarrow> nat \<Rightarrow> editor \<Rightarrow> editor" where
  "normal_command key count s =
    (case motion key count s of
       Some s' \<Rightarrow> s'
     | None \<Rightarrow>
      if key = KEY CHR ''^'' then go_to first_nonblank s
      else if key = KEY CHR ''G'' then go_line count s
      else if key = KEY CHR ''i'' then insert_mode (mark s)
      else if key = KEY CHR ''a'' then insert_mode (sync_cursor (edit_buf buf_move_right (mark s)))
      else if key = KEY CHR ''A'' then insert_mode (go_to line_end (mark s))
      else if key = KEY CHR ''I'' then insert_mode (go_to first_nonblank (mark s))
      else if key = KEY CHR ''o'' then insert_mode (changed (edit_buf (\<lambda>b. buf_insert NL (buf_move_to (line_end b) b)) (mark s)))
      else if key = KEY CHR ''O'' then
        insert_mode (changed (edit_buf (\<lambda>b. buf_move_left (buf_insert NL (buf_move_to (line_begin b) b))) (mark s)))
      else if key = KEY CHR ''x'' \<or> key = KEY_DELETE then
        changed (edit_buf ((\<lambda>b. if buf_cursor_pos b < buf_length b then buf_delete_fwd b else b) ^^ count) (mark s))
      else if key = KEY CHR ''r'' then keep_count count (s\<lparr>awaiting_r := True\<rparr>)
      else if key = KEY CHR ''d'' then s\<lparr>pending_operator := OP_DELETE, op_count := count\<rparr>
      else if key = KEY CHR ''y'' then s\<lparr>pending_operator := OP_YANK, op_count := count\<rparr>
      else if key = KEY CHR ''c'' then s\<lparr>pending_operator := OP_CHANGE, op_count := count\<rparr>
      else if key = KEY CHR ''D'' then (let s = mark s in cut_part (buf_cursor_pos (gb s)) (line_end (gb s)) s)
      else if key = KEY CHR ''C'' then
        (let s = mark s in insert_mode (cut_part (buf_cursor_pos (gb s)) (line_end (gb s)) s))
      else if key = KEY CHR ''Y'' then ((yank_current_line ^^ count) s)\<lparr>yank_linewise := True\<rparr>
      else if key = KEY CHR ''S'' then (let s = mark s in insert_mode (cut_part (line_begin (gb s)) (line_end (gb s)) s))
      else if key = KEY CHR ''p'' then
        (if yank_len s = 0 then s else changed (edit_buf (paste_once s ^^ count) (mark s)))
      else if key = KEY CHR ''J'' then sync_cursor (join_lines count (mark s))
      else if key = KEY CHR ''~'' then sync_cursor (toggle_chars count (mark s))
      else if key = KEY CHR ''>'' then keep_count count (s\<lparr>awaiting_gt := True\<rparr>)
      else if key = KEY CHR ''<'' then keep_count count (s\<lparr>awaiting_lt := True\<rparr>)
      else if key = KEY CHR ''v'' then s\<lparr>sel_anchor := buf_cursor_pos (gb s), mode := MODE_VISUAL\<rparr>
      else if key = KEY CHR ''V'' then s\<lparr>sel_anchor := buf_cursor_pos (gb s), mode := MODE_VISUAL_LINE\<rparr>
      else if key = KEY CHR ''u'' then changed (edit_buf (repeat_while_ok count buf_undo) (mark s))
      else if key = KEY_CTRL CHR ''r'' then changed (edit_buf (repeat_while_ok count buf_redo) s)
      else if key = KEY CHR '':'' then s\<lparr>mode := MODE_COMMAND, cmd_len := 1, cmd_buf := (cmd_buf s)(0 := 58, 1 := 0)\<rparr>
      else s)"

definition handle_normal :: "int \<Rightarrow> editor \<Rightarrow> editor" where
  "handle_normal key s =
    (if (KEY CHR ''1'' \<le> key \<and> key \<le> KEY CHR ''9'') \<or> (key = KEY CHR ''0'' \<and> count_active s) then count_digit key s
     else if awaiting_r s then after_r key s
     else if awaiting_g s then after_g key s
     else if awaiting_gt s then after_gt key s
     else if awaiting_lt s then after_lt key s
     else
       let count = (if repeat_count s > 0 then repeat_count s else 1);
           s = reset_count s
       in if pending_operator s \<noteq> OP_NONE then handle_operator_motion key count s
          else normal_command key count s)"

section \<open>Insert mode\<close>

definition handle_insert :: "int \<Rightarrow> editor \<Rightarrow> editor" where
  "handle_insert key s =
    (if key = KEY_ESCAPE then
       sync_cursor (edit_buf (\<lambda>b. if buf_cursor_col b > 0 then buf_move_left b else b) ((mark s)\<lparr>mode := MODE_NORMAL\<rparr>))
     else if key = 8 then (if buf_cursor_pos (gb s) > 0 then changed (edit_buf buf_delete_back s) else s)
     else if key = KEY_DELETE then changed (edit_buf buf_delete_fwd s)
     else if key = 10 then changed (edit_buf (buf_insert NL) s)
     else if key = 9 then changed (edit_buf (buf_insert 32 ^^ 4) s)
     else if key = KEY_LEFT then sync_cursor (edit_buf buf_move_left s)
     else if key = KEY_RIGHT then sync_cursor (edit_buf buf_move_right s)
     else if key = KEY_UP then move_vertical (- 1) s
     else if key = KEY_DOWN then move_vertical 1 s
     else if printable key then changed (edit_buf (buf_insert (char_of_key key)) s)
     else s)"

section \<open>Visual mode\<close>

definition yank_selection :: "nat \<Rightarrow> nat \<Rightarrow> editor \<Rightarrow> editor" where
  "yank_selection start e s = (yank_range start e s)\<lparr>yank_linewise := (mode s = MODE_VISUAL_LINE)\<rparr>"

definition shift_selection :: "(nat \<Rightarrow> gbuf \<Rightarrow> gbuf) \<Rightarrow> editor \<Rightarrow> editor" where
  "shift_selection f s =
    (let s = mark s;
         (start, e) = get_sel_bounds s;
         (sline, eline) = sel_lines (gb s) start e
     in (changed (edit_buf (fold f [sline..<eline + 1]) s))\<lparr>mode := MODE_NORMAL\<rparr>)"

definition toggle_at :: "nat \<Rightarrow> gbuf \<Rightarrow> gbuf" where
  "toggle_at i b =
    (let ch = buf_char_at b i in
     if toggle_case ch \<noteq> ch then buf_insert (toggle_case ch) (buf_delete_fwd (buf_move_to i b)) else b)"

definition visual_command :: "int \<Rightarrow> editor \<Rightarrow> editor" where
  "visual_command key s =
    (if key = KEY_ESCAPE then s\<lparr>mode := MODE_NORMAL\<rparr>
     else if key = KEY CHR ''v'' then s\<lparr>mode := (if mode s = MODE_VISUAL then MODE_NORMAL else MODE_VISUAL)\<rparr>
     else if key = KEY CHR ''V'' then s\<lparr>mode := (if mode s = MODE_VISUAL_LINE then MODE_NORMAL else MODE_VISUAL_LINE)\<rparr>
     else case motion key 1 s of
       Some s' \<Rightarrow> s'
     | None \<Rightarrow>
      if key = KEY CHR ''G'' then move_to_line_col (buf_line_count (gb s) - 1) 0 s
      else if key = KEY CHR ''y'' then
        (case get_sel_bounds s of (start, e) \<Rightarrow> (yank_selection start e s)\<lparr>mode := MODE_NORMAL\<rparr>)
      else if key = KEY CHR ''d'' \<or> key = KEY CHR ''x'' then
        (let s = mark s in case get_sel_bounds s of (start, e) \<Rightarrow>
           (delete_range start e (yank_selection start e s))\<lparr>mode := MODE_NORMAL\<rparr>)
      else if key = KEY CHR ''c'' then
        (let s = mark s in case get_sel_bounds s of (start, e) \<Rightarrow>
           (delete_range start e (yank_selection start e s))\<lparr>mode := MODE_INSERT\<rparr>)
      else if key = KEY CHR ''>'' then shift_selection indent_line s
      else if key = KEY CHR ''<'' then shift_selection outdent_line s
      else if key = KEY CHR ''~'' then
        (let s = mark s in case get_sel_bounds s of (start, e) \<Rightarrow>
           (changed (edit_buf (fold toggle_at [start..<e]) s))\<lparr>mode := MODE_NORMAL\<rparr>)
      else s)"

definition handle_visual :: "int \<Rightarrow> editor \<Rightarrow> editor" where
  "handle_visual key s =
    (if awaiting_g s then
       (let s = s\<lparr>awaiting_g := False\<rparr> in if key = KEY CHR ''g'' then move_to_line_col 0 0 s else s)
     else visual_command key s)"

section \<open>Command mode\<close>

definition drop_blanks :: "byte list \<Rightarrow> byte list" where
  "drop_blanks = dropWhile (\<lambda>c. c = 32)"

definition cmd_execute :: "(byte list \<Rightarrow> byte list \<Rightarrow> 'fs \<Rightarrow> int \<times> 'fs) \<Rightarrow> editor \<times> 'fs \<Rightarrow> editor \<times> 'fs" where
  "cmd_execute wr s_fs =
    (case s_fs of (s, fs) \<Rightarrow>
     let cmd = c_text (cmd_buf s) 1 CMD_BUF_SIZE;
         save = (\<lambda>arg quit. case do_save wr arg (s, fs) of (r, s', fs') \<Rightarrow>
                   (if quit \<and> r = 0 then s'\<lparr>running := False\<rparr> else s'\<lparr>mode := MODE_NORMAL\<rparr>, fs'))
     in if cmd = bytes_of ''q'' then
          (if modified s
           then ((set_status (bytes_of ''E37: No write since last change (add ! to override)'') s)\<lparr>mode := MODE_NORMAL\<rparr>, fs)
           else (s\<lparr>running := False\<rparr>, fs))
        else if cmd = bytes_of ''q!'' then (s\<lparr>running := False\<rparr>, fs)
        else if cmd = bytes_of ''w'' then save None False
        else if take 2 cmd = bytes_of ''w '' then save (Some (drop_blanks (drop 2 cmd))) False
        else if cmd = bytes_of ''wq'' then save None True
        else if take 3 cmd = bytes_of ''wq '' then save (Some (drop_blanks (drop 3 cmd))) True
        else ((set_status (bytes_of ''E: Unknown command'') s)\<lparr>mode := MODE_NORMAL\<rparr>, fs))"

definition clear_command :: "editor \<Rightarrow> editor" where
  "clear_command s = s\<lparr>mode := MODE_NORMAL, cmd_buf := (cmd_buf s)(0 := 0), cmd_len := 0\<rparr>"

definition handle_command :: "(byte list \<Rightarrow> byte list \<Rightarrow> 'fs \<Rightarrow> int \<times> 'fs) \<Rightarrow> int \<Rightarrow> editor \<times> 'fs \<Rightarrow> editor \<times> 'fs" where
  "handle_command wr key s_fs =
    (case s_fs of (s, fs) \<Rightarrow>
     if key = KEY_ESCAPE then (clear_command s, fs)
     else if key = 10 then (case cmd_execute wr (s, fs) of (s', fs') \<Rightarrow> (s'\<lparr>cmd_len := 0\<rparr>, fs'))
     else if key = 8 then
       (if cmd_len s > 1 then s\<lparr>cmd_len := cmd_len s - 1, cmd_buf := (cmd_buf s)(cmd_len s - 1 := 0)\<rparr>
        else clear_command s, fs)
     else if printable key \<and> cmd_len s < 78 then
       (s\<lparr>cmd_len := cmd_len s + 1, cmd_buf := (cmd_buf s)(cmd_len s := char_of_key key, cmd_len s + 1 := 0)\<rparr>, fs)
     else (s, fs))"

section \<open>The screen\<close>

text \<open>The calls of the screen routines: row, column, character and colours.\<close>

datatype vga_call = PutAt nat nat byte nat nat | SetCursor nat nat | ClearScreen

function dec_of :: "nat \<Rightarrow> byte list" where
  "dec_of n = (if n < 10 then [48 + word_of_nat n] else dec_of (n div 10) @ [48 + word_of_nat (n mod 10)])"
  by pat_completeness auto
termination by (relation "measure id") auto

declare dec_of.simps [simp del]

definition position_text :: "editor_view \<Rightarrow> byte list" where
  "position_text v =
    bytes_of ''Ln '' @ dec_of (u32 (cursor_line v + 1)) @ bytes_of '', Col '' @ dec_of (u32 (cursor_col v + 1))"

text \<open>\<open>put_str row col limit text\<close> draws a prefix of \<open>text\<close> that ends before column \<open>limit\<close>, black on white.\<close>

definition put_str :: "nat \<Rightarrow> nat \<Rightarrow> nat \<Rightarrow> byte list \<Rightarrow> vga_call list" where
  "put_str row col limit s = map (\<lambda>i. PutAt row (col + i) (s ! i) 0 15) [0..<min (length s) (limit - col)]"

definition row_cell :: "editor_view \<Rightarrow> gbuf \<Rightarrow> nat \<Rightarrow> nat \<Rightarrow> vga_call" where
  "row_cell v b row col =
    (let doc_line = top_line v + row in
     if doc_line \<ge> buf_line_count b then
       if col = 0 then PutAt row 0 126 9 0 else PutAt row col 32 15 0
     else
       let line_start = buf_line_start b doc_line;
           line_len = buf_line_length b doc_line;
           bpos = line_start + col;
           selected = (sel_start v \<noteq> NO_SEL \<and> bpos \<ge> sel_start v \<and> bpos < sel_end v \<and> col < line_len)
       in if col < line_len
          then let c = buf_char_at b bpos
               in PutAt row col (if c = 9 then 32 else c) (if selected then 0 else 15) (if selected then 11 else 0)
          else PutAt row col 32 15 0)"

definition text_rows :: "editor_view \<Rightarrow> gbuf \<Rightarrow> vga_call list" where
  "text_rows v b = concat (map (\<lambda>row. map (row_cell v b row) [0..<screen_cols v]) [0..<screen_rows v])"

definition status_bar :: "editor_view \<Rightarrow> byte list option \<Rightarrow> bool \<Rightarrow> byte list \<Rightarrow> vga_call list" where
  "status_bar v name changed_flag mode_str =
    (let row = screen_rows v;
         name = (case name of Some n \<Rightarrow> n | None \<Rightarrow> bytes_of ''[No Name]'');
         col = min (length name) 20;
         mod_flag = (if changed_flag then bytes_of '' [+]'' else []);
         pos = position_text v;
         right_start = u8 (screen_cols v + 256 - length pos);
         cur_row = u8 (sub32 (cursor_line v) (top_line v));
         cur_col = u8 (cursor_col v)
     in put_str row 0 20 name @ put_str row col 30 mod_flag @ put_str row 35 50 mode_str @
        map (\<lambda>i. PutAt row (u8 (right_start + i)) (pos ! i) 0 15) [0..<length pos] @
        [SetCursor cur_row (if cur_col \<ge> screen_cols v then screen_cols v - 1 else cur_col)])"

definition view_render :: "editor_view \<Rightarrow> gbuf \<Rightarrow> byte list option \<Rightarrow> bool \<Rightarrow> byte list \<Rightarrow> byte list \<Rightarrow> vga_call list" where
  "view_render v b name changed_flag mode_str cmd =
    (let row = screen_rows v;
         blank = map (\<lambda>col. PutAt row col 32 0 15) [0..<screen_cols v]
     in text_rows v b @ blank @
        (if cmd \<noteq> [] then
           put_str row 0 (screen_cols v) cmd @
           (if hd cmd = 58 then [SetCursor row (min (length cmd) (screen_cols v))] else [])
         else status_bar v name changed_flag mode_str))"

fun mode_string :: "editor_mode \<Rightarrow> byte list" where
  "mode_string MODE_NORMAL = bytes_of ''NORMAL''"
| "mode_string MODE_INSERT = bytes_of ''INSERT''"
| "mode_string MODE_COMMAND = bytes_of ''COMMAND''"
| "mode_string MODE_VISUAL = bytes_of ''VISUAL''"
| "mode_string MODE_VISUAL_LINE = bytes_of ''V-LINE''"

section \<open>A session\<close>

definition status_shown :: "editor \<Rightarrow> bool" where
  "status_shown s \<longleftrightarrow> mode s = MODE_NORMAL \<and> cmd_buf s 0 \<noteq> 0 \<and> cmd_buf s 0 \<noteq> 58"

definition with_selection :: "editor \<Rightarrow> editor" where
  "with_selection s =
    (if mode s = MODE_VISUAL \<or> mode s = MODE_VISUAL_LINE
     then (case get_sel_bounds s of (start, e) \<Rightarrow> s\<lparr>view := (view s)\<lparr>sel_start := start, sel_end := e\<rparr>\<rparr>)
     else s\<lparr>view := (view s)\<lparr>sel_start := NO_SEL, sel_end := NO_SEL\<rparr>\<rparr>)"

definition draw_editor :: "editor \<Rightarrow> vga_call list" where
  "draw_editor s =
    (let cmd_display = (if mode s = MODE_COMMAND \<or> status_shown s then c_text (cmd_buf s) 0 CMD_BUF_SIZE else []);
         name = c_text (filename s) 0 13
     in view_render (view s) (gb s) (if name = [] then None else Some name) (modified s) (mode_string (mode s)) cmd_display)"

definition handle_key :: "(byte list \<Rightarrow> byte list \<Rightarrow> 'fs \<Rightarrow> int \<times> 'fs) \<Rightarrow> int \<Rightarrow> editor \<times> 'fs \<Rightarrow> editor \<times> 'fs" where
  "handle_key wr key s_fs =
    (case s_fs of (s, fs) \<Rightarrow>
     let s = (if status_shown s then s\<lparr>cmd_buf := (cmd_buf s)(0 := 0)\<rparr> else s)
     in case mode s of
          MODE_NORMAL \<Rightarrow> (handle_normal key s, fs)
        | MODE_INSERT \<Rightarrow> (handle_insert key s, fs)
        | MODE_COMMAND \<Rightarrow> handle_command wr key (s, fs)
        | _ \<Rightarrow> (handle_visual key s, fs))"

text \<open>
  The main loop on the list of the keys that will be pressed: the session waits for a key when the
  list ends, and a session that has been left draws nothing more.
\<close>

fun editor_loop :: "(byte list \<Rightarrow> byte list \<Rightarrow> 'fs \<Rightarrow> int \<times> 'fs) \<Rightarrow> int list \<Rightarrow> editor \<times> 'fs \<Rightarrow> editor \<times> 'fs \<times> vga_call list" where
  "editor_loop wr keys (s, fs) =
    (if \<not> running s then (s, fs, [ClearScreen])
     else
       let s = with_selection s in
       case keys of
         [] \<Rightarrow> (s, fs, draw_editor s)
       | key # rest \<Rightarrow>
           (case editor_loop wr rest (handle_key wr key (s, fs)) of (s', fs', calls) \<Rightarrow> (s', fs', draw_editor s @ calls)))"

definition editor_init :: "nat \<Rightarrow> nat \<Rightarrow> editor \<Rightarrow> editor" where
  "editor_init rows cols s =
    s\<lparr>gb := buf_init (gb s), view := view_init rows cols, mode := MODE_NORMAL, modified := False,
      cmd_buf := (cmd_buf s)(0 := 0), cmd_len := 0, running := True, awaiting_g := False, awaiting_r := False,
      awaiting_gt := False, awaiting_lt := False, yank_len := 0, repeat_count := 0, count_active := False,
      pending_operator := OP_NONE, op_count := 0\<rparr>"

text \<open>\<open>rd name max fs\<close> is the content read from a file, \<open>None\<close> when there is none.\<close>

definition editor_load :: "(byte list \<Rightarrow> nat \<Rightarrow> 'fs \<Rightarrow> byte list option) \<Rightarrow> byte list option \<Rightarrow> editor \<times> 'fs \<Rightarrow> editor" where
  "editor_load rd fname s_fs =
    (case s_fs of (s, fs) \<Rightarrow>
     sync_cursor
       (case fname of
          None \<Rightarrow> s\<lparr>filename := (filename s)(0 := 0)\<rparr>
        | Some name \<Rightarrow>
            let s = s\<lparr>filename := put_text (take 12 name) (filename s)\<rparr> in
            (case rd name BUFFER_SIZE fs of
               None \<Rightarrow> s
             | Some content \<Rightarrow> if length content > 0 then edit_buf (buf_load ((!) content) (length content)) s else s)))"

definition editor_open ::
  "(byte list \<Rightarrow> nat \<Rightarrow> 'fs \<Rightarrow> byte list option) \<Rightarrow> (byte list \<Rightarrow> byte list \<Rightarrow> 'fs \<Rightarrow> int \<times> 'fs) \<Rightarrow> nat \<Rightarrow> nat \<Rightarrow>
   byte list option \<Rightarrow> int list \<Rightarrow> editor \<times> 'fs \<Rightarrow> editor \<times> 'fs \<times> vga_call list" where
  "editor_open rd wr rows cols fname keys s_fs =
    (case s_fs of (s, fs) \<Rightarrow> editor_loop wr keys (editor_load rd fname (editor_init rows cols s, fs), fs))"

text \<open>The statics before the first call: all zero.\<close>

definition editor0 :: editor where
  "editor0 =
    \<lparr>gb = gbuf0, view = \<lparr>screen_rows = 0, screen_cols = 0, top_line = 0, cursor_line = 0, cursor_col = 0, sel_start = 0, sel_end = 0\<rparr>,
     mode = MODE_NORMAL, filename = (\<lambda>_. 0), modified = False, cmd_buf = (\<lambda>_. 0), cmd_len = 0, running = False,
     awaiting_g = False, awaiting_r = False, awaiting_gt = False, awaiting_lt = False, sel_anchor = 0, yank_buf = (\<lambda>_. 0),
     yank_len = 0, yank_linewise = False, repeat_count = 0, count_active = False, pending_operator = OP_NONE, op_count = 0\<rparr>"

end
