(* ===== verification/EditorUndo.thy ===== *)
theory EditorUndo
  imports Editor
begin

text \<open>
  What the commands of the editor do to its buffer, as edits of theory \<open>EditHistory\<close>: a command only
  moves the cursor, or it sets an undo boundary and then makes plain edits. So one \<open>u\<close> takes back one
  command, or one whole stay in insert mode.
\<close>

section \<open>Commands as sequences of edits\<close>

definition edits :: "gbuf \<Rightarrow> gbuf \<Rightarrow> bool" where
  "edits b b' \<longleftrightarrow> (\<exists>es. (\<forall>e\<in>set es. plain_edit e) \<and> b' = fold edit_step es b)"

fun move_edit :: "edit \<Rightarrow> bool" where
  "move_edit MoveLeft = True"
| "move_edit MoveRight = True"
| "move_edit (MoveTo p) = True"
| "move_edit _ = False"

definition moves :: "gbuf \<Rightarrow> gbuf \<Rightarrow> bool" where
  "moves b b' \<longleftrightarrow> (\<exists>es. (\<forall>e\<in>set es. move_edit e) \<and> b' = fold edit_step es b)"

lemma edits_refl [simp, intro]: "edits b b"
  by (auto simp: edits_def intro: exI [of _ "[]"])

lemma moves_refl [simp, intro]: "moves b b"
  by (auto simp: moves_def intro: exI [of _ "[]"])

lemma edits_trans: "edits a b \<Longrightarrow> edits b c \<Longrightarrow> edits a c"
proof -
  assume "edits a b" "edits b c"
  then obtain es fs where "\<forall>e\<in>set es. plain_edit e" "b = fold edit_step es a" "\<forall>e\<in>set fs. plain_edit e" "c = fold edit_step fs b"
    by (auto simp: edits_def)
  then show ?thesis by (intro edits_def [THEN iffD2] exI [of _ "es @ fs"]) auto
qed

lemma moves_trans: "moves a b \<Longrightarrow> moves b c \<Longrightarrow> moves a c"
proof -
  assume "moves a b" "moves b c"
  then obtain es fs where "\<forall>e\<in>set es. move_edit e" "b = fold edit_step es a" "\<forall>e\<in>set fs. move_edit e" "c = fold edit_step fs b"
    by (auto simp: moves_def)
  then show ?thesis by (intro moves_def [THEN iffD2] exI [of _ "es @ fs"]) auto
qed

lemma moves_edits: "moves a b \<Longrightarrow> edits a b"
proof -
  have "move_edit e \<Longrightarrow> plain_edit e" for e by (cases e) auto
  then show "moves a b \<Longrightarrow> edits a b" by (auto simp: moves_def edits_def)
qed

lemma edit_one: "plain_edit e \<Longrightarrow> edits b (edit_step e b)"
  by (auto simp: edits_def intro: exI [of _ "[e]"])

lemma move_one: "move_edit e \<Longrightarrow> moves b (edit_step e b)"
  by (auto simp: moves_def intro: exI [of _ "[e]"])

lemma moves_ops [intro]:
  "moves a b \<Longrightarrow> moves a (buf_move_left b)" "moves a b \<Longrightarrow> moves a (buf_move_right b)" "moves a b \<Longrightarrow> moves a (buf_move_to p b)"
  using move_one [of MoveLeft b] move_one [of MoveRight b] move_one [of "MoveTo p" b] by (auto intro: moves_trans)

lemma edits_ops [intro]:
  "edits a b \<Longrightarrow> edits a (buf_move_left b)" "edits a b \<Longrightarrow> edits a (buf_move_right b)" "edits a b \<Longrightarrow> edits a (buf_move_to p b)"
  "edits a b \<Longrightarrow> edits a (buf_insert c b)" "edits a b \<Longrightarrow> edits a (buf_delete_fwd b)" "edits a b \<Longrightarrow> edits a (buf_delete_back b)"
  using edit_one [of MoveLeft b] edit_one [of MoveRight b] edit_one [of "MoveTo p" b] edit_one [of "Insert c" b]
    edit_one [of DeleteFwd b] edit_one [of DeleteBack b] by (auto intro: edits_trans)

lemma edits_funpow [intro]: "(\<And>b. edits a b \<Longrightarrow> edits a (f b)) \<Longrightarrow> edits a b \<Longrightarrow> edits a ((f ^^ n) b)"
  by (induction n) auto

lemma moves_funpow [intro]: "(\<And>b. moves a b \<Longrightarrow> moves a (f b)) \<Longrightarrow> moves a b \<Longrightarrow> moves a ((f ^^ n) b)"
  by (induction n) auto

lemma edits_fold [intro]: "(\<And>i b. edits a b \<Longrightarrow> edits a (f i b)) \<Longrightarrow> edits a b \<Longrightarrow> edits a (fold f is b)"
  by (induction "is" arbitrary: b) auto

text \<open>The pieces of the commands.\<close>

lemma edits_pieces [intro]:
  "edits a b \<Longrightarrow> edits a (replace_chars n c b)"
  "edits a b \<Longrightarrow> edits a (indent_line l b)"
  "edits a b \<Longrightarrow> edits a (outdent_line l b)"
  "edits a b \<Longrightarrow> edits a (paste_once s b)"
  "edits a b \<Longrightarrow> edits a (toggle_at i b)"
  by (auto simp: replace_chars_def indent_line_def outdent_line_def paste_once_def insert_yank_def toggle_at_def Let_def
      intro!: edits_ops edits_fold edits_funpow)

lemma edits_each_line [intro]:
  "(\<And>l b. edits a b \<Longrightarrow> edits a (f l b)) \<Longrightarrow> edits a b \<Longrightarrow> edits a (each_line n f l b)"
  by (induction n arbitrary: l b) auto

lemma edits_delete_blanks [intro]: "edits a b \<Longrightarrow> edits a (delete_blanks b)"
proof (induction b rule: delete_blanks.induct)
  case (1 b)
  then show ?case by (subst delete_blanks.simps) auto
qed

lemma edits_join [intro]: "edits a (gb s) \<Longrightarrow> edits a (gb (join_lines n s))"
proof (induction n arbitrary: s)
  case (Suc n)
  show ?case using Suc.prems by (auto simp: Let_def intro!: Suc.IH edits_ops edits_delete_blanks)
qed simp

lemma edits_toggle [intro]: "edits a (gb s) \<Longrightarrow> edits a (gb (toggle_chars n s))"
proof (induction n arbitrary: s)
  case (Suc n)
  show ?case using Suc.prems by (auto simp: Let_def intro!: Suc.IH edits_ops)
qed simp

text \<open>The buffer behind the functions that also change other fields.\<close>

lemma gb_frame [simp]:
  "gb (sync_cursor s) = gb s" "gb (changed s) = gb s" "gb (insert_mode s) = gb s" "gb (reset_count s) = gb s"
  "gb (keep_count n s) = gb s" "gb (count_digit k s) = gb s" "gb (yank_range i j s) = gb s" "gb (cancel_operator s) = gb s"
  "gb (yank_selection i j s) = gb s" "gb (set_status m s) = gb s" "gb (yank_current_line s) = gb s"
  by (simp_all add: sync_cursor_def changed_def insert_mode_def reset_count_def keep_count_def count_digit_def yank_range_def
      cancel_operator_def yank_selection_def set_status_def yank_current_line_def Let_def)

lemma gb_funpow_same: "(\<And>s. gb (f s) = gb s) \<Longrightarrow> gb (((f :: editor \<Rightarrow> editor) ^^ n) s) = gb s"
  by (induction n) simp_all

lemma edits_delete_range [intro]: "edits a (gb s) \<Longrightarrow> edits a (gb (delete_range i j s))"
  by (auto simp: delete_range_def Let_def)

lemma edits_cut_part [intro]: "edits a (gb s) \<Longrightarrow> edits a (gb (cut_part i j s))"
  by (auto simp: cut_part_def intro!: edits_delete_range)

lemma moves_motion:
  "moves (gb s) (gb (move_to_line_col l c s))" "moves (gb s) (gb (move_vertical d s))" "moves (gb s) (gb (go_to f s))"
  "moves (gb s) (gb (go_line n s))"
  by (auto simp: move_to_line_col_def move_vertical_def go_to_def go_line_def Let_def)

lemma motion_moves: "motion key n s = Some s' \<Longrightarrow> moves (gb s) (gb s')"
  by (auto simp: motion_def moves_motion split: if_splits intro!: moves_funpow moves_ops)

lemma mode_frame [simp]:
  "mode (sync_cursor s) = mode s" "mode (changed s) = mode s" "mode (reset_count s) = mode s"
  "mode (keep_count n s) = mode s" "mode (count_digit k s) = mode s" "mode (yank_range i j s) = mode s" "mode (cancel_operator s) = mode s"
  "mode (move_to_line_col l c s) = mode s" "mode (move_vertical d s) = mode s" "mode (go_to f s) = mode s" "mode (go_line n s) = mode s"
  "mode (yank_current_line s) = mode s" "pending_operator (reset_count s) = pending_operator s"
  by (simp_all add: sync_cursor_def changed_def reset_count_def keep_count_def count_digit_def yank_range_def
      cancel_operator_def move_to_line_col_def move_vertical_def go_to_def go_line_def yank_current_line_def Let_def)

lemma mode_funpow: "(\<And>s. mode (f s) = mode s) \<Longrightarrow> mode (((f :: editor \<Rightarrow> editor) ^^ n) s) = mode s"
  by (induction n) simp_all

definition command_effect :: "editor \<Rightarrow> editor \<Rightarrow> bool" where
  "command_effect s s' \<longleftrightarrow>
    moves (gb s) (gb s') \<and> (mode s' = MODE_INSERT \<longrightarrow> mode s = MODE_INSERT) \<or> edits (buf_undo_boundary (gb s)) (gb s')"

lemma effect_if:
  "(c \<Longrightarrow> command_effect s x) \<Longrightarrow> command_effect s y \<Longrightarrow> command_effect s (if c then x else y)"
  by simp

lemma effect_move: "moves (gb s) (gb s') \<Longrightarrow> mode s' = MODE_INSERT \<longrightarrow> mode s = MODE_INSERT \<Longrightarrow> command_effect s s'"
  and effect_edit: "edits (buf_undo_boundary (gb s)) (gb s') \<Longrightarrow> command_effect s s'"
  by (simp_all add: command_effect_def)

lemma effect_same: "gb s' = gb s \<Longrightarrow> mode s' = MODE_INSERT \<longrightarrow> mode s = MODE_INSERT \<Longrightarrow> command_effect s s'"
  by (simp add: command_effect_def)

lemma operator_effect:
  "edits (buf_undo_boundary (gb s)) (gb (apply_operator_charwise i j s))"
  "edits (buf_undo_boundary (gb s)) (gb (apply_operator_linewise i j s))"
  by (auto simp: apply_operator_charwise_def apply_operator_linewise_def Let_def intro!: edits_delete_range)

lemma operator_motion_effect: "command_effect s (handle_operator_motion key n s)"
  unfolding handle_operator_motion_def Let_def
  by (intro effect_if; (rule effect_edit, rule operator_effect | rule effect_same, simp, simp))

lemma edits_mark: "edits (buf_undo_boundary (gb s)) (gb (mark s))"
  by simp

lemma edits_if: "edits a x \<Longrightarrow> edits a y \<Longrightarrow> edits a (if c then x else y)"
  by simp

lemma edits_go_to [intro]: "edits a (gb s) \<Longrightarrow> edits a (gb (go_to f s))"
  using moves_motion(3) [of s f] moves_edits edits_trans by blast

lemma normal_command_effect:
  assumes "key \<noteq> KEY CHR ''u''" and "key \<noteq> KEY_CTRL CHR ''r''"
  shows "command_effect s (normal_command key n s)"
proof (cases "motion key n s")
  case None
  have k: "key \<noteq> 117" using assms(1) by simp
  have y: "gb ((yank_current_line ^^ n) s) = gb s" by (rule gb_funpow_same) simp
  have m: "mode ((yank_current_line ^^ n) s) = mode s" by (rule mode_funpow) simp
  show ?thesis
    unfolding normal_command_def None option.case Let_def
    by (intro effect_if;
        (simp add: assms(2) k; fail
         | rule effect_move, simp add: moves_motion, simp; fail
         | rule effect_same, simp add: y, simp add: m; fail
         | rule effect_edit, simp; fail
         | rule effect_edit, simp?,
           (intro edits_mark edits_if edits_ops edits_funpow edits_go_to edits_cut_part edits_join edits_toggle edits_pieces edits_refl | assumption)+)?)
next
  case (Some s')
  have "mode s' = mode s" using Some by (auto simp: motion_def split: if_splits)
  then show ?thesis using Some motion_moves [OF Some] by (simp add: normal_command_def effect_move)
qed

lemma after_effect:
  "command_effect s (after_r key s)" "command_effect s (after_g key s)" "command_effect s (after_gt key s)"
  "command_effect s (after_lt key s)" "command_effect s (count_digit key s)"
proof -
  show "command_effect s (after_r key s)"
  proof (cases "printable key")
    case True
    then show ?thesis by (intro effect_edit) (simp add: after_r_def Let_def edits_pieces)
  qed (simp add: after_r_def Let_def effect_same)
  show "command_effect s (after_g key s)"
    using operator_effect(2) [of "s\<lparr>awaiting_g := False\<rparr>"] moves_motion(1) [of "reset_count (s\<lparr>awaiting_g := False\<rparr>)"]
    by (auto simp: after_g_def Let_def intro: effect_edit effect_move effect_same)
  have "edits (buf_undo_boundary (gb s)) (gb (shift_lines indent_line t))"
    "edits (buf_undo_boundary (gb s)) (gb (shift_lines outdent_line t))" if "gb t = gb s" for t
    using that by (auto simp: shift_lines_def Let_def intro!: edits_each_line edits_pieces)
  then show "command_effect s (after_gt key s)" "command_effect s (after_lt key s)"
    by (auto simp: after_gt_def after_lt_def Let_def intro: effect_edit effect_same)
  show "command_effect s (count_digit key s)" by (rule effect_same) simp_all
qed

lemma handle_normal_effect:
  assumes "\<not> (pending_operator s = OP_NONE \<and> (key = KEY CHR ''u'' \<or> key = KEY_CTRL CHR ''r''))"
  shows "command_effect s (handle_normal key s)"
proof -
  have e: "command_effect s t" if "command_effect (reset_count s) t" for t using that by (simp add: command_effect_def)
  have n: "command_effect s (handle_operator_motion key n (reset_count s))"
    "pending_operator s = OP_NONE \<Longrightarrow> command_effect s (normal_command key n (reset_count s))" for n
    using operator_motion_effect normal_command_effect assms by (auto intro!: e)
  have N: "command_effect s (if pending_operator s \<noteq> OP_NONE then handle_operator_motion key n (reset_count s)
      else normal_command key n (reset_count s))" for n
    using n by simp
  show ?thesis
    unfolding handle_normal_def Let_def mode_frame
    by (rule effect_if, rule after_effect(5), rule effect_if, rule after_effect(1), rule effect_if, rule after_effect(2),
        rule effect_if, rule after_effect(3), rule effect_if, rule after_effect(4), rule N)
qed

lemma handle_insert_edits:
  "key \<noteq> KEY_ESCAPE \<Longrightarrow> edits (gb s) (gb (handle_insert key s))"
  using moves_motion(2) [of s, THEN moves_edits]
  by (auto simp: handle_insert_def intro!: edits_ops edits_funpow)

lemma insert_keys_edits:
  "KEY_ESCAPE \<notin> set ks \<Longrightarrow> edits (gb s) (gb (fold handle_insert ks s))"
proof (induction ks arbitrary: s)
  case (Cons k ks)
  then have "edits (gb (handle_insert k s)) (gb (fold handle_insert ks (handle_insert k s)))" by simp
  then show ?case using Cons.prems edits_trans [OF handle_insert_edits [of k s]] by simp
qed simp

section \<open>What one undo takes back\<close>

text \<open>Reverting the entries on top of the undo stack, down to a boundary, gives the text \<open>t\<close>.\<close>

definition undone_to :: "byte list \<Rightarrow> gbuf \<Rightarrow> bool" where
  "undone_to t b \<longleftrightarrow> (\<exists>ps u. undo_log b = ps @ u \<and> (\<forall>p\<in>set ps. \<not> is_mark p) \<and> (u = [] \<or> is_mark (hd u)) \<and>
     undo_ok (text_of b) ps \<and> fold revert_entry ps (text_of b) = t)"

lemma boundary_undone: "buf_ok b \<Longrightarrow> undone_to (text_of b) (buf_undo_boundary b)"
  unfolding undone_to_def using boundary_log [of b] undo_boundary_view [of b]
  by (intro exI [of _ "[]"] exI [of _ "undo_log (buf_undo_boundary b)"]) (auto simp: view_of_def)

lemma edits_undone:
  assumes "buf_ok b" and "undone_to t b" and "edits b b'" and "undo_count b' < UNDO_STACK_SIZE"
  shows "undone_to t b'"
proof -
  obtain ps u where u: "undo_log b = ps @ u" "\<forall>p\<in>set ps. \<not> is_mark p" "u = [] \<or> is_mark (hd u)"
    "undo_ok (text_of b) ps" "fold revert_entry ps (text_of b) = t"
    using assms(2) by (auto simp: undone_to_def)
  obtain es where es: "\<forall>e\<in>set es. plain_edit e" "b' = fold edit_step es b" using assms(3) by (auto simp: edits_def)
  obtain qs where q: "undo_log b' = take UNDO_STACK_SIZE (qs @ undo_log b)" "\<forall>p\<in>set qs. \<not> is_mark p"
    "undo_ok (text_of b') qs" "fold revert_entry qs (text_of b') = text_of b"
    using plain_edits_logs [OF assms(1) es(1)] es(2) by auto
  have "length (undo_log b') = undo_count b'" by simp
  then have "length (qs @ undo_log b) < UNDO_STACK_SIZE" using assms(4) q(1) by simp
  then have "undo_log b' = (qs @ ps) @ u" using q(1) u(1) by simp
  then show ?thesis
    unfolding undone_to_def using u q by (intro exI [of _ "qs @ ps"] exI [of _ u]) (auto simp: undo_ok_append)
qed

text \<open>The same behind a boundary.\<close>

definition closed_to :: "byte list \<Rightarrow> gbuf \<Rightarrow> bool" where
  "closed_to t b \<longleftrightarrow> (\<exists>m ps u. undo_log b = m # ps @ u \<and> is_mark m \<and> ps \<noteq> [] \<and> (\<forall>p\<in>set ps. \<not> is_mark p) \<and>
     (u = [] \<or> is_mark (hd u)) \<and> fold revert_entry ps (text_of b) = t)"

lemma undone_closed:
  assumes "buf_ok b" and "undone_to t b" and "text_of b \<noteq> t" and "undo_count b < UNDO_STACK_SIZE"
  shows "closed_to t (buf_undo_boundary b)"
proof -
  obtain ps u where u: "undo_log b = ps @ u" "\<forall>p\<in>set ps. \<not> is_mark p" "u = [] \<or> is_mark (hd u)"
    "undo_ok (text_of b) ps" "fold revert_entry ps (text_of b) = t"
    using assms(2) by (auto simp: undone_to_def)
  from u(5) assms(3) have ne: "ps \<noteq> []" by auto
  then have top: "\<not> is_mark (hd (undo_log b))" "undo_count b \<noteq> 0" using u(1,2) by (cases ps; auto simp flip: undo_log_Nil)+
  then have "buf_undo_boundary b \<noteq> b"
    using hd_undo_log [of b] buf_okD(2) [OF assms(1)] assms(4) by (auto simp: buf_undo_boundary_def undo_push_def dest!: arg_cong [of _ b undo_count])
  then obtain m where m: "is_mark m" "pushed m b (buf_undo_boundary b)"
    using undo_boundary_cases [of b] buf_okD [OF assms(1)] by blast
  have "length (undo_log b) = undo_count b" by simp
  then have "undo_log (buf_undo_boundary b) = m # ps @ u" "text_of (buf_undo_boundary b) = text_of b"
    using m assms(4) u(1) by (simp_all add: pushed_def apply_mark del: length_logs)
  then show ?thesis using m u ne unfolding closed_to_def by auto
qed

lemma closed_boundary: "closed_to t b \<Longrightarrow> buf_undo_boundary b = b"
proof -
  assume "closed_to t b"
  then have "undo_log b \<noteq> []" "is_mark (hd (undo_log b))" by (auto simp: closed_to_def simp del: undo_log_Nil)
  then show ?thesis using hd_undo_log [of b] by (auto simp: buf_undo_boundary_def)
qed

lemma moves_kept:
  assumes "buf_ok b" and "moves b b'"
  shows "kept b b'"
proof -
  obtain es where es: "\<forall>e\<in>set es. move_edit e" "b' = fold edit_step es b" using assms(2) by (auto simp: moves_def)
  have "kept b (fold edit_step es b)" using assms(1) es(1)
  proof (induction es arbitrary: b)
    case (Cons e es)
    have "kept b (edit_step e b)" using Cons.prems move_kept buf_okD(1) by (cases e) auto
    then show ?case using Cons.IH [OF edit_step_ok [OF Cons.prems(1)]] Cons.prems(2) by (simp add: kept_def)
  qed (simp add: kept_def)
  then show ?thesis using es(2) by simp
qed

lemma moves_closed: "buf_ok b \<Longrightarrow> moves b b' \<Longrightarrow> closed_to t b \<Longrightarrow> closed_to t b'"
  using moves_kept [of b b'] by (simp add: kept_def closed_to_def)

lemma undo_closed:
  assumes "buf_ok b" and "closed_to t b"
  shows "fst (buf_undo b) \<and> text_of (snd (buf_undo b)) = t"
proof -
  obtain m ps u where u: "undo_log b = m # ps @ u" "is_mark m" "ps \<noteq> []" "\<forall>p\<in>set ps. \<not> is_mark p" "u = [] \<or> is_mark (hd u)"
    "fold revert_entry ps (text_of b) = t"
    using assms(2) by (auto simp: closed_to_def)
  have tw: "takeWhile (\<lambda>e. \<not> is_mark e) (ps @ u) = ps" using takeWhile_group [OF u(4,5)] by blast
  have h: "undo_hist (hist_of b) = (True, undo_list (ps @ u, m # redo_log b, text_of b))"
    using u(1-3) by (simp add: undo_hist_def hist_of_def Let_def)
  have "snd (snd (undo_list (ps @ u, m # redo_log b, text_of b))) = t" using tw u(6) by (simp add: Let_def)
  then show ?thesis
    using buf_undo_spec [of b] buf_okD [OF assms(1)] h by (simp add: hist_of_def Let_def)
qed

lemma edits_buf_ok: "buf_ok b \<Longrightarrow> edits b b' \<Longrightarrow> buf_ok b'"
  by (auto simp: edits_def edits_ok)

lemma boundary_buf_ok: "buf_ok b \<Longrightarrow> buf_ok (buf_undo_boundary b)"
  using edit_step_ok [of b Mark] by simp

lemma effect_buf_ok: "buf_ok (gb s) \<Longrightarrow> command_effect s s' \<Longrightarrow> buf_ok (gb s')"
  using moves_edits edits_buf_ok boundary_buf_ok unfolding command_effect_def by blast

lemma left_closed:
  assumes "buf_ok b" and "moves (buf_undo_boundary b) b'" and "text_of b' \<noteq> t" and "undo_count b' < UNDO_STACK_SIZE"
    and "undo_count b < UNDO_STACK_SIZE \<Longrightarrow> undone_to t b"
  shows "closed_to t b' \<and> buf_ok b'"
proof -
  let ?b = "buf_undo_boundary b"
  have okb: "buf_ok ?b" by (rule boundary_buf_ok [OF assms(1)])
  have k: "undo_log b' = undo_log ?b" "text_of b' = text_of b"
    using moves_kept [OF okb assms(2)] undo_boundary_view [of b] by (simp_all add: kept_def view_of_def)
  have "undo_count ?b = undo_count b'" using arg_cong [OF k(1), of length] by simp
  moreover have "undo_count b \<le> undo_count ?b" by (simp add: buf_undo_boundary_def undo_push_def)
  ultimately have n: "undo_count b < UNDO_STACK_SIZE" using assms(4) by simp
  have "closed_to t ?b" using undone_closed [OF assms(1) assms(5) [OF n] _ n] assms(3) k(2) by simp
  then show ?thesis using moves_closed [OF okb assms(2)] edits_buf_ok [OF okb moves_edits [OF assms(2)]] by simp
qed

text \<open>An editor that waits for a command.\<close>

definition idle :: "editor \<Rightarrow> bool" where
  "idle s \<longleftrightarrow> mode s = MODE_NORMAL \<and> \<not> awaiting_r s \<and> \<not> awaiting_g s \<and> \<not> awaiting_gt s \<and> \<not> awaiting_lt s \<and>
     repeat_count s = 0 \<and> \<not> count_active s \<and> pending_operator s = OP_NONE"

lemma handle_u:
  assumes "idle s"
  shows "gb (handle_normal (KEY CHR ''u'') s) = snd (buf_undo (buf_undo_boundary (gb s)))"
proof -
  have "motion (KEY CHR ''u'') 1 t = None" for t
    by (simp add: motion_def key_consts KEY_CTRL_def)
  then show ?thesis
    using assms by (simp add: handle_normal_def idle_def normal_command_def KEY_DELETE_def Let_def split: prod.split)
qed


text \<open>
  C7: One \<open>u\<close> takes back one command of normal mode, or one whole stay in insert mode: press any key
  but undo and redo in normal mode and, if that enters insert mode, type any keys and leave it with
  Escape; when the editor is idle again and the text has changed, \<open>u\<close> restores the text from before,
  unless the circular undo stack has filled up (2048 entries).
\<close>

theorem undo_takes_back_command:
  assumes "buf_ok (gb s)" and "mode s = MODE_NORMAL"
    and "\<not> (pending_operator s = OP_NONE \<and> (key = KEY CHR ''u'' \<or> key = KEY_CTRL CHR ''r''))"
    and "KEY_ESCAPE \<notin> set ks"
    and "s' = (let s1 = handle_normal key s in
           if mode s1 = MODE_INSERT then handle_insert KEY_ESCAPE (fold handle_insert ks s1) else s1)"
    and "idle s'" and "text_of (gb s') \<noteq> text_of (gb s)" and "undo_count (gb s') < UNDO_STACK_SIZE"
  shows "text_of (gb (handle_normal (KEY CHR ''u'') s')) = text_of (gb s)"
proof -
  let ?s1 = "handle_normal key s" and ?t = "text_of (gb s)"
  have eff: "command_effect s ?s1" by (rule handle_normal_effect [OF assms(3)])
  have ok: "buf_ok (buf_undo_boundary (gb s))" by (rule boundary_buf_ok [OF assms(1)])
  show ?thesis
  proof (cases "mode ?s1 = MODE_INSERT")
    case False
    then have s': "s' = ?s1" using assms(5) by (simp add: Let_def)
    have "\<not> moves (gb s) (gb s')" using moves_kept [OF assms(1), of "gb s'"] assms(7) unfolding kept_def by blast
    then have e: "edits (buf_undo_boundary (gb s)) (gb s')" using eff s' by (simp add: command_effect_def)
    have ok': "buf_ok (gb s')" by (rule edits_buf_ok [OF ok e])
    have u: "undone_to ?t (gb s')" by (rule edits_undone [OF ok boundary_undone [OF assms(1)] e assms(8)])
    have "closed_to ?t (buf_undo_boundary (gb s'))" by (rule undone_closed [OF ok' u assms(7,8)])
    then show ?thesis using undo_closed [OF boundary_buf_ok [OF ok']] handle_u [OF assms(6)] by simp
  next
    case True
    let ?s2 = "fold handle_insert ks ?s1"
    have s': "s' = handle_insert KEY_ESCAPE ?s2" using assms(5) True by (simp add: Let_def)
    have "edits (buf_undo_boundary (gb s)) (gb ?s1)" using eff True assms(2) by (simp add: command_effect_def)
    then have e: "edits (buf_undo_boundary (gb s)) (gb ?s2)"
      using edits_trans insert_keys_edits [OF assms(4), of ?s1] by blast
    have ok2: "buf_ok (gb ?s2)" by (rule edits_buf_ok [OF ok e])
    have m: "moves (buf_undo_boundary (gb ?s2)) (gb s')" by (auto simp: s' handle_insert_def)
    have c: "closed_to ?t (gb s')" "buf_ok (gb s')"
      using left_closed [OF ok2 m assms(7,8)] edits_undone [OF ok boundary_undone [OF assms(1)] e] by simp_all
    show ?thesis using undo_closed [OF c(2,1)] closed_boundary [OF c(1)] handle_u [OF assms(6)] by simp
  qed
qed

lemma undo_takes_back_command_witness:
  "text_of (gb (handle_normal (KEY CHR ''u'')
     (handle_insert KEY_ESCAPE (handle_insert (KEY CHR ''A'') (handle_normal (KEY CHR ''i'') (editor_init 37 100 editor0)))))) = []"
proof -
  let ?s = "editor_init 37 100 editor0"
  let ?s1 = "handle_normal (KEY CHR ''i'') ?s"
  let ?s' = "handle_insert KEY_ESCAPE (handle_insert (KEY CHR ''A'') ?s1)"
  have m: "motion 105 (Suc 0) t = None" for t
    by (simp add: motion_def key_consts KEY_CTRL_def)
  have b: "buf_undo_boundary (buf_init gbuf0) = buf_init gbuf0" by (simp add: buf_undo_boundary_def buf_init_def)
  have s1: "?s1 = ?s\<lparr>mode := MODE_INSERT\<rparr>"
    by (simp add: handle_normal_def normal_command_def m editor_init_def editor0_def reset_count_def insert_mode_def b)
  have g: "gb (handle_insert (KEY CHR ''A'') ?s1) = buf_insert 65 (buf_init gbuf0)"
    unfolding s1 by (simp add: handle_insert_def KEY_ESCAPE_def key_consts printable_def char_of_key_def editor_init_def editor0_def)
  have t: "text_of (buf_init gbuf0) = []" "text_of (buf_insert 65 (buf_init gbuf0)) = [65]"
    by (simp_all add: buf_insert_text buf_init_inv buf_init_text) (simp add: BUFFER_SIZE_def)
  let ?b = "buf_undo_boundary (buf_insert 65 (buf_init gbuf0))"
  have "buf_ok (buf_init gbuf0)" by (intro buf_reach_ok buf_reach.init)
  then have ok: "buf_ok (gb ?s)" and okb: "buf_ok ?b"
    using edit_step_ok [of "buf_init gbuf0" "Insert 65"] edit_step_ok [of "buf_insert 65 (buf_init gbuf0)" Mark]
    by (simp_all add: editor_init_def editor0_def)
  have mv: "moves ?b (gb ?s')"
    unfolding handle_insert_def [of KEY_ESCAPE] using g by (auto simp: editor_init_def editor0_def)
  have k: "undo_log (gb ?s') = undo_log ?b" "text_of (gb ?s') = [65]"
    using moves_kept [OF okb mv] undo_boundary_view [of "buf_insert 65 (buf_init gbuf0)"] t by (simp_all add: kept_def view_of_def)
  have "undo_count ?b \<le> 2"
    by (simp add: buf_undo_boundary_def undo_push_def buf_insert_def buf_init_def UNDO_STACK_SIZE_def)
  then have n: "undo_count (gb ?s') < UNDO_STACK_SIZE"
    using arg_cong [OF k(1), of length] by (simp add: UNDO_STACK_SIZE_def)
  have i: "idle ?s'"
    unfolding s1 by (simp add: idle_def handle_insert_def changed_def sync_cursor_def KEY_ESCAPE_def key_consts printable_def editor_init_def editor0_def)
  have p: "mode ?s = MODE_NORMAL" "text_of (gb ?s) = []" "pending_operator ?s = OP_NONE"
    by (simp_all add: editor_init_def editor0_def t(1))
  have q: "mode ?s1 = MODE_INSERT" unfolding s1 by simp
  show ?thesis
    using undo_takes_back_command [OF ok p(1), of "KEY CHR ''i''" "[KEY CHR ''A'']" ?s'] p q k(2) n i
    by (simp add: KEY_CTRL_def KEY_ESCAPE_def)
qed

end
