(* ===== verification/EditorSession.thy ===== *)
theory EditorSession
  imports EditorUndo
begin

text \<open>
  What a whole session of the editor keeps: the buffer's invariant, the bounds of its arrays and
  counters, and a view that shows the line of the cursor; everything it draws lies on the screen.
\<close>

section \<open>The invariant\<close>

definition has_nul :: "mem \<Rightarrow> nat \<Rightarrow> bool" where
  "has_nul m n \<longleftrightarrow> (\<exists>i < n. m i = 0)"

definition registers_ok :: "editor \<Rightarrow> bool" where
  "registers_ok s \<longleftrightarrow> screen_rows (view s) = 36 \<and> screen_cols (view s) = 100 \<and> has_nul (filename s) 13 \<and>
     has_nul (cmd_buf s) CMD_BUF_SIZE \<and> cmd_len s \<le> 78 \<and> yank_len s < YANK_SIZE \<and> repeat_count s \<le> 9999 \<and> op_count s \<le> 9999"

definition in_sync :: "editor \<Rightarrow> bool" where
  "in_sync s \<longleftrightarrow> cursor_line (view s) = buf_cursor_line (gb s) \<and> cursor_col (view s) = buf_cursor_col (gb s) \<and>
     top_line (view s) \<le> cursor_line (view s) \<and> cursor_line (view s) < top_line (view s) + screen_rows (view s)"

definition editor_ok :: "editor \<Rightarrow> bool" where
  "editor_ok s \<longleftrightarrow> buf_ok (gb s) \<and> registers_ok s \<and> in_sync s"

text \<open>\<open>keeps s s'\<close>: a step from \<open>s\<close> to \<open>s'\<close> keeps the registers in bounds and the view in sync.\<close>

definition keeps :: "editor \<Rightarrow> editor \<Rightarrow> bool" where
  "keeps s s' \<longleftrightarrow> (registers_ok s \<longrightarrow> registers_ok s') \<and> (registers_ok s \<and> in_sync s \<longrightarrow> in_sync s')"

definition keeps_regs :: "editor \<Rightarrow> editor \<Rightarrow> bool" where
  "keeps_regs s s' \<longleftrightarrow> (registers_ok s \<longrightarrow> registers_ok s')"

lemma regs_gb [simp]: "registers_ok (s\<lparr>gb := b\<rparr>) = registers_ok s"
  and regs_mode [simp]: "registers_ok (s\<lparr>mode := m\<rparr>) = registers_ok s"
  and regs_modified [simp]: "registers_ok (s\<lparr>modified := f\<rparr>) = registers_ok s"
  and regs_linewise [simp]: "registers_ok (s\<lparr>yank_linewise := f\<rparr>) = registers_ok s"
  and regs_running [simp]: "registers_ok (s\<lparr>running := f\<rparr>) = registers_ok s"
  and regs_flags [simp]: "registers_ok (s\<lparr>awaiting_g := f\<rparr>) = registers_ok s" "registers_ok (s\<lparr>awaiting_r := f\<rparr>) = registers_ok s"
    "registers_ok (s\<lparr>awaiting_gt := f\<rparr>) = registers_ok s" "registers_ok (s\<lparr>awaiting_lt := f\<rparr>) = registers_ok s"
  and regs_anchor [simp]: "registers_ok (s\<lparr>sel_anchor := n\<rparr>) = registers_ok s"
  and regs_pending [simp]: "registers_ok (s\<lparr>pending_operator := p\<rparr>) = registers_ok s"
  by (simp_all add: registers_ok_def)

lemma sync_fields [simp]:
  "in_sync (s\<lparr>mode := m\<rparr>) = in_sync s" "in_sync (s\<lparr>modified := f\<rparr>) = in_sync s"
  "in_sync (s\<lparr>yank_linewise := f\<rparr>) = in_sync s" "in_sync (s\<lparr>running := f\<rparr>) = in_sync s"
  "in_sync (s\<lparr>awaiting_g := f\<rparr>) = in_sync s" "in_sync (s\<lparr>awaiting_r := f\<rparr>) = in_sync s"
  "in_sync (s\<lparr>awaiting_gt := f\<rparr>) = in_sync s" "in_sync (s\<lparr>awaiting_lt := f\<rparr>) = in_sync s"
  "in_sync (s\<lparr>sel_anchor := n\<rparr>) = in_sync s" "in_sync (s\<lparr>pending_operator := p\<rparr>) = in_sync s"
  "in_sync (s\<lparr>op_count := k\<rparr>) = in_sync s" "in_sync (s\<lparr>cmd_buf := c\<rparr>) = in_sync s" "in_sync (s\<lparr>cmd_len := k\<rparr>) = in_sync s"
  "in_sync (s\<lparr>filename := c\<rparr>) = in_sync s" "in_sync (reset_count s) = in_sync s" "in_sync (keep_count k s) = in_sync s"
  "in_sync (count_digit key s) = in_sync s" "in_sync (yank_range i j s) = in_sync s" "in_sync (yank_current_line s) = in_sync s"
  by (simp_all add: in_sync_def reset_count_def keep_count_def count_digit_def yank_range_def yank_current_line_def Let_def)

lemma cursor_boundary [simp]:
  "buf_cursor_line (buf_undo_boundary b) = buf_cursor_line b" "buf_cursor_col (buf_undo_boundary b) = buf_cursor_col b"
proof -
  have c: "buf_char_at (buf_undo_boundary b) = buf_char_at b" "gap_start (buf_undo_boundary b) = gap_start b"
    by (auto simp: buf_char_at_def buf_length_def buf_undo_boundary_def fun_eq_iff)
  have "cursor_col_while (buf_undo_boundary b) i k = cursor_col_while b i k" for i k
    by (induction i arbitrary: k) (simp_all add: c)
  then show "buf_cursor_line (buf_undo_boundary b) = buf_cursor_line b" "buf_cursor_col (buf_undo_boundary b) = buf_cursor_col b"
    by (simp_all add: buf_cursor_line_def buf_cursor_col_def buf_cursor_pos_def c)
qed

lemma sync_mark [simp]: "in_sync (mark s) = in_sync s"
  by (simp add: in_sync_def)

lemma scrolled:
  assumes "0 < screen_rows v"
  shows "top_line (view_scroll_to_cursor v) \<le> cursor_line v \<and>
    cursor_line v < top_line (view_scroll_to_cursor v) + screen_rows v \<and>
    view_scroll_to_cursor v = v\<lparr>top_line := top_line (view_scroll_to_cursor v)\<rparr>"
  using assms by (auto simp: view_scroll_to_cursor_def Let_def)

lemma regs_sync [simp]: "registers_ok (sync_cursor s) = registers_ok s"
  by (auto simp: registers_ok_def sync_cursor_def view_scroll_to_cursor_def Let_def)

lemma sync_synced: "registers_ok s \<Longrightarrow> in_sync (sync_cursor s)"
  by (auto simp: registers_ok_def in_sync_def sync_cursor_def view_scroll_to_cursor_def Let_def)

lemma regs_steps [simp]:
  "registers_ok s \<Longrightarrow> registers_ok (reset_count s)" "registers_ok s \<Longrightarrow> registers_ok (count_digit key s)"
  "registers_ok s \<Longrightarrow> registers_ok (yank_range i j s)" "registers_ok s \<Longrightarrow> registers_ok (yank_current_line s)"
  "registers_ok s \<Longrightarrow> k \<le> 9999 \<Longrightarrow> registers_ok (keep_count k s)" "registers_ok s \<Longrightarrow> registers_ok (s\<lparr>op_count := 0\<rparr>)"
  "registers_ok s \<Longrightarrow> k \<le> 9999 \<Longrightarrow> registers_ok (s\<lparr>op_count := k\<rparr>)"
  by (simp_all add: registers_ok_def reset_count_def count_digit_def yank_range_def yank_current_line_def keep_count_def YANK_SIZE_def Let_def)

lemma keeps_refl [simp]: "keeps s s" and keeps_regs_refl [simp]: "keeps_regs s s"
  by (simp_all add: keeps_def keeps_regs_def)

lemma keeps_trans: "keeps a b \<Longrightarrow> keeps b c \<Longrightarrow> keeps a c"
  by (simp add: keeps_def)

lemma keeps_if: "(c \<Longrightarrow> keeps s x) \<Longrightarrow> keeps s y \<Longrightarrow> keeps s (if c then x else y)"
  by simp

text \<open>Whatever happened before, the view is in sync behind \<open>sync_cursor\<close>.\<close>

lemma keeps_sync: "keeps_regs s t \<Longrightarrow> keeps s (sync_cursor t)" "keeps_regs s t \<Longrightarrow> keeps s (changed t)"
  by (simp_all add: keeps_def keeps_regs_def changed_def sync_synced)

lemma keeps_steps:
  "keeps s (move_to_line_col l c s)" "keeps s (move_vertical d s)" "keeps s (go_to f s)" "keeps s (go_line n s)"
  "keeps s (delete_range i j s)" "keeps s (cut_part i j s)"
  by (auto simp: move_to_line_col_def move_vertical_def go_to_def go_line_def delete_range_def cut_part_def Let_def keeps_def sync_synced)

lemma keeps_cancel: "keeps s (cancel_operator s)"
  by (simp add: keeps_def cancel_operator_def)

lemma keeps_join: "keeps_regs s (join_lines n s)"
proof (induction n arbitrary: s)
  case (Suc n)
  have "registers_ok (join_lines n t)" if "registers_ok t" for t using Suc that by (simp add: keeps_regs_def)
  then show ?case by (auto simp: keeps_regs_def Let_def)
qed simp

lemma keeps_toggle: "keeps_regs s (toggle_chars n s)"
proof (induction n arbitrary: s)
  case (Suc n)
  have "registers_ok (toggle_chars n t)" if "registers_ok t" for t using Suc that by (simp add: keeps_regs_def)
  then show ?case by (auto simp: keeps_regs_def Let_def)
qed simp

lemma keeps_funpow: "(\<And>s. keeps s (f s)) \<Longrightarrow> keeps s (((f :: editor \<Rightarrow> editor) ^^ n) s)"
  by (induction n) (auto intro: keeps_trans)

section \<open>Every command keeps it\<close>

lemma keeps_out:
  "keeps s t \<Longrightarrow> keeps s (cancel_operator t)" "keeps s t \<Longrightarrow> keeps s (delete_range i j t)" "keeps s t \<Longrightarrow> keeps s (t\<lparr>mode := m\<rparr>)"
  "keeps s t \<Longrightarrow> keeps s (t\<lparr>yank_linewise := f\<rparr>)" "keeps s t \<Longrightarrow> keeps s (mark t)" "keeps s t \<Longrightarrow> keeps s (yank_range i j t)"
  "keeps s t \<Longrightarrow> keeps s (insert_mode t)" "keeps s t \<Longrightarrow> keeps s (go_to g t)" "keeps s t \<Longrightarrow> keeps s (cut_part i j t)"
  "keeps s t \<Longrightarrow> keeps s (reset_count t)" "keeps s t \<Longrightarrow> keeps s (move_to_line_col i j t)" "keeps s t \<Longrightarrow> keeps s (move_vertical d t)"
  "keeps s t \<Longrightarrow> keeps s (go_line i t)" "keeps s t \<Longrightarrow> keeps s (t\<lparr>awaiting_g := f\<rparr>)" "keeps s t \<Longrightarrow> keeps s (t\<lparr>awaiting_r := f\<rparr>)"
  "keeps s t \<Longrightarrow> keeps s (t\<lparr>awaiting_gt := f\<rparr>)" "keeps s t \<Longrightarrow> keeps s (t\<lparr>awaiting_lt := f\<rparr>)" "keeps s t \<Longrightarrow> keeps s (t\<lparr>sel_anchor := i\<rparr>)"
  "keeps s t \<Longrightarrow> keeps s (t\<lparr>modified := f\<rparr>)" "keeps s t \<Longrightarrow> keeps s (yank_selection i j t)"
  "keeps s t \<Longrightarrow> keeps s (t\<lparr>pending_operator := p\<rparr>)"
proof -
  assume k: "keeps s t"
  show "keeps s (cancel_operator t)" "keeps s (delete_range i j t)" "keeps s (go_to g t)" "keeps s (cut_part i j t)"
    "keeps s (move_to_line_col i j t)" "keeps s (move_vertical d t)" "keeps s (go_line i t)"
    by (rule keeps_trans [OF k], rule keeps_cancel keeps_steps)+
  show "keeps s (t\<lparr>mode := m\<rparr>)" "keeps s (t\<lparr>yank_linewise := f\<rparr>)" "keeps s (mark t)" "keeps s (yank_range i j t)"
    "keeps s (insert_mode t)" "keeps s (reset_count t)" "keeps s (t\<lparr>awaiting_g := f\<rparr>)" "keeps s (t\<lparr>awaiting_r := f\<rparr>)"
    "keeps s (t\<lparr>awaiting_gt := f\<rparr>)" "keeps s (t\<lparr>awaiting_lt := f\<rparr>)" "keeps s (t\<lparr>sel_anchor := i\<rparr>)" "keeps s (t\<lparr>modified := f\<rparr>)"
    "keeps s (yank_selection i j t)" "keeps s (t\<lparr>pending_operator := p\<rparr>)"
    using k by (simp_all add: keeps_def insert_mode_def yank_selection_def)
qed

lemma keeps_operator:
  "keeps s (apply_operator_charwise i j s)" "keeps s (apply_operator_linewise i j s)"
proof -
  have "keeps s (sync_cursor (edit_buf g (delete_range i j t)))" if "keeps s t" for i j t g
    using keeps_out(2) [OF that, of i j] by (intro keeps_sync) (simp add: keeps_def keeps_regs_def)
  note rules = this keeps_out keeps_if keeps_refl
  show "keeps s (apply_operator_charwise i j s)" unfolding apply_operator_charwise_def Let_def by (intro rules)
  show "keeps s (apply_operator_linewise i j s)"
    unfolding apply_operator_linewise_def Let_def by (cases "j < i"; simp only: if_True if_False prod.case) (intro rules)+
qed

lemma keeps_operator_motion: "keeps s (handle_operator_motion key n s)"
  unfolding handle_operator_motion_def Let_def by (intro keeps_operator keeps_out keeps_if keeps_refl)

lemma keeps_motion: "motion key n s = Some s' \<Longrightarrow> keeps s s'"
  by (auto simp: motion_def keeps_steps keeps_sync keeps_regs_def split: if_splits intro: keeps_out)

lemma keeps_normal_command:
  assumes "n \<le> 9999"
  shows "keeps s (normal_command key n s)"
proof (cases "motion key n s")
  case None
  have op: "keeps s (s\<lparr>pending_operator := p, op_count := n\<rparr>)" for p
    using assms by (simp add: keeps_def)
  have k: "keeps s (keep_count n t)" if "keeps s t" for t
    using assms that by (simp add: keeps_def)
  have y: "keeps s ((yank_current_line ^^ n) s)" by (rule keeps_funpow) (simp add: keeps_def)
  have reg: "keeps_regs s (mark s)" "keeps_regs s (edit_buf g s)" "keeps_regs s (edit_buf g (mark s))"
    "keeps_regs s (join_lines n (mark s))" "keeps_regs s (toggle_chars n (mark s))" for g
    using keeps_join [of "mark s" n] keeps_toggle [of "mark s" n] by (simp_all add: keeps_regs_def)
  have c: "keeps s (s\<lparr>mode := MODE_COMMAND, cmd_len := 1, cmd_buf := (cmd_buf s)(0 := 58, 1 := 0)\<rparr>)"
    by (auto simp: keeps_def registers_ok_def has_nul_def CMD_BUF_SIZE_def intro!: exI [of _ 1])
  show ?thesis
    unfolding normal_command_def None option.case Let_def
    by (intro keeps_if op k c y keeps_out keeps_sync reg keeps_refl)
qed (simp add: normal_command_def keeps_motion)

lemma keeps_after:
  "keeps s (after_r key s)" "keeps s (after_g key s)" "keeps s (after_gt key s)" "keeps s (after_lt key s)"
proof -
  have r: "keeps_regs s (edit_buf g (reset_count (s\<lparr>awaiting_r := False\<rparr>)))" for g by (simp add: keeps_regs_def)
  show "keeps s (after_r key s)"
    unfolding after_r_def Let_def by (intro keeps_if keeps_out keeps_sync r keeps_refl)
  have o: "keeps s (apply_operator_linewise i j t)" if "keeps s t" for i j t by (rule keeps_trans [OF that keeps_operator(2)])
  show "keeps s (after_g key s)"
    unfolding after_g_def Let_def by (intro keeps_if keeps_out o keeps_refl)
  have sh: "keeps s (shift_lines g t)" if "keeps s t" for g t
    using that unfolding shift_lines_def Let_def by (intro keeps_out keeps_sync) (simp add: keeps_def keeps_regs_def)
  show "keeps s (after_gt key s)" "keeps s (after_lt key s)"
    unfolding after_gt_def after_lt_def Let_def by (intro keeps_if keeps_out sh keeps_refl)+
qed

lemma handle_normal_keeps:
  assumes "registers_ok s"
  shows "keeps s (handle_normal key s)"
proof -
  have d: "keeps s (count_digit key s)" by (simp add: keeps_def)
  have n: "keeps s (handle_operator_motion key n (reset_count s))" "n \<le> 9999 \<Longrightarrow> keeps s (normal_command key n (reset_count s))" for n
    using keeps_operator_motion keeps_normal_command keeps_out(10) [OF keeps_refl] by (blast intro: keeps_trans)+
  have c: "repeat_count s \<le> 9999" using assms by (simp add: registers_ok_def)
  show ?thesis
    unfolding handle_normal_def Let_def by (intro keeps_if d keeps_after n) (use c in auto)
qed

lemma handle_insert_keeps: "keeps s (handle_insert key s)"
proof -
  have "keeps_regs s (edit_buf g s)" "keeps_regs s (edit_buf g ((mark s)\<lparr>mode := m\<rparr>))" for g m by (simp_all add: keeps_regs_def)
  then show ?thesis
    unfolding handle_insert_def by (intro keeps_if keeps_out keeps_sync keeps_refl)
qed

lemma handle_visual_keeps: "keeps s (handle_visual key s)"
proof -
  have sh: "keeps s (shift_selection g s)" for g
    unfolding shift_selection_def Let_def
    by (auto simp: keeps_def sync_synced changed_def split: prod.split)
  have t: "keeps s (changed (edit_buf g (mark s)))" for g by (intro keeps_sync) (simp add: keeps_regs_def)
  have m: "keeps s (case motion key 1 s of None \<Rightarrow> x | Some s' \<Rightarrow> s')" if "keeps s x" for x
    using that keeps_motion by (auto split: option.split)
  have p: "keeps s (case q of (i, j) \<Rightarrow> f i j)" if "\<And>i j. keeps s (f i j)" for q f
    using that by (cases q) simp
  show ?thesis
    unfolding handle_visual_def visual_command_def Let_def by (intro keeps_if m p sh t keeps_out keeps_refl)
qed

section \<open>The buffer\<close>

definition sound :: "editor \<Rightarrow> editor \<Rightarrow> bool" where
  "sound s s' \<longleftrightarrow> (buf_ok (gb s) \<longrightarrow> buf_ok (gb s'))"

lemma sound_if: "(c \<Longrightarrow> sound s x) \<Longrightarrow> sound s y \<Longrightarrow> sound s (if c then x else y)"
  by simp

lemma sound_same: "gb s' = gb s \<Longrightarrow> sound s s'"
  by (simp add: sound_def)

lemma sound_effect: "command_effect s s' \<Longrightarrow> sound s s'"
  using effect_buf_ok by (auto simp: sound_def)

lemma sound_edits: "edits (gb s) (gb s') \<Longrightarrow> sound s s'"
  using edits_buf_ok by (auto simp: sound_def)

lemma repeat_buf_ok:
  assumes "\<And>b. buf_ok b \<Longrightarrow> buf_ok (snd (f b))"
  shows "buf_ok b \<Longrightarrow> buf_ok (repeat_while_ok n f b)"
proof (induction n arbitrary: b)
  case (Suc n)
  then show ?case using assms [of b] by (cases "f b") simp
qed simp

lemma normal_command_sound: "sound s (normal_command key n s)"
proof (cases "key = KEY CHR ''u'' \<or> key = KEY_CTRL CHR ''r''")
  case True
  have no: "motion (KEY CHR ''u'') n s = None" "motion (KEY_CTRL CHR ''r'') n s = None"
    by (simp_all add: motion_def key_consts KEY_CTRL_def)
  have "buf_ok (repeat_while_ok n buf_undo (buf_undo_boundary (gb s)))" "buf_ok (repeat_while_ok n buf_redo (gb s))" if "buf_ok (gb s)"
    using that edit_step_ok [of _ Undo] edit_step_ok [of _ Redo] by (auto intro!: repeat_buf_ok boundary_buf_ok)
  then have "sound s (changed (edit_buf (repeat_while_ok n buf_undo) (mark s)))" "sound s (changed (edit_buf (repeat_while_ok n buf_redo) s))"
    by (simp_all add: sound_def)
  then show ?thesis
    using True no by (auto simp: normal_command_def key_consts KEY_CTRL_def)
qed (use normal_command_effect sound_effect in blast)

lemma sound_reset: "sound (reset_count s) t \<Longrightarrow> sound s t"
  by (simp add: sound_def)

lemma handle_normal_sound: "sound s (handle_normal key s)"
  unfolding handle_normal_def Let_def
  by (intro sound_if after_effect [THEN sound_effect] sound_reset [OF operator_motion_effect [THEN sound_effect]]
      sound_reset [OF normal_command_sound])

lemma handle_insert_sound: "sound s (handle_insert key s)"
proof (cases "key = KEY_ESCAPE")
  case True
  then have "edits (buf_undo_boundary (gb s)) (gb (handle_insert key s))" by (auto simp: handle_insert_def)
  then show ?thesis using edits_buf_ok boundary_buf_ok by (auto simp: sound_def)
qed (use handle_insert_edits sound_edits in blast)

lemma handle_visual_sound: "sound s (handle_visual key s)"
proof -
  have b: "sound s t" if "edits (buf_undo_boundary (gb s)) (gb t)" for t
    using that edits_buf_ok boundary_buf_ok by (auto simp: sound_def)
  have sh: "sound s (shift_selection indent_line s)" "sound s (shift_selection outdent_line s)"
    by (rule b; auto simp: shift_selection_def Let_def split: prod.split intro!: edits_fold edits_pieces)+
  have m: "sound s (case motion key 1 s of None \<Rightarrow> x | Some s' \<Rightarrow> s')" if "sound s x" for x
    using that motion_moves [THEN moves_edits, THEN sound_edits] by (auto split: option.split)
  have p: "sound s (case q of (i, j) \<Rightarrow> f i j)" if "\<And>i j. sound s (f i j)" for q f
    using that by (cases q) simp
  have mv: "sound s (move_to_line_col i j s)" "sound s (move_to_line_col i j (s\<lparr>awaiting_g := x\<rparr>))" for i j x
    using moves_motion(1) [of s i j] moves_motion(1) [of "s\<lparr>awaiting_g := x\<rparr>" i j] by (auto intro!: sound_edits moves_edits)
  have d: "sound s ((delete_range i j (yank_selection i j (mark s)))\<lparr>mode := md\<rparr>)" for i j md
    by (rule b) (auto intro!: edits_delete_range)
  have t: "sound s ((changed (edit_buf (fold toggle_at is) (mark s)))\<lparr>mode := md\<rparr>)" for "is" md
    by (rule b) (auto intro!: edits_fold edits_pieces)
  show ?thesis
    unfolding handle_visual_def visual_command_def Let_def
    by (intro sound_if m p sh mv d t) (rule sound_same, simp)+
qed

section \<open>A key and a session\<close>

lemma has_nul_put: "length m < n \<Longrightarrow> has_nul (put_text m a) n"
  by (auto simp: has_nul_def put_text_def)

lemma status_ok: "length m < CMD_BUF_SIZE \<Longrightarrow> editor_ok s \<Longrightarrow> editor_ok (set_status m s)"
  by (simp add: editor_ok_def registers_ok_def set_status_def has_nul_put)

lemma fields_ok [simp]:
  "editor_ok (s\<lparr>mode := m\<rparr>) = editor_ok s" "editor_ok (s\<lparr>modified := f\<rparr>) = editor_ok s" "editor_ok (s\<lparr>running := f\<rparr>) = editor_ok s"
  by (simp_all add: editor_ok_def)

lemma do_save_ok:
  assumes "editor_ok s" and "do_save wr arg (s, fs) = (r, s', fs')"
  shows "editor_ok s'"
proof -
  have f: "editor_ok (s\<lparr>filename := put_text (take 12 n) c\<rparr>)" for n c
    using assms(1) by (simp add: editor_ok_def registers_ok_def has_nul_put)
  show ?thesis
    using assms by (auto simp: do_save_def Let_def f intro!: status_ok simp: CMD_BUF_SIZE_def split: prod.splits if_splits)
qed

lemma cmd_execute_ok:
  assumes "editor_ok s" and "cmd_execute wr (s, fs) = (s', fs')"
  shows "editor_ok s'"
proof -
  have st: "editor_ok (set_status m s)" if "length m < 80" for m using that assms(1) by (simp add: status_ok CMD_BUF_SIZE_def)
  show ?thesis
    using assms unfolding cmd_execute_def prod.case Let_def
    by (auto split: if_splits prod.splits simp: st dest!: do_save_ok [OF assms(1)])
qed

lemma clear_command_ok: "editor_ok s \<Longrightarrow> editor_ok (clear_command s)"
  by (auto simp: editor_ok_def registers_ok_def clear_command_def has_nul_def CMD_BUF_SIZE_def intro!: exI [of _ 0])

lemma handle_command_ok:
  assumes "editor_ok s" and "handle_command wr key (s, fs) = (s', fs')"
  shows "editor_ok s'"
proof -
  have l: "editor_ok (t\<lparr>cmd_len := 0\<rparr>)" if "editor_ok t" for t
    using that by (simp add: editor_ok_def registers_ok_def)
  have n: "has_nul ((cmd_buf s)(i := 0)) 80" "has_nul ((cmd_buf s)(j := c, i := 0)) 80" if "i < 80" for i j c
    using that by (auto simp: has_nul_def intro!: exI [of _ i])
  have c: "cmd_len s \<le> 78" using assms(1) by (simp add: editor_ok_def registers_ok_def)
  have b: "editor_ok (s\<lparr>cmd_len := cmd_len s - 1, cmd_buf := (cmd_buf s)(cmd_len s - 1 := 0)\<rparr>)"
    using assms(1) c n(1) [of "cmd_len s - 1"] by (simp add: editor_ok_def registers_ok_def CMD_BUF_SIZE_def)
  have t: "editor_ok (s\<lparr>cmd_len := cmd_len s + 1, cmd_buf := (cmd_buf s)(cmd_len s := x, cmd_len s + 1 := 0)\<rparr>)" if "cmd_len s < 78" for x
    using assms(1) that n(2) [of "cmd_len s + 1"] by (simp add: editor_ok_def registers_ok_def CMD_BUF_SIZE_def)
  show ?thesis
    using assms l [OF cmd_execute_ok [OF assms(1)]] b t clear_command_ok [OF assms(1)]
    by (auto simp: handle_command_def split: if_splits prod.splits)
qed

lemma step_ok: "editor_ok s \<Longrightarrow> keeps s s' \<Longrightarrow> sound s s' \<Longrightarrow> editor_ok s'"
  by (simp add: editor_ok_def keeps_def sound_def)

lemma handle_key_ok:
  assumes "editor_ok s" and "handle_key wr key (s, fs) = (s', fs')"
  shows "editor_ok s'"
proof -
  let ?s = "if status_shown s then s\<lparr>cmd_buf := (cmd_buf s)(0 := 0)\<rparr> else s"
  have "editor_ok (s\<lparr>cmd_buf := (cmd_buf s)(0 := 0)\<rparr>)"
    using assms(1) by (auto simp: editor_ok_def registers_ok_def has_nul_def CMD_BUF_SIZE_def intro!: exI [of _ 0])
  then have ok: "editor_ok ?s" using assms(1) by simp
  then have "registers_ok ?s" by (simp add: editor_ok_def)
  then have h: "editor_ok (handle_normal key ?s)" "editor_ok (handle_insert key ?s)" "editor_ok (handle_visual key ?s)"
    using step_ok [OF ok] handle_normal_keeps handle_normal_sound handle_insert_keeps handle_insert_sound
      handle_visual_keeps handle_visual_sound by blast+
  have k: "handle_key wr key (s, fs) = (case mode ?s of MODE_NORMAL \<Rightarrow> (handle_normal key ?s, fs)
      | MODE_INSERT \<Rightarrow> (handle_insert key ?s, fs) | MODE_COMMAND \<Rightarrow> handle_command wr key (?s, fs) | _ \<Rightarrow> (handle_visual key ?s, fs))"
    unfolding handle_key_def prod.case Let_def ..
  show ?thesis
    using assms(2) h handle_command_ok [OF ok] unfolding k by (cases "mode ?s") auto
qed

lemma with_selection_ok: "editor_ok s \<Longrightarrow> editor_ok (with_selection s)"
  by (auto simp: with_selection_def editor_ok_def registers_ok_def in_sync_def split: prod.split)

section \<open>What is drawn\<close>

fun on_screen :: "vga_call \<Rightarrow> bool" where
  "on_screen (PutAt row col c fg bg) = (row < 37 \<and> col < 100)"
| "on_screen (SetCursor row col) = (row < 37 \<and> col < 100)"
| "on_screen ClearScreen = True"

lemma length_dec_of: "n < 10 ^ Suc k \<Longrightarrow> length (dec_of n) \<le> Suc k"
proof (induction k arbitrary: n)
  case 0
  then show ?case by (simp add: dec_of.simps)
next
  case (Suc k)
  then have "n div 10 < 10 ^ Suc k" by (simp add: less_mult_imp_div_less)
  from Suc.IH [OF this] show ?case by (subst dec_of.simps) simp
qed

lemma cursor_bounds:
  assumes "buf_ok b"
  shows "buf_cursor_line b \<le> 32768 \<and> buf_cursor_col b \<le> 32768"
proof -
  have inv: "gb_inv b" by (rule buf_okD [OF assms])
  have c: "gap_start b \<le> 32768" using inv by (auto simp: gb_inv_def BUFFER_SIZE_def)
  have "count_list (take (gap_start b) (text_of b)) NL \<le> length (take (gap_start b) (text_of b))" by (rule count_le_length)
  also have "\<dots> \<le> gap_start b" by simp
  finally have l: "buf_cursor_line b \<le> gap_start b" using inv by (simp add: buf_cursor_line_eq)
  have "length (takeWhile (\<lambda>c. c \<noteq> NL) (rev (take (gap_start b) (text_of b)))) \<le> length (rev (take (gap_start b) (text_of b)))"
    by (rule length_takeWhile_le)
  then have "buf_cursor_col b \<le> gap_start b"
    using inv cursor_le_text [of b] by (simp add: buf_cursor_col_def cursor_col_while_eq buf_cursor_pos_def)
  then show ?thesis using l c by simp
qed

lemma position_fits:
  assumes "editor_ok s"
  shows "length (position_text (view s)) < 20"
proof -
  have "cursor_line (view s) \<le> 32768 \<and> cursor_col (view s) \<le> 32768"
    using assms cursor_bounds [of "gb s"] by (simp add: editor_ok_def in_sync_def)
  then have "length (dec_of (u32 (cursor_line (view s) + 1))) \<le> Suc 4" "length (dec_of (u32 (cursor_col (view s) + 1))) \<le> Suc 4"
    by (intro length_dec_of; simp add: u32_def)+
  then show ?thesis by (simp add: position_text_def)
qed

lemma put_str_on_screen: "row < 37 \<Longrightarrow> limit \<le> 100 \<Longrightarrow> list_all on_screen (put_str row col limit m)"
  by (auto simp: put_str_def list_all_iff)

lemma length_c_text: "length (c_text m i n) \<le> n - i"
  using length_takeWhile_le [of "\<lambda>c. c \<noteq> 0" "seg m i (n - i)"] by (simp add: c_text_def)

lemma text_rows_on_screen:
  assumes "screen_rows v = 36" and "screen_cols v = 100"
  shows "list_all on_screen (text_rows v b)"
  using assms by (auto simp: text_rows_def list_all_iff row_cell_def Let_def)

lemma status_bar_on_screen:
  assumes "screen_rows v = 36" and "screen_cols v = 100" and "length (position_text v) < 20"
    and "top_line v \<le> cursor_line v" and "cursor_line v < top_line v + 36" and "cursor_line v < 4294967296"
  shows "list_all on_screen (status_bar v name f m)"
proof -
  have r: "u8 (356 - length (position_text v)) = 100 - length (position_text v)"
    using assms(3) by (simp add: u8_def mod_if)
  have p: "list_all on_screen (map (\<lambda>i. PutAt 36 (u8 (100 - length (position_text v) + i)) (position_text v ! i) 0 15) [0..<length (position_text v)])"
    using assms(3) by (auto simp: list_all_iff u8_def)
  have c: "u8 (sub32 (cursor_line v) (top_line v)) < 36"
    using assms(4-6) by (simp add: sub32_id u8_def)
  have l: "list_all on_screen (put_str 36 c1 l1 s1)" if "l1 \<le> 100" for c1 l1 s1 using that by (intro put_str_on_screen) simp_all
  show ?thesis
    unfolding status_bar_def Let_def using assms(1,2) r p c by (simp add: l)
qed

lemma draw_on_screen:
  assumes "editor_ok s"
  shows "list_all on_screen (draw_editor s)"
proof -
  have v: "screen_rows (view s) = 36" "screen_cols (view s) = 100" and i: "in_sync s" and ok: "buf_ok (gb s)"
    using assms by (simp_all add: editor_ok_def registers_ok_def)
  have c: "length (c_text (cmd_buf s) 0 CMD_BUF_SIZE) \<le> 80" using length_c_text [of "cmd_buf s" 0 80] by (simp add: CMD_BUF_SIZE_def)
  have st: "list_all on_screen (status_bar (view s) name f m)" for name f m
    using i v cursor_bounds [OF ok] by (intro status_bar_on_screen position_fits assms) (simp_all add: in_sync_def)
  have b: "list_all on_screen (map (\<lambda>col. PutAt 36 col 32 0 15) [0..<100])" by (simp add: list_all_iff)
  show ?thesis
    unfolding draw_editor_def view_render_def Let_def
    using v c text_rows_on_screen [OF v, of "gb s"] st put_str_on_screen [of 36 100 0] b by (auto simp: min_def)
qed

lemma editor_loop_ok:
  "editor_ok s \<Longrightarrow> editor_loop wr keys (s, fs) = (s', fs', calls) \<Longrightarrow> editor_ok s' \<and> list_all on_screen calls"
proof (induction keys arbitrary: s fs s' fs' calls)
  case Nil
  then show ?case using with_selection_ok draw_on_screen by (auto simp: Let_def split: if_splits)
next
  case (Cons key keys)
  show ?case
  proof (cases "running s")
    case True
    obtain s1 fs1 where k: "handle_key wr key (with_selection s, fs) = (s1, fs1)" by fastforce
    obtain s2 fs2 c where l: "editor_loop wr keys (s1, fs1) = (s2, fs2, c)" by (cases "editor_loop wr keys (s1, fs1)") auto
    have w: "editor_ok (with_selection s)" using Cons.prems(1) by (rule with_selection_ok)
    show ?thesis
      using Cons.IH [OF handle_key_ok [OF w k] l] Cons.prems(2) True k l draw_on_screen [OF w] by (auto simp: Let_def)
  qed (use Cons.prems in auto)
qed

lemma editor_load_ok: "editor_ok (editor_load rd fname (editor_init 37 100 s, fs))"
proof -
  have r: "registers_ok (editor_init 37 100 s\<lparr>filename := f, gb := b\<rparr>)" "registers_ok (editor_init 37 100 s\<lparr>filename := f\<rparr>)" if "has_nul f 13" for f b
    using that by (auto simp: registers_ok_def editor_init_def view_init_def has_nul_def CMD_BUF_SIZE_def YANK_SIZE_def intro!: exI [of _ 0])
  have b: "buf_ok (buf_init c)" "buf_ok (buf_load m n c)" for c m n by (intro buf_reach_ok buf_reach.intros)+
  have n: "has_nul ((filename s)(0 := 0)) 13" "has_nul (put_text (take 12 x) (filename s)) 13" for x
    by (auto simp: has_nul_def put_text_def)
  have "editor_ok (sync_cursor t)" if "registers_ok t" "buf_ok (gb t)" for t
    using that by (simp add: editor_ok_def sync_synced)
  moreover have "filename (editor_init 37 100 s) = filename s" "gb (editor_init 37 100 s) = buf_init (gb s)"
    by (simp_all add: editor_init_def)
  ultimately show ?thesis
    using r n b by (auto simp: editor_load_def Let_def split: option.splits)
qed

section \<open>The property\<close>

text \<open>
  C9: Whatever file is opened and whatever keys are pressed, the editor ends in a state where the buffer's
  invariant holds (the gap and the undo stack in bounds, every logged edit replayable), the file name and the
  command line are terminated strings in their arrays, the yank buffer and the counts are in bounds, the view
  shows the line of the cursor and the position text fits its 20 bytes; and everything that was drawn lies
  on the screen.
\<close>

theorem editor_session_invariant:
  "case editor_open rd wr 37 100 fname keys (s, fs) of (s', fs', calls) \<Rightarrow>
     editor_ok s' \<and> length (position_text (view s')) < 20 \<and> list_all on_screen calls"
proof -
  obtain s' fs' calls where l: "editor_open rd wr 37 100 fname keys (s, fs) = (s', fs', calls)"
    by (cases "editor_open rd wr 37 100 fname keys (s, fs)") auto
  then have "editor_ok s' \<and> list_all on_screen calls"
    using editor_loop_ok [OF editor_load_ok] by (simp add: editor_open_def)
  then show ?thesis using position_fits l by simp
qed

section \<open>The selection of lines at the end of the text\<close>

lemma sel_lines_at_end:
  assumes "gb_inv b" and "text_of b = t @ [NL]"
  shows "sel_lines b (length (text_of b)) (length (text_of b)) = (0, count_list t NL)"
proof -
  let ?f = "\<lambda>(line, sline, eline) i. (if buf_char_at b i = NL then line + 1 else line,
    if i = length (text_of b) then line else sline, if i < length (text_of b) then line else eline)"
  have "foldl ?f (0, 0, 0) [0..<n] = (count_list (take n (text_of b)) NL, 0, count_list (take (n - 1) (text_of b)) NL)"
    if "n \<le> length (text_of b)" for n
    using that
  proof (induction n)
    case (Suc n)
    then show ?case using assms(1) by (simp add: buf_char_at_text take_Suc_conv_app_nth count_list_append)
  qed simp
  from this [of "length (text_of b)"] show ?thesis
    unfolding sel_lines_def using assms by (simp add: buf_length_text)
qed

lemma line_offset_le: "line_offset t n \<le> length t"
  by (induction t n rule: line_offset.induct) auto

lemma last_line_start:
  "NL \<notin> set (drop (line_offset (t @ u) (count_list t NL)) t) \<and> line_offset (t @ u) (count_list t NL) \<le> length t"
proof (induction t)
  case (Cons c t)
  then show ?case
  proof (cases "c = NL")
    case False
    then show ?thesis
    proof (cases "count_list t NL")
      case 0
      then show ?thesis using False by (simp add: count_list_0_iff)
    qed (use Cons False in simp)
  qed simp
qed simp

lemma line_end_while_plain:
  assumes "gb_inv b" and "len \<le> length (text_of b)" and "i \<le> k" and "k < len" and "text_of b ! k = NL"
    and "\<forall>j. i \<le> j \<and> j < k \<longrightarrow> text_of b ! j \<noteq> NL"
  shows "line_end_while b len i = k"
  using assms(3,6)
proof (induction "k - i" arbitrary: i)
  case 0
  then have "i = k" by simp
  then show ?case using assms by (subst line_end_while.simps) (simp add: buf_char_at_text)
next
  case (Suc d)
  then have "i < k" "text_of b ! i \<noteq> NL" by auto
  moreover have "line_end_while b len (i + 1) = k" using Suc by (intro Suc.hyps(1)) auto
  ultimately show ?case using assms by (subst line_end_while.simps) (simp add: buf_char_at_text)
qed

lemma last_line_length:
  assumes "gb_inv b" and "text_of b = t @ [NL]"
  shows "buf_line_start b (count_list t NL) + buf_line_length b (count_list t NL) = length t"
proof -
  let ?i = "line_offset (t @ [NL]) (count_list t NL)"
  have s: "buf_line_start b (count_list t NL) = ?i" using assms by (simp add: buf_line_start_eq)
  have o: "NL \<notin> set (drop ?i t)" "?i \<le> length t" using last_line_start [of t "[NL]"] by simp_all
  have "text_of b ! j \<noteq> NL" if "?i \<le> j" "j < length t" for j
  proof -
    have "t ! j = drop ?i t ! (j - ?i)" "j - ?i < length (drop ?i t)" using that o(2) by simp_all
    then have "t ! j \<in> set (drop ?i t)" using nth_mem by metis
    then show ?thesis using o(1) that assms(2) by (auto simp: nth_append)
  qed
  then have "line_end_while b (buf_length b) ?i = length t"
    using assms o(2) by (intro line_end_while_plain) (auto simp: buf_length_text)
  then show ?thesis using s o(2) by (simp add: buf_line_length_def Let_def)
qed

lemma delete_all:
  "gb_inv b \<Longrightarrow> gap_start b = 0 \<Longrightarrow> text_of ((buf_delete_fwd ^^ n) b) = drop n (text_of b)"
proof -
  assume "gb_inv b" "gap_start b = 0"
  then have "gb_inv ((buf_delete_fwd ^^ n) b) \<and> gap_start ((buf_delete_fwd ^^ n) b) = 0 \<and>
    text_of ((buf_delete_fwd ^^ n) b) = drop n (text_of b)"
    by (induction n) (simp_all add: buf_delete_fwd_inv buf_delete_fwd_text buf_delete_fwd_cursor drop_Suc tl_drop)
  then show ?thesis by simp
qed

text \<open>
  C38: Deleting the line selected with \<open>V\<close> when the cursor stands behind the newline that ends the text
  deletes the whole text: the loop that looks for the selection's first line never meets the end of the text,
  so the selection starts at the first line.
\<close>

theorem visual_line_at_end_deletes_all:
  assumes "buf_ok (gb s)" and "mode s = MODE_VISUAL_LINE" and "\<not> awaiting_g s"
    and "text_of (gb s) = t @ [NL]" and "buf_cursor_pos (gb s) = length (text_of (gb s))" and "sel_anchor s = buf_cursor_pos (gb s)"
  shows "text_of (gb (handle_visual (KEY CHR ''d'') s)) = []"
proof -
  let ?b = "buf_undo_boundary (gb s)"
  have ok: "buf_ok ?b" by (rule boundary_buf_ok [OF assms(1)])
  have inv: "gb_inv ?b" by (rule buf_okD [OF ok])
  have v: "text_of ?b = t @ [NL]" "buf_cursor_pos ?b = Suc (length t)"
    using undo_boundary_view [of "gb s"] assms(4,5) by (simp_all add: view_of_def buf_cursor_pos_def)
  have n: "Suc (length t) \<le> 32768" using length_text_of [OF inv] v(1) by (simp add: BUFFER_SIZE_def)
  have sl: "sel_lines ?b (Suc (length t)) (Suc (length t)) = (0, count_list t NL)"
    using sel_lines_at_end [OF inv v(1)] v(1) by simp
  have bounds: "get_sel_bounds (mark s) = (0, Suc (length t))"
    using assms(2,6) v sl last_line_length [OF inv v(1)]
    by (simp add: get_sel_bounds_def Let_def buf_length_text [OF inv] buf_line_start_def buf_cursor_pos_def
        assms(5) [unfolded buf_cursor_pos_def] assms(4))
  have mo: "motion (KEY CHR ''d'') 1 s = None" by (simp add: motion_def key_consts KEY_CTRL_def)
  have "gb (handle_visual (KEY CHR ''d'') s) = (buf_delete_fwd ^^ sub32 (Suc (length t)) 0) (buf_move_to 0 ?b)"
    using assms(3) bounds mo by (simp add: handle_visual_def visual_command_def KEY_ESCAPE_def delete_range_def Let_def)
  also have "sub32 (Suc (length t)) 0 = Suc (length t)" using n by (simp add: sub32_id)
  finally show ?thesis
    using delete_all [of "buf_move_to 0 ?b" "Suc (length t)"] buf_move_to_inv [OF inv] buf_move_to_cursor [OF inv] buf_move_to_text [OF inv] v(1)
    by simp
qed

lemma visual_line_at_end_deletes_all_witness:
  "text_of (gb (handle_visual (KEY CHR ''d'')
     (editor0\<lparr>gb := buf_insert NL (buf_insert 65 (buf_init gbuf0)), mode := MODE_VISUAL_LINE, sel_anchor := 2\<rparr>))) = []"
proof -
  let ?b = "buf_insert NL (buf_insert 65 (buf_init gbuf0))"
  have ok: "buf_ok ?b"
    using edit_step_ok [OF edit_step_ok [OF buf_reach_ok [OF buf_reach.init [of gbuf0]], of "Insert 65"], of "Insert NL"] by simp
  have i: "gb_inv (buf_init gbuf0)" "gb_inv (buf_insert 65 (buf_init gbuf0))" by (simp_all add: buf_init_inv buf_insert_inv)
  have g: "gap_start (buf_init gbuf0) = 0" "gap_start (buf_insert 65 (buf_init gbuf0)) = 1" "gap_start ?b = 2"
    by (simp_all add: buf_init_def buf_insert_def BUFFER_SIZE_def)
  have "text_of (buf_insert 65 (buf_init gbuf0)) = [65]"
    using i by (simp add: buf_insert_text buf_init_text g) (simp add: BUFFER_SIZE_def)
  then have t: "text_of ?b = [65] @ [NL]"
    using i by (simp add: buf_insert_text g) (simp add: BUFFER_SIZE_def)
  show ?thesis
    using visual_line_at_end_deletes_all [of "editor0\<lparr>gb := ?b, mode := MODE_VISUAL_LINE, sel_anchor := 2\<rparr>" "[65]"] ok t g
    by (simp add: editor0_def buf_cursor_pos_def)
qed

end
