(* ===== verification/FrameAlloc.thy ===== *)
theory FrameAlloc
  imports Prelude
begin

text \<open>
  The physical frame allocator, \<open>kernel/pmm.c\<close>: a bitmap of 8192 frames in 256 words, one bit per
  4 KB frame, set when the frame is in use, and the count of frames in use. \<open>free_set\<close> reads
  the bitmap as the set of free frames; the locale \<open>frame_allocator\<close> is the contract a page
  allocator owes its clients, and \<open>pmm\<close> interprets it on the bitmap.
\<close>

section \<open>The bitmap\<close>

definition PAGE_SIZE :: nat where "PAGE_SIZE = 4096"
definition TOTAL_FRAMES :: nat where "TOTAL_FRAMES = 32 * 1024 * 1024 div PAGE_SIZE"
definition BITMAP_SIZE :: nat where "BITMAP_SIZE = TOTAL_FRAMES div 32"
definition PMM_ALLOC_FAILED :: nat where "PMM_ALLOC_FAILED = 0xFFFFFFFF"

lemmas pmm_consts = PAGE_SIZE_def TOTAL_FRAMES_def BITMAP_SIZE_def PMM_ALLOC_FAILED_def

record pmm =
  frame_bitmap :: "nat \<Rightarrow> i32"
  used_frames :: nat

definition bitmap_set :: "nat \<Rightarrow> pmm \<Rightarrow> pmm" where
  "bitmap_set frame s = s\<lparr>frame_bitmap := (frame_bitmap s)
     (frame div 32 := frame_bitmap s (frame div 32) OR push_bit (frame mod 32) 1)\<rparr>"

definition bitmap_clear :: "nat \<Rightarrow> pmm \<Rightarrow> pmm" where
  "bitmap_clear frame s = s\<lparr>frame_bitmap := (frame_bitmap s)
     (frame div 32 := frame_bitmap s (frame div 32) AND NOT (push_bit (frame mod 32) 1))\<rparr>"

definition bitmap_test :: "nat \<Rightarrow> pmm \<Rightarrow> bool" where
  "bitmap_test frame s \<longleftrightarrow> frame_bitmap s (frame div 32) AND push_bit (frame mod 32) 1 \<noteq> 0"

section \<open>The operations\<close>

text \<open>The first frame after the kernel: the end address rounded up to a page.\<close>

definition pmm_first_frame :: "i32 \<Rightarrow> nat" where
  "pmm_first_frame kernel_end =
     unat ((kernel_end + of_nat PAGE_SIZE - 1) AND NOT (of_nat PAGE_SIZE - 1)) div PAGE_SIZE"

definition pmm_clear_step :: "nat \<Rightarrow> pmm \<Rightarrow> pmm" where
  "pmm_clear_step i s = (bitmap_clear i s)\<lparr>used_frames := sub32 (used_frames s) 1\<rparr>"

text \<open>\<open>memset\<close> of the bitmap with \<open>0xFF\<close> bytes makes every word all ones.\<close>

definition pmm_init :: "i32 \<Rightarrow> pmm" where
  "pmm_init kernel_end =
     fold pmm_clear_step [pmm_first_frame kernel_end..<TOTAL_FRAMES]
       \<lparr>frame_bitmap = (\<lambda>_. 0xFFFFFFFF), used_frames = TOTAL_FRAMES\<rparr>"

text \<open>The two loops of \<open>pmm_alloc_frame\<close>: the free bit of a word, the word with a free bit.\<close>

fun find_bit :: "i32 \<Rightarrow> nat \<Rightarrow> nat \<Rightarrow> nat option" where
  "find_bit w b 0 = None"
| "find_bit w b (Suc n) = (if w AND push_bit b 1 = 0 then Some b else find_bit w (Suc b) n)"

fun find_word :: "(nat \<Rightarrow> i32) \<Rightarrow> nat \<Rightarrow> nat \<Rightarrow> nat option" where
  "find_word bm i 0 = None"
| "find_word bm i (Suc n) =
     (if bm i = 0xFFFFFFFF then find_word bm (Suc i) n
      else case find_bit (bm i) 0 32 of
             Some b \<Rightarrow> Some (i * 32 + b)
           | None \<Rightarrow> find_word bm (Suc i) n)"

definition pmm_alloc_frame :: "pmm \<Rightarrow> nat \<times> pmm" where
  "pmm_alloc_frame s =
     (case find_word (frame_bitmap s) 0 BITMAP_SIZE of
        Some frame \<Rightarrow> (frame * PAGE_SIZE,
                       (bitmap_set frame s)\<lparr>used_frames := u32 (used_frames s + 1)\<rparr>)
      | None \<Rightarrow> (PMM_ALLOC_FAILED, s))"

definition pmm_free_frame :: "nat \<Rightarrow> pmm \<Rightarrow> pmm" where
  "pmm_free_frame phys_addr s =
     (let frame = phys_addr div PAGE_SIZE in
      if \<not> bitmap_test frame s then s
      else (bitmap_clear frame s)\<lparr>used_frames := sub32 (used_frames s) 1\<rparr>)"

definition pmm_free_count :: "pmm \<Rightarrow> nat" where
  "pmm_free_count s = sub32 TOTAL_FRAMES (used_frames s)"

definition pmm_used_count :: "pmm \<Rightarrow> nat" where
  "pmm_used_count s = used_frames s"

section \<open>The bitmap as a set\<close>

lemma test_bit_iff: "(w :: i32) AND 2 ^ b \<noteq> 0 \<longleftrightarrow> b < 32 \<and> bit w b"
proof
  assume "w AND 2 ^ b \<noteq> 0"
  then obtain n where "bit (w AND 2 ^ b) n"
    using bit_eqI [of "w AND 2 ^ b" 0] by auto
  then show "b < 32 \<and> bit w b"
    by (auto simp: bit_simps)
next
  assume "b < 32 \<and> bit w b"
  then have "bit (w AND 2 ^ b) b"
    by (simp add: bit_simps)
  then show "w AND 2 ^ b \<noteq> 0" by auto
qed

lemma bitmap_test_iff: "bitmap_test f s \<longleftrightarrow> bit (frame_bitmap s (f div 32)) (f mod 32)"
  by (simp add: bitmap_test_def test_bit_iff)

lemma bitmap_test_set [simp]: "bitmap_test g (bitmap_set f s) \<longleftrightarrow> g = f \<or> bitmap_test g s"
proof (cases "g div 32 = f div 32")
  case True
  then have "g = f \<longleftrightarrow> g mod 32 = f mod 32" by (metis div_mod_decomp)
  with True show ?thesis
    by (auto simp: bitmap_test_iff bitmap_set_def bit_simps)
qed (auto simp: bitmap_test_iff bitmap_set_def)

lemma bitmap_test_clear [simp]: "bitmap_test g (bitmap_clear f s) \<longleftrightarrow> g \<noteq> f \<and> bitmap_test g s"
proof (cases "g div 32 = f div 32")
  case True
  then have "g = f \<longleftrightarrow> g mod 32 = f mod 32" by (metis div_mod_decomp)
  with True show ?thesis
    by (auto simp: bitmap_test_iff bitmap_clear_def bit_simps)
qed (auto simp: bitmap_test_iff bitmap_clear_def)

lemma bitmap_test_used_frames [simp]: "bitmap_test f (s\<lparr>used_frames := n\<rparr>) = bitmap_test f s"
  by (simp add: bitmap_test_def)

lemma used_frames_bitmap [simp]:
  "used_frames (bitmap_set f s) = used_frames s" "used_frames (bitmap_clear f s) = used_frames s"
  by (simp_all add: bitmap_set_def bitmap_clear_def)

definition used_set :: "pmm \<Rightarrow> nat set" where
  "used_set s = {f. f < TOTAL_FRAMES \<and> bitmap_test f s}"

definition free_set :: "pmm \<Rightarrow> nat set" where
  "free_set s = {f. f < TOTAL_FRAMES \<and> \<not> bitmap_test f s}"

definition pmm_inv :: "pmm \<Rightarrow> bool" where
  "pmm_inv s \<longleftrightarrow> used_frames s = card (used_set s)"

lemma finite_used_set [simp]: "finite (used_set s)" and finite_free_set [simp]: "finite (free_set s)"
  by (simp_all add: used_set_def free_set_def)

lemma used_plus_free: "card (used_set s) + card (free_set s) = TOTAL_FRAMES"
proof -
  have "card (used_set s) + card (free_set s) = card (used_set s \<union> free_set s)"
    by (rule card_Un_disjoint [symmetric]) (auto simp: used_set_def free_set_def)
  also have "used_set s \<union> free_set s = {..<TOTAL_FRAMES}"
    by (auto simp: used_set_def free_set_def)
  finally show ?thesis by simp
qed

lemma used_set_update [simp]: "used_set (s\<lparr>used_frames := n\<rparr>) = used_set s"
  by (simp add: used_set_def)

lemma used_set_set [simp]: "f < TOTAL_FRAMES \<Longrightarrow> used_set (bitmap_set f s) = insert f (used_set s)"
  by (auto simp: used_set_def)

lemma used_set_clear [simp]: "used_set (bitmap_clear f s) = used_set s - {f}"
  by (auto simp: used_set_def)

lemma free_set_compl: "free_set s = {..<TOTAL_FRAMES} - used_set s"
  by (auto simp: free_set_def used_set_def)

lemma card_used_le: "card (used_set s) \<le> TOTAL_FRAMES"
  using used_plus_free [of s] by simp

section \<open>The search\<close>

lemma find_bit_Some:
  "find_bit w b n = Some k \<Longrightarrow> b \<le> k \<and> k < b + n \<and> w AND 2 ^ k = 0 \<and>
     (\<forall>j. b \<le> j \<and> j < k \<longrightarrow> w AND 2 ^ j \<noteq> 0)"
proof (induction w b n rule: find_bit.induct)
  case (2 w b n)
  show ?case
  proof (cases "w AND 2 ^ b = 0")
    case False
    with 2 have *: "Suc b \<le> k" "k < Suc b + n" "w AND 2 ^ k = 0"
      "\<forall>j. Suc b \<le> j \<and> j < k \<longrightarrow> w AND 2 ^ j \<noteq> 0" by simp_all
    with False show ?thesis by (metis Suc_leD Suc_leI add_Suc_shift order_le_less)
  qed (use 2 in auto)
qed simp

lemma find_bit_None:
  "find_bit w b n = None \<Longrightarrow> b \<le> j \<Longrightarrow> j < b + n \<Longrightarrow> w AND 2 ^ j \<noteq> 0"
proof (induction w b n rule: find_bit.induct)
  case (2 w b n)
  then show ?case by (cases "j = b") (simp_all split: if_splits)
qed simp

lemma full_word_iff: "(w :: i32) = 0xFFFFFFFF \<longleftrightarrow> (\<forall>b < 32. bit w b)"
proof -
  have m1: "(0xFFFFFFFF :: i32) = - 1" by simp
  show ?thesis unfolding m1
    by (auto simp: bit_eq_iff bit_minus_1_iff)
qed

lemma find_word_step:
  assumes "bm i \<noteq> 0xFFFFFFFF"
  obtains b where "find_bit (bm i) 0 32 = Some b" "b < 32"
proof (cases "find_bit (bm i) 0 32")
  case None
  then have "bit (bm i) b" if "b < 32" for b
    using find_bit_None [OF None, of b] that by (simp add: test_bit_iff)
  with assms show ?thesis by (simp add: full_word_iff)
next
  case (Some b)
  with that find_bit_Some [OF Some] show ?thesis by simp
qed

lemma find_word_Some:
  "find_word bm i n = Some f \<Longrightarrow>
     f div 32 < i + n \<and> \<not> bit (bm (f div 32)) (f mod 32) \<and>
     (\<forall>g. i * 32 \<le> g \<and> g < f \<longrightarrow> bit (bm (g div 32)) (g mod 32))"
proof (induction bm i n rule: find_word.induct)
  case (1 bm i)
  then show ?case by simp
next
  case (2 bm i n)
  show ?case
  proof (cases "bm i = 0xFFFFFFFF")
    case True
    have full: "bit (bm i) b" if "b < 32" for b
      using True that full_word_iff by blast
    have IH: "f div 32 < Suc i + n" "\<not> bit (bm (f div 32)) (f mod 32)"
      "\<And>g. Suc i * 32 \<le> g \<and> g < f \<longrightarrow> bit (bm (g div 32)) (g mod 32)"
      using 2 True by auto
    have "bit (bm (g div 32)) (g mod 32)" if "i * 32 \<le> g" "g < f" for g
    proof (cases "Suc i * 32 \<le> g")
      case True
      then show ?thesis using IH(3) that by blast
    next
      case False
      then have "g div 32 = i" using that by auto
      then show ?thesis using full by simp
    qed
    with IH show ?thesis by auto
  next
    case False
    then obtain b where b: "find_bit (bm i) 0 32 = Some b" "b < 32" by (rule find_word_step)
    then have f: "f = i * 32 + b" using 2 False by simp
    have *: "\<not> bit (bm i) b" "\<forall>j < b. bit (bm i) j"
      using find_bit_Some [OF b(1)] b(2) test_bit_iff [of "bm i"] by auto
    have "bit (bm (g div 32)) (g mod 32)" if "i * 32 \<le> g" "g < f" for g
    proof -
      have "g = i * 32 + (g - i * 32)" "g - i * 32 < b"
        using that f by auto
      then have "g div 32 = i" "g mod 32 < b"
        using b(2) by (metis div_mult_self3 mod_mult_self3 div_less mod_less add.right_neutral
          less_trans zero_neq_numeral, metis mod_mult_self3 mod_less less_trans)
      then show ?thesis using *(2) by simp
    qed
    then show ?thesis using * f b(2) by auto
  qed
qed

lemma find_word_None:
  "find_word bm i n = None \<Longrightarrow> i \<le> j \<Longrightarrow> j < i + n \<Longrightarrow> bm j = 0xFFFFFFFF"
proof (induction bm i n rule: find_word.induct)
  case (1 bm i)
  then show ?case by simp
next
  case (2 bm i n)
  show ?case
  proof (cases "bm i = 0xFFFFFFFF")
    case True
    then show ?thesis using 2 by (cases "j = i") auto
  next
    case False
    then obtain b where "find_bit (bm i) 0 32 = Some b" by (rule find_word_step)
    then show ?thesis using False 2 by simp
  qed
qed

text \<open>What the allocator returns: the lowest free frame, or the failure value when none is free.\<close>

lemma alloc_cases:
  obtains (oom) "free_set s = {}" "pmm_alloc_frame s = (PMM_ALLOC_FAILED, s)"
  | (frame) f where "f \<in> free_set s" "\<forall>g \<in> free_set s. f \<le> g"
      "pmm_alloc_frame s = (f * PAGE_SIZE, (bitmap_set f s)\<lparr>used_frames := u32 (used_frames s + 1)\<rparr>)"
proof (cases "find_word (frame_bitmap s) 0 BITMAP_SIZE")
  case None
  have "frame_bitmap s (f div 32) = 0xFFFFFFFF" if "f < TOTAL_FRAMES" for f
    by (rule find_word_None [OF None]) (use that in \<open>auto simp: pmm_consts\<close>)
  then have "bitmap_test f s" if "f < TOTAL_FRAMES" for f
    using that full_word_iff by (simp add: bitmap_test_iff)
  then have "free_set s = {}" by (auto simp: free_set_def)
  with None show ?thesis by (intro oom) (auto simp: pmm_alloc_frame_def)
next
  case (Some f)
  note * = find_word_Some [OF Some]
  have "f < TOTAL_FRAMES" using * by (auto simp: pmm_consts)
  with * have f: "f \<in> free_set s" by (simp add: free_set_def bitmap_test_iff)
  have "\<forall>g \<in> free_set s. f \<le> g"
    using * by (auto simp: free_set_def bitmap_test_iff not_le [symmetric])
  with f Some show ?thesis by (intro frame [of f]) (auto simp: pmm_alloc_frame_def)
qed

section \<open>The contract of a frame allocator\<close>

text \<open>
  A client sees a set of free pages, an allocation that takes one of them or fails when there is
  none, and a release that gives one back.
\<close>

locale frame_allocator =
  fixes inv :: "'s \<Rightarrow> bool"
    and free :: "'s \<Rightarrow> nat set"
    and alloc :: "'s \<Rightarrow> nat option \<times> 's"
    and release :: "nat \<Rightarrow> 's \<Rightarrow> 's"
    and bound :: nat
  assumes free_bound: "inv s \<Longrightarrow> f \<in> free s \<Longrightarrow> f < bound"
    and alloc_None: "inv s \<Longrightarrow> alloc s = (None, s') \<longleftrightarrow> free s = {} \<and> s' = s"
    and alloc_Some: "inv s \<Longrightarrow> alloc s = (Some f, s') \<Longrightarrow>
          f \<in> free s \<and> free s' = free s - {f} \<and> inv s'"
    and release_free: "inv s \<Longrightarrow> f < bound \<Longrightarrow> free (release f s) = insert f (free s)"
    and release_inv: "inv s \<Longrightarrow> f < bound \<Longrightarrow> inv (release f s)"
begin

text \<open>\<open>n\<close> allocations in a row: the frames obtained, until the first failure.\<close>

fun alloc_list :: "nat \<Rightarrow> 's \<Rightarrow> nat list \<times> 's" where
  "alloc_list 0 s = ([], s)"
| "alloc_list (Suc n) s =
     (case alloc s of
        (None, s') \<Rightarrow> ([], s')
      | (Some f, s') \<Rightarrow> (case alloc_list n s' of (fs, s'') \<Rightarrow> (f # fs, s'')))"

lemma finite_free: "inv s \<Longrightarrow> finite (free s)"
  by (rule finite_subset [of _ "{..<bound}"]) (auto intro: free_bound)

lemma alloc_list_fresh:
  "inv s \<Longrightarrow> alloc_list n s = (fs, s') \<Longrightarrow>
     inv s' \<and> distinct fs \<and> set fs \<subseteq> free s \<and> free s' = free s - set fs \<and>
     length fs = min n (card (free s))"
proof (induction n arbitrary: s fs s')
  case 0
  then show ?case by simp
next
  case (Suc n)
  show ?case
  proof (cases "alloc s")
    case (Pair r t)
    show ?thesis
    proof (cases r)
      case None
      then have "free s = {} \<and> t = s" using alloc_None Suc.prems(1) Pair by blast
      then show ?thesis using None Pair Suc.prems by auto
    next
      case (Some f)
      then have a: "f \<in> free s" "free t = free s - {f}" "inv t"
        using alloc_Some Suc.prems(1) Pair by blast+
      obtain gs u where r: "alloc_list n t = (gs, u)" by (cases "alloc_list n t")
      have fs: "fs = f # gs" "s' = u" using Suc.prems(2) Pair Some r by auto
      have c: "card (free t) = card (free s) - 1" "card (free s) > 0"
        using a(1,2) finite_free [OF Suc.prems(1)] by (auto simp: card_gt_0_iff)
      from Suc.IH [OF a(3) r] show ?thesis
        using a c by (auto simp: fs)
    qed
  qed
qed

lemma release_alloc:
  "inv s \<Longrightarrow> f \<in> free s \<Longrightarrow> free (release f s) = free s"
  using release_free [of s f] free_bound [of s f] by (auto simp: insert_absorb)

end

section \<open>The bitmap allocator meets the contract\<close>

definition alloc_frame_no :: "pmm \<Rightarrow> nat option \<times> pmm" where
  "alloc_frame_no s =
     (case pmm_alloc_frame s of (a, s') \<Rightarrow>
        (if a = PMM_ALLOC_FAILED then None else Some (a div PAGE_SIZE), s'))"

definition free_frame_no :: "nat \<Rightarrow> pmm \<Rightarrow> pmm" where
  "free_frame_no f s = pmm_free_frame (f * PAGE_SIZE) s"

lemma frame_addr_ok: "f < TOTAL_FRAMES \<Longrightarrow> f * PAGE_SIZE \<noteq> PMM_ALLOC_FAILED"
  "f * PAGE_SIZE div PAGE_SIZE = f"
  by (auto simp: pmm_consts)

lemma alloc_frame_inv:
  assumes "pmm_inv s" and "f \<in> free_set s"
  shows "pmm_inv ((bitmap_set f s)\<lparr>used_frames := u32 (used_frames s + 1)\<rparr>)"
proof -
  have f: "f < TOTAL_FRAMES" "f \<notin> used_set s" using assms(2) by (auto simp: free_set_def used_set_def)
  have "card (used_set s) \<le> 8192" using card_used_le [of s] by (simp add: pmm_consts)
  then show ?thesis
    using assms(1) f by (simp add: pmm_inv_def wrap_simps)
qed

lemma clear_inv:
  assumes "pmm_inv s" and "f < TOTAL_FRAMES" and "bitmap_test f s"
  shows "pmm_inv ((bitmap_clear f s)\<lparr>used_frames := sub32 (used_frames s) 1\<rparr>)"
proof -
  have f: "f \<in> used_set s" using assms by (simp add: used_set_def)
  have "card (used_set s) \<le> 8192" using card_used_le [of s] by (simp add: pmm_consts)
  moreover have "card (used_set s) > 0" using f by (auto simp: card_gt_0_iff)
  ultimately show ?thesis
    using assms(1) f by (simp add: pmm_inv_def wrap_simps)
qed

lemma free_frame_inv:
  assumes "pmm_inv s" and "a div PAGE_SIZE < TOTAL_FRAMES"
  shows "pmm_inv (pmm_free_frame a s)"
  using assms clear_inv by (simp add: pmm_free_frame_def Let_def)

lemma free_frame_free_set:
  assumes "a div PAGE_SIZE < TOTAL_FRAMES"
  shows "free_set (pmm_free_frame a s) = insert (a div PAGE_SIZE) (free_set s)"
  using assms by (auto simp: pmm_free_frame_def Let_def free_set_def)

interpretation pmm: frame_allocator pmm_inv free_set alloc_frame_no free_frame_no TOTAL_FRAMES
proof
  fix s f and s' :: pmm
  show "pmm_inv s \<Longrightarrow> f \<in> free_set s \<Longrightarrow> f < TOTAL_FRAMES"
    by (simp add: free_set_def)
  show "pmm_inv s \<Longrightarrow> alloc_frame_no s = (None, s') \<longleftrightarrow> free_set s = {} \<and> s' = s"
    by (cases s rule: alloc_cases)
       (auto simp: alloc_frame_no_def frame_addr_ok free_set_def split: if_splits)
  show "f \<in> free_set s \<and> free_set s' = free_set s - {f} \<and> pmm_inv s'"
    if "pmm_inv s" "alloc_frame_no s = (Some f, s')"
  proof (cases s rule: alloc_cases)
    case oom
    with that show ?thesis by (simp add: alloc_frame_no_def)
  next
    case (frame g)
    have "g < TOTAL_FRAMES" using frame(1) by (simp add: free_set_def)
    with frame(3) that(2) have "g = f"
      "s' = (bitmap_set g s)\<lparr>used_frames := u32 (used_frames s + 1)\<rparr>"
      by (auto simp: alloc_frame_no_def frame_addr_ok)
    then show ?thesis
      using frame(1) alloc_frame_inv [OF that(1) frame(1)] by (auto simp: free_set_def)
  qed
  show "pmm_inv s \<Longrightarrow> f < TOTAL_FRAMES \<Longrightarrow> free_set (free_frame_no f s) = insert f (free_set s)"
    using free_frame_free_set [of "f * PAGE_SIZE" s] by (simp add: free_frame_no_def frame_addr_ok)
  show "pmm_inv s \<Longrightarrow> f < TOTAL_FRAMES \<Longrightarrow> pmm_inv (free_frame_no f s)"
    using free_frame_inv [of s "f * PAGE_SIZE"] by (simp add: free_frame_no_def frame_addr_ok)
qed

section \<open>Initialisation\<close>

lemma clear_step_inv:
  "pmm_inv s \<Longrightarrow> f < TOTAL_FRAMES \<Longrightarrow> bitmap_test f s \<Longrightarrow> pmm_inv (pmm_clear_step f s)"
  unfolding pmm_clear_step_def by (rule clear_inv)

lemma init_fold:
  "pmm_inv s \<Longrightarrow> k \<le> TOTAL_FRAMES \<Longrightarrow> \<forall>f < TOTAL_FRAMES. bitmap_test f s \<Longrightarrow> m \<le> k \<Longrightarrow>
     pmm_inv (fold pmm_clear_step [m..<k] s) \<and>
     (\<forall>f. bitmap_test f (fold pmm_clear_step [m..<k] s) \<longleftrightarrow> bitmap_test f s \<and> \<not> (m \<le> f \<and> f < k))"
proof (induction k)
  case 0
  then show ?case by simp
next
  case (Suc k)
  show ?case
  proof (cases "m = Suc k")
    case True
    then show ?thesis using Suc.prems by auto
  next
    case False
    with Suc.prems have m: "m \<le> k" by simp
    let ?t = "fold pmm_clear_step [m..<k] s"
    have IH: "pmm_inv ?t" "\<And>f. bitmap_test f ?t \<longleftrightarrow> bitmap_test f s \<and> \<not> (m \<le> f \<and> f < k)"
      using Suc m by auto
    have "pmm_inv (pmm_clear_step k ?t)"
      by (rule clear_step_inv) (use Suc.prems IH in auto)
    moreover have "bitmap_test f (pmm_clear_step k ?t) \<longleftrightarrow> f \<noteq> k \<and> bitmap_test f ?t" for f
      by (simp add: pmm_clear_step_def)
    moreover have "fold pmm_clear_step [m..<Suc k] s = pmm_clear_step k ?t" using m by simp
    moreover have "m \<le> f \<and> f < Suc k \<longleftrightarrow> f = k \<or> (m \<le> f \<and> f < k)" for f using m by auto
    ultimately show ?thesis using IH(2) by metis
  qed
qed

lemma full_bitmap:
  "bitmap_test f \<lparr>frame_bitmap = (\<lambda>_. 0xFFFFFFFF), used_frames = n\<rparr>"
  unfolding bitmap_test_iff pmm.select_convs
  using full_word_iff [of "0xFFFFFFFF"] by (metis mod_less_divisor zero_less_numeral)

lemma pmm_init_correct:
  assumes "pmm_first_frame e \<le> TOTAL_FRAMES"
  shows "pmm_inv (pmm_init e)" and "free_set (pmm_init e) = {pmm_first_frame e..<TOTAL_FRAMES}"
proof -
  let ?s = "\<lparr>frame_bitmap = (\<lambda>_. 0xFFFFFFFF), used_frames = TOTAL_FRAMES\<rparr> :: pmm"
  have "used_set ?s = {..<TOTAL_FRAMES}" by (auto simp: used_set_def full_bitmap)
  then have i: "pmm_inv ?s" by (simp add: pmm_inv_def)
  have full: "\<forall>f < TOTAL_FRAMES. bitmap_test f ?s" by (simp add: full_bitmap)
  note * = init_fold [OF i order_refl full assms]
  show "pmm_inv (pmm_init e)"
    unfolding pmm_init_def using * by blast
  have "bitmap_test f (pmm_init e) \<longleftrightarrow> \<not> (pmm_first_frame e \<le> f \<and> f < TOTAL_FRAMES)" for f
    unfolding pmm_init_def using conjunct2 [OF *, rule_format, of f] full_bitmap [of f] by simp
  then show "free_set (pmm_init e) = {pmm_first_frame e..<TOTAL_FRAMES}"
    unfolding free_set_def by (intro set_eqI) (simp only: mem_Collect_eq atLeastLessThan_iff, blast)
qed

lemma pmm_init_inv: "pmm_inv (pmm_init e)"
proof (cases "pmm_first_frame e \<le> TOTAL_FRAMES")
  case False
  let ?s = "\<lparr>frame_bitmap = (\<lambda>_. 0xFFFFFFFF), used_frames = TOTAL_FRAMES\<rparr> :: pmm"
  have "used_set ?s = {..<TOTAL_FRAMES}" by (auto simp: used_set_def full_bitmap)
  with False show ?thesis by (simp add: pmm_init_def pmm_inv_def)
qed (rule pmm_init_correct)

section \<open>Runs of the allocator\<close>

text \<open>
  The allocator's states: any sequence of allocations and releases after \<open>pmm_init\<close>, where
  addresses given to \<open>pmm_free_frame\<close> lie below 32 MB (the code does not check this: a larger
  address indexes the bitmap beyond its 256 words).
\<close>

inductive pmm_reach :: "i32 \<Rightarrow> pmm \<Rightarrow> bool" for e where
  init: "pmm_reach e (pmm_init e)"
| alloc: "pmm_reach e s \<Longrightarrow> pmm_reach e (snd (pmm_alloc_frame s))"
| free: "pmm_reach e s \<Longrightarrow> a < TOTAL_FRAMES * PAGE_SIZE \<Longrightarrow> pmm_reach e (pmm_free_frame a s)"

lemma reach_inv: "pmm_reach e s \<Longrightarrow> pmm_inv s"
proof (induction rule: pmm_reach.induct)
  case (alloc s)
  then show ?case
    by (cases s rule: alloc_cases) (simp_all only: snd_conv alloc_frame_inv)
next
  case (free s a)
  then have "a div PAGE_SIZE < TOTAL_FRAMES" by (simp add: less_mult_imp_div_less)
  then show ?case using free free_frame_inv by blast
qed (rule pmm_init_inv)

lemma pmm_accounting_parts:
  assumes "pmm_reach e s"
  shows "pmm_used_count s = card {f. f < TOTAL_FRAMES \<and> bitmap_test f s}"
    and "pmm_free_count s = card {f. f < TOTAL_FRAMES \<and> \<not> bitmap_test f s}"
    and "fst (pmm_alloc_frame s) = PMM_ALLOC_FAILED \<longleftrightarrow> pmm_free_count s = 0"
    and "fst (pmm_alloc_frame s) \<noteq> PMM_ALLOC_FAILED \<Longrightarrow>
           (\<exists>f. fst (pmm_alloc_frame s) = f * PAGE_SIZE \<and> f < TOTAL_FRAMES \<and> \<not> bitmap_test f s \<and>
                (\<forall>g < f. bitmap_test g s) \<and>
                (\<forall>g. bitmap_test g (snd (pmm_alloc_frame s)) \<longleftrightarrow> g = f \<or> bitmap_test g s))"
proof -
  have i: "pmm_inv s" using assms by (rule reach_inv)
  show u: "pmm_used_count s = card {f. f < TOTAL_FRAMES \<and> bitmap_test f s}"
    using i by (simp add: pmm_used_count_def pmm_inv_def used_set_def)
  have "sub32 TOTAL_FRAMES (used_frames s) = TOTAL_FRAMES - used_frames s"
    using i card_used_le [of s] by (intro sub32_id) (auto simp: pmm_inv_def pmm_consts)
  then have c: "pmm_free_count s = card (free_set s)"
    using i used_plus_free [of s] by (simp add: pmm_free_count_def pmm_inv_def)
  then show "pmm_free_count s = card {f. f < TOTAL_FRAMES \<and> \<not> bitmap_test f s}"
    by (simp add: free_set_def)
  show "fst (pmm_alloc_frame s) = PMM_ALLOC_FAILED \<longleftrightarrow> pmm_free_count s = 0"
    unfolding c by (cases s rule: alloc_cases) (auto simp: frame_addr_ok free_set_def)
  show "\<exists>f. fst (pmm_alloc_frame s) = f * PAGE_SIZE \<and> f < TOTAL_FRAMES \<and> \<not> bitmap_test f s \<and>
          (\<forall>g < f. bitmap_test g s) \<and>
          (\<forall>g. bitmap_test g (snd (pmm_alloc_frame s)) \<longleftrightarrow> g = f \<or> bitmap_test g s)"
    if "fst (pmm_alloc_frame s) \<noteq> PMM_ALLOC_FAILED"
  proof (cases s rule: alloc_cases)
    case oom
    with that show ?thesis by simp
  next
    case (frame f)
    then show ?thesis
      by (intro exI [of _ f]) (auto simp: free_set_def dest: less_trans leD)
  qed
qed

text \<open>
  C27: In every state the allocator can be in, the counter is the number of bits set, used and
  free counts add up to 8192, and the next allocation fails exactly when no frame is free; a
  successful one returns the lowest free frame's page-aligned address and takes only that frame.
\<close>

theorem pmm_accounting:
  assumes "pmm_reach e s"
  shows "pmm_used_count s = card {f. f < TOTAL_FRAMES \<and> bitmap_test f s} \<and>
    pmm_free_count s = card {f. f < TOTAL_FRAMES \<and> \<not> bitmap_test f s} \<and>
    (fst (pmm_alloc_frame s) = PMM_ALLOC_FAILED \<longleftrightarrow> pmm_free_count s = 0) \<and>
    (fst (pmm_alloc_frame s) \<noteq> PMM_ALLOC_FAILED \<longrightarrow>
       (\<exists>f. fst (pmm_alloc_frame s) = f * PAGE_SIZE \<and> f < TOTAL_FRAMES \<and> \<not> bitmap_test f s \<and>
            (\<forall>g < f. bitmap_test g s) \<and>
            (\<forall>g. bitmap_test g (snd (pmm_alloc_frame s)) \<longleftrightarrow> g = f \<or> bitmap_test g s)))"
  using pmm_accounting_parts [OF assms] by blast

theorem pmm_accounting_witness:
  "\<exists>s. pmm_reach 0x1FFE001 s \<and> pmm_free_count s = 0 \<and> fst (pmm_alloc_frame s) = PMM_ALLOC_FAILED"
proof -
  let ?s = "snd (pmm_alloc_frame (pmm_init 0x1FFE001))"
  have r: "pmm_reach 0x1FFE001 ?s" by (intro pmm_reach.intros)
  have "free_set (pmm_init 0x1FFE001) = {8191}"
    by (subst pmm_init_correct(2)) (auto simp: pmm_first_frame_def pmm_consts)
  then have "free_set ?s = {}"
    by (cases "pmm_init 0x1FFE001" rule: alloc_cases) (auto simp: free_set_def)
  then have "{f. f < TOTAL_FRAMES \<and> \<not> bitmap_test f ?s} = {}"
    unfolding free_set_def by simp
  then have "pmm_free_count ?s = 0"
    using pmm_accounting [OF r] by simp
  with r pmm_accounting [OF r] show ?thesis by blast
qed

lemma no_double_allocation_parts:
  assumes "pmm_reach e s" and "pmm.alloc_list n s = (fs, s')"
  shows "distinct fs" and "set fs \<subseteq> free_set s" and "free_set s' = free_set s - set fs"
    and "length fs = min n (card (free_set s))"
    and "f \<in> set fs \<Longrightarrow> free_set (pmm_free_frame (f * PAGE_SIZE) s') = insert f (free_set s')"
proof -
  note * = pmm.alloc_list_fresh [OF reach_inv [OF assms(1)] assms(2)]
  from * show "distinct fs" "set fs \<subseteq> free_set s" "free_set s' = free_set s - set fs"
    "length fs = min n (card (free_set s))" by auto
  show "free_set (pmm_free_frame (f * PAGE_SIZE) s') = insert f (free_set s')" if "f \<in> set fs"
    using * that free_frame_free_set [of "f * PAGE_SIZE" s']
    by (auto simp: frame_addr_ok free_set_def)
qed

text \<open>
  C11: No frame is handed out twice: allocating \<open>n\<close> times from any reachable state yields
  pairwise different frames, all free before and in use afterwards, \<open>n\<close> of them unless the
  allocator runs out; releasing one of the frames makes exactly it free again.
\<close>

theorem pmm_no_double_allocation:
  assumes "pmm_reach e s" and "pmm.alloc_list n s = (fs, s')"
  shows "distinct fs \<and> set fs \<subseteq> free_set s \<and> free_set s' = free_set s - set fs \<and>
    length fs = min n (card (free_set s)) \<and>
    (\<forall>f \<in> set fs. free_set (pmm_free_frame (f * PAGE_SIZE) s') = insert f (free_set s'))"
  using no_double_allocation_parts [OF assms] by blast

theorem pmm_no_double_allocation_witness:
  "\<exists>fs. fst (pmm.alloc_list 3 (pmm_init 0x1FFD001)) = fs \<and> distinct fs \<and> length fs = 2"
proof -
  have r: "pmm_reach 0x1FFD001 (pmm_init 0x1FFD001)" by (rule pmm_reach.init)
  have f: "free_set (pmm_init 0x1FFD001) = {8190..<8192}"
    by (subst pmm_init_correct(2)) (auto simp: pmm_first_frame_def pmm_consts)
  obtain fs s' where a: "pmm.alloc_list 3 (pmm_init 0x1FFD001) = (fs, s')" by fastforce
  show ?thesis
    using pmm_no_double_allocation [OF r a] a f by simp
qed

end
