(* ===== verification/Paging.thy ===== *)
theory Paging
  imports FrameAlloc
begin










section \<open>The loops\<close>





section \<open>The resulting map\<close>














end
