(* ===== verification/Fat12.thy ===== *)
theory Fat12
  imports CString
begin

text \<open>
  The FAT12 driver, \<open>kernel/fs/fat12.c\<close>, over a memory-backed volume: the BIOS parameter block
  it reads, the packed 12-bit table, cluster chains, 8.3 names, and the five operations on the root
  directory. A C string argument is the list of its bytes before the NUL. Division by zero, a
  processor trap, is \<open>None\<close>.
\<close>

section \<open>State\<close>

record fat =
  vol :: mem
  bytes_per_sector :: nat
  sectors_per_cluster :: nat
  reserved_sectors :: nat
  num_fats :: nat
  root_entry_count :: nat
  total_sectors :: nat
  sectors_per_fat :: nat
  root_dir_offset :: nat
  root_dir_sectors :: nat
  data_start_offset :: nat

definition read16w :: "mem \<Rightarrow> nat \<Rightarrow> 16 word" where
  "read16w m p = ucast (m p) OR push_bit 8 (ucast (m (p + 1)))"

definition read16 :: "mem \<Rightarrow> nat \<Rightarrow> nat" where
  "read16 m p = unat (read16w m p)"

text \<open>The little-endian fields of a packed record.\<close>

definition read32 :: "mem \<Rightarrow> nat \<Rightarrow> nat" where
  "read32 m p = read16 m p + 65536 * read16 m (p + 2)"

definition put16 :: "nat \<Rightarrow> nat \<Rightarrow> mem \<Rightarrow> mem" where
  "put16 p v m = m(p := word_of_nat v, p + 1 := word_of_nat (v div 256))"

definition put32 :: "nat \<Rightarrow> nat \<Rightarrow> mem \<Rightarrow> mem" where
  "put32 p v m = put16 (p + 2) (v div 65536) (put16 p (v mod 65536) m)"

section \<open>The file allocation table\<close>

definition fat_entry_pos :: "fat \<Rightarrow> nat \<Rightarrow> nat" where
  "fat_entry_pos s cluster =
     (let fat_offset = u32 (reserved_sectors s * bytes_per_sector s);
          entry_offset = u32 (cluster + cluster div 2)
      in fat_offset + entry_offset)"

definition fat12_read_fat :: "fat \<Rightarrow> nat \<Rightarrow> nat" where
  "fat12_read_fat s cluster =
     (let val = read16w (vol s) (fat_entry_pos s cluster) in
      if odd cluster then unat (drop_bit 4 val) else unat (val AND 0x0FFF))"

definition fat12_write_fat :: "nat \<Rightarrow> nat \<Rightarrow> fat \<Rightarrow> fat" where
  "fat12_write_fat cluster value s =
     (let p = fat_entry_pos s cluster;
          v = word_of_nat value :: 16 word;
          m = vol s
      in if odd cluster then
           s\<lparr>vol := m(p := (m p AND 0x0F) OR push_bit 4 (ucast (v AND 0x0F)),
                      p + 1 := ucast (drop_bit 4 v AND 0xFF))\<rparr>
         else
           s\<lparr>vol := m(p := ucast (v AND 0xFF),
                      p + 1 := (m (p + 1) AND 0xF0) OR ucast (drop_bit 8 v AND 0x0F))\<rparr>)"

definition cluster_to_offset :: "fat \<Rightarrow> nat \<Rightarrow> nat" where
  "cluster_to_offset s cluster =
     u32 (data_start_offset s + (cluster - 2) * sectors_per_cluster s * bytes_per_sector s)"

definition cluster_bytes :: "fat \<Rightarrow> nat" where
  "cluster_bytes s = sectors_per_cluster s * bytes_per_sector s"

text \<open>The number of data clusters; the division traps on a volume whose clusters are empty.\<close>

definition max_clusters :: "fat \<Rightarrow> nat option" where
  "max_clusters s =
     (if cluster_bytes s = 0 then None
      else Some (sub32 (u32 (total_sectors s * bytes_per_sector s)) (data_start_offset s) div cluster_bytes s))"

section \<open>Names\<close>

definition to_lower :: "byte \<Rightarrow> byte" where
  "to_lower c = (if c \<ge> byte_of (CHR ''A'') \<and> c \<le> byte_of (CHR ''Z'') then c + 32 else c)"

definition to_upper :: "byte \<Rightarrow> byte" where
  "to_upper c = (if c \<ge> byte_of (CHR ''a'') \<and> c \<le> byte_of (CHR ''z'') then c - 32 else c)"

definition SPACE :: byte where "SPACE = byte_of (CHR '' '')"
definition DOT :: byte where "DOT = byte_of (CHR ''.'')"

text \<open>Copies up to the limit, stopping at a space.\<close>

fun lower_until_space :: "byte list \<Rightarrow> byte list" where
  "lower_until_space [] = []"
| "lower_until_space (c # cs) = (if c = SPACE then [] else to_lower c # lower_until_space cs)"

definition format_name :: "byte list \<Rightarrow> byte list" where
  "format_name raw =
     lower_until_space (take 8 raw) @
     (if raw ! 8 \<noteq> SPACE then DOT # lower_until_space (drop 8 (take 11 raw)) else [])"

fun find_dot :: "byte list \<Rightarrow> nat \<Rightarrow> nat option" where
  "find_dot [] i = None"
| "find_dot (c # cs) i = (if c = DOT then Some i else find_dot cs (Suc i))"

fun put_upper :: "byte list \<Rightarrow> nat \<Rightarrow> byte list \<Rightarrow> byte list" where
  "put_upper out pos [] = out"
| "put_upper out pos (c # cs) = put_upper (out[pos := to_upper c]) (Suc pos) cs"

definition name_to_83 :: "byte list \<Rightarrow> byte list" where
  "name_to_83 name =
     (let out = replicate 11 SPACE;
          dot = find_dot name 0;
          limit = (case dot of Some d \<Rightarrow> d | None \<Rightarrow> length name);
          limit = (if limit > 8 then 8 else limit);
          out = put_upper out 0 (take limit name)
      in case dot of
           None \<Rightarrow> out
         | Some d \<Rightarrow> put_upper out 8 (take 3 (drop (d + 1) name)))"

section \<open>The root directory\<close>

definition fat12_init :: "mem \<Rightarrow> fat option" where
  "fat12_init volume =
     (let bps = read16 volume 11;
          spc = unat (volume 13);
          res = read16 volume 14;
          nf = unat (volume 16);
          rec = read16 volume 17;
          tot = read16 volume 19;
          spf = read16 volume 22;
          rdo = u32 ((res + nf * spf) * bps)
      in if bps = 0 then None
         else
           (let rds = u32 ((rec * 32 + bps - 1) div bps) in
            Some \<lparr>vol = volume, bytes_per_sector = bps, sectors_per_cluster = spc,
                  reserved_sectors = res, num_fats = nf, root_entry_count = rec,
                  total_sectors = tot, sectors_per_fat = spf, root_dir_offset = rdo,
                  root_dir_sectors = rds, data_start_offset = u32 (rdo + rds * bps)\<rparr>))"

definition dir_pos :: "fat \<Rightarrow> nat \<Rightarrow> nat" where
  "dir_pos s i = root_dir_offset s + 32 * i"

definition dir_name :: "fat \<Rightarrow> nat \<Rightarrow> byte list" where
  "dir_name s i = seg (vol s) (dir_pos s i) 11"

definition dir_attr :: "fat \<Rightarrow> nat \<Rightarrow> byte" where
  "dir_attr s i = vol s (dir_pos s i + 11)"

definition dir_first_cluster :: "fat \<Rightarrow> nat \<Rightarrow> nat" where
  "dir_first_cluster s i = read16 (vol s) (dir_pos s i + 26)"

definition dir_size :: "fat \<Rightarrow> nat \<Rightarrow> nat" where
  "dir_size s i = read32 (vol s) (dir_pos s i + 28)"

record dirent =
  de_name :: "byte list"
  de_size :: nat
  de_attr :: byte

text \<open>\<open>n\<close> entries are left from entry \<open>i\<close>, and the caller's buffer has room for \<open>room\<close>.\<close>

fun list_root_loop :: "fat \<Rightarrow> nat \<Rightarrow> nat \<Rightarrow> nat \<Rightarrow> dirent list" where
  "list_root_loop s i 0 room = []"
| "list_root_loop s i (Suc n) room =
     (if room = 0 then []
      else if vol s (dir_pos s i) = 0 then []
      else if vol s (dir_pos s i) = 0xE5 then list_root_loop s (Suc i) n room
      else if dir_attr s i AND 0x08 \<noteq> 0 then list_root_loop s (Suc i) n room
      else if dir_attr s i AND 0x10 \<noteq> 0 then list_root_loop s (Suc i) n room
      else \<lparr>de_name = format_name (dir_name s i), de_size = dir_size s i, de_attr = dir_attr s i\<rparr>
             # list_root_loop s (Suc i) n (room - 1))"

definition fat12_list_root :: "fat \<Rightarrow> nat \<Rightarrow> dirent list" where
  "fat12_list_root s max_entries = list_root_loop s 0 (root_entry_count s) max_entries"

text \<open>The search that read, write and delete share.\<close>

fun find_entry :: "fat \<Rightarrow> byte list \<Rightarrow> nat \<Rightarrow> nat \<Rightarrow> nat option" where
  "find_entry s name83 i 0 = None"
| "find_entry s name83 i (Suc n) =
     (if vol s (dir_pos s i) = 0 then None
      else if vol s (dir_pos s i) = 0xE5 then find_entry s name83 (Suc i) n
      else if dir_attr s i AND 0x08 \<noteq> 0 then find_entry s name83 (Suc i) n
      else if dir_attr s i AND 0x10 \<noteq> 0 then find_entry s name83 (Suc i) n
      else if dir_name s i = name83 then Some i
      else find_entry s name83 (Suc i) n)"

definition lookup :: "fat \<Rightarrow> byte list \<Rightarrow> nat option" where
  "lookup s name83 = find_entry s name83 0 (root_entry_count s)"

section \<open>Reading\<close>

text \<open>\<open>n\<close> iterations are left before the guard against cyclic chains stops the loop.\<close>

fun read_chain :: "fat \<Rightarrow> nat \<Rightarrow> nat \<Rightarrow> nat \<Rightarrow> nat \<Rightarrow> mem \<Rightarrow> nat \<times> mem" where
  "read_chain s 0 to_read rd cluster buf = (rd, buf)"
| "read_chain s (Suc n) to_read rd cluster buf =
     (if rd < to_read \<and> cluster \<ge> 2 \<and> cluster < 0xFF8 then
        (let offset = cluster_to_offset s cluster;
             chunk = cluster_bytes s;
             chunk = (if u32 (rd + chunk) > to_read then to_read - rd else chunk);
             buf = blit buf rd (vol s) offset chunk
         in read_chain s n to_read (u32 (rd + chunk)) (fat12_read_fat s cluster) buf)
      else (rd, buf))"

definition fat12_read_file :: "fat \<Rightarrow> byte list \<Rightarrow> nat \<Rightarrow> mem \<Rightarrow> (int \<times> mem) option" where
  "fat12_read_file s name buf_size buf =
     (case lookup s (name_to_83 name) of
        None \<Rightarrow> Some (- 1, buf)
      | Some i \<Rightarrow>
          (let file_size = dir_size s i;
               to_read = (if file_size < buf_size then file_size else buf_size)
           in case max_clusters s of
                None \<Rightarrow> None
              | Some n \<Rightarrow>
                  (case read_chain s n to_read 0 (dir_first_cluster s i) buf of
                     (rd, buf) \<Rightarrow> Some (sint (word_of_nat rd :: i32), buf))))"

section \<open>Writing\<close>

fun free_loop :: "nat \<Rightarrow> nat \<Rightarrow> fat \<Rightarrow> fat" where
  "free_loop 0 cluster s = s"
| "free_loop (Suc n) cluster s =
     (if cluster \<ge> 2 \<and> cluster < 0xFF8
      then free_loop n (fat12_read_fat s cluster) (fat12_write_fat cluster 0 s)
      else s)"

definition fat12_free_chain :: "nat \<Rightarrow> fat \<Rightarrow> fat option" where
  "fat12_free_chain start s = map_option (\<lambda>n. free_loop n start s) (max_clusters s)"

text \<open>
  The loop counter is a \<open>uint16_t\<close>: with a bound above 65535 the loop never ends unless it
  finds a free entry in one round, and that is also \<open>None\<close>.
\<close>

fun alloc_loop :: "fat \<Rightarrow> nat \<Rightarrow> nat \<Rightarrow> nat option" where
  "alloc_loop s c 0 = None"
| "alloc_loop s c (Suc n) = (if fat12_read_fat s c = 0 then Some c else alloc_loop s (u16 (c + 1)) n)"

definition fat12_alloc_cluster :: "fat \<Rightarrow> nat option" where
  "fat12_alloc_cluster s =
     (case max_clusters s of
        None \<Rightarrow> None
      | Some n \<Rightarrow>
          (let m = u32 (n + 2) in
           case alloc_loop s 2 (if m > 65535 then 65536 else m - 2) of
             Some c \<Rightarrow> Some c
           | None \<Rightarrow> if m > 65535 then None else Some 0))"

record write_state =
  ws_fat :: fat
  ws_first :: nat
  ws_prev :: nat
  ws_written :: nat

definition write_cluster :: "mem \<Rightarrow> nat \<Rightarrow> nat \<Rightarrow> write_state \<Rightarrow> write_state" where
  "write_cluster data sz cluster w =
     (let s = ws_fat w;
          first = (if ws_first w = 0 then cluster else ws_first w);
          s = (if ws_prev w \<noteq> 0 then fat12_write_fat (ws_prev w) cluster s else s);
          offset = cluster_to_offset s cluster;
          chunk = cluster_bytes s;
          chunk = (if u32 (ws_written w + chunk) > sz then sz - ws_written w else chunk);
          s = s\<lparr>vol := blit (vol s) offset data (ws_written w) chunk\<rparr>;
          s = fat12_write_fat cluster 0xFFF s
      in \<lparr>ws_fat = s, ws_first = first, ws_prev = cluster, ws_written = u32 (ws_written w + chunk)\<rparr>)"

text \<open>
  The allocation loop. Every iteration but the last writes a whole cluster, so \<open>sz\<close> steps are
  enough; the outer option is the trap, the flag whether the disk filled up.
\<close>

fun write_loop :: "nat \<Rightarrow> mem \<Rightarrow> nat \<Rightarrow> write_state \<Rightarrow> (bool \<times> write_state) option" where
  "write_loop 0 data sz w = Some (True, w)"
| "write_loop (Suc n) data sz w =
     (if ws_written w < sz then
        (case fat12_alloc_cluster (ws_fat w) of
           None \<Rightarrow> None
         | Some cluster \<Rightarrow>
             if cluster = 0 then Some (False, w)
             else write_loop n data sz (write_cluster data sz cluster w))
      else Some (True, w))"

fun find_free_slot :: "fat \<Rightarrow> nat \<Rightarrow> nat \<Rightarrow> nat option" where
  "find_free_slot s i 0 = None"
| "find_free_slot s i (Suc n) =
     (if vol s (dir_pos s i) = 0 \<or> vol s (dir_pos s i) = 0xE5 then Some i
      else find_free_slot s (Suc i) n)"

definition new_entry :: "nat \<Rightarrow> byte list \<Rightarrow> fat \<Rightarrow> fat" where
  "new_entry i name83 s =
     (let p = dir_pos s i;
          m = blit (vol s) p (\<lambda>_. 0) 0 32;
          m = blit m p (\<lambda>j. name83 ! j) 0 11
      in s\<lparr>vol := m(p + 11 := 0x20)\<rparr>)"

definition set_entry :: "nat \<Rightarrow> nat \<Rightarrow> nat \<Rightarrow> fat \<Rightarrow> fat" where
  "set_entry i first sz s =
     (let p = dir_pos s i in
      s\<lparr>vol := put32 (p + 28) sz (put16 (p + 26) first (vol s))\<rparr>)"

definition fat12_write_file :: "byte list \<Rightarrow> mem \<Rightarrow> nat \<Rightarrow> fat \<Rightarrow> (int \<times> fat) option" where
  "fat12_write_file name data sz s =
     (let name83 = name_to_83 name;
          existing = lookup s name83;
          freed = (case existing of
                     Some i \<Rightarrow> (if dir_first_cluster s i \<ge> 2 then fat12_free_chain (dir_first_cluster s i) s
                                else Some s)
                   | None \<Rightarrow> Some s)
      in case freed of
           None \<Rightarrow> None
         | Some s \<Rightarrow>
             (case write_loop sz data sz \<lparr>ws_fat = s, ws_first = 0, ws_prev = 0, ws_written = 0\<rparr> of
                None \<Rightarrow> None
              | Some (ok, w) \<Rightarrow>
                  if \<not> ok then Some (- 1, ws_fat w)
                  else
                    (let s = ws_fat w;
                         first = (if sz = 0 then 0 else ws_first w)
                     in case existing of
                          Some i \<Rightarrow> Some (0, set_entry i first sz s)
                        | None \<Rightarrow>
                            (case find_free_slot s 0 (root_entry_count s) of
                               None \<Rightarrow> Some (- 1, s)
                             | Some i \<Rightarrow> Some (0, set_entry i first sz (new_entry i name83 s))))))"

section \<open>Deleting\<close>

definition fat12_delete_file :: "byte list \<Rightarrow> fat \<Rightarrow> (int \<times> fat) option" where
  "fat12_delete_file name s =
     (case lookup s (name_to_83 name) of
        None \<Rightarrow> Some (- 1, s)
      | Some i \<Rightarrow>
          map_option (\<lambda>s. (0, s\<lparr>vol := (vol s)(dir_pos s i := 0xE5)\<rparr>))
            (if dir_first_cluster s i \<ge> 2 then fat12_free_chain (dir_first_cluster s i) s else Some s))"

end
