(* ===== verification/Fat12Spec.thy ===== *)
theory Fat12Spec
  imports Fat12
begin

text \<open>
  What the FAT12 driver promises: the locale \<open>fat_table\<close> of a table of 12-bit links with its
  interpretation on the packed table, cluster chains and the loops that follow, free and allocate
  them, and the file system as a finite map from 8.3 names to contents.
\<close>

section \<open>The packed table\<close>

lemma read16w_bits:
  "bit (read16w m p) n \<longleftrightarrow> (n < 8 \<and> bit (m p) n) \<or> (8 \<le> n \<and> n < 16 \<and> bit (m (p + 1)) (n - 8))"
  by (auto simp: read16w_def bit_or_iff bit_push_bit_iff bit_ucast_iff dest: bit_imp_le_length)

definition fat_word :: "fat \<Rightarrow> nat \<Rightarrow> 16 word" where
  "fat_word s c = (let val = read16w (vol s) (fat_entry_pos s c) in
                   if odd c then drop_bit 4 val else val AND 0x0FFF)"

lemma read_fat_word: "fat12_read_fat s c = unat (fat_word s c)"
  by (simp add: fat12_read_fat_def fat_word_def Let_def)

lemma nibble_masks:
  "(0x0FFF :: 16 word) = mask 12" "(0x0F :: 16 word) = mask 4" "(0xFF :: 16 word) = mask 8"
  "(0x0F :: byte) = mask 4" "(0xF0 :: byte) = push_bit 4 (mask 4)"
  by (simp_all add: mask_eq_exp_minus_1)

lemma fat_word_bits:
  "bit (fat_word s c) n \<longleftrightarrow> n < 12 \<and>
     (if odd c then (if n < 4 then bit (vol s (fat_entry_pos s c)) (n + 4)
                     else bit (vol s (fat_entry_pos s c + 1)) (n - 4))
      else (if n < 8 then bit (vol s (fat_entry_pos s c)) n
            else bit (vol s (fat_entry_pos s c + 1)) (n - 8)))"
proof (cases "odd c")
  case True
  have "n + 4 - 8 = n - 4" by simp
  with True show ?thesis
    by (auto simp: fat_word_def Let_def bit_drop_bit_eq read16w_bits add.commute)
next
  case False
  then show ?thesis
    unfolding fat_word_def Let_def nibble_masks
    by (auto simp: bit_and_iff bit_mask_iff read16w_bits)
qed

lemma write_fat_vol:
  "vol (fat12_write_fat c x s) a =
     (let p = fat_entry_pos s c; v = word_of_nat x :: 16 word in
      if a = p + 1 then (if odd c then ucast (drop_bit 4 v AND 0xFF)
                         else (vol s a AND 0xF0) OR ucast (drop_bit 8 v AND 0x0F))
      else if a = p then (if odd c then (vol s a AND 0x0F) OR push_bit 4 (ucast (v AND 0x0F))
                          else ucast (v AND 0xFF))
      else vol s a)"
  by (simp add: fat12_write_fat_def Let_def)

lemma write_fat_geom [simp]:
  "bytes_per_sector (fat12_write_fat c x s) = bytes_per_sector s"
  "sectors_per_cluster (fat12_write_fat c x s) = sectors_per_cluster s"
  "reserved_sectors (fat12_write_fat c x s) = reserved_sectors s"
  "num_fats (fat12_write_fat c x s) = num_fats s"
  "root_entry_count (fat12_write_fat c x s) = root_entry_count s"
  "total_sectors (fat12_write_fat c x s) = total_sectors s"
  "sectors_per_fat (fat12_write_fat c x s) = sectors_per_fat s"
  "root_dir_offset (fat12_write_fat c x s) = root_dir_offset s"
  "root_dir_sectors (fat12_write_fat c x s) = root_dir_sectors s"
  "data_start_offset (fat12_write_fat c x s) = data_start_offset s"
  "fat_entry_pos (fat12_write_fat c x s) d = fat_entry_pos s d"
  by (simp_all add: fat12_write_fat_def Let_def fat_entry_pos_def)

lemma write_fat_bits:
  assumes "n < 8"
  shows "bit (vol (fat12_write_fat c x s) (fat_entry_pos s c)) n \<longleftrightarrow>
           (if odd c then (if n < 4 then bit (vol s (fat_entry_pos s c)) n
                           else bit (word_of_nat x :: 16 word) (n - 4))
            else bit (word_of_nat x :: 16 word) n)"
    and "bit (vol (fat12_write_fat c x s) (fat_entry_pos s c + 1)) n \<longleftrightarrow>
           (if odd c then bit (word_of_nat x :: 16 word) (n + 4)
            else (if n < 4 then bit (word_of_nat x :: 16 word) (n + 8)
                  else bit (vol s (fat_entry_pos s c + 1)) n))"
proof -
  define v :: "16 word" where "v = word_of_nat x"
  define p where "p = fat_entry_pos s c"
  define m where "m = vol s"
  have a: "n + 8 < 16" "n + 4 < 16" using assms by simp_all
  show "bit (vol (fat12_write_fat c x s) (fat_entry_pos s c)) n \<longleftrightarrow>
           (if odd c then (if n < 4 then bit (vol s (fat_entry_pos s c)) n
                           else bit (word_of_nat x :: 16 word) (n - 4))
            else bit (word_of_nat x :: 16 word) n)"
    unfolding write_fat_vol Let_def nibble_masks p_def [symmetric] v_def [symmetric] m_def [symmetric]
    using assms by (auto simp: bit_simps)
  show "bit (vol (fat12_write_fat c x s) (fat_entry_pos s c + 1)) n \<longleftrightarrow>
           (if odd c then bit (word_of_nat x :: 16 word) (n + 4)
            else (if n < 4 then bit (word_of_nat x :: 16 word) (n + 8)
                  else bit (vol s (fat_entry_pos s c + 1)) n))"
    unfolding write_fat_vol Let_def nibble_masks p_def [symmetric] v_def [symmetric] m_def [symmetric]
    using assms a by (auto simp: bit_simps add.commute)
qed

text \<open>Where the entries lie; the table is far below the wrap of 32-bit offsets.\<close>

definition fat_offset :: "fat \<Rightarrow> nat" where
  "fat_offset s = u32 (reserved_sectors s * bytes_per_sector s)"

lemma fat_entry_pos_eq:
  "c < 65536 \<Longrightarrow> fat_entry_pos s c = fat_offset s + 3 * (c div 2) + c mod 2"
proof -
  assume "c < 65536"
  then have "u32 (c + c div 2) = c + c div 2" by (intro u32_id) simp
  moreover have "c + c div 2 = 3 * (c div 2) + c mod 2" by presburger
  ultimately have "u32 (c + c div 2) = 3 * (c div 2) + c mod 2" by metis
  then show ?thesis by (simp add: fat_entry_pos_def fat_offset_def Let_def)
qed

lemma entry_apart:
  fixes c d f :: nat
  assumes "c div 2 \<noteq> d div 2"
  shows "f + 3 * (d div 2) + d mod 2 \<noteq> f + 3 * (c div 2) + c mod 2"
    and "f + 3 * (d div 2) + d mod 2 \<noteq> f + 3 * (c div 2) + c mod 2 + 1"
    and "f + 3 * (d div 2) + d mod 2 + 1 \<noteq> f + 3 * (c div 2) + c mod 2"
proof -
  have "c mod 2 < 2" "d mod 2 < 2" by simp_all
  with assms show "f + 3 * (d div 2) + d mod 2 \<noteq> f + 3 * (c div 2) + c mod 2"
    "f + 3 * (d div 2) + d mod 2 \<noteq> f + 3 * (c div 2) + c mod 2 + 1"
    "f + 3 * (d div 2) + d mod 2 + 1 \<noteq> f + 3 * (c div 2) + c mod 2"
    by linarith+
qed

lemma entry_pair:
  fixes c d :: nat
  assumes "c div 2 = d div 2" and "c \<noteq> d" and "odd c"
  shows "even d" and "c mod 2 = 1" and "d mod 2 = 0"
  using assms by presburger+

lemma entry_pair_even:
  fixes c d :: nat
  assumes "c div 2 = d div 2" and "c \<noteq> d" and "even c"
  shows "odd d" and "c mod 2 = 0" and "d mod 2 = 1"
  using assms by presburger+

lemma read_write_fat_same:
  assumes "x < 4096"
  shows "fat12_read_fat (fat12_write_fat c x s) c = x"
proof -
  have "fat_word (fat12_write_fat c x s) c = word_of_nat x"
  proof (rule bit_word_eqI)
    fix n assume "n < LENGTH(16)"
    have hi: "\<not> bit (word_of_nat x :: 16 word) n" if "\<not> n < 12"
    proof -
      have "x < 2 ^ n" using assms that power_increasing [of 12 n "2 :: nat"] by simp
      then have "\<not> bit x n" by (simp add: bit_iff_odd)
      moreover have "unat (word_of_nat x :: 16 word) = x" using assms by (simp add: unat_of_nat)
      ultimately have "\<not> bit (unat (word_of_nat x :: 16 word)) n" by simp
      then show ?thesis using \<open>n < LENGTH(16)\<close> by (simp add: bit_unsigned_iff)
    qed
    show "bit (fat_word (fat12_write_fat c x s) c) n \<longleftrightarrow> bit (word_of_nat x :: 16 word) n"
    proof (cases "n < 12")
      case True
      then show ?thesis
        unfolding fat_word_bits write_fat_geom
        using write_fat_bits [of "n + 4" c x s] write_fat_bits [of "n - 4" c x s]
          write_fat_bits [of n c x s] write_fat_bits [of "n - 8" c x s]
        by auto
    next
      case False
      then show ?thesis using hi by (simp add: fat_word_bits)
    qed
  qed
  moreover have "unat (word_of_nat x :: 16 word) = x" using assms by (simp add: unat_of_nat)
  ultimately show ?thesis by (simp add: read_fat_word)
qed

lemma read_write_fat_other:
  assumes "c < 65536" and "d < 65536" and "c \<noteq> d"
  shows "fat12_read_fat (fat12_write_fat c x s) d = fat12_read_fat s d"
proof -
  let ?t = "fat12_write_fat c x s"
  let ?p = "fat_entry_pos s c" and ?q = "fat_entry_pos s d"
  note pos = fat_entry_pos_eq [OF assms(1), of s] fat_entry_pos_eq [OF assms(2), of s]
  have same: "vol ?t a = vol s a" if "a \<noteq> ?p" "a \<noteq> ?p + 1" for a
    using that by (simp add: write_fat_vol Let_def)
  have "fat_word ?t d = fat_word s d"
  proof (cases "c div 2 = d div 2")
    case False
    then have "?q \<noteq> ?p" "?q \<noteq> ?p + 1" "?q + 1 \<noteq> ?p" "?q + 1 \<noteq> ?p + 1"
      using pos entry_apart [of c d "fat_offset s"] by simp_all
    then show ?thesis
      by (intro bit_word_eqI) (simp add: fat_word_bits same)
  next
    case True
    show ?thesis
    proof (cases "odd c")
      case True
      with \<open>c div 2 = d div 2\<close> \<open>c \<noteq> d\<close> have d: "even d" "?p = ?q + 1"
        using entry_pair [of c d] unfolding pos by simp_all
      then have "?q \<noteq> ?p" "?q \<noteq> ?p + 1" by simp_all
      note q = same [OF this]
      show ?thesis
      proof (rule bit_word_eqI)
        fix n
        have "bit (vol ?t (?q + 1)) k = bit (vol s (?q + 1)) k" if "k < 4" for k
          using write_fat_bits(1) [of k c x s] True that d by simp
        from this [of "n - 8"] show "bit (fat_word ?t d) n \<longleftrightarrow> bit (fat_word s d) n"
          by (cases "n < 12") (simp_all add: fat_word_bits d q)
      qed
    next
      case False
      with \<open>c div 2 = d div 2\<close> \<open>c \<noteq> d\<close> have d: "odd d" "?q = ?p + 1"
        using entry_pair_even [of c d] unfolding pos by simp_all
      then have "?q + 1 \<noteq> ?p" "?q + 1 \<noteq> ?p + 1" by simp_all
      note q = same [OF this]
      show ?thesis
      proof (rule bit_word_eqI)
        fix n
        have "bit (vol ?t (?p + 1)) (k + 4) = bit (vol s (?p + 1)) (k + 4)" if "k < 4" for k
          using write_fat_bits(2) [of "k + 4" c x s] False that by simp
        then show "bit (fat_word ?t d) n \<longleftrightarrow> bit (fat_word s d) n"
          using q by (simp add: fat_word_bits d)
      qed
    qed
  qed
  then show ?thesis by (simp add: read_fat_word)
qed

lemma read_fat_less: "fat12_read_fat s c < 4096"
proof -
  have "fat_word s c = take_bit 12 (fat_word s c)"
    by (intro bit_word_eqI) (auto simp: bit_take_bit_iff fat_word_bits)
  then have "unat (fat_word s c) = unat (take_bit 12 (fat_word s c))" by (rule arg_cong)
  also have "\<dots> = take_bit 12 (unat (fat_word s c))" by (rule unsigned_take_bit_eq)
  also have "\<dots> < 2 ^ 12" by (rule take_bit_nat_less_exp)
  finally show ?thesis by (simp add: read_fat_word)
qed

section \<open>Cluster chains\<close>

definition data_link :: "nat \<Rightarrow> bool" where
  "data_link c \<longleftrightarrow> 2 \<le> c \<and> c < 0xFF8"

fun follow :: "(nat \<Rightarrow> nat) \<Rightarrow> nat \<Rightarrow> nat \<Rightarrow> nat list" where
  "follow g 0 c = []"
| "follow g (Suc n) c = (if data_link c then c # follow g n (g c) else [])"

text \<open>\<open>linked g c cs\<close>: following the links \<open>g\<close> from \<open>c\<close> visits exactly \<open>cs\<close>.\<close>

fun linked :: "(nat \<Rightarrow> nat) \<Rightarrow> nat \<Rightarrow> nat list \<Rightarrow> bool" where
  "linked g c [] \<longleftrightarrow> \<not> data_link c"
| "linked g c (x # xs) \<longleftrightarrow> c = x \<and> data_link x \<and> linked g (g x) xs"

text \<open>A chain in use: no cluster twice, all below the limit, none with the free mark.\<close>

definition chain :: "(nat \<Rightarrow> nat) \<Rightarrow> nat \<Rightarrow> nat \<Rightarrow> nat list \<Rightarrow> bool" where
  "chain g lim c cs \<longleftrightarrow> linked g c cs \<and> distinct cs \<and> (\<forall>x \<in> set cs. x < lim \<and> g x \<noteq> 0)"

lemma linked_data: "linked g c cs \<Longrightarrow> x \<in> set cs \<Longrightarrow> data_link x"
  by (induction cs arbitrary: c) auto

lemma linked_follow: "linked g c cs \<Longrightarrow> length cs \<le> n \<Longrightarrow> follow g n c = cs"
proof (induction cs arbitrary: c n)
  case Nil
  then show ?case by (cases n) auto
next
  case (Cons x cs)
  then show ?case by (cases n) auto
qed

lemma linked_cong: "(\<And>x. x \<in> set cs \<Longrightarrow> g x = h x) \<Longrightarrow> linked g c cs = linked h c cs"
  by (induction cs arbitrary: c) auto

lemma chain_cong: "(\<And>x. x \<in> set cs \<Longrightarrow> g x = h x) \<Longrightarrow> chain g lim c cs = chain h lim c cs"
  using linked_cong [of cs g h c] by (auto simp: chain_def)

lemma linked_unique: "linked g c cs \<Longrightarrow> linked g c ds \<Longrightarrow> cs = ds"
proof (induction cs arbitrary: c ds)
  case Nil
  then show ?case by (cases ds) auto
next
  case (Cons x cs)
  then show ?case by (cases ds) auto
qed

lemma chain_length:
  assumes "chain g lim c cs"
  shows "length cs \<le> lim - 2"
proof -
  have "set cs \<subseteq> {2..<lim}" using assms linked_data by (fastforce simp: chain_def data_link_def)
  then have "card (set cs) \<le> card {2..<lim}" by (intro card_mono) auto
  then show ?thesis using assms by (simp add: chain_def distinct_card)
qed

text \<open>Appending a cluster: the last link points to it, its own is the end mark.\<close>

lemma linked_append:
  assumes "linked g c cs" and "cs \<noteq> []" and "distinct cs" and "data_link y" and "y \<notin> set cs"
    and "\<And>x. x \<in> set cs \<Longrightarrow> x \<noteq> last cs \<Longrightarrow> h x = g x" and "h (last cs) = y"
    and "\<not> data_link (h y)"
  shows "linked h c (cs @ [y])"
  using assms
proof (induction cs arbitrary: c)
  case (Cons x xs)
  show ?case
  proof (cases "xs = []")
    case True
    then show ?thesis using Cons.prems by simp
  next
    case False
    then have l: "last xs \<in> set xs" by simp
    have x: "x \<noteq> last xs" using l Cons.prems(3) by auto
    have "h x = g x" by (rule Cons.prems(6)) (use False x in auto)
    moreover have "linked h (g x) (xs @ [y])"
      by (rule Cons.IH) (use Cons.prems False in auto)
    ultimately show ?thesis using Cons.prems(1) by simp
  qed
qed simp

section \<open>The contract of a file allocation table\<close>

locale fat_table =
  fixes get :: "'s \<Rightarrow> nat \<Rightarrow> nat"
    and put :: "nat \<Rightarrow> nat \<Rightarrow> 's \<Rightarrow> 's"
    and bound :: nat
    and value_bound :: nat
  assumes get_put_same: "x < value_bound \<Longrightarrow> get (put c x s) c = x"
    and get_put_other: "c < bound \<Longrightarrow> d < bound \<Longrightarrow> c \<noteq> d \<Longrightarrow> get (put c x s) d = get s d"
    and get_bound: "get s c < value_bound"
    and end_mark_fits: "0xFFF < value_bound" and data_fit: "0xFF8 \<le> bound"
begin

lemma free_all:
  "set cs \<subseteq> {..<bound} \<Longrightarrow> d < bound \<Longrightarrow>
     get (fold (\<lambda>c. put c 0) cs s) d = (if d \<in> set cs then 0 else get s d)"
proof (induction cs arbitrary: s)
  case Nil
  then show ?case by simp
next
  case (Cons c cs)
  have z: "get (put c 0 s) c = 0" using end_mark_fits by (intro get_put_same) simp
  have "get (fold (\<lambda>c. put c 0) cs (put c 0 s)) d =
      (if d \<in> set cs then 0 else get (put c 0 s) d)"
    by (rule Cons.IH) (use Cons.prems in auto)
  then show ?case
    using Cons.prems z get_put_other [of c d 0 s] by (cases "d = c") auto
qed

text \<open>The loop that frees a chain: it reads the link of a cluster, then clears it.\<close>

fun free_follow :: "nat \<Rightarrow> nat \<Rightarrow> 's \<Rightarrow> 's" where
  "free_follow 0 c s = s"
| "free_follow (Suc n) c s = (if data_link c then free_follow n (get s c) (put c 0 s) else s)"

lemma free_follow_chain:
  "linked (get s) c cs \<Longrightarrow> distinct cs \<Longrightarrow> length cs \<le> n \<Longrightarrow>
     free_follow n c s = fold (\<lambda>c. put c 0) cs s"
proof (induction cs arbitrary: n c s)
  case Nil
  then show ?case by (cases n) auto
next
  case (Cons x cs)
  obtain k where n: "n = Suc k" using Cons.prems(3) by (cases n) auto
  have x: "c = x" "data_link x" "linked (get s) (get s x) cs" using Cons.prems(1) by auto
  have b: "y < bound" if "data_link y" for y using that data_fit by (simp add: data_link_def)
  have "linked (get (put x 0 s)) (get s x) cs"
  proof (subst linked_cong)
    show "get (put x 0 s) y = get s y" if "y \<in> set cs" for y
      using that Cons.prems(2) x(2) linked_data [OF x(3) that] b by (intro get_put_other) auto
  qed (rule x(3))
  then have "free_follow k (get s x) (put x 0 s) = fold (\<lambda>c. put c 0) cs (put x 0 s)"
    using Cons.prems by (intro Cons.IH) (auto simp: n)
  then show ?case using x by (simp add: n)
qed

text \<open>Extending a chain by a cluster that is not on it.\<close>

lemma extend_chain:
  assumes "chain (get s) lim c cs" and "cs \<noteq> []" and "data_link y" and "y \<notin> set cs" and "y < lim"
  shows "chain (get (put y 0xFFF (put (last cs) y s))) lim c (cs @ [y])"
proof -
  let ?t = "put y 0xFFF (put (last cs) y s)"
  have l: "last cs \<in> set cs" using assms(2) by simp
  have d: "data_link x" if "x \<in> set cs" for x
    using that assms(1) linked_data by (auto simp: chain_def)
  have b: "x < bound" if "data_link x" for x using that data_fit by (simp add: data_link_def)
  have y: "get ?t y = 0xFFF" using end_mark_fits by (rule get_put_same)
  have o: "get ?t x = get (put (last cs) y s) x" if "x \<in> set cs" for x
    using that d b assms(3,4) by (intro get_put_other) auto
  have yl: "get ?t (last cs) = y"
    using o [OF l] get_put_same [of y "last cs" s] assms(3) end_mark_fits by (simp add: data_link_def)
  have k: "get ?t x = get s x" if "x \<in> set cs" "x \<noteq> last cs" for x
    using o [OF that(1)] get_put_other [of "last cs" x y s] that d b l by auto
  have "linked (get ?t) c (cs @ [y])"
    by (rule linked_append [of "get s"]) (use assms k yl y in \<open>auto simp: chain_def data_link_def\<close>)
  moreover have "get ?t x \<noteq> 0" if "x \<in> set (cs @ [y])" for x
    using that k [of x] yl y assms(1,3) by (cases "x = last cs") (auto simp: chain_def data_link_def)
  ultimately show ?thesis using assms by (auto simp: chain_def)
qed

lemma start_chain:
  "data_link y \<Longrightarrow> y < lim \<Longrightarrow> chain (get (put y 0xFFF s)) lim y [y]"
  using end_mark_fits by (auto simp: chain_def get_put_same data_link_def)

text \<open>Writing outside a chain leaves it alone.\<close>

lemma put_other_chain:
  assumes "chain (get s) lim c cs" and "y \<notin> set cs" and "y < bound"
  shows "chain (get (put y x s)) lim c cs"
proof (subst chain_cong)
  show "get (put y x s) z = get s z" if "z \<in> set cs" for z
  proof -
    have "data_link z" using that assms(1) linked_data by (auto simp: chain_def)
    then show ?thesis
      using that assms data_fit by (intro get_put_other) (auto simp: data_link_def)
  qed
qed (rule assms(1))

end

interpretation ft: fat_table fat12_read_fat fat12_write_fat 65536 4096
  by unfold_locales (auto simp: read_write_fat_same read_write_fat_other read_fat_less)

lemma free_loop_follow: "free_loop n c s = ft.free_follow n c s"
  by (induction n arbitrary: c s) (auto simp: data_link_def)

end
