(* ===== verification/Fat12Fs.thy ===== *)
theory Fat12Fs
  imports Fat12Spec
begin

text \<open>
  The FAT12 volume as a file system: the geometry under which table, directory and data do not
  overlap, the consistency of the directory with the table, the contents of a file, and the lemmas
  that say what each region's writes leave alone.
\<close>

section \<open>Geometry\<close>

definition cluster_count :: "fat \<Rightarrow> nat" where
  "cluster_count s = (total_sectors s * bytes_per_sector s - data_start_offset s) div cluster_bytes s"

text \<open>The clusters that exist and have an entry inside the table: \<open>2 \<le> c < fat_limit s\<close>.\<close>

definition fat_limit :: "fat \<Rightarrow> nat" where
  "fat_limit s = min (cluster_count s + 2) (2 * (root_dir_offset s - fat_offset s) div 3)"

definition geom_ok :: "fat \<Rightarrow> bool" where
  "geom_ok s \<longleftrightarrow> cluster_bytes s > 0 \<and> data_start_offset s \<le> total_sectors s * bytes_per_sector s \<and>
     total_sectors s * bytes_per_sector s < 2 ^ 31 \<and> fat_offset s \<le> root_dir_offset s \<and>
     root_dir_offset s + 32 * root_entry_count s \<le> data_start_offset s \<and> cluster_count s + 2 \<le> 0xFF8"

lemma max_clusters_eq: "geom_ok s \<Longrightarrow> max_clusters s = Some (cluster_count s)"
  by (simp add: geom_ok_def max_clusters_def cluster_count_def u32_id sub32_id)

lemma vol_update_simps [simp]:
  "cluster_bytes (s\<lparr>vol := v\<rparr>) = cluster_bytes s" "fat_offset (s\<lparr>vol := v\<rparr>) = fat_offset s"
  "cluster_count (s\<lparr>vol := v\<rparr>) = cluster_count s" "fat_limit (s\<lparr>vol := v\<rparr>) = fat_limit s"
  "geom_ok (s\<lparr>vol := v\<rparr>) = geom_ok s" "max_clusters (s\<lparr>vol := v\<rparr>) = max_clusters s"
  "cluster_to_offset (s\<lparr>vol := v\<rparr>) c = cluster_to_offset s c" "dir_pos (s\<lparr>vol := v\<rparr>) i = dir_pos s i"
  "fat_entry_pos (s\<lparr>vol := v\<rparr>) c = fat_entry_pos s c"
  by (simp_all add: cluster_bytes_def fat_offset_def cluster_count_def fat_limit_def geom_ok_def
      max_clusters_def cluster_to_offset_def dir_pos_def fat_entry_pos_def Let_def)

text \<open>Every operation returns its argument with another volume.\<close>

definition same_geom :: "fat \<Rightarrow> fat \<Rightarrow> bool" where
  "same_geom s t \<longleftrightarrow> t = s\<lparr>vol := vol t\<rparr>"

lemma same_geomI [intro]: "same_geom s s" "same_geom s (s\<lparr>vol := v\<rparr>)"
  by (simp_all add: same_geom_def)

lemma same_geom_trans [trans]: "same_geom s t \<Longrightarrow> same_geom t u \<Longrightarrow> same_geom s u"
  unfolding same_geom_def by (metis fat.surjective fat.update_convs(1))

lemma same_geom_write_fat [simp]: "same_geom s (fat12_write_fat c x s)"
  by (simp add: same_geom_def fat12_write_fat_def Let_def)

lemma same_geom_eqs:
  assumes "same_geom s t"
  shows "cluster_bytes t = cluster_bytes s" "fat_offset t = fat_offset s"
    "cluster_count t = cluster_count s" "fat_limit t = fat_limit s" "geom_ok t = geom_ok s"
    "max_clusters t = max_clusters s" "cluster_to_offset t c = cluster_to_offset s c"
    "dir_pos t i = dir_pos s i" "root_entry_count t = root_entry_count s"
    "root_dir_offset t = root_dir_offset s" "data_start_offset t = data_start_offset s"
    "fat_entry_pos t c = fat_entry_pos s c" "same_geom t s"
proof -
  obtain v where "t = s\<lparr>vol := v\<rparr>" using assms unfolding same_geom_def by blast
  then show "cluster_bytes t = cluster_bytes s" "fat_offset t = fat_offset s"
    "cluster_count t = cluster_count s" "fat_limit t = fat_limit s" "geom_ok t = geom_ok s"
    "max_clusters t = max_clusters s" "cluster_to_offset t c = cluster_to_offset s c"
    "dir_pos t i = dir_pos s i" "root_entry_count t = root_entry_count s"
    "root_dir_offset t = root_dir_offset s" "data_start_offset t = data_start_offset s"
    "fat_entry_pos t c = fat_entry_pos s c" "same_geom t s"
    by (simp_all add: same_geom_def)
qed

section \<open>Regions\<close>

lemma fat_limit_bounds:
  assumes "geom_ok s" and "c < fat_limit s"
  shows "fat_offset s \<le> fat_entry_pos s c" "fat_entry_pos s c + 1 < root_dir_offset s" "c < 65536"
    "c < cluster_count s + 2" "c < 0xFF8"
proof -
  show b: "c < cluster_count s + 2" "c < 0xFF8" "c < 65536"
    using assms by (auto simp: fat_limit_def geom_ok_def)
  have "3 * c + 3 \<le> 2 * (root_dir_offset s - fat_offset s)"
    using assms(2) by (simp add: fat_limit_def less_eq_div_iff_mult_less_eq Suc_le_eq [symmetric])
  moreover have "c = 2 * (c div 2) + c mod 2" "c mod 2 < 2" by simp_all
  ultimately have "3 * (c div 2) + c mod 2 + 2 \<le> root_dir_offset s - fat_offset s" by linarith
  moreover have "fat_offset s \<le> root_dir_offset s" using assms(1) by (simp add: geom_ok_def)
  ultimately show "fat_offset s \<le> fat_entry_pos s c" "fat_entry_pos s c + 1 < root_dir_offset s"
    unfolding fat_entry_pos_eq [OF b(3)] by linarith+
qed

lemma cluster_range:
  assumes "geom_ok s" and "2 \<le> c" and "c < cluster_count s + 2"
  shows "cluster_to_offset s c = data_start_offset s + (c - 2) * cluster_bytes s"
    and "cluster_to_offset s c + cluster_bytes s \<le> total_sectors s * bytes_per_sector s"
    and "data_start_offset s \<le> cluster_to_offset s c"
proof -
  have "(c - 2 + 1) * cluster_bytes s \<le> cluster_count s * cluster_bytes s"
    using assms by (intro mult_le_mono1) simp
  also have "\<dots> \<le> total_sectors s * bytes_per_sector s - data_start_offset s"
    by (simp add: cluster_count_def)
  finally have "(c - 2) * cluster_bytes s + cluster_bytes s
      \<le> total_sectors s * bytes_per_sector s - data_start_offset s"
    by (simp add: add_mult_distrib)
  moreover have "data_start_offset s \<le> total_sectors s * bytes_per_sector s"
    using assms(1) by (simp add: geom_ok_def)
  ultimately have le: "data_start_offset s + (c - 2) * cluster_bytes s + cluster_bytes s
      \<le> total_sectors s * bytes_per_sector s" by linarith
  have "total_sectors s * bytes_per_sector s < 4294967296" using assms(1) by (simp add: geom_ok_def)
  then have "data_start_offset s + (c - 2) * cluster_bytes s < 4294967296" using le by linarith
  then show e: "cluster_to_offset s c = data_start_offset s + (c - 2) * cluster_bytes s"
    by (simp add: cluster_to_offset_def cluster_bytes_def u32_id mult.assoc)
  show "cluster_to_offset s c + cluster_bytes s \<le> total_sectors s * bytes_per_sector s"
    "data_start_offset s \<le> cluster_to_offset s c"
    using le e by simp_all
qed

lemma clusters_apart:
  assumes "geom_ok s" and "2 \<le> c" "c < cluster_count s + 2" and "2 \<le> d" "d < cluster_count s + 2" and "c \<noteq> d"
  shows "cluster_to_offset s c + cluster_bytes s \<le> cluster_to_offset s d \<or>
         cluster_to_offset s d + cluster_bytes s \<le> cluster_to_offset s c"
proof -
  have *: "(x - 2) * cluster_bytes s + cluster_bytes s \<le> (y - 2) * cluster_bytes s"
    if "x < y" "2 \<le> x" for x y
  proof -
    have "(x - 2 + 1) * cluster_bytes s \<le> (y - 2) * cluster_bytes s"
      using that by (intro mult_le_mono1) simp
    then show ?thesis by (simp add: algebra_simps)
  qed
  show ?thesis
    using assms(6) *[of c d] *[of d c] assms(2,4)
    unfolding cluster_range(1) [OF assms(1-3)] cluster_range(1) [OF assms(1,4,5)]
    by (cases "c < d") auto
qed

lemma dir_pos_range:
  "geom_ok s \<Longrightarrow> i < root_entry_count s \<Longrightarrow>
     root_dir_offset s \<le> dir_pos s i \<and> dir_pos s i + 32 \<le> data_start_offset s"
  by (simp add: geom_ok_def dir_pos_def)

text \<open>Two volumes that agree on a region.\<close>

definition agree :: "nat \<Rightarrow> nat \<Rightarrow> mem \<Rightarrow> mem \<Rightarrow> bool" where
  "agree a b m m' \<longleftrightarrow> (\<forall>i. a \<le> i \<and> i < b \<longrightarrow> m i = m' i)"

abbreviation root_same :: "fat \<Rightarrow> fat \<Rightarrow> bool" where
  "root_same s t \<equiv> agree (root_dir_offset s) (data_start_offset s) (vol s) (vol t)"

abbreviation boot_same :: "fat \<Rightarrow> fat \<Rightarrow> bool" where
  "boot_same s t \<equiv> agree 0 (fat_offset s) (vol s) (vol t)"

lemma agree_refl [simp]: "agree a b m m"
  by (simp add: agree_def)

lemma agree_trans [trans]: "agree a b m m' \<Longrightarrow> agree a b m' m'' \<Longrightarrow> agree a b m m''"
  by (simp add: agree_def)

lemma agree_seg: "agree a b m m' \<Longrightarrow> a \<le> p \<Longrightarrow> p + n \<le> b \<Longrightarrow> seg m p n = seg m' p n"
  by (rule seg_cong) (simp add: agree_def)

lemma read16_cong: "m p = m' p \<Longrightarrow> m (p + 1) = m' (p + 1) \<Longrightarrow> read16 m p = read16 m' p"
  by (simp add: read16_def read16w_def)

lemma read32_cong: "(\<And>i. i < 4 \<Longrightarrow> m (p + i) = m' (p + i)) \<Longrightarrow> read32 m p = read32 m' p"
proof -
  assume *: "\<And>i. i < 4 \<Longrightarrow> m (p + i) = m' (p + i)"
  have "read16 m p = read16 m' p" using *[of 0] *[of 1] by (intro read16_cong) auto
  moreover have "read16 m (p + 2) = read16 m' (p + 2)"
    using *[of 2] *[of 3] by (intro read16_cong) (auto simp: add.assoc numeral_3_eq_3)
  ultimately show ?thesis by (simp add: read32_def)
qed

lemma entry_cong:
  assumes "same_geom s t" and "\<And>a. dir_pos s i \<le> a \<Longrightarrow> a < dir_pos s i + 32 \<Longrightarrow> vol t a = vol s a"
  shows "vol t (dir_pos t i) = vol s (dir_pos s i)" "dir_name t i = dir_name s i"
    "dir_attr t i = dir_attr s i" "dir_first_cluster t i = dir_first_cluster s i"
    "dir_size t i = dir_size s i"
proof -
  note g = same_geom_eqs(8) [OF assms(1)]
  show "vol t (dir_pos t i) = vol s (dir_pos s i)" "dir_attr t i = dir_attr s i"
    using assms(2) by (simp_all add: g dir_attr_def)
  show "dir_name t i = dir_name s i"
    unfolding dir_name_def g by (rule seg_cong) (use assms(2) in auto)
  show "dir_first_cluster t i = dir_first_cluster s i"
    unfolding dir_first_cluster_def g by (rule read16_cong) (use assms(2) in auto)
  show "dir_size t i = dir_size s i"
    unfolding dir_size_def g by (rule read32_cong) (use assms(2) in auto)
qed

lemma entry_same:
  assumes "same_geom s t" and "geom_ok s" and "root_same s t" and "i < root_entry_count s"
  shows "vol t (dir_pos t i) = vol s (dir_pos s i)" "dir_name t i = dir_name s i"
    "dir_attr t i = dir_attr s i" "dir_first_cluster t i = dir_first_cluster s i"
    "dir_size t i = dir_size s i"
proof -
  have "vol t a = vol s a" if "dir_pos s i \<le> a" "a < dir_pos s i + 32" for a
    using assms(3) dir_pos_range [OF assms(2,4)] that by (simp add: agree_def)
  note entry_cong [OF assms(1) this]
  then show "vol t (dir_pos t i) = vol s (dir_pos s i)" "dir_name t i = dir_name s i"
    "dir_attr t i = dir_attr s i" "dir_first_cluster t i = dir_first_cluster s i"
    "dir_size t i = dir_size s i" by simp_all
qed

text \<open>A table write stays below the directory, a data write above it.\<close>

lemma write_fat_frame:
  assumes "geom_ok s" and "c < fat_limit s"
  shows "root_dir_offset s \<le> a \<Longrightarrow> vol (fat12_write_fat c x s) a = vol s a"
  using fat_limit_bounds [OF assms] by (simp add: write_fat_vol Let_def)

lemma write_fat_frames:
  assumes "geom_ok s" and "set cs \<subseteq> {..<fat_limit s}" and "root_dir_offset s \<le> a"
  shows "vol (fold (\<lambda>c. fat12_write_fat c 0) cs s) a = vol s a \<and>
         same_geom s (fold (\<lambda>c. fat12_write_fat c 0) cs s)"
  using assms
proof (induction cs arbitrary: s)
  case Nil
  then show ?case by auto
next
  case (Cons c cs)
  let ?t = "fat12_write_fat c 0 s"
  note g = same_geom_eqs [OF same_geom_write_fat [of s c 0]]
  have "vol (fold (\<lambda>c. fat12_write_fat c 0) cs ?t) a = vol ?t a \<and>
        same_geom ?t (fold (\<lambda>c. fat12_write_fat c 0) cs ?t)"
    by (rule Cons.IH) (use Cons.prems in \<open>auto simp: g\<close>)
  moreover have "vol ?t a = vol s a"
    using Cons.prems by (intro write_fat_frame) auto
  ultimately show ?case using same_geom_trans [OF same_geom_write_fat] by auto
qed

lemma read_fat_cong:
  assumes "same_geom s t" and "vol t (fat_entry_pos s c) = vol s (fat_entry_pos s c)"
    and "vol t (fat_entry_pos s c + 1) = vol s (fat_entry_pos s c + 1)"
  shows "fat12_read_fat t c = fat12_read_fat s c"
  using assms same_geom_eqs(12) [OF assms(1)]
  by (simp add: fat12_read_fat_def read16w_def Let_def)

section \<open>The directory\<close>

definition entry_used :: "fat \<Rightarrow> nat \<Rightarrow> bool" where
  "entry_used s i \<longleftrightarrow> i < root_entry_count s \<and> vol s (dir_pos s i) \<noteq> 0 \<and> vol s (dir_pos s i) \<noteq> 0xE5 \<and>
     (\<forall>k < i. vol s (dir_pos s k) \<noteq> 0)"

definition is_file :: "fat \<Rightarrow> nat \<Rightarrow> bool" where
  "is_file s i \<longleftrightarrow> entry_used s i \<and> dir_attr s i AND 0x08 = 0 \<and> dir_attr s i AND 0x10 = 0"

definition entry_hit :: "fat \<Rightarrow> byte list \<Rightarrow> nat \<Rightarrow> bool" where
  "entry_hit s n83 j \<longleftrightarrow> vol s (dir_pos s j) \<noteq> 0xE5 \<and>
     dir_attr s j AND 0x08 = 0 \<and> dir_attr s j AND 0x10 = 0 \<and> dir_name s j = n83"

lemma find_entry_Suc:
  "find_entry s n83 i (Suc n) =
     (if vol s (dir_pos s i) = 0 then None else if entry_hit s n83 i then Some i
      else find_entry s n83 (Suc i) n)"
  by (simp add: entry_hit_def)

lemma find_entry_Some:
  "find_entry s n83 i n = Some j \<Longrightarrow> i \<le> j \<and> j < i + n \<and>
     (\<forall>k. i \<le> k \<and> k \<le> j \<longrightarrow> vol s (dir_pos s k) \<noteq> 0) \<and> entry_hit s n83 j"
proof (induction n arbitrary: i)
  case 0
  then show ?case by simp
next
  case (Suc n)
  have z: "vol s (dir_pos s i) \<noteq> 0" using Suc.prems unfolding find_entry_Suc by (metis option.distinct(1))
  show ?case
  proof (cases "entry_hit s n83 i")
    case True
    then have "j = i" using Suc.prems z unfolding find_entry_Suc by simp
    then show ?thesis using True z by (metis add_Suc_right le_add1 le_antisym le_refl less_Suc_eq_le)
  next
    case False
    then have "find_entry s n83 (Suc i) n = Some j" using Suc.prems z unfolding find_entry_Suc by simp
    note IH = Suc.IH [OF this]
    moreover have "vol s (dir_pos s k) \<noteq> 0" if "i \<le> k" "k \<le> j" for k
      using z IH that by (cases "k = i") auto
    ultimately show ?thesis by auto
  qed
qed

lemma find_entry_None:
  "find_entry s n83 i n = None \<Longrightarrow> i \<le> j \<Longrightarrow> j < i + n \<Longrightarrow>
     (\<forall>k. i \<le> k \<and> k \<le> j \<longrightarrow> vol s (dir_pos s k) \<noteq> 0) \<Longrightarrow> \<not> entry_hit s n83 j"
proof (induction n arbitrary: i)
  case 0
  then show ?case by simp
next
  case (Suc n)
  have "vol s (dir_pos s i) \<noteq> 0" using Suc.prems(2,4) by blast
  then have n: "\<not> entry_hit s n83 i" "find_entry s n83 (Suc i) n = None"
    using Suc.prems(1) unfolding find_entry_Suc by (metis option.distinct(1))+
  show ?case
  proof (cases "j = i")
    case False
    show ?thesis
      by (rule Suc.IH [OF n(2)]) (use Suc.prems False in auto)
  qed (use n in simp)
qed

lemma lookup_SomeD: "lookup s n83 = Some i \<Longrightarrow> is_file s i \<and> dir_name s i = n83"
  using find_entry_Some [of s n83 0 "root_entry_count s" i]
  by (auto simp: lookup_def is_file_def entry_used_def entry_hit_def)

lemma lookup_NoneD: "lookup s n83 = None \<Longrightarrow> is_file s i \<Longrightarrow> dir_name s i \<noteq> n83"
proof -
  assume l: "lookup s n83 = None" and f: "is_file s i"
  have "\<forall>k. 0 \<le> k \<and> k \<le> i \<longrightarrow> vol s (dir_pos s k) \<noteq> 0"
    using f by (auto simp: is_file_def entry_used_def order_le_less)
  then have "\<not> entry_hit s n83 i"
    using l f unfolding lookup_def is_file_def entry_used_def by (intro find_entry_None) auto
  with f show ?thesis by (simp add: entry_hit_def is_file_def entry_used_def)
qed

definition names_unique :: "fat \<Rightarrow> bool" where
  "names_unique s \<longleftrightarrow> (\<forall>i j. is_file s i \<longrightarrow> is_file s j \<longrightarrow> dir_name s i = dir_name s j \<longrightarrow> i = j)"

lemma lookup_iff:
  assumes "names_unique s"
  shows "lookup s n83 = Some i \<longleftrightarrow> is_file s i \<and> dir_name s i = n83"
  using assms lookup_SomeD [of s n83] lookup_NoneD [of s n83]
  by (cases "lookup s n83") (auto simp: names_unique_def)

section \<open>Consistency\<close>

text \<open>The clusters of an entry; a chain has at most 4086 of them.\<close>

definition entry_chain :: "fat \<Rightarrow> nat \<Rightarrow> nat list" where
  "entry_chain s i = follow (fat12_read_fat s) 0xFF8 (dir_first_cluster s i)"

definition blocks :: "fat \<Rightarrow> nat \<Rightarrow> nat" where
  "blocks s n = (n + cluster_bytes s - 1) div cluster_bytes s"

definition end_marked :: "fat \<Rightarrow> bool" where
  "end_marked s \<longleftrightarrow> (\<forall>i j. i < j \<and> j < root_entry_count s \<and> vol s (dir_pos s i) = 0 \<longrightarrow>
                         vol s (dir_pos s j) = 0)"

definition entry_ok :: "fat \<Rightarrow> nat \<Rightarrow> bool" where
  "entry_ok s i \<longleftrightarrow>
     chain (fat12_read_fat s) (fat_limit s) (dir_first_cluster s i) (entry_chain s i) \<and>
     (is_file s i \<longrightarrow> length (entry_chain s i) = blocks s (dir_size s i) \<and> dir_size s i < 2 ^ 31)"

definition chains_apart :: "fat \<Rightarrow> bool" where
  "chains_apart s \<longleftrightarrow> (\<forall>i j. entry_used s i \<and> entry_used s j \<and> i \<noteq> j \<longrightarrow>
     set (entry_chain s i) \<inter> set (entry_chain s j) = {})"

definition fs_ok :: "fat \<Rightarrow> bool" where
  "fs_ok s \<longleftrightarrow> geom_ok s \<and> end_marked s \<and> names_unique s \<and>
     (\<forall>i. entry_used s i \<longrightarrow> entry_ok s i) \<and> chains_apart s"

definition cluster_data :: "fat \<Rightarrow> nat \<Rightarrow> byte list" where
  "cluster_data s c = seg (vol s) (cluster_to_offset s c) (cluster_bytes s)"

definition chain_data :: "fat \<Rightarrow> nat list \<Rightarrow> byte list" where
  "chain_data s cs = concat (map (cluster_data s) cs)"

definition file_data :: "fat \<Rightarrow> nat \<Rightarrow> byte list" where
  "file_data s i = take (dir_size s i) (chain_data s (entry_chain s i))"

text \<open>The file system as a map.\<close>

definition fs_map :: "fat \<Rightarrow> byte list \<Rightarrow> byte list option" where
  "fs_map s n83 = map_option (file_data s) (lookup s n83)"

lemma length_cluster_data [simp]: "length (cluster_data s c) = cluster_bytes s"
  by (simp add: cluster_data_def)

lemma length_chain_data: "length (chain_data s cs) = length cs * cluster_bytes s"
  by (induction cs) (simp_all add: chain_data_def)

lemma chain_data_simps [simp]:
  "chain_data s [] = []" "chain_data s (c # cs) = cluster_data s c @ chain_data s cs"
  "chain_data s (cs @ ds) = chain_data s cs @ chain_data s ds"
  by (simp_all add: chain_data_def)

lemma blocks_covers: "cluster_bytes s > 0 \<Longrightarrow> n \<le> blocks s n * cluster_bytes s"
proof -
  assume cb: "cluster_bytes s > 0"
  have "n + cluster_bytes s - 1 = blocks s n * cluster_bytes s + (n + cluster_bytes s - 1) mod cluster_bytes s"
    by (simp add: blocks_def)
  moreover have "(n + cluster_bytes s - 1) mod cluster_bytes s < cluster_bytes s" using cb by simp
  ultimately show ?thesis using cb by linarith
qed

lemma blocks_minimal:
  assumes "cluster_bytes s > 0" and "k * cluster_bytes s < n"
  shows "k < blocks s n"
proof (rule ccontr)
  assume "\<not> k < blocks s n"
  then have "blocks s n * cluster_bytes s \<le> k * cluster_bytes s" by simp
  with blocks_covers [OF assms(1), of n] assms(2) show False by linarith
qed

lemma blocks_le:
  assumes "cluster_bytes s > 0" and "n \<le> k * cluster_bytes s"
  shows "blocks s n \<le> k"
proof -
  have "n + cluster_bytes s - 1 < (k + 1) * cluster_bytes s" using assms by simp
  then have "blocks s n < k + 1" unfolding blocks_def by (rule less_mult_imp_div_less)
  then show ?thesis by simp
qed

lemma length_file_data:
  assumes "fs_ok s" and "is_file s i"
  shows "length (file_data s i) = dir_size s i"
proof -
  have "entry_ok s i" "cluster_bytes s > 0" using assms by (auto simp: fs_ok_def is_file_def geom_ok_def)
  then have "length (entry_chain s i) = blocks s (dir_size s i)" using assms(2) by (simp add: entry_ok_def)
  with blocks_covers [OF \<open>cluster_bytes s > 0\<close>, of "dir_size s i"]
  show ?thesis by (simp add: file_data_def length_chain_data)
qed

section \<open>Reading\<close>

lemma read_chain_correct:
  assumes "geom_ok s"
  shows "linked (fat12_read_fat s) c cs \<Longrightarrow> set cs \<subseteq> {2..<cluster_count s + 2} \<Longrightarrow> rd \<le> to_read \<Longrightarrow>
     to_read \<le> rd + length cs * cluster_bytes s \<Longrightarrow> to_read < 2 ^ 31 \<Longrightarrow> length cs \<le> n \<Longrightarrow>
     (\<exists>buf'. read_chain s n to_read rd c buf = (to_read, buf') \<and>
        seg buf' rd (to_read - rd) = take (to_read - rd) (chain_data s cs) \<and>
        (\<forall>i. i < rd \<or> to_read \<le> i \<longrightarrow> buf' i = buf i))"
proof (induction cs arbitrary: n c rd buf)
  case Nil
  then have "rd = to_read" by simp
  moreover have "read_chain s n to_read to_read c buf = (to_read, buf)" by (cases n) simp_all
  ultimately show ?case by simp
next
  case (Cons x cs)
  obtain k where n: "n = Suc k" using Cons.prems(6) by (cases n) auto
  have x: "c = x" "2 \<le> x" "x < 0xFF8" "linked (fat12_read_fat s) (fat12_read_fat s x) cs"
    using Cons.prems(1) by (auto simp: data_link_def)
  show ?case
  proof (cases "rd < to_read")
    case False
    then show ?thesis using Cons.prems(3) by (simp add: n)
  next
    case True
    let ?cb = "cluster_bytes s"
    have "cluster_to_offset s x + ?cb \<le> total_sectors s * bytes_per_sector s"
      using Cons.prems(2) by (intro cluster_range [OF assms]) auto
    then have cb: "?cb < 2 ^ 31" using assms by (simp add: geom_ok_def)
    then have u: "u32 (rd + ?cb) = rd + ?cb" using True Cons.prems(5) by (intro u32_id) simp
    define chunk where "chunk = (if rd + ?cb > to_read then to_read - rd else ?cb)"
    define b1 where "b1 = blit buf rd (vol s) (cluster_to_offset s x) chunk"
    have ch: "chunk \<le> ?cb" "rd + chunk \<le> to_read" "chunk = min ?cb (to_read - rd)"
      using True by (auto simp: chunk_def)
    have u2: "u32 (rd + chunk) = rd + chunk" using ch Cons.prems(5) by (intro u32_id) simp
    have step: "read_chain s n to_read rd c buf =
        read_chain s k to_read (rd + chunk) (fat12_read_fat s x) b1"
      using True x u2 unfolding n by (simp add: Let_def u b1_def chunk_def)
    have "\<exists>buf'. read_chain s k to_read (rd + chunk) (fat12_read_fat s x) b1 = (to_read, buf') \<and>
        seg buf' (rd + chunk) (to_read - (rd + chunk)) = take (to_read - (rd + chunk)) (chain_data s cs) \<and>
        (\<forall>i. i < rd + chunk \<or> to_read \<le> i \<longrightarrow> buf' i = b1 i)"
      by (rule Cons.IH) (use Cons.prems x ch in \<open>auto simp: n algebra_simps min_def split: if_splits\<close>)
    then obtain buf' where b: "read_chain s k to_read (rd + chunk) (fat12_read_fat s x) b1 = (to_read, buf')"
      "seg buf' (rd + chunk) (to_read - (rd + chunk)) = take (to_read - (rd + chunk)) (chain_data s cs)"
      "\<And>i. i < rd + chunk \<or> to_read \<le> i \<Longrightarrow> buf' i = b1 i" by blast
    have "seg buf' rd chunk = seg b1 rd chunk" by (rule seg_cong) (simp add: b(3))
    also have "\<dots> = seg (vol s) (cluster_to_offset s x) chunk" by (simp add: b1_def seg_blit)
    also have "\<dots> = take chunk (cluster_data s x)" using ch(1) by (simp add: cluster_data_def min_def)
    finally have s1: "seg buf' rd chunk = take chunk (cluster_data s x)" .
    have "to_read - rd = chunk + (to_read - (rd + chunk))" using ch(2) by simp
    then have "seg buf' rd (to_read - rd) = seg buf' rd chunk @ seg buf' (rd + chunk) (to_read - (rd + chunk))"
      by (metis seg_append)
    also have "\<dots> = take (to_read - rd) (chain_data s (x # cs))"
      using s1 b(2) ch(3) by (cases "?cb \<le> to_read - rd") (simp_all add: min_def)
    finally show ?thesis
      using step b ch(2) by (auto simp: b1_def)
  qed
qed

end
