(* ===== verification/Fat12Ops.thy ===== *)
theory Fat12Ops
  imports Fat12Fs
begin

text \<open>
  Reading, writing and deleting files on a consistent FAT12 volume: each operation refines the
  corresponding update of the map \<open>fs_map\<close> from 8.3 names to contents and keeps the volume
  consistent.
\<close>

section \<open>Changing one entry\<close>

lemma entry_chain_eq:
  "chain (fat12_read_fat s) lim (dir_first_cluster s i) cs \<Longrightarrow> lim \<le> 0xFF8 \<Longrightarrow> entry_chain s i = cs"
  unfolding entry_chain_def using chain_length [of "fat12_read_fat s" lim "dir_first_cluster s i" cs]
  by (intro linked_follow) (auto simp: chain_def)

lemma geom_limit: "geom_ok s \<Longrightarrow> fat_limit s \<le> 0xFF8 \<and> fat_limit s \<le> cluster_count s + 2"
  by (auto simp: geom_ok_def fat_limit_def)

lemma chain_member:
  assumes "geom_ok s" and "chain g (fat_limit s) c cs" and "x \<in> set cs"
  shows "2 \<le> x" "x < fat_limit s" "x < cluster_count s + 2" "x < 65536" "g x \<noteq> 0"
  using assms linked_data [of g c cs x] geom_limit [OF assms(1)]
  by (auto simp: chain_def data_link_def)

lemma fs_step:
  assumes ok: "fs_ok s" and g: "same_geom s t" and i0: "i0 < root_entry_count s"
    and before: "\<forall>k < i0. vol s (dir_pos s k) \<noteq> 0" and now: "vol t (dir_pos s i0) \<noteq> 0"
    and others: "\<And>k a. k < root_entry_count s \<Longrightarrow> k \<noteq> i0 \<Longrightarrow> dir_pos s k \<le> a \<Longrightarrow> a < dir_pos s k + 32 \<Longrightarrow>
                   vol t a = vol s a"
    and chains: "\<And>k x. entry_used s k \<Longrightarrow> k \<noteq> i0 \<Longrightarrow> x \<in> set (entry_chain s k) \<Longrightarrow>
                   fat12_read_fat t x = fat12_read_fat s x \<and> cluster_data t x = cluster_data s x"
    and own: "entry_used t i0 \<Longrightarrow> entry_ok t i0"
    and own_apart: "\<And>k. entry_used t i0 \<Longrightarrow> entry_used s k \<Longrightarrow> k \<noteq> i0 \<Longrightarrow>
                   set (entry_chain t i0) \<inter> set (entry_chain s k) = {}"
    and own_name: "\<And>k. is_file t i0 \<Longrightarrow> is_file s k \<Longrightarrow> k \<noteq> i0 \<Longrightarrow> dir_name s k \<noteq> dir_name t i0"
  shows "fs_ok t"
    and "k \<noteq> i0 \<Longrightarrow> is_file t k = is_file s k"
    and "k \<noteq> i0 \<Longrightarrow> is_file s k \<Longrightarrow> dir_name t k = dir_name s k \<and> file_data t k = file_data s k"
proof -
  note ge = same_geom_eqs [OF g]
  have gk: "geom_ok s" and em: "end_marked s" and nu: "names_unique s" using ok by (auto simp: fs_ok_def)
  have e: "vol t (dir_pos s k) = vol s (dir_pos s k)" "dir_name t k = dir_name s k"
    "dir_attr t k = dir_attr s k" "dir_first_cluster t k = dir_first_cluster s k"
    "dir_size t k = dir_size s k" if "k < root_entry_count s" "k \<noteq> i0" for k
    using entry_cong [OF g others [OF that]] by (simp_all add: ge)
  have end0: "vol s (dir_pos s k) = 0" if "i0 < k" "k < root_entry_count s" "vol s (dir_pos s i0) = 0" for k
    using em that by (auto simp: end_marked_def)
  have used: "entry_used t k \<longleftrightarrow> entry_used s k" if "k \<noteq> i0" for k
  proof (cases "k < root_entry_count s")
    case True
    have "(\<forall>j < k. vol t (dir_pos s j) \<noteq> 0) \<longleftrightarrow> (\<forall>j < k. vol s (dir_pos s j) \<noteq> 0)"
      if nz: "vol s (dir_pos s k) \<noteq> 0"
    proof -
      have "vol t (dir_pos s j) \<noteq> 0 \<longleftrightarrow> vol s (dir_pos s j) \<noteq> 0" if "j < k" for j
        using that now e(1) [of j] end0 [of k] nz True by (cases "j = i0") auto
      then show ?thesis by auto
    qed
    then show ?thesis using True that e(1) [of k] by (auto simp: entry_used_def ge)
  qed (simp add: entry_used_def ge)
  show isf: "k \<noteq> i0 \<Longrightarrow> is_file t k = is_file s k" for k
  proof -
    assume "k \<noteq> i0"
    then show "is_file t k = is_file s k"
      using used [of k] e(3) [of k] by (auto simp: is_file_def entry_used_def ge)
  qed
  have ch: "entry_chain t k = entry_chain s k" "entry_ok t k" "chain_data t (entry_chain s k) = chain_data s (entry_chain s k)"
    if k: "entry_used s k" "k \<noteq> i0" for k
  proof -
    have r: "k < root_entry_count s" using k by (simp add: entry_used_def)
    have o: "entry_ok s k" using ok k by (simp add: fs_ok_def)
    have c: "chain (fat12_read_fat t) (fat_limit t) (dir_first_cluster t k) (entry_chain s k)"
      using o chains [OF k] e(4) [OF r k(2)] unfolding entry_ok_def ge
      by (subst chain_cong [of _ _ "fat12_read_fat s"]) auto
    show ec: "entry_chain t k = entry_chain s k"
      by (rule entry_chain_eq [OF c]) (use geom_limit [OF gk] in \<open>simp add: ge\<close>)
    show "entry_ok t k"
      using o c e(5) [OF r k(2)] isf [OF k(2)] by (simp add: entry_ok_def ec blocks_def ge)
    have "map (cluster_data t) (entry_chain s k) = map (cluster_data s) (entry_chain s k)"
      using chains [OF k] by simp
    then show "chain_data t (entry_chain s k) = chain_data s (entry_chain s k)"
      unfolding chain_data_def by (rule arg_cong)
  qed
  show "k \<noteq> i0 \<Longrightarrow> is_file s k \<Longrightarrow> dir_name t k = dir_name s k \<and> file_data t k = file_data s k" for k
    using ch [of k] e [of k] by (simp add: is_file_def entry_used_def file_data_def)
  have "end_marked t"
    unfolding end_marked_def ge
  proof (intro allI impI, elim conjE)
    fix i j assume *: "i < j" "j < root_entry_count s" "vol t (dir_pos s i) = 0"
    then have "i \<noteq> i0" using now by auto
    then have z: "vol s (dir_pos s i) = 0" using * e(1) [of i] by simp
    then have "j \<noteq> i0" using before * by auto
    moreover have "vol s (dir_pos s j) = 0" using em z * unfolding end_marked_def by blast
    ultimately show "vol t (dir_pos s j) = 0" using e(1) [of j] * by simp
  qed
  moreover have "names_unique t"
    unfolding names_unique_def
  proof (intro allI impI)
    fix i j assume *: "is_file t i" "is_file t j" "dir_name t i = dir_name t j"
    have lt: "is_file t k \<Longrightarrow> k < root_entry_count s" for k by (simp add: is_file_def entry_used_def ge)
    show "i = j"
      using * own_name [of i] own_name [of j] isf [of i] isf [of j] e(2) [of i] e(2) [of j] lt [of i] lt [of j] nu
      unfolding names_unique_def by (cases "i = i0"; cases "j = i0"; auto)
  qed
  moreover have "entry_used t k \<Longrightarrow> entry_ok t k" for k
    using own ch(2) [of k] used [of k] by (cases "k = i0") auto
  moreover have "chains_apart t"
    unfolding chains_apart_def
  proof (intro allI impI, elim conjE)
    fix i j assume *: "entry_used t i" "entry_used t j" "i \<noteq> j"
    have "chains_apart s" using ok by (simp add: fs_ok_def)
    then show "set (entry_chain t i) \<inter> set (entry_chain t j) = {}"
      using * own_apart [of i] own_apart [of j] used [of i] used [of j] ch(1) [of i] ch(1) [of j]
      unfolding chains_apart_def by (cases "i = i0"; cases "j = i0"; auto)
  qed
  ultimately show "fs_ok t" using gk by (simp add: fs_ok_def ge)
qed

lemma fs_map_Some_iff:
  "fs_ok s \<Longrightarrow> fs_map s n = Some d \<longleftrightarrow> (\<exists>i. is_file s i \<and> dir_name s i = n \<and> d = file_data s i)"
  by (auto simp: fs_map_def lookup_iff fs_ok_def)

section \<open>Freeing a file's clusters\<close>

definition free_clusters :: "nat list \<Rightarrow> fat \<Rightarrow> fat" where
  "free_clusters cs s = fold (\<lambda>c. fat12_write_fat c 0) cs s"

lemma freed_chain:
  assumes "fs_ok s" and "entry_used s i"
  shows "(if dir_first_cluster s i \<ge> 2 then fat12_free_chain (dir_first_cluster s i) s else Some s) =
           Some (free_clusters (entry_chain s i) s)"
proof -
  have g: "geom_ok s" and o: "chain (fat12_read_fat s) (fat_limit s) (dir_first_cluster s i) (entry_chain s i)"
    using assms by (auto simp: fs_ok_def entry_ok_def)
  have "length (entry_chain s i) \<le> cluster_count s"
    using chain_length [OF o] geom_limit [OF g] by linarith
  then have f: "free_loop (cluster_count s) (dir_first_cluster s i) s = free_clusters (entry_chain s i) s"
    using o unfolding free_loop_follow free_clusters_def chain_def by (intro ft.free_follow_chain) auto
  show ?thesis
  proof (cases "dir_first_cluster s i \<ge> 2")
    case True
    then show ?thesis using f by (simp add: fat12_free_chain_def max_clusters_eq [OF g])
  next
    case False
    then have "entry_chain s i = []" using o by (cases "entry_chain s i") (auto simp: chain_def data_link_def)
    with False show ?thesis by (simp add: free_clusters_def)
  qed
qed

lemma write_fat_boot:
  "geom_ok s \<Longrightarrow> set cs \<subseteq> {..<fat_limit s} \<Longrightarrow> boot_same s (fold (\<lambda>c. fat12_write_fat c 0) cs s)"
proof (induction cs arbitrary: s)
  case (Cons c cs)
  let ?t = "fat12_write_fat c 0 s"
  note q = same_geom_eqs [OF same_geom_write_fat [of s c 0]]
  have "boot_same ?t (fold (\<lambda>c. fat12_write_fat c 0) cs ?t)"
    by (rule Cons.IH) (use Cons.prems in \<open>auto simp: q\<close>)
  moreover have "boot_same s ?t"
    using Cons.prems fat_limit_bounds [of s c] by (simp add: agree_def write_fat_vol Let_def)
  ultimately show ?case by (auto simp: q intro: agree_trans)
qed simp

lemma free_clusters_frame:
  assumes "geom_ok s" and "set cs \<subseteq> {..<fat_limit s}"
  shows "same_geom s (free_clusters cs s)"
    and "boot_same s (free_clusters cs s)"
    and "root_dir_offset s \<le> a \<Longrightarrow> vol (free_clusters cs s) a = vol s a"
    and "d < 65536 \<Longrightarrow> fat12_read_fat (free_clusters cs s) d = (if d \<in> set cs then 0 else fat12_read_fat s d)"
proof -
  show "same_geom s (free_clusters cs s)"
    using write_fat_frames [OF assms, of "root_dir_offset s"] by (simp add: free_clusters_def)
  show "boot_same s (free_clusters cs s)"
    using write_fat_boot [OF assms] by (simp add: free_clusters_def)
  show "root_dir_offset s \<le> a \<Longrightarrow> vol (free_clusters cs s) a = vol s a"
    using write_fat_frames [OF assms, of a] by (simp add: free_clusters_def)
  have "set cs \<subseteq> {..<65536}" using assms geom_limit [OF assms(1)] by force
  then show "d < 65536 \<Longrightarrow> fat12_read_fat (free_clusters cs s) d = (if d \<in> set cs then 0 else fat12_read_fat s d)"
    unfolding free_clusters_def by (rule ft.free_all)
qed

lemma cluster_data_cong:
  assumes "same_geom s t" and "\<And>a. data_start_offset s \<le> a \<Longrightarrow> vol t a = vol s a"
    and "geom_ok s" and "2 \<le> c" "c < cluster_count s + 2"
  shows "cluster_data t c = cluster_data s c"
  unfolding cluster_data_def same_geom_eqs [OF assms(1)]
  by (rule seg_cong) (use assms(2) cluster_range(3) [OF assms(3-5)] in auto)

lemma read_fat_above:
  assumes "same_geom s t" and "geom_ok s" and "c < fat_limit s"
    and "\<And>a. a < root_dir_offset s \<Longrightarrow> vol t a = vol s a"
  shows "fat12_read_fat t c = fat12_read_fat s c"
  using fat_limit_bounds [OF assms(2,3)] assms(4) by (intro read_fat_cong assms(1)) auto

section \<open>Deleting\<close>

lemma delete_step:
  assumes ok: "fs_ok s" and i: "is_file s i"
  defines "u \<equiv> free_clusters (entry_chain s i) s"
  defines "t \<equiv> u\<lparr>vol := (vol u)(dir_pos u i := 0xE5)\<rparr>"
  shows "fs_ok t" and "\<not> is_file t i" and "same_geom s t" and "boot_same s t"
    and "k \<noteq> i \<Longrightarrow> is_file t k = is_file s k"
    and "k \<noteq> i \<Longrightarrow> is_file s k \<Longrightarrow> dir_name t k = dir_name s k \<and> file_data t k = file_data s k"
proof -
  have g: "geom_ok s" and used: "entry_used s i" and r: "i < root_entry_count s"
    using ok i by (auto simp: fs_ok_def is_file_def entry_used_def)
  have o: "chain (fat12_read_fat s) (fat_limit s) (dir_first_cluster s i) (entry_chain s i)"
    using ok used by (simp add: fs_ok_def entry_ok_def)
  have sub: "set (entry_chain s i) \<subseteq> {..<fat_limit s}" using o by (auto simp: chain_def)
  note f = free_clusters_frame [OF g sub, folded u_def]
  note uq = same_geom_eqs [OF f(1)]
  have gt: "same_geom s t" unfolding t_def using f(1) same_geom_trans by blast
  note tq = same_geom_eqs [OF gt]
  have tv: "vol t a = (if a = dir_pos s i then 0xE5 else vol u a)" for a by (simp add: t_def uq)
  have dp: "root_dir_offset s \<le> dir_pos s i" "dir_pos s i < data_start_offset s"
    using dir_pos_range [OF g r] by auto
  show "same_geom s t" by (rule gt)
  have ro: "fat_offset s \<le> root_dir_offset s" using g by (simp add: geom_ok_def)
  show "boot_same s t" using f(2) dp ro by (auto simp: agree_def tv)
  have nu: "\<not> entry_used t i" by (simp add: entry_used_def tq tv)
  then show "\<not> is_file t i" by (simp add: is_file_def)
  have others: "vol t a = vol s a"
    if "k < root_entry_count s" "k \<noteq> i" "dir_pos s k \<le> a" "a < dir_pos s k + 32" for k a
    using that dir_pos_range [OF g that(1)] f(3) [of a] by (auto simp: tv dir_pos_def)
  have chains: "fat12_read_fat t x = fat12_read_fat s x \<and> cluster_data t x = cluster_data s x"
    if k: "entry_used s k" "k \<noteq> i" "x \<in> set (entry_chain s k)" for k x
  proof -
    have "chain (fat12_read_fat s) (fat_limit s) (dir_first_cluster s k) (entry_chain s k)"
      using ok k(1) by (simp add: fs_ok_def entry_ok_def)
    note x = chain_member [OF g this k(3)]
    have "x \<notin> set (entry_chain s i)" using ok used k by (auto simp: fs_ok_def chains_apart_def)
    then have "fat12_read_fat u x = fat12_read_fat s x" using f(4) [OF x(4)] by simp
    moreover have "fat12_read_fat t x = fat12_read_fat u x"
      by (rule read_fat_above) (use x g dp in \<open>auto simp: uq tv t_def\<close>)
    moreover have "cluster_data t x = cluster_data s x"
      by (rule cluster_data_cong [OF gt _ g x(1,3)]) (use dp f(3) in \<open>auto simp: tv\<close>)
    ultimately show ?thesis by simp
  qed
  have bf: "\<forall>k < i. vol s (dir_pos s k) \<noteq> 0" using used by (simp add: entry_used_def)
  have now: "vol t (dir_pos s i) \<noteq> 0" by (simp add: tv)
  have nf: "\<not> is_file t i" using nu by (simp add: is_file_def)
  note st = fs_step [OF ok gt r bf now others chains]
  show "fs_ok t" by (rule st(1)) (use nu nf in auto)
  show "k \<noteq> i \<Longrightarrow> is_file t k = is_file s k" by (rule st(2)) (use nu nf in auto)
  show "k \<noteq> i \<Longrightarrow> is_file s k \<Longrightarrow> dir_name t k = dir_name s k \<and> file_data t k = file_data s k"
    by (rule st(3)) (use nu nf in auto)
qed

section \<open>Allocating\<close>

lemma alloc_loop_Some:
  "alloc_loop s c n = Some e \<Longrightarrow> c + n \<le> 65536 \<Longrightarrow>
     c \<le> e \<and> e < c + n \<and> fat12_read_fat s e = 0 \<and> (\<forall>d. c \<le> d \<and> d < e \<longrightarrow> fat12_read_fat s d \<noteq> 0)"
proof (induction s c n rule: alloc_loop.induct)
  case (1 s c)
  then show ?case by simp
next
  case (2 s c n)
  show ?case
  proof (cases "fat12_read_fat s c = 0")
    case True
    then show ?thesis using 2 by simp
  next
    case False
    then have a: "alloc_loop s (u16 (c + 1)) n = Some e" using 2 by simp
    then have "n \<noteq> 0" by (cases n) auto
    then have u: "u16 (c + 1) = Suc c" using "2.prems"(2) by (simp add: u16_id)
    have *: "Suc c \<le> e \<and> e < Suc c + n \<and> fat12_read_fat s e = 0 \<and>
        (\<forall>d. Suc c \<le> d \<and> d < e \<longrightarrow> fat12_read_fat s d \<noteq> 0)"
      using "2.IH" [OF False] a "2.prems"(2) unfolding u by simp
    have "fat12_read_fat s d \<noteq> 0" if "c \<le> d" "d < e" for d
      using that False * by (cases "d = c") auto
    with * show ?thesis by auto
  qed
qed

lemma alloc_loop_None:
  "alloc_loop s c n = None \<Longrightarrow> c + n \<le> 65536 \<Longrightarrow> c \<le> d \<Longrightarrow> d < c + n \<Longrightarrow> fat12_read_fat s d \<noteq> 0"
proof (induction s c n rule: alloc_loop.induct)
  case (1 s c)
  then show ?case by simp
next
  case (2 s c n)
  have z: "fat12_read_fat s c \<noteq> 0" using "2.prems"(1) by (auto split: if_splits)
  show ?case
  proof (cases "d = c")
    case False
    then have n: "n \<noteq> 0" "Suc c \<le> d" using "2.prems" by auto
    then have u: "u16 (c + 1) = Suc c" using "2.prems"(2) by (simp add: u16_id)
    have "alloc_loop s (u16 (c + 1)) n = None" using "2.prems"(1) z by simp
    then show ?thesis
      using "2.IH" [OF z] "2.prems" n unfolding u by auto
  qed (use z in simp)
qed

text \<open>Clusters that a write can use.\<close>

definition free_pool :: "fat \<Rightarrow> nat set" where
  "free_pool s = {c. 2 \<le> c \<and> c < fat_limit s \<and> fat12_read_fat s c = 0}"

lemma finite_free_pool [simp]: "finite (free_pool s)"
  by (rule finite_subset [of _ "{..<fat_limit s}"]) (auto simp: free_pool_def)

lemma alloc_correct:
  assumes "geom_ok s" and "free_pool s \<noteq> {}"
  shows "\<exists>c. fat12_alloc_cluster s = Some c \<and> c \<in> free_pool s"
proof -
  obtain d where d: "2 \<le> d" "d < fat_limit s" "fat12_read_fat s d = 0"
    using assms(2) by (auto simp: free_pool_def)
  have m: "u32 (cluster_count s + 2) = cluster_count s + 2" "\<not> cluster_count s + 2 > 65535"
    using assms(1) by (auto simp: geom_ok_def u32_id)
  have b: "2 + cluster_count s \<le> 65536" "d < 2 + cluster_count s"
    using m d(2) geom_limit [OF assms(1)] by auto
  obtain e where e: "alloc_loop s 2 (cluster_count s) = Some e"
    using alloc_loop_None [OF _ b(1) d(1) b(2), of s] d(3) by (cases "alloc_loop s 2 (cluster_count s)") auto
  note * = alloc_loop_Some [OF e b(1)]
  have "e \<le> d" using * d by (meson not_le)
  then have "e \<in> free_pool s" using * d by (simp add: free_pool_def)
  moreover have "fat12_alloc_cluster s = Some e"
    using e m by (simp add: fat12_alloc_cluster_def max_clusters_eq [OF assms(1)] Let_def)
  ultimately show ?thesis by blast
qed

section \<open>Writing the data\<close>

text \<open>After some iterations of the write loop over the clusters \<open>cs\<close>, from the volume \<open>s\<close>.\<close>

definition writing :: "fat \<Rightarrow> mem \<Rightarrow> nat \<Rightarrow> nat list \<Rightarrow> write_state \<Rightarrow> bool" where
  "writing s data n cs w \<longleftrightarrow>
     same_geom s (ws_fat w) \<and> boot_same s (ws_fat w) \<and> root_same s (ws_fat w) \<and> distinct cs \<and> set cs \<subseteq> free_pool s \<and>
     (\<forall>c < fat_limit s. c \<notin> set cs \<longrightarrow> fat12_read_fat (ws_fat w) c = fat12_read_fat s c) \<and>
     (\<forall>c. 2 \<le> c \<and> c < cluster_count s + 2 \<and> c \<notin> set cs \<longrightarrow> cluster_data (ws_fat w) c = cluster_data s c) \<and>
     ws_written w = min n (length cs * cluster_bytes s) \<and> length cs \<le> blocks s n \<and>
     take (ws_written w) (chain_data (ws_fat w) cs) = seg data 0 (ws_written w) \<and>
     (if cs = [] then ws_first w = 0 \<and> ws_prev w = 0
      else ws_first w = hd cs \<and> ws_prev w = last cs \<and>
           chain (fat12_read_fat (ws_fat w)) (fat_limit s) (hd cs) cs)"

lemma write_fat_region:
  assumes "geom_ok s" and "c < fat_limit s"
  shows "boot_same s (fat12_write_fat c x s)"
    and "agree (root_dir_offset s) b (vol s) (vol (fat12_write_fat c x s))"
    and "2 \<le> d \<Longrightarrow> d < cluster_count s + 2 \<Longrightarrow> cluster_data (fat12_write_fat c x s) d = cluster_data s d"
proof -
  show "boot_same s (fat12_write_fat c x s)"
    using fat_limit_bounds [OF assms] by (simp add: agree_def write_fat_vol Let_def)
  show "agree (root_dir_offset s) b (vol s) (vol (fat12_write_fat c x s))"
    using write_fat_frame [OF assms] by (simp add: agree_def)
  have "root_dir_offset s \<le> data_start_offset s" using assms(1) by (simp add: geom_ok_def)
  then show "2 \<le> d \<Longrightarrow> d < cluster_count s + 2 \<Longrightarrow> cluster_data (fat12_write_fat c x s) d = cluster_data s d"
    using write_fat_frame [OF assms] by (intro cluster_data_cong assms(1)) auto
qed

text \<open>Writing up to a cluster of data into cluster \<open>c\<close>.\<close>

definition put_data :: "nat \<Rightarrow> mem \<Rightarrow> nat \<Rightarrow> nat \<Rightarrow> fat \<Rightarrow> fat" where
  "put_data c data p k s = s\<lparr>vol := blit (vol s) (cluster_to_offset s c) data p k\<rparr>"

lemma put_data_effect:
  assumes g: "geom_ok s" and c: "2 \<le> c" "c < cluster_count s + 2" and k: "k \<le> cluster_bytes s"
  shows "same_geom s (put_data c data p k s)"
    and "root_same s (put_data c data p k s)" and "boot_same s (put_data c data p k s)"
    and "d < fat_limit s \<Longrightarrow> fat12_read_fat (put_data c data p k s) d = fat12_read_fat s d"
    and "2 \<le> d \<Longrightarrow> d < cluster_count s + 2 \<Longrightarrow> d \<noteq> c \<Longrightarrow>
           cluster_data (put_data c data p k s) d = cluster_data s d"
    and "take k (cluster_data (put_data c data p k s) c) = seg data p k"
proof -
  let ?t = "put_data c data p k s"
  have ge: "same_geom s ?t" by (auto simp: put_data_def)
  show "same_geom s ?t" by (rule ge)
  have out: "vol ?t a = vol s a" if "a < data_start_offset s" for a
    using that cluster_range(3) [OF g c] by (simp add: put_data_def)
  have ro: "fat_offset s \<le> root_dir_offset s" "root_dir_offset s \<le> data_start_offset s"
    using g by (simp_all add: geom_ok_def)
  show "root_same s ?t" "boot_same s ?t" using ro by (simp_all add: agree_def out)
  have "root_dir_offset s \<le> data_start_offset s" using g by (simp add: geom_ok_def)
  then show "d < fat_limit s \<Longrightarrow> fat12_read_fat ?t d = fat12_read_fat s d"
    by (intro read_fat_above ge g) (auto intro: out)
  show "cluster_data ?t d = cluster_data s d" if "2 \<le> d" "d < cluster_count s + 2" "d \<noteq> c"
    unfolding cluster_data_def same_geom_eqs [OF ge]
    using clusters_apart [OF g c that(1,2)] that(3) k by (auto simp: put_data_def intro!: seg_blit_out)
  have "take k (cluster_data ?t c) = seg (vol ?t) (cluster_to_offset s c) k"
    using k by (simp add: cluster_data_def same_geom_eqs [OF ge] min_def)
  then show "take k (cluster_data ?t c) = seg data p k" by (simp add: put_data_def seg_blit)
qed

lemma writing_step:
  assumes w: "writing s data n cs w" and g: "geom_ok s" and n: "n < 2 ^ 31" and more: "ws_written w < n"
    and c: "c \<in> free_pool (ws_fat w)" "c \<notin> set cs"
  shows "writing s data n (cs @ [c]) (write_cluster data n c w)"
proof -
  let ?u = "ws_fat w" and ?cb = "cluster_bytes s"
  have gu: "same_geom s ?u" using w by (simp add: writing_def)
  note uq = same_geom_eqs [OF gu]
  have g': "geom_ok ?u" using g by (simp add: uq)
  have wr: "ws_written w = length cs * ?cb" using w more by (auto simp: writing_def)
  have c2: "2 \<le> c" "c < fat_limit s" "c < cluster_count s + 2" "data_link c"
    using c geom_limit [OF g] by (auto simp: free_pool_def uq data_link_def)
  have csl: "x < fat_limit s" "x < 65536" "2 \<le> x" if "x \<in> set cs" for x
    using that w geom_limit [OF g] by (fastforce simp: writing_def free_pool_def)+
  define k where "k = (if u32 (ws_written w + ?cb) > n then n - ws_written w else ?cb)"
  define u1 where "u1 = (if ws_prev w \<noteq> 0 then fat12_write_fat (ws_prev w) c ?u else ?u)"
  define u2 where "u2 = put_data c data (ws_written w) k u1"
  define u3 where "u3 = fat12_write_fat c 0xFFF u2"
  have "?cb \<le> total_sectors s * bytes_per_sector s"
    using cluster_range(2) [OF g c2(1,3)] by linarith
  then have u: "u32 (ws_written w + ?cb) = ws_written w + ?cb"
    using g n more by (intro u32_id) (simp add: geom_ok_def)
  have k: "k = min ?cb (n - ws_written w)" "k \<le> ?cb" "ws_written w + k \<le> n"
    using more unfolding k_def u by auto
  then have uk: "u32 (ws_written w + k) = ws_written w + k" using n by (intro u32_id) simp
  have prev: "ws_prev w \<noteq> 0 \<longleftrightarrow> cs \<noteq> []" "cs \<noteq> [] \<Longrightarrow> ws_prev w = last cs" "cs \<noteq> [] \<Longrightarrow> last cs < fat_limit s"
    using w csl [of "last cs"] csl(3) [of "last cs"] by (auto simp: writing_def split: if_splits)
  have g1: "same_geom ?u u1" by (auto simp: u1_def)
  note q1 = same_geom_eqs [OF g1]
  have go1: "geom_ok u1" using g' by (simp add: q1)
  have k1: "k \<le> cluster_bytes u1" using k by (simp add: q1 uq)
  have c1: "2 \<le> c" "c < cluster_count u1 + 2" using c2 by (simp_all add: q1 uq)
  note p = put_data_effect [OF go1 c1 k1, where data = data and p = "ws_written w", folded u2_def]
  note q2 = same_geom_eqs [OF p(1)]
  have go2: "geom_ok u2" using go1 by (simp add: q2)
  have cl2: "c < fat_limit u2" using c2 by (simp add: q2 q1 uq)
  have g3: "same_geom s u3"
    using gu g1 p(1) same_geom_write_fat [of u2 c "0xFFF"] unfolding u3_def by (metis same_geom_trans)
  have wc: "write_cluster data n c w = \<lparr>ws_fat = u3, ws_first = (if ws_first w = 0 then c else ws_first w),
      ws_prev = c, ws_written = ws_written w + k\<rparr>"
  proof -
    have cb1: "cluster_bytes u1 = ?cb" by (simp add: q1 uq)
    show ?thesis
      unfolding write_cluster_def Let_def u1_def [symmetric] cb1 k_def [symmetric] uk
        u3_def u2_def put_data_def by (rule refl)
  qed
  \<comment> \<open>the root directory and the other clusters\<close>
  have ra: "agree (root_dir_offset s) b (vol ?u) (vol u1)" for b
    using write_fat_region(2) [OF g', of "ws_prev w"] prev by (auto simp: u1_def uq)
  have rb: "root_same s u2" if "root_same s ?u"
    using that ra p(2) by (auto simp: q1 uq intro: agree_trans)
  have rc: "root_same s u3" using rb w write_fat_region(2) [OF go2 cl2, where x = "0xFFF"]
    unfolding u3_def writing_def by (auto simp: q2 q1 uq intro: agree_trans)
  have ba: "boot_same ?u u1" "boot_same u1 u2" "boot_same u2 u3"
    using write_fat_region(1) [OF g', of "ws_prev w"] prev p(3) write_fat_region(1) [OF go2 cl2, where x = "0xFFF"]
    by (auto simp: u1_def u3_def uq)
  have bc: "boot_same s u3"
    using w ba unfolding writing_def by (auto simp: q2 q1 uq intro: agree_trans)
  have data_other: "cluster_data u3 d = cluster_data ?u d" if "2 \<le> d" "d < cluster_count s + 2" "d \<noteq> c" for d
  proof -
    have "cluster_data u3 d = cluster_data u2 d" unfolding u3_def
      by (rule write_fat_region(3) [OF go2 cl2]) (use that in \<open>simp_all add: q2 q1 uq\<close>)
    also have "\<dots> = cluster_data u1 d" by (rule p(5)) (use that in \<open>simp_all add: q1 uq\<close>)
    also have "\<dots> = cluster_data ?u d"
      using write_fat_region(3) [OF g', of "ws_prev w" d c] that prev by (auto simp: u1_def uq)
    finally show ?thesis .
  qed
  have data_c: "take k (cluster_data u3 c) = seg data (ws_written w) k"
    unfolding u3_def using p(6) write_fat_region(3) [OF go2 cl2, of c "0xFFF"] c2 by (simp add: q2 q1 uq)
  have data_cs: "chain_data u3 cs = chain_data ?u cs"
  proof -
    have "map (cluster_data u3) cs = map (cluster_data ?u) cs"
    proof (rule map_cong [OF refl])
      fix x assume x: "x \<in> set cs"
      then have "x < cluster_count s + 2" using csl(1) [OF x] geom_limit [OF g] by linarith
      moreover have "x \<noteq> c" using x c(2) by blast
      ultimately show "cluster_data u3 x = cluster_data ?u x" using csl(3) [OF x] by (intro data_other)
    qed
    then show ?thesis unfolding chain_data_def by (rule arg_cong)
  qed
  \<comment> \<open>the table\<close>
  have get3: "fat12_read_fat u3 d = fat12_read_fat (fat12_write_fat c 0xFFF u1) d" if "d < fat_limit s" for d
  proof (cases "d = c")
    case True
    then show ?thesis unfolding u3_def by (simp add: ft.get_put_same)
  next
    case False
    have b: "d < 65536" "c < 65536" using that c2(2) geom_limit [OF g] by auto
    have "fat12_read_fat u3 d = fat12_read_fat u2 d"
      unfolding u3_def using b False by (intro ft.get_put_other) auto
    also have "\<dots> = fat12_read_fat u1 d" by (rule p(4)) (use that in \<open>simp add: q1 uq\<close>)
    also have "\<dots> = fat12_read_fat (fat12_write_fat c 0xFFF u1) d"
      using b False by (intro ft.get_put_other [symmetric]) auto
    finally show ?thesis .
  qed
  have get_other: "fat12_read_fat u3 d = fat12_read_fat ?u d" if "d < fat_limit s" "d \<noteq> c" "d \<notin> set cs" for d
  proof -
    have "fat12_read_fat u3 d = fat12_read_fat u1 d"
      using get3 [OF that(1)] that c2(2) geom_limit [OF g] by (auto intro: ft.get_put_other)
    also have "\<dots> = fat12_read_fat ?u d"
      using that prev geom_limit [OF g] last_in_set [of cs] unfolding u1_def
      by (cases "cs = []") (auto intro!: ft.get_put_other)
    finally show ?thesis .
  qed
  have first: "(if ws_first w = 0 then c else ws_first w) = hd (cs @ [c])"
    using w csl(3) [of "hd cs"] by (cases cs) (auto simp: writing_def)
  have ch: "chain (fat12_read_fat u3) (fat_limit s) (hd (cs @ [c])) (cs @ [c])"
  proof (cases "cs = []")
    case True
    have "chain (fat12_read_fat (fat12_write_fat c 0xFFF u1)) (fat_limit s) c [c]"
      using c2 by (intro ft.start_chain)
    moreover have "fat12_read_fat u3 c = fat12_read_fat (fat12_write_fat c 0xFFF u1) c" by (rule get3 [OF c2(2)])
    then have "chain (fat12_read_fat u3) (fat_limit s) c [c] =
        chain (fat12_read_fat (fat12_write_fat c 0xFFF u1)) (fat_limit s) c [c]"
      by (intro chain_cong) simp
    ultimately show ?thesis using True by simp
  next
    case False
    have "chain (fat12_read_fat (fat12_write_fat c 0xFFF (fat12_write_fat (last cs) c ?u)))
            (fat_limit s) (hd cs) (cs @ [c])"
      using w False c2 c(2) by (intro ft.extend_chain) (auto simp: writing_def)
    moreover have "fat12_write_fat (last cs) c ?u = u1" using False prev by (simp add: u1_def)
    moreover have "fat12_read_fat u3 d = fat12_read_fat (fat12_write_fat c 0xFFF u1) d" if "d \<in> set (cs @ [c])" for d
      using that csl(1) c2(2) by (intro get3) auto
    then have "chain (fat12_read_fat u3) (fat_limit s) (hd cs) (cs @ [c]) =
        chain (fat12_read_fat (fat12_write_fat c 0xFFF u1)) (fat_limit s) (hd cs) (cs @ [c])"
      by (intro chain_cong) simp
    ultimately show ?thesis using False by simp
  qed
  have len: "ws_written w + k = min n (length (cs @ [c]) * ?cb)"
  proof -
    have "length (cs @ [c]) * ?cb = length cs * ?cb + ?cb" by simp
    then show ?thesis using k(1) wr more by linarith
  qed
  have cbpos: "?cb > 0" using g by (simp add: geom_ok_def)
  have bl: "length (cs @ [c]) \<le> blocks s n"
    using blocks_minimal [OF cbpos, of "length cs" n] wr more by simp
  have lc: "length (chain_data ?u cs) = ws_written w" by (simp add: length_chain_data wr uq)
  have "take (ws_written w + k) (chain_data u3 (cs @ [c])) = chain_data ?u cs @ take k (cluster_data u3 c)"
    by (simp add: data_cs lc)
  also have "chain_data ?u cs = seg data 0 (ws_written w)" using w lc by (simp add: writing_def)
  also have "seg data 0 (ws_written w) @ take k (cluster_data u3 c) = seg data 0 (ws_written w + k)"
    using seg_append [of data 0 "ws_written w" k] data_c by simp
  finally have content: "take (ws_written w + k) (chain_data u3 (cs @ [c])) = seg data 0 (ws_written w + k)" .
  have free: "c \<in> free_pool s" using c w c2 by (auto simp: writing_def free_pool_def)
  show ?thesis
    unfolding writing_def wc write_state.simps
  proof (intro conjI)
    show "distinct (cs @ [c])" "set (cs @ [c]) \<subseteq> free_pool s"
      using w c(2) free by (simp_all add: writing_def)
    show "\<forall>d < fat_limit s. d \<notin> set (cs @ [c]) \<longrightarrow> fat12_read_fat u3 d = fat12_read_fat s d"
      using w get_other by (simp add: writing_def)
    show "\<forall>d. 2 \<le> d \<and> d < cluster_count s + 2 \<and> d \<notin> set (cs @ [c]) \<longrightarrow> cluster_data u3 d = cluster_data s d"
      using w data_other by (simp add: writing_def)
    show "if cs @ [c] = [] then (if ws_first w = 0 then c else ws_first w) = 0 \<and> c = 0
        else (if ws_first w = 0 then c else ws_first w) = hd (cs @ [c]) \<and> c = last (cs @ [c]) \<and>
             chain (fat12_read_fat u3) (fat_limit s) (hd (cs @ [c])) (cs @ [c])"
      using first ch by simp
  qed (fact g3 bc rc len bl content)+
qed

lemma writing_more:
  assumes w: "writing s data n cs w" and g: "geom_ok s" and room: "blocks s n \<le> card (free_pool s)"
    and more: "ws_written w < n"
  obtains c where "fat12_alloc_cluster (ws_fat w) = Some c" "c \<in> free_pool (ws_fat w)" "c \<notin> set cs" "c \<noteq> 0"
proof -
  have gu: "same_geom s (ws_fat w)" using w by (simp add: writing_def)
  note uq = same_geom_eqs [OF gu]
  have g': "geom_ok (ws_fat w)" using g by (simp add: uq)
  have "length cs * cluster_bytes s < n" using w more by (auto simp: writing_def)
  then have "length cs < blocks s n" using g by (intro blocks_minimal) (simp_all add: geom_ok_def)
  moreover have "card (set cs) = length cs" using w by (simp add: writing_def distinct_card)
  ultimately have "card (set cs) < card (free_pool s)" using room by simp
  then have "\<not> free_pool s \<subseteq> set cs" by (meson List.finite_set card_mono not_le)
  then obtain x where x: "x \<in> free_pool s" "x \<notin> set cs" by blast
  have "x \<in> free_pool (ws_fat w)" using x w by (auto simp: writing_def free_pool_def uq)
  then have ne: "free_pool (ws_fat w) \<noteq> {}" by auto
  obtain c where c: "fat12_alloc_cluster (ws_fat w) = Some c" "c \<in> free_pool (ws_fat w)"
    using alloc_correct [OF g' ne] by blast
  have "c \<notin> set cs"
  proof
    assume "c \<in> set cs"
    then have "fat12_read_fat (ws_fat w) c \<noteq> 0" using w by (auto simp: writing_def chain_def split: if_splits)
    with c(2) show False by (simp add: free_pool_def)
  qed
  with c show ?thesis by (intro that [of c]) (auto simp: free_pool_def)
qed

lemma write_loop_correct:
  assumes g: "geom_ok s" and n: "n < 2 ^ 31" and room: "blocks s n \<le> card (free_pool s)"
  shows "writing s data n cs w \<Longrightarrow> n \<le> ws_written w + m \<Longrightarrow>
     \<exists>w' cs'. write_loop m data n w = Some (True, w') \<and> writing s data n cs' w' \<and> ws_written w' = n"
proof (induction m arbitrary: cs w)
  case 0
  then have "ws_written w = n" by (simp add: writing_def)
  with 0 show ?case by auto
next
  case (Suc m)
  show ?case
  proof (cases "ws_written w < n")
    case False
    then have "ws_written w = n" using Suc.prems(1) by (simp add: writing_def)
    with Suc.prems(1) show ?thesis by auto
  next
    case True
    obtain c where c: "fat12_alloc_cluster (ws_fat w) = Some c" "c \<in> free_pool (ws_fat w)"
      "c \<notin> set cs" "c \<noteq> 0"
      by (rule writing_more [OF Suc.prems(1) g room True])
    note st = writing_step [OF Suc.prems(1) g n True c(2,3)]
    have "n \<le> ws_written (write_cluster data n c w) + m"
    proof -
      have "cluster_bytes s > 0" using g by (simp add: geom_ok_def)
      then have "ws_written w < ws_written (write_cluster data n c w)"
        using Suc.prems(1) st True by (auto simp: writing_def min_def split: if_splits)
      then show ?thesis using Suc.prems(2) by simp
    qed
    from Suc.IH [OF st this] show ?thesis using c True by simp
  qed
qed

lemma writing_start:
  "writing s data n [] \<lparr>ws_fat = s, ws_first = 0, ws_prev = 0, ws_written = 0\<rparr>"
  by (auto simp: writing_def)

lemma writing_done:
  assumes "writing s data n cs w" and "ws_written w = n" and "geom_ok s"
  shows "length cs = blocks s n" and "take n (chain_data (ws_fat w) cs) = seg data 0 n"
    and "cs = [] \<longleftrightarrow> n = 0"
proof -
  have cb: "cluster_bytes s > 0" using assms(3) by (simp add: geom_ok_def)
  have le: "n \<le> length cs * cluster_bytes s" "length cs \<le> blocks s n" using assms by (auto simp: writing_def)
  with blocks_le [OF cb, of n "length cs"] show b: "length cs = blocks s n" by simp
  show "take n (chain_data (ws_fat w) cs) = seg data 0 n" using assms by (auto simp: writing_def)
  have "blocks s n = 0 \<longleftrightarrow> n = 0"
    using le b cb by (auto simp: blocks_def)
  with b show "cs = [] \<longleftrightarrow> n = 0" by (metis length_0_conv)
qed

end
