(* ===== verification/Fat12Files.thy ===== *)
theory Fat12Files
  imports Fat12Ops
begin

text \<open>
  The operations of the FAT12 driver against the map \<open>fs_map\<close>: a file read returns what the map
  says, a successful write is a map update, a delete removes the name, and all keep the volume
  consistent.
\<close>

section \<open>Fields of an entry\<close>

lemma unat_widen [simp]: "unat (ucast (b :: byte) :: 16 word) = unat b"
proof -
  have "unat b < 2 ^ 16" by (rule less_le_trans [OF unat_byte_less]) simp
  then have "take_bit 16 (unat b) = unat b" by (rule take_bit_nat_eq_self)
  then show ?thesis by (simp add: unsigned_ucast_eq)
qed

lemma read16_eq: "read16 m p = unat (m p) + 256 * unat (m (p + 1))"
proof -
  have "(ucast (m p) :: 16 word) AND push_bit 8 (ucast (m (p + 1))) = 0"
    by (rule bit_word_eqI) (auto simp: bit_and_iff bit_push_bit_iff bit_ucast_iff dest: bit_imp_le_length)
  then have "read16w m p = ucast (m p) + push_bit 8 (ucast (m (p + 1)))"
    unfolding read16w_def by (rule disjunctive_add_eq_or [symmetric])
  moreover have "unat (push_bit 8 (ucast (m (p + 1))) :: 16 word) = 256 * unat (m (p + 1))"
    using unat_byte_less [of "m (p + 1)"] by (simp add: push_bit_eq_mult unat_word_ariths)
  moreover have "unat (m p) + 256 * unat (m (p + 1)) < 65536"
    using unat_byte_less [of "m p"] unat_byte_less [of "m (p + 1)"] by linarith
  ultimately show ?thesis
    by (simp add: read16_def unat_word_ariths)
qed

lemma read16_put16: "v < 65536 \<Longrightarrow> read16 (put16 p v m) p = v"
proof -
  assume "v < 65536"
  moreover have "unat (word_of_nat v :: byte) = v mod 256" "unat (word_of_nat (v div 256) :: byte) = v div 256 mod 256"
    by (simp_all add: unat_of_nat)
  ultimately show ?thesis by (simp add: read16_eq put16_def)
qed

lemma put16_out: "a < p \<or> p + 2 \<le> a \<Longrightarrow> put16 p v m a = m a"
  by (auto simp: put16_def)

lemma put32_out: "a < p \<or> p + 4 \<le> a \<Longrightarrow> put32 p v m a = m a"
  by (auto simp: put32_def put16_out)

lemma read32_put32: "v < 2 ^ 32 \<Longrightarrow> read32 (put32 p v m) p = v"
proof -
  assume v: "v < 2 ^ 32"
  have "read16 (put32 p v m) p = read16 (put16 p (v mod 65536) m) p"
    by (rule read16_cong) (simp_all add: put32_def put16_out)
  also have "\<dots> = v mod 65536" by (rule read16_put16) simp
  finally have "read16 (put32 p v m) p = v mod 65536" .
  moreover have "read16 (put32 p v m) (p + 2) = v div 65536"
    unfolding put32_def by (rule read16_put16) (use v in auto)
  ultimately show ?thesis by (simp add: read32_def)
qed

lemma set_entry_fields:
  assumes "first < 65536" and "n < 2 ^ 31"
  shows "dir_first_cluster (set_entry i first n s) i = first"
    and "dir_size (set_entry i first n s) i = n"
    and "dir_name (set_entry i first n s) i = dir_name s i"
    and "dir_attr (set_entry i first n s) i = dir_attr s i"
    and "a < dir_pos s i \<or> dir_pos s i + 32 \<le> a \<Longrightarrow> vol (set_entry i first n s) a = vol s a"
    and "vol (set_entry i first n s) (dir_pos s i) = vol s (dir_pos s i)"
    and "same_geom s (set_entry i first n s)"
proof -
  let ?p = "dir_pos s i"
  let ?m = "put32 (?p + 28) n (put16 (?p + 26) first (vol s))"
  have v: "vol (set_entry i first n s) = ?m" and d: "dir_pos (set_entry i first n s) i = ?p"
    by (simp_all add: set_entry_def Let_def)
  have "read16 ?m (?p + 26) = read16 (put16 (?p + 26) first (vol s)) (?p + 26)"
    by (rule read16_cong) (simp_all add: put32_out)
  then show "dir_first_cluster (set_entry i first n s) i = first"
    using assms by (simp add: dir_first_cluster_def v d read16_put16)
  show "dir_size (set_entry i first n s) i = n"
    using assms by (simp add: dir_size_def v d read32_put32)
  show "dir_name (set_entry i first n s) i = dir_name s i"
    unfolding dir_name_def v d by (rule seg_cong) (simp add: put32_out put16_out)
  show "dir_attr (set_entry i first n s) i = dir_attr s i"
    by (simp add: dir_attr_def v d put32_out put16_out)
  show "a < ?p \<or> ?p + 32 \<le> a \<Longrightarrow> vol (set_entry i first n s) a = vol s a"
    unfolding v by (auto simp: put32_out put16_out)
  show "vol (set_entry i first n s) ?p = vol s ?p"
    unfolding v by (subst put32_out; simp add: put16_out)
  show "same_geom s (set_entry i first n s)" by (auto simp: set_entry_def Let_def)
qed

lemma new_entry_fields:
  assumes "length n83 = 11"
  shows "dir_name (new_entry i n83 s) i = n83" and "dir_attr (new_entry i n83 s) i = 0x20"
    and "a < dir_pos s i \<or> dir_pos s i + 32 \<le> a \<Longrightarrow> vol (new_entry i n83 s) a = vol s a"
    and "vol (new_entry i n83 s) (dir_pos s i) = n83 ! 0"
    and "same_geom s (new_entry i n83 s)"
  using assms
  by (auto simp: new_entry_def Let_def dir_name_def dir_attr_def list_eq_iff_nth_eq)

lemma find_free_slot_Some:
  "find_free_slot s i n = Some j \<Longrightarrow> i \<le> j \<and> j < i + n \<and>
     (vol s (dir_pos s j) = 0 \<or> vol s (dir_pos s j) = 0xE5) \<and>
     (\<forall>k. i \<le> k \<and> k < j \<longrightarrow> vol s (dir_pos s k) \<noteq> 0 \<and> vol s (dir_pos s k) \<noteq> 0xE5)"
proof (induction n arbitrary: i)
  case 0
  then show ?case by simp
next
  case (Suc n)
  show ?case
  proof (cases "vol s (dir_pos s i) = 0 \<or> vol s (dir_pos s i) = 0xE5")
    case True
    then have "j = i" using Suc.prems by simp
    then show ?thesis using True by auto
  next
    case False
    then have "find_free_slot s (Suc i) n = Some j" using Suc.prems by simp
    note IH = Suc.IH [OF this]
    moreover have "vol s (dir_pos s k) \<noteq> 0 \<and> vol s (dir_pos s k) \<noteq> 0xE5" if "i \<le> k" "k < j" for k
      using IH False that by (cases "k = i") auto
    ultimately show ?thesis by auto
  qed
qed

lemma find_free_slot_None:
  "find_free_slot s i n = None \<Longrightarrow> i \<le> j \<Longrightarrow> j < i + n \<Longrightarrow>
     vol s (dir_pos s j) \<noteq> 0 \<and> vol s (dir_pos s j) \<noteq> 0xE5"
proof (induction n arbitrary: i)
  case (Suc n)
  then show ?case by (cases "j = i") (auto split: if_splits)
qed simp

section \<open>Names\<close>

lemma length_put_upper [simp]: "length (put_upper out p cs) = length out"
  by (induction out p cs rule: put_upper.induct) simp_all

lemma length_name_to_83 [simp]: "length (name_to_83 name) = 11"
  by (simp add: name_to_83_def Let_def split: option.split)

lemma put_upper_nth:
  "p + length cs \<le> length out \<Longrightarrow> i < length out \<Longrightarrow>
     put_upper out p cs ! i = (if p \<le> i \<and> i < p + length cs then to_upper (cs ! (i - p)) else out ! i)"
proof (induction cs arbitrary: out p)
  case (Cons c cs)
  then have "put_upper out p (c # cs) ! i =
      (if Suc p \<le> i \<and> i < Suc p + length cs then to_upper (cs ! (i - Suc p)) else out[p := to_upper c] ! i)"
    by simp
  then show ?case using Cons.prems by (cases "i = p") (auto simp: nth_Cons')
qed auto

text \<open>A C string has no NUL inside; a name whose first byte is the deleted mark is not storable.\<close>

definition name_ok :: "byte list \<Rightarrow> bool" where
  "name_ok name \<longleftrightarrow> 0 \<notin> set name \<and> (name = [] \<or> hd name \<noteq> 0xE5)"

lemma to_upper_cases: "c \<noteq> 0 \<Longrightarrow> c \<noteq> 0xE5 \<Longrightarrow> to_upper c \<noteq> 0 \<and> to_upper c \<noteq> 0xE5"
  unfolding to_upper_def
  by (auto simp: word_le_nat_alt word_unat_eq_iff unat_sub_if_size word_size) 

lemma name_first_byte:
  assumes "name_ok name"
  shows "name_to_83 name ! 0 \<noteq> 0" "name_to_83 name ! 0 \<noteq> 0xE5"
proof -
  obtain k where k: "name_to_83 name ! 0 = put_upper (replicate 11 SPACE) 0 (take k name) ! 0" "k \<le> 8"
  proof (cases "find_dot name 0")
    case None
    then show ?thesis by (intro that [of "min 8 (length name)"]) (auto simp: name_to_83_def Let_def min_def)
  next
    case (Some d)
    let ?o = "put_upper (replicate 11 SPACE) 0 (take (min 8 d) name)"
    have "put_upper ?o 8 (take 3 (drop (d + 1) name)) ! 0 = ?o ! 0"
      by (subst put_upper_nth) auto
    with Some show ?thesis by (intro that [of "min 8 d"]) (auto simp: name_to_83_def Let_def min_def)
  qed
  have "put_upper (replicate 11 SPACE) 0 (take k name) ! 0 =
      (if take k name = [] then SPACE else to_upper (hd (take k name)))"
    using k(2) by (subst put_upper_nth) (auto simp: hd_conv_nth)
  moreover have "take k name \<noteq> [] \<Longrightarrow> hd (take k name) \<noteq> 0 \<and> hd (take k name) \<noteq> 0xE5"
    using assms by (cases name; cases k) (auto simp: name_ok_def)
  ultimately show "name_to_83 name ! 0 \<noteq> 0" "name_to_83 name ! 0 \<noteq> 0xE5"
    using to_upper_cases [of "hd (take k name)"] k(1) by (auto simp: SPACE_def)
qed

section \<open>Reading a file\<close>

lemma read_file_correct:
  assumes ok: "fs_ok s"
  shows "fs_map s (name_to_83 name) = None \<Longrightarrow> fat12_read_file s name n buf = Some (- 1, buf)"
    and "fs_map s (name_to_83 name) = Some d \<Longrightarrow>
       \<exists>buf'. fat12_read_file s name n buf = Some (int (min (length d) n), buf') \<and>
              seg buf' 0 (min (length d) n) = take n d \<and> (\<forall>i \<ge> min (length d) n. buf' i = buf i)"
proof -
  show "fs_map s (name_to_83 name) = None \<Longrightarrow> fat12_read_file s name n buf = Some (- 1, buf)"
    by (auto simp: fs_map_def fat12_read_file_def)
  assume "fs_map s (name_to_83 name) = Some d"
  then obtain i where i: "lookup s (name_to_83 name) = Some i" "d = file_data s i"
    by (auto simp: fs_map_def)
  have f: "is_file s i" using lookup_SomeD [OF i(1)] by simp
  have g: "geom_ok s" and e: "entry_ok s i" using ok f by (auto simp: fs_ok_def is_file_def)
  have len: "length d = dir_size s i" using length_file_data [OF ok f] i(2) by simp
  have c: "chain (fat12_read_fat s) (fat_limit s) (dir_first_cluster s i) (entry_chain s i)"
    and l: "length (entry_chain s i) = blocks s (dir_size s i)" and sz: "dir_size s i < 2 ^ 31"
    using e f by (auto simp: entry_ok_def)
  define r where "r = min (dir_size s i) n"
  have cov: "dir_size s i \<le> length (entry_chain s i) * cluster_bytes s"
    using blocks_covers [of s "dir_size s i"] g l by (simp add: geom_ok_def)
  have sub: "set (entry_chain s i) \<subseteq> {2..<cluster_count s + 2}"
    using chain_member [OF g c] by auto
  have fuel: "length (entry_chain s i) \<le> cluster_count s"
    using chain_length [OF c] geom_limit [OF g] by linarith
  have r1: "r \<le> 0 + length (entry_chain s i) * cluster_bytes s" "r < 2 ^ 31"
    using cov sz by (auto simp: r_def)
  obtain buf' where b: "read_chain s (cluster_count s) r 0 (dir_first_cluster s i) buf = (r, buf')"
    "seg buf' 0 (r - 0) = take (r - 0) (chain_data s (entry_chain s i))"
    "\<forall>i. i < 0 \<or> r \<le> i \<longrightarrow> buf' i = buf i"
    using read_chain_correct [OF g _ sub le0 r1 fuel] c unfolding chain_def by blast
  have "sint (word_of_nat r :: i32) = int r"
    using r1(2) by (simp add: signed_of_nat signed_take_bit_int_eq_self)
  moreover have "(if dir_size s i < n then dir_size s i else n) = r" by (simp add: r_def min_def)
  ultimately have "fat12_read_file s name n buf = Some (int r, buf')"
    using i(1) b(1) by (simp add: fat12_read_file_def Let_def max_clusters_eq [OF g])
  moreover have "take r (chain_data s (entry_chain s i)) = take n d"
    by (simp add: i(2) file_data_def r_def min.commute)
  ultimately show "\<exists>buf'. fat12_read_file s name n buf = Some (int (min (length d) n), buf') \<and>
              seg buf' 0 (min (length d) n) = take n d \<and> (\<forall>i \<ge> min (length d) n. buf' i = buf i)"
    using b len by (auto simp: r_def)
qed

section \<open>Installing written clusters\<close>

text \<open>The clusters a write of file \<open>n83\<close> can use: the free ones and those of the old file.\<close>

definition old_chain :: "fat \<Rightarrow> byte list \<Rightarrow> nat list" where
  "old_chain s n83 = (case lookup s n83 of Some i \<Rightarrow> entry_chain s i | None \<Rightarrow> [])"

definition usable :: "fat \<Rightarrow> byte list \<Rightarrow> nat set" where
  "usable s n83 = free_pool s \<union> set (old_chain s n83)"

lemma freed_old_chain:
  fixes n83 :: "byte list"
  assumes ok: "fs_ok s"
  defines "s1 \<equiv> free_clusters (old_chain s n83) s"
  shows "same_geom s s1" "boot_same s s1" "\<And>a. root_dir_offset s \<le> a \<Longrightarrow> vol s1 a = vol s a"
    and "free_pool s1 = usable s n83"
    and "\<And>k x. entry_used s k \<Longrightarrow> lookup s n83 \<noteq> Some k \<Longrightarrow> x \<in> set (entry_chain s k) \<Longrightarrow>
           fat12_read_fat s1 x = fat12_read_fat s x"
proof -
  have g: "geom_ok s" using ok by (simp add: fs_ok_def)
  have ch: "x < fat_limit s \<and> 2 \<le> x \<and> x < 65536 \<and> fat12_read_fat s x \<noteq> 0"
    if "entry_used s k" "x \<in> set (entry_chain s k)" for k x
    using ok that chain_member [OF g] by (fastforce simp: fs_ok_def entry_ok_def)
  have old: "lookup s n83 = Some i \<Longrightarrow> entry_used s i" for i
    using lookup_SomeD [of s n83 i] by (simp add: is_file_def)
  have oc: "x < fat_limit s \<and> 2 \<le> x" if "x \<in> set (old_chain s n83)" for x
    using that ch [OF old] by (cases "lookup s n83") (auto simp: old_chain_def)
  then have sub: "set (old_chain s n83) \<subseteq> {..<fat_limit s}" by auto
  note f = free_clusters_frame [OF g sub, folded s1_def]
  show "same_geom s s1" "boot_same s s1" "\<And>a. root_dir_offset s \<le> a \<Longrightarrow> vol s1 a = vol s a" using f by auto
  have "c \<in> free_pool s1 \<longleftrightarrow> c \<in> usable s n83" for c
  proof (cases "2 \<le> c \<and> c < fat_limit s")
    case True
    then show ?thesis
      using f(4) [of c] geom_limit [OF g] same_geom_eqs [OF f(1)] by (auto simp: free_pool_def usable_def)
  next
    case False
    then have "c \<notin> set (old_chain s n83)" using oc by blast
    with False show ?thesis using same_geom_eqs [OF f(1)] by (auto simp: free_pool_def usable_def)
  qed
  then show "free_pool s1 = usable s n83" by blast
  show "fat12_read_fat s1 x = fat12_read_fat s x"
    if k: "entry_used s k" "lookup s n83 \<noteq> Some k" "x \<in> set (entry_chain s k)" for k x
  proof -
    have "x \<notin> set (old_chain s n83)"
    proof (cases "lookup s n83")
      case (Some i)
      then have "set (entry_chain s i) \<inter> set (entry_chain s k) = {}"
        using ok old [OF Some] k by (auto simp: fs_ok_def chains_apart_def)
      with Some k show ?thesis by (auto simp: old_chain_def)
    qed (simp add: old_chain_def)
    then show ?thesis using f(4) [of x] ch [OF k(1,3)] by simp
  qed
qed

text \<open>
  From the freed volume \<open>s1\<close> with the data written to the clusters \<open>cs\<close>, an entry \<open>i0\<close> filled in
  gives the updated file system.
\<close>

lemma install_entry:
  assumes ok: "fs_ok s"
    and s1: "s1 = free_clusters (old_chain s n83) s"
    and w: "writing s1 data n cs w" and wd: "ws_written w = n" and n: "n < 2 ^ 31"
    and t: "same_geom (ws_fat w) t"
    and out: "\<And>a. a < dir_pos s i0 \<or> dir_pos s i0 + 32 \<le> a \<Longrightarrow> vol t a = vol (ws_fat w) a"
    and i0: "i0 < root_entry_count s" and before: "\<forall>k < i0. vol s (dir_pos s k) \<noteq> 0"
    and slot: "lookup s n83 = Some i0 \<or> lookup s n83 = None \<and> \<not> entry_used s i0"
    and fields: "vol t (dir_pos s i0) \<noteq> 0" "vol t (dir_pos s i0) \<noteq> 0xE5" "dir_name t i0 = n83"
      "dir_attr t i0 AND 0x08 = 0" "dir_attr t i0 AND 0x10 = 0" "dir_size t i0 = n"
      "dir_first_cluster t i0 = (if n = 0 then 0 else ws_first w)"
  shows "fs_ok t" and "fs_map t = (fs_map s)(n83 \<mapsto> seg data 0 n)"
    and "same_geom s t" and "boot_same s t"
proof -
  have g: "geom_ok s" using ok by (simp add: fs_ok_def)
  note fo = freed_old_chain [OF ok, where ?n83.0 = n83, folded s1]
  note q1 = same_geom_eqs [OF fo(1)]
  have g1: "geom_ok s1" using g by (simp add: q1)
  have gw: "same_geom s (ws_fat w)" using fo(1) w same_geom_trans unfolding writing_def by blast
  note qw = same_geom_eqs [OF gw]
  have gt: "same_geom s t" using gw t by (rule same_geom_trans)
  note qt = same_geom_eqs [OF gt]
  show "same_geom s t" by (rule gt)
  have dp: "root_dir_offset s \<le> dir_pos s i0" "dir_pos s i0 + 32 \<le> data_start_offset s"
    using dir_pos_range [OF g i0] by auto
  have "fat_offset s \<le> root_dir_offset s" using g by (simp add: geom_ok_def)
  then have "boot_same (ws_fat w) t" using out dp by (auto simp: agree_def qw)
  moreover have "boot_same s (ws_fat w)"
    using fo(2) w unfolding writing_def by (auto simp: q1 intro: agree_trans)
  ultimately show "boot_same s t" by (auto simp: qw intro: agree_trans)
  note wdone = writing_done [OF w wd g1]
  have ufree: "x \<in> usable s n83" if "x \<in> set cs" for x
    using that w fo(4) by (auto simp: writing_def)
  have root_t: "vol t a = vol s a"
    if "root_dir_offset s \<le> a" "a < data_start_offset s" "a < dir_pos s i0 \<or> dir_pos s i0 + 32 \<le> a" for a
    using out [OF that(3)] fo(3) [OF that(1)] w that by (simp add: writing_def agree_def q1)
  have others: "vol t a = vol s a"
    if "k < root_entry_count s" "k \<noteq> i0" "dir_pos s k \<le> a" "a < dir_pos s k + 32" for k a
    using that dir_pos_range [OF g that(1)] by (intro root_t) (auto simp: dir_pos_def)
  have get_t: "fat12_read_fat t x = fat12_read_fat (ws_fat w) x" if "x < fat_limit s" for x
    by (rule read_fat_above [OF t]) (use that g dp out in \<open>auto simp: qw\<close>)
  have data_t: "cluster_data t x = cluster_data (ws_fat w) x" if "2 \<le> x" "x < cluster_count s + 2" for x
    by (rule cluster_data_cong [OF t]) (use that g dp out in \<open>auto simp: qw\<close>)
  have other_chain: "x \<notin> usable s n83" "x \<notin> set cs" "2 \<le> x" "x < fat_limit s" "x < cluster_count s + 2"
    if k: "entry_used s k" "k \<noteq> i0" "x \<in> set (entry_chain s k)" for k x
  proof -
    have lk: "lookup s n83 \<noteq> Some k" using slot k by auto
    have "chain (fat12_read_fat s) (fat_limit s) (dir_first_cluster s k) (entry_chain s k)"
      using ok k(1) by (simp add: fs_ok_def entry_ok_def)
    note x = chain_member [OF g this k(3)]
    show "2 \<le> x" "x < fat_limit s" "x < cluster_count s + 2" by (rule x)+
    have "fat12_read_fat s1 x \<noteq> 0" using fo(5) [OF k(1) lk k(3)] x(5) by simp
    then have "x \<notin> free_pool s1" by (simp add: free_pool_def)
    then show "x \<notin> usable s n83" using fo(4) by simp
    then show "x \<notin> set cs" using ufree by blast
  qed
  have chains: "fat12_read_fat t x = fat12_read_fat s x \<and> cluster_data t x = cluster_data s x"
    if k: "entry_used s k" "k \<noteq> i0" "x \<in> set (entry_chain s k)" for k x
  proof -
    note o = other_chain [OF k]
    have lk: "lookup s n83 \<noteq> Some k" using slot k by auto
    have "fat12_read_fat t x = fat12_read_fat s1 x"
      using get_t [OF o(4)] w o by (simp add: writing_def q1)
    moreover have "cluster_data t x = cluster_data s1 x"
      using data_t [OF o(3,5)] w o by (simp add: writing_def q1)
    moreover have "cluster_data s1 x = cluster_data s x"
      using dp by (intro cluster_data_cong [OF fo(1) _ g o(3,5)] fo(3)) simp
    ultimately show ?thesis using fo(5) [OF k(1) lk k(3)] by simp
  qed
  have used: "entry_used t i0" and isf: "is_file t i0"
  proof -
    have "vol t (dir_pos s k) \<noteq> 0" if "k < i0" for k
    proof -
      have "vol t (dir_pos s k) = vol s (dir_pos s k)"
        using that i0 by (intro others [of k "dir_pos s k"]) auto
      then show ?thesis using before that by simp
    qed
    then show "entry_used t i0" using fields i0 by (simp add: entry_used_def qt)
    then show "is_file t i0" using fields by (simp add: is_file_def)
  qed
  have csb: "2 \<le> x" "x < fat_limit s" "x < cluster_count s + 2" if "x \<in> set cs" for x
    using that w geom_limit [OF g] by (auto simp: writing_def free_pool_def q1)
  have ch: "chain (fat12_read_fat t) (fat_limit s) (dir_first_cluster t i0) cs"
  proof (cases "n = 0")
    case True
    then show ?thesis using wdone(3) fields(7) by (simp add: chain_def data_link_def)
  next
    case False
    then have "chain (fat12_read_fat (ws_fat w)) (fat_limit s) (ws_first w) cs"
      using w wdone(3) by (simp add: writing_def q1)
    then show ?thesis
      using False fields(7) get_t csb by (subst chain_cong [of _ _ "fat12_read_fat (ws_fat w)"]) auto
  qed
  then have ec: "entry_chain t i0 = cs"
    using geom_limit [OF g] by (intro entry_chain_eq) auto
  have own: "entry_ok t i0"
    using ch wdone(1) fields(6) n by (simp add: entry_ok_def ec qt blocks_def q1)
  have apart: "set (entry_chain t i0) \<inter> set (entry_chain s k) = {}" if "entry_used s k" "k \<noteq> i0" for k
    using other_chain(2) [OF that] by (auto simp: ec)
  have nu: "names_unique s" using ok by (simp add: fs_ok_def)
  have names: "dir_name s k \<noteq> dir_name t i0" if "is_file s k" "k \<noteq> i0" for k
    using that slot lookup_iff [OF nu, of n83] lookup_NoneD [of s n83 k] fields(3)
    by (metis option.inject)
  note st = fs_step [OF ok gt i0 before fields(1) others chains]
  show okt: "fs_ok t" by (rule st(1)) (use own apart names in auto)
  have s2: "k \<noteq> i0 \<Longrightarrow> is_file t k = is_file s k" for k by (rule st(2)) (use own apart names in auto)
  have s3: "k \<noteq> i0 \<Longrightarrow> is_file s k \<Longrightarrow> dir_name t k = dir_name s k \<and> file_data t k = file_data s k" for k
    by (rule st(3)) (use own apart names in auto)
  have "map (cluster_data t) cs = map (cluster_data (ws_fat w)) cs" using data_t csb by simp
  then have "chain_data t cs = chain_data (ws_fat w) cs" unfolding chain_data_def by (rule arg_cong)
  then have fd: "file_data t i0 = seg data 0 n" using wdone(2) by (simp add: file_data_def ec fields(6))
  have i0s: "is_file s i0 \<Longrightarrow> dir_name s i0 = n83"
    using slot lookup_SomeD [of s n83 i0] by (auto simp: is_file_def)
  have "fs_map t m = Some d \<longleftrightarrow> ((fs_map s)(n83 \<mapsto> seg data 0 n)) m = Some d" for m d
  proof (cases "m = n83")
    case True
    have "is_file t k \<and> dir_name t k = n83 \<longleftrightarrow> k = i0" for k
      using isf fields(3) okt by (auto simp: fs_ok_def names_unique_def)
    then have "is_file t k \<and> dir_name t k = n83 \<and> d = file_data t k \<longleftrightarrow> k = i0 \<and> d = seg data 0 n" for k
      using fd by metis
    then show ?thesis using True by (simp add: fs_map_Some_iff [OF okt]) metis
  next
    case False
    have "is_file t k \<and> dir_name t k = m \<and> d = file_data t k \<longleftrightarrow>
          is_file s k \<and> dir_name s k = m \<and> d = file_data s k" for k
      using False fields(3) i0s s2 [of k] s3 [of k] by (cases "k = i0") auto
    then show ?thesis using False by (auto simp: fs_map_Some_iff [OF okt] fs_map_Some_iff [OF ok])
  qed
  then show "fs_map t = (fs_map s)(n83 \<mapsto> seg data 0 n)"
    by (intro ext) (metis option.exhaust)
qed

section \<open>Writing a file\<close>

definition dir_room :: "fat \<Rightarrow> bool" where
  "dir_room s \<longleftrightarrow> (\<exists>i < root_entry_count s. vol s (dir_pos s i) = 0 \<or> vol s (dir_pos s i) = 0xE5)"

lemma write_file_correct:
  assumes ok: "fs_ok s" and nm: "name_ok name" and n: "n < 2 ^ 31"
    and room: "blocks s n \<le> card (usable s (name_to_83 name))"
    and slot: "fs_map s (name_to_83 name) \<noteq> None \<or> dir_room s"
  shows "\<exists>t. fat12_write_file name data n s = Some (0, t) \<and> fs_ok t \<and>
             fs_map t = (fs_map s)(name_to_83 name \<mapsto> seg data 0 n) \<and> same_geom s t \<and> boot_same s t"
proof -
  define n83 where "n83 = name_to_83 name"
  define s1 where "s1 = free_clusters (old_chain s n83) s"
  have g: "geom_ok s" using ok by (simp add: fs_ok_def)
  note fo = freed_old_chain [OF ok, where ?n83.0 = n83, folded s1_def]
  note q1 = same_geom_eqs [OF fo(1)]
  have g1: "geom_ok s1" using g by (simp add: q1)
  have freed: "(case lookup s n83 of
                  Some i \<Rightarrow> (if dir_first_cluster s i \<ge> 2 then fat12_free_chain (dir_first_cluster s i) s
                             else Some s)
                | None \<Rightarrow> Some s) = Some s1"
    using freed_chain [OF ok] lookup_SomeD [of s n83]
    by (auto simp: s1_def old_chain_def free_clusters_def is_file_def split: option.split)
  have "blocks s1 n \<le> card (free_pool s1)"
    using room fo(4) by (simp add: n83_def blocks_def q1)
  from write_loop_correct [OF g1 n this writing_start [of s1 data n], of n]
  obtain w cs where w: "write_loop n data n \<lparr>ws_fat = s1, ws_first = 0, ws_prev = 0, ws_written = 0\<rparr> = Some (True, w)"
    "writing s1 data n cs w" "ws_written w = n" by auto
  have gw: "same_geom s (ws_fat w)" using fo(1) w(2) same_geom_trans unfolding writing_def by blast
  note qw = same_geom_eqs [OF gw]
  have first: "(if n = 0 then 0 else ws_first w) < 65536"
  proof (cases "n = 0")
    case False
    then have "cs \<noteq> []" using writing_done(3) [OF w(2,3) g1] by simp
    then have "ws_first w = hd cs" "hd cs \<in> free_pool s1" using w(2) by (auto simp: writing_def)
    then have "ws_first w < fat_limit s" by (simp add: free_pool_def q1)
    with geom_limit [OF g] show ?thesis by simp
  qed simp
  let ?first = "if n = 0 then 0 else ws_first w"
  have root: "vol (ws_fat w) a = vol s a" if "root_dir_offset s \<le> a" "a < data_start_offset s" for a
    using w(2) fo(3) [OF that(1)] that by (simp add: writing_def agree_def q1)
  have entry: "vol (ws_fat w) (dir_pos s i) = vol s (dir_pos s i)"
    "dir_name (ws_fat w) i = dir_name s i" "dir_attr (ws_fat w) i = dir_attr s i"
    if "i < root_entry_count s" for i
    using entry_same [OF gw g _ that] root by (simp_all add: agree_def qw)
  show ?thesis
  proof (cases "lookup s n83")
    case (Some i)
    define t where "t = set_entry i ?first n (ws_fat w)"
    note se = set_entry_fields [OF first n, where i = i and s = "ws_fat w", folded t_def]
    have i: "is_file s i" "dir_name s i = n83" using lookup_SomeD [OF Some] by auto
    then have r: "i < root_entry_count s" by (simp add: is_file_def entry_used_def)
    have e: "vol t (dir_pos s i) = vol s (dir_pos s i)" using se(6) entry(1) [OF r] by (simp add: qw)
    have res: "fat12_write_file name data n s = Some (0, t)"
      unfolding fat12_write_file_def Let_def n83_def [symmetric] freed
      using w(1) Some by (simp add: t_def)
    have h: "\<forall>k < i. vol s (dir_pos s k) \<noteq> 0" "vol t (dir_pos s i) \<noteq> 0" "vol t (dir_pos s i) \<noteq> 0xE5"
      "dir_attr s i AND 0x08 = 0" "dir_attr s i AND 0x10 = 0"
      using i by (simp_all add: e is_file_def entry_used_def)
    have inst: "fs_ok t" "fs_map t = (fs_map s)(n83 \<mapsto> seg data 0 n)" "same_geom s t" "boot_same s t"
      by (rule install_entry [OF ok s1_def w(2,3) n se(7), where ?i0.0 = i];
          simp add: h se r i entry qw Some)+
    with res show ?thesis unfolding n83_def by blast
  next
    case None
    then have dr: "dir_room s" using slot by (simp add: fs_map_def n83_def)
    have room_w: "\<exists>i < root_entry_count s. vol (ws_fat w) (dir_pos s i) = 0 \<or> vol (ws_fat w) (dir_pos s i) = 0xE5"
      using dr entry(1) by (auto simp: dir_room_def)
    then obtain i where fs: "find_free_slot (ws_fat w) 0 (root_entry_count (ws_fat w)) = Some i"
      using find_free_slot_None [of "ws_fat w" 0 "root_entry_count s"]
      by (cases "find_free_slot (ws_fat w) 0 (root_entry_count (ws_fat w))") (auto simp: qw)
    note fr = find_free_slot_Some [OF fs]
    have r: "i < root_entry_count s" using fr by (simp add: qw)
    define u where "u = new_entry i n83 (ws_fat w)"
    define t where "t = set_entry i ?first n u"
    have ln: "length n83 = 11" by (simp add: n83_def)
    note ne = new_entry_fields [OF ln, where i = i and s = "ws_fat w", folded u_def]
    note qu = same_geom_eqs [OF ne(5)]
    note se = set_entry_fields [OF first n, where i = i and s = u, folded t_def]
    have gwt: "same_geom (ws_fat w) t" using ne(5) se(7) by (rule same_geom_trans)
    have e: "vol t (dir_pos s i) = n83 ! 0" using se(6) ne(4) by (simp add: qu qw)
    have res: "fat12_write_file name data n s = Some (0, t)"
      unfolding fat12_write_file_def Let_def n83_def [symmetric] freed
      using w(1) None fs by (simp add: t_def u_def)
    have slot0: "vol s (dir_pos s i) = 0 \<or> vol s (dir_pos s i) = 0xE5"
      using fr entry(1) [OF r] by (simp add: qw)
    have h: "\<forall>k < i. vol s (dir_pos s k) \<noteq> 0" "lookup s n83 = None \<and> \<not> entry_used s i"
      using fr entry(1) r None slot0 by (auto simp: qw entry_used_def)
    have h2: "vol t (dir_pos s i) \<noteq> 0" "vol t (dir_pos s i) \<noteq> 0xE5"
      using name_first_byte [OF nm] by (simp_all add: e n83_def)
    have h3: "vol t a = vol (ws_fat w) a" if "a < dir_pos s i \<or> dir_pos s i + 32 \<le> a" for a
      using that se(5) [of a] ne(3) [of a] by (simp add: qu qw)
    have inst: "fs_ok t" "fs_map t = (fs_map s)(n83 \<mapsto> seg data 0 n)" "same_geom s t" "boot_same s t"
      by (rule install_entry [OF ok s1_def w(2,3) n gwt, where ?i0.0 = i];
          simp add: h h2 h3 se r ne)+
    with res show ?thesis unfolding n83_def by blast
  qed
qed

section \<open>Deleting a file\<close>

lemma delete_file_correct:
  assumes ok: "fs_ok s"
  shows "fs_map s (name_to_83 name) = None \<Longrightarrow> fat12_delete_file name s = Some (- 1, s)"
    and "fs_map s (name_to_83 name) \<noteq> None \<Longrightarrow>
       \<exists>t. fat12_delete_file name s = Some (0, t) \<and> fs_ok t \<and>
           fs_map t = (fs_map s)(name_to_83 name := None) \<and> same_geom s t \<and> boot_same s t"
proof -
  let ?n = "name_to_83 name"
  show "fs_map s ?n = None \<Longrightarrow> fat12_delete_file name s = Some (- 1, s)"
    by (simp add: fs_map_def fat12_delete_file_def)
  assume "fs_map s ?n \<noteq> None"
  then obtain i where l: "lookup s ?n = Some i" by (auto simp: fs_map_def)
  then have i: "is_file s i" "dir_name s i = ?n" using lookup_SomeD by auto
  have u: "entry_used s i" using i by (simp add: is_file_def)
  let ?u = "free_clusters (entry_chain s i) s"
  let ?t = "?u\<lparr>vol := (vol ?u)(dir_pos ?u i := 0xE5)\<rparr>"
  note d = delete_step [OF ok i(1)]
  have "chain (fat12_read_fat s) (fat_limit s) (dir_first_cluster s i) (entry_chain s i)" "geom_ok s"
    using ok u by (auto simp: fs_ok_def entry_ok_def)
  then have "same_geom s ?u" by (intro free_clusters_frame) (auto simp: chain_def)
  then have "dir_pos ?u i = dir_pos s i" by (rule same_geom_eqs)
  then have res: "fat12_delete_file name s = Some (0, ?t)"
    unfolding fat12_delete_file_def l option.case freed_chain [OF ok u] by simp
  have nu: "k = i" if "is_file s k" "dir_name s k = ?n" for k
    using ok that i by (auto simp: fs_ok_def names_unique_def)
  have "fs_map ?t m = Some x \<longleftrightarrow> ((fs_map s)(?n := None)) m = Some x" for m x
  proof -
    have "is_file ?t k \<and> dir_name ?t k = m \<and> x = file_data ?t k \<longleftrightarrow>
          is_file s k \<and> dir_name s k = m \<and> m \<noteq> ?n \<and> x = file_data s k" for k
    proof (cases "k = i")
      case True
      then show ?thesis using d(2) i(2) by auto
    next
      case False
      then show ?thesis using d(5,6) [OF False] nu [of k] by auto
    qed
    then show ?thesis by (auto simp: fs_map_Some_iff [OF d(1)] fs_map_Some_iff [OF ok])
  qed
  then have "fs_map ?t = (fs_map s)(?n := None)" by (intro ext) (metis option.exhaust)
  with res d(1,3,4) show "\<exists>t. fat12_delete_file name s = Some (0, t) \<and> fs_ok t \<and>
      fs_map t = (fs_map s)(?n := None) \<and> same_geom s t \<and> boot_same s t" by blast
qed

end
