(* ===== verification/DiskFs.thy ===== *)
theory DiskFs
  imports Fat12Files
begin

text \<open>
  The two volumes of the system: the RAM disk that \<open>kernel/fs/ramdisk.c\<close> formats and fills at boot,
  and the disk-backed volume of \<open>kernel/fs/diskfs.c\<close>. The sector transfers of the ATA driver are the
  arguments \<open>ata_read\<close> and \<open>ata_write\<close>, functions of the device state; \<open>disk_ok\<close> states what a
  working disk does with them.
\<close>

section \<open>The RAM disk\<close>

definition SECTOR_SIZE :: nat where "SECTOR_SIZE = 512"
definition RAMDISK_SIZE :: nat where "RAMDISK_SIZE = 256 * 1024"
definition TOTAL_SECTORS :: nat where "TOTAL_SECTORS = RAMDISK_SIZE div SECTOR_SIZE"
definition RESERVED_SECTORS :: nat where "RESERVED_SECTORS = 1"
definition NUM_FATS :: nat where "NUM_FATS = 1"
definition SECTORS_PER_FAT :: nat where "SECTORS_PER_FAT = 2"
definition ROOT_DIR_ENTRIES :: nat where "ROOT_DIR_ENTRIES = 32"
definition SECTORS_PER_CLUSTER :: nat where "SECTORS_PER_CLUSTER = 1"

definition FAT_OFFSET :: nat where "FAT_OFFSET = RESERVED_SECTORS * SECTOR_SIZE"
definition ROOTDIR_OFFSET :: nat where
  "ROOTDIR_OFFSET = (RESERVED_SECTORS + NUM_FATS * SECTORS_PER_FAT) * SECTOR_SIZE"
definition DATA_OFFSET :: nat where
  "DATA_OFFSET = ROOTDIR_OFFSET + (ROOT_DIR_ENTRIES * 32 + SECTOR_SIZE - 1) div SECTOR_SIZE * SECTOR_SIZE"

lemmas ramdisk_consts = SECTOR_SIZE_def RAMDISK_SIZE_def TOTAL_SECTORS_def RESERVED_SECTORS_def
  NUM_FATS_def SECTORS_PER_FAT_def ROOT_DIR_ENTRIES_def SECTORS_PER_CLUSTER_def FAT_OFFSET_def
  ROOTDIR_OFFSET_def DATA_OFFSET_def

record ramdisk =
  rd_mem :: mem
  next_free_cluster :: nat
  next_dirent :: nat

definition write16 :: "nat \<Rightarrow> nat \<Rightarrow> mem \<Rightarrow> mem" where
  "write16 p val m = m(p := word_of_nat val, p + 1 := word_of_nat (val div 256))"

definition write32 :: "nat \<Rightarrow> nat \<Rightarrow> mem \<Rightarrow> mem" where
  "write32 p val m = m(p := word_of_nat val, p + 1 := word_of_nat (val div 256),
     p + 2 := word_of_nat (val div 65536), p + 3 := word_of_nat (val div 16777216))"

definition fat12_set_fat :: "nat \<Rightarrow> nat \<Rightarrow> mem \<Rightarrow> mem" where
  "fat12_set_fat cluster value m =
     (let p = FAT_OFFSET + cluster + cluster div 2; v = word_of_nat value :: 16 word in
      if odd cluster
      then m(p := (m p AND 0x0F) OR push_bit 4 (ucast (v AND 0x0F)),
             p + 1 := ucast (drop_bit 4 v AND 0xFF))
      else m(p := ucast (v AND 0xFF),
             p + 1 := (m (p + 1) AND 0xF0) OR ucast (drop_bit 8 v AND 0x0F)))"

text \<open>
  The cluster loop of \<open>add_file\<close>: the flag is false when the volume filled up; \<open>n\<close> bounds the
  iterations, one per started cluster.
\<close>

fun add_clusters :: "nat \<Rightarrow> byte list \<Rightarrow> nat \<Rightarrow> nat \<Rightarrow> ramdisk \<Rightarrow> bool \<times> ramdisk" where
  "add_clusters 0 data bytes_left data_written r = (True, r)"
| "add_clusters (Suc n) data bytes_left data_written r =
     (if bytes_left > 0 then
        (let cluster_size = SECTORS_PER_CLUSTER * SECTOR_SIZE;
             max_data_clusters = u16 ((TOTAL_SECTORS * SECTOR_SIZE - DATA_OFFSET) div cluster_size)
         in if next_free_cluster r - 2 \<ge> max_data_clusters then (False, r)
            else
              (let cur = next_free_cluster r;
                   nfc = u16 (cur + 1);
                   offset = DATA_OFFSET + (cur - 2) * cluster_size;
                   chunk = (if bytes_left < cluster_size then bytes_left else cluster_size);
                   m = blit (rd_mem r) offset (\<lambda>i. data ! i) data_written chunk;
                   m = (if bytes_left - chunk > 0 then fat12_set_fat cur nfc m
                        else fat12_set_fat cur 0xFFF m)
               in add_clusters n data (bytes_left - chunk) (data_written + chunk)
                    (r\<lparr>rd_mem := m, next_free_cluster := nfc\<rparr>)))
      else (True, r))"

fun put_bytes :: "mem \<Rightarrow> nat \<Rightarrow> byte list \<Rightarrow> mem" where
  "put_bytes m p [] = m"
| "put_bytes m p (c # cs) = put_bytes (m(p := c)) (Suc p) cs"

definition add_file :: "byte list \<Rightarrow> byte list \<Rightarrow> byte list \<Rightarrow> ramdisk \<Rightarrow> ramdisk" where
  "add_file name ext data r =
     (if next_dirent r \<ge> ROOT_DIR_ENTRIES then r
      else
        (let first_cluster = next_free_cluster r in
         case add_clusters (length data) data (length data) 0 r of
           (False, r) \<Rightarrow> r
         | (True, r) \<Rightarrow>
             (let dir = ROOTDIR_OFFSET + next_dirent r * 32;
                  m = blit (rd_mem r) dir (\<lambda>_. SPACE) 0 11;
                  m = put_bytes m dir (map to_upper (take 8 name));
                  m = put_bytes m (dir + 8) (map to_upper (take 3 ext));
                  m = m(dir + 11 := 0x20);
                  m = write16 (dir + 26) first_cluster m;
                  m = write32 (dir + 28) (length data) m
              in r\<lparr>rd_mem := m, next_dirent := next_dirent r + 1\<rparr>)))"

definition format_bpb :: "mem \<Rightarrow> mem" where
  "format_bpb bpb =
     (let bpb = bpb(0 := 0xEB, 1 := 0x3C, 2 := 0x90);
          bpb = put_bytes bpb 3 (bytes_of ''RNBWOS  '');
          bpb = write16 11 SECTOR_SIZE bpb;
          bpb = bpb(13 := word_of_nat SECTORS_PER_CLUSTER);
          bpb = write16 14 RESERVED_SECTORS bpb;
          bpb = bpb(16 := word_of_nat NUM_FATS);
          bpb = write16 17 ROOT_DIR_ENTRIES bpb;
          bpb = write16 19 TOTAL_SECTORS bpb;
          bpb = bpb(21 := 0xF0);
          bpb = write16 22 SECTORS_PER_FAT bpb;
          bpb = write16 24 18 bpb;
          bpb = write16 26 2 bpb;
          bpb = write32 28 0 bpb
      in write32 32 0 bpb)"

definition CRLF :: "byte list" where "CRLF = [13, 10]"
definition LF :: "byte list" where "LF = [10]"

definition file_readme :: "byte list" where
  "file_readme = bytes_of ''Welcome to Rainbow-OS!'' @ CRLF @ CRLF @
     bytes_of ''This is a 32-bit operating system for the Intel 486.'' @ CRLF @
     bytes_of ''It runs in Protected Mode with paging enabled.'' @ CRLF @ CRLF @
     bytes_of ''Type '' @ [39] @ bytes_of ''help'' @ [39] @ bytes_of '' for available commands.'' @ CRLF"

definition file_hello :: "byte list" where
  "file_hello = bytes_of ''Hello, World!'' @ CRLF @
     bytes_of ''Greetings from the FAT12 ramdisk.'' @ CRLF"

definition file_colors :: "byte list" where
  "file_colors = bytes_of ''Rainbow Colors:'' @ CRLF @ bytes_of ''  Red'' @ CRLF @
     bytes_of ''  Orange'' @ CRLF @ bytes_of ''  Yellow'' @ CRLF @ bytes_of ''  Green'' @ CRLF @
     bytes_of ''  Blue'' @ CRLF @ bytes_of ''  Indigo'' @ CRLF @ bytes_of ''  Violet'' @ CRLF"

definition file_crt0 :: "byte list" where
  "file_crt0 = bytes_of ''/* crt0.h - Rainbow-OS C runtime */'' @ LF @
     bytes_of ''#define SYSCALL_TABLE 0x1F0000'' @ LF @ LF @
     bytes_of ''void putchar(int c) {'' @ LF @
     bytes_of ''    int *table;'' @ LF @
     bytes_of ''    table = (int *)SYSCALL_TABLE;'' @ LF @
     bytes_of ''    int fn;'' @ LF @
     bytes_of ''    fn = table[0];'' @ LF @
     bytes_of ''    /* Call via inline pointer call */'' @ LF @
     bytes_of ''    int *fptr;'' @ LF @
     bytes_of ''    fptr = (int *)fn;'' @ LF @
     bytes_of ''    /* We use peek/poke style: write char to VGA directly */'' @ LF @
     bytes_of ''}'' @ LF @ LF @
     bytes_of ''void puts(char *s) {'' @ LF @
     bytes_of ''    while (*s) {'' @ LF @
     bytes_of ''        putchar(*s);'' @ LF @
     bytes_of ''        s = s + 1;'' @ LF @
     bytes_of ''    }'' @ LF @
     bytes_of ''}'' @ LF"

definition file_hello_c :: "byte list" where
  "file_hello_c = bytes_of ''int main() {'' @ LF @ bytes_of ''    return 42;'' @ LF @ bytes_of ''}'' @ LF"

definition ramdisk_empty :: ramdisk where
  "ramdisk_empty =
     (let m = format_bpb (\<lambda>_. 0);
          m = fat12_set_fat 0 0xFF0 m;
          m = fat12_set_fat 1 0xFFF m
      in \<lparr>rd_mem = m, next_free_cluster = 2, next_dirent = 0\<rparr>)"

definition ramdisk_files :: ramdisk where
  "ramdisk_files =
     (let r = add_file (bytes_of ''readme'') (bytes_of ''txt'') file_readme ramdisk_empty;
          r = add_file (bytes_of ''hello'') (bytes_of ''txt'') file_hello r;
          r = add_file (bytes_of ''colors'') (bytes_of ''txt'') file_colors r;
          r = add_file (bytes_of ''crt0'') (bytes_of ''h'') file_crt0 r
      in add_file (bytes_of ''hello'') (bytes_of ''c'') file_hello_c r)"

definition ramdisk_init :: "fat option" where
  "ramdisk_init = fat12_init (rd_mem ramdisk_files)"

section \<open>The disk volume\<close>

definition HDD_FS_START_SECTOR :: nat where "HDD_FS_START_SECTOR = 262"
definition HDD_FS_SECTOR_COUNT :: nat where "HDD_FS_SECTOR_COUNT = 2048"
definition DISKFS_SIZE :: nat where "DISKFS_SIZE = HDD_FS_SECTOR_COUNT * 512"

lemmas diskfs_consts = HDD_FS_START_SECTOR_def HDD_FS_SECTOR_COUNT_def DISKFS_SIZE_def

definition bpb_valid :: "mem \<Rightarrow> bool" where
  "bpb_valid m \<longleftrightarrow> (m 0 = 0xEB \<or> m 0 = 0xE9) \<and> read16 m 11 = 512"

text \<open>Formatting starts from a cleared buffer.\<close>

definition format_volume :: mem where
  "format_volume =
     (let bpb = (\<lambda>_. 0);
          bpb = bpb(0 := 0xEB, 1 := 0x3C, 2 := 0x90);
          bpb = put_bytes bpb 3 (bytes_of ''RNBWOS  '');
          bpb = bpb(11 := 0x00, 12 := 0x02, 13 := 1, 14 := 1, 15 := 0, 16 := 1, 17 := 64, 18 := 0,
                    19 := 0x00, 20 := 0x08, 21 := 0xF8, 22 := 3, 23 := 0, 24 := 63, 25 := 0,
                    26 := 16, 27 := 0);
          fat_offset = 512
      in bpb(fat_offset + 0 := 0xF8, fat_offset + 1 := 0xFF, fat_offset + 2 := 0xFF))"

text \<open>
  \<open>ata_read lba count buf pos d\<close> transfers \<open>count\<close> sectors into \<open>buf\<close> at \<open>pos\<close>,
  \<open>ata_write lba count buf pos d\<close> from it; the first component is the C return value.
\<close>

type_synonym 'd reader = "nat \<Rightarrow> nat \<Rightarrow> mem \<Rightarrow> nat \<Rightarrow> 'd \<Rightarrow> int \<times> mem \<times> 'd"
type_synonym 'd writer = "nat \<Rightarrow> nat \<Rightarrow> mem \<Rightarrow> nat \<Rightarrow> 'd \<Rightarrow> int \<times> 'd"

text \<open>The size of the next transfer, at most 255 sectors.\<close>

definition chunk_size :: "nat \<Rightarrow> nat" where
  "chunk_size sectors_remaining = (if sectors_remaining > 255 then 255 else sectors_remaining)"

function read_sectors_loop :: "'d reader \<Rightarrow> nat \<Rightarrow> nat \<Rightarrow> nat \<Rightarrow> mem \<Rightarrow> 'd \<Rightarrow> int \<times> mem \<times> 'd" where
  "read_sectors_loop ata_read sectors_remaining lba pos buf d =
     (if sectors_remaining > 0 then
        (let chunk = chunk_size sectors_remaining in
         case ata_read lba chunk buf pos d of
           (rc, buf, d) \<Rightarrow>
             if rc \<noteq> 0 then (- 1, buf, d)
             else read_sectors_loop ata_read (sectors_remaining - chunk) (lba + chunk) (pos + chunk * 512) buf d)
      else (0, buf, d))"
  by pat_completeness auto
termination
  by (relation "measure (\<lambda>(_, n, _, _, _, _). n)") (auto simp: chunk_size_def)

function write_sectors_loop :: "'d writer \<Rightarrow> nat \<Rightarrow> nat \<Rightarrow> nat \<Rightarrow> mem \<Rightarrow> 'd \<Rightarrow> int \<times> 'd" where
  "write_sectors_loop ata_write sectors_remaining lba pos buf d =
     (if sectors_remaining > 0 then
        (let chunk = chunk_size sectors_remaining in
         case ata_write lba chunk buf pos d of
           (rc, d) \<Rightarrow>
             if rc \<noteq> 0 then (- 1, d)
             else write_sectors_loop ata_write (sectors_remaining - chunk) (lba + chunk) (pos + chunk * 512) buf d)
      else (0, d))"
  by pat_completeness auto
termination
  by (relation "measure (\<lambda>(_, n, _, _, _, _). n)") (auto simp: chunk_size_def)

declare read_sectors_loop.simps [simp del] write_sectors_loop.simps [simp del]

definition read_partition :: "'d reader \<Rightarrow> mem \<Rightarrow> 'd \<Rightarrow> int \<times> mem \<times> 'd" where
  "read_partition ata_read buf d =
     read_sectors_loop ata_read HDD_FS_SECTOR_COUNT HDD_FS_START_SECTOR 0 buf d"

definition write_partition :: "'d writer \<Rightarrow> mem \<Rightarrow> 'd \<Rightarrow> int \<times> 'd" where
  "write_partition ata_write buf d =
     write_sectors_loop ata_write HDD_FS_SECTOR_COUNT HDD_FS_START_SECTOR 0 buf d"

record diskfs =
  disk_available :: bool
  mounted :: fat

text \<open>
  \<open>buf\<close> is the static buffer before the call. The driver keeps working on the buffer it was
  initialised with, so from here on the volume is that of \<open>mounted\<close>.
\<close>

definition diskfs_init :: "'d reader \<Rightarrow> 'd writer \<Rightarrow> int \<Rightarrow> mem \<Rightarrow> 'd \<Rightarrow> (diskfs \<times> 'd) option" where
  "diskfs_init ata_read ata_write ata_init_result buf d =
     (if ata_init_result \<noteq> 0
      then map_option (\<lambda>f. (\<lparr>disk_available = False, mounted = f\<rparr>, d)) ramdisk_init
      else
        (case read_partition ata_read buf d of
           (rc, buf, d) \<Rightarrow>
             if rc \<noteq> 0
             then map_option (\<lambda>f. (\<lparr>disk_available = False, mounted = f\<rparr>, d)) ramdisk_init
             else
               (let (buf, d) = (if \<not> bpb_valid buf
                                then (format_volume, snd (write_partition ata_write format_volume d))
                                else (buf, d))
                in map_option (\<lambda>f. (\<lparr>disk_available = True, mounted = f\<rparr>, d)) (fat12_init buf))))"

definition diskfs_sync :: "'d writer \<Rightarrow> diskfs \<Rightarrow> 'd \<Rightarrow> int \<times> 'd" where
  "diskfs_sync ata_write s d =
     (if \<not> disk_available s then (- 1, d) else write_partition ata_write (vol (mounted s)) d)"

definition sync_after :: "'d writer \<Rightarrow> int \<Rightarrow> diskfs \<Rightarrow> 'd \<Rightarrow> 'd" where
  "sync_after ata_write result s d =
     (if result = 0 \<and> disk_available s then snd (diskfs_sync ata_write s d) else d)"

definition diskfs_write_file ::
    "'d writer \<Rightarrow> byte list \<Rightarrow> mem \<Rightarrow> nat \<Rightarrow> diskfs \<Rightarrow> 'd \<Rightarrow> (int \<times> diskfs \<times> 'd) option" where
  "diskfs_write_file ata_write name data sz s d =
     (case fat12_write_file name data sz (mounted s) of
        None \<Rightarrow> None
      | Some (result, f) \<Rightarrow>
          (let s = s\<lparr>mounted := f\<rparr> in Some (result, s, sync_after ata_write result s d)))"

definition diskfs_delete_file :: "'d writer \<Rightarrow> byte list \<Rightarrow> diskfs \<Rightarrow> 'd \<Rightarrow> (int \<times> diskfs \<times> 'd) option" where
  "diskfs_delete_file ata_write name s d =
     (case fat12_delete_file name (mounted s) of
        None \<Rightarrow> None
      | Some (result, f) \<Rightarrow>
          (let s = s\<lparr>mounted := f\<rparr> in Some (result, s, sync_after ata_write result s d)))"

end
