(* ===== verification/DiskFsSpec.thy ===== *)
theory DiskFsSpec
  imports DiskFs
begin

text \<open>
  What the file system promises to its users: the properties of the FAT12 operations as theorems
  on every consistent volume, the freshly formatted disk volume and the RAM disk as such volumes,
  and persistence: what was written is there after the disk is read again.
\<close>

section \<open>The formatted disk volume\<close>

definition formatted :: fat where
  "formatted = \<lparr>vol = format_volume, bytes_per_sector = 512, sectors_per_cluster = 1,
     reserved_sectors = 1, num_fats = 1, root_entry_count = 64, total_sectors = 2048,
     sectors_per_fat = 3, root_dir_offset = 2048, root_dir_sectors = 4, data_start_offset = 4096\<rparr>"

lemma put_bytes_simps [simp]: "put_bytes m p [] = m" "put_bytes m p (c # cs) = put_bytes (m(p := c)) (Suc p) cs"
  by simp_all

lemma format_mount: "fat12_init format_volume = Some formatted"
  by (simp add: fat12_init_def formatted_def format_volume_def Let_def read16_eq u32_def)

lemma format_zero: "515 \<le> a \<Longrightarrow> format_volume a = 0"
  by (simp add: format_volume_def Let_def)

lemma formatted_geom:
  "cluster_bytes formatted = 512" "fat_offset formatted = 512" "cluster_count formatted = 2040"
  "fat_limit formatted = 1024" "geom_ok formatted" "dir_pos formatted i = 2048 + 32 * i"
proof -
  show a: "cluster_bytes formatted = 512" "fat_offset formatted = 512"
    "dir_pos formatted i = 2048 + 32 * i"
    by (simp_all add: formatted_def cluster_bytes_def fat_offset_def u32_def dir_pos_def)
  then show b: "cluster_count formatted = 2040"
    by (simp add: cluster_count_def) (simp add: formatted_def)
  show "fat_limit formatted = 1024" using a b by (simp add: fat_limit_def) (simp add: formatted_def)
  show "geom_ok formatted" using a b by (simp add: geom_ok_def) (simp add: formatted_def)
qed

lemma formatted_ok: "fs_ok formatted" "fs_map formatted n = None" "dir_room formatted"
proof -
  have z: "vol formatted (dir_pos formatted i) = 0" for i
    unfolding formatted_geom by (simp add: formatted_def format_zero)
  have nu: "\<not> entry_used formatted i" for i by (simp add: entry_used_def z)
  then have nf: "\<not> is_file formatted i" for i by (simp add: is_file_def)
  show "fs_ok formatted"
    using nu nf formatted_geom(5) by (simp add: fs_ok_def end_marked_def z names_unique_def chains_apart_def del: formatted_geom)
  then show "fs_map formatted n = None" using nf fs_map_Some_iff [of formatted n] by (cases "fs_map formatted n") auto
  have "0 < root_entry_count formatted" by (simp add: formatted_def)
  then show "dir_room formatted" using z unfolding dir_room_def by blast
qed

lemma formatted_free: "free_pool formatted = {2..<1024}"
proof -
  have "fat12_read_fat formatted c = 0" if "2 \<le> c" "c < 65536" for c
  proof -
    have p: "fat_entry_pos formatted c \<ge> 515"
    proof -
      have "1 \<le> c div 2" using that by simp
      then show ?thesis using that by (simp add: fat_entry_pos_eq formatted_geom)
    qed
    then have "read16w (vol formatted) (fat_entry_pos formatted c) = 0"
      by (simp add: read16w_def formatted_def format_zero)
    then show ?thesis by (simp add: fat12_read_fat_def Let_def)
  qed
  then show ?thesis by (auto simp: free_pool_def formatted_geom)
qed

section \<open>The contents depend on the volume's bytes only\<close>

lemma fs_map_cong:
  assumes ok: "fs_ok s" and gt: "same_geom s t"
    and ag: "agree 0 (total_sectors s * bytes_per_sector s) (vol s) (vol t)"
  shows "fs_ok t" and "fs_map t = fs_map s"
proof -
  have g: "geom_ok s" using ok by (simp add: fs_ok_def)
  note q = same_geom_eqs [OF gt]
  have order: "fat_offset s \<le> root_dir_offset s" "root_dir_offset s \<le> data_start_offset s"
    "data_start_offset s \<le> total_sectors s * bytes_per_sector s"
    using g by (simp_all add: geom_ok_def)
  have rs: "root_same s t" using ag order by (simp add: agree_def)
  note e = entry_same [OF gt g rs, unfolded q]
  have used: "entry_used t i = entry_used s i" for i
    using e(1) by (auto simp: entry_used_def q)
  have isf: "is_file t i = is_file s i" for i
    using used [of i] e(3) [of i] by (auto simp: is_file_def entry_used_def)
  have get: "fat12_read_fat t c = fat12_read_fat s c" if "c < fat_limit s" for c
    by (rule read_fat_above [OF gt g that]) (use ag order in \<open>auto simp: agree_def\<close>)
  have dat: "cluster_data t c = cluster_data s c" if "2 \<le> c" "c < cluster_count s + 2" for c
    unfolding cluster_data_def q
    by (rule seg_cong) (use ag cluster_range(2) [OF g that] in \<open>auto simp: agree_def\<close>)
  have lt: "entry_used s i \<Longrightarrow> i < root_entry_count s" for i by (simp add: entry_used_def)
  have ch: "entry_chain t i = entry_chain s i" "entry_ok t i"
    "chain_data t (entry_chain s i) = chain_data s (entry_chain s i)" if u: "entry_used s i" for i
  proof -
    have o: "entry_ok s i" using ok u by (simp add: fs_ok_def)
    then have c0: "chain (fat12_read_fat s) (fat_limit s) (dir_first_cluster s i) (entry_chain s i)"
      by (simp add: entry_ok_def)
    note m = chain_member [OF g c0]
    have c: "chain (fat12_read_fat t) (fat_limit t) (dir_first_cluster t i) (entry_chain s i)"
      using c0 get m e(4) [OF lt [OF u]] unfolding q by (subst chain_cong [of _ _ "fat12_read_fat s"]) auto
    show ec: "entry_chain t i = entry_chain s i"
      by (rule entry_chain_eq [OF c]) (use geom_limit [OF g] in \<open>simp add: q\<close>)
    show "entry_ok t i"
      using o c e(5) [OF lt [OF u]] isf by (simp add: entry_ok_def ec blocks_def q)
    have "map (cluster_data t) (entry_chain s i) = map (cluster_data s) (entry_chain s i)"
      using dat m by simp
    then show "chain_data t (entry_chain s i) = chain_data s (entry_chain s i)"
      unfolding chain_data_def by (rule arg_cong)
  qed
  have fd: "is_file s i \<Longrightarrow> dir_name t i = dir_name s i \<and> file_data t i = file_data s i" for i
    using ch [of i] e(2,5) [of i] lt [of i] by (simp add: is_file_def file_data_def)
  have "end_marked t" using ok e(1) by (auto simp: fs_ok_def end_marked_def q)
  moreover have "names_unique t" using ok isf fd by (auto simp: fs_ok_def names_unique_def)
  moreover have "chains_apart t" using ok used ch(1) by (auto simp: fs_ok_def chains_apart_def)
  ultimately show okt: "fs_ok t" using g used ch(2) by (auto simp: fs_ok_def q)
  have "fs_map t n = Some d \<longleftrightarrow> fs_map s n = Some d" for n d
    using isf fd by (auto simp: fs_map_Some_iff [OF okt] fs_map_Some_iff [OF ok])
  then show "fs_map t = fs_map s" by (intro ext) (metis option.exhaust)
qed

section \<open>A working disk\<close>

text \<open>
  What the sector transfers of the ATA driver do with a working disk, as its documentation
  describes them: \<open>content d\<close> are the bytes on the disk, a read copies sectors to the buffer, a
  write copies them from it, and neither reports an error.
\<close>

definition disk_ok :: "'d reader \<Rightarrow> 'd writer \<Rightarrow> ('d \<Rightarrow> mem) \<Rightarrow> bool" where
  "disk_ok ata_read ata_write content \<longleftrightarrow>
     (\<forall>lba n buf pos d. 0 < n \<longrightarrow> n \<le> 255 \<longrightarrow>
        (\<exists>d'. ata_read lba n buf pos d = (0, blit buf pos (content d) (lba * 512) (n * 512), d') \<and>
              content d' = content d)) \<and>
     (\<forall>lba n buf pos d. 0 < n \<longrightarrow> n \<le> 255 \<longrightarrow>
        (\<exists>d'. ata_write lba n buf pos d = (0, d') \<and>
              content d' = blit (content d) (lba * 512) buf pos (n * 512)))"

lemma blit_blit:
  assumes "\<And>i. b + m \<le> i \<Longrightarrow> i < b + m + n \<Longrightarrow> src' i = src i"
  shows "blit (blit x a src b m) (a + m) src' (b + m) n = blit x a src b (m + n)"
proof (rule ext)
  fix i
  have "b + m + (i - (a + m)) = b + (i - a)" if "a + m \<le> i" using that by simp
  then show "blit (blit x a src b m) (a + m) src' (b + m) n i = blit x a src b (m + n) i"
    using assms [of "b + (i - a)"] by (auto simp: blit_def)
qed

lemma read_loop_ok:
  assumes "disk_ok ata_read ata_write content"
  shows "\<exists>d'. read_sectors_loop ata_read n lba pos buf d =
      (0, blit buf pos (content d) (lba * 512) (n * 512), d') \<and> content d' = content d"
proof (induction n arbitrary: lba pos buf d rule: less_induct)
  case (less n)
  show ?case
  proof (cases "n = 0")
    case True
    then show ?thesis by (subst read_sectors_loop.simps) simp
  next
    case False
    define k where "k = chunk_size n"
    have k: "0 < k" "k \<le> 255" "k \<le> n" using False by (auto simp: k_def chunk_size_def)
    obtain d1 where d1: "ata_read lba k buf pos d = (0, blit buf pos (content d) (lba * 512) (k * 512), d1)"
      "content d1 = content d" using assms k unfolding disk_ok_def by blast
    let ?b = "blit buf pos (content d) (lba * 512) (k * 512)"
    obtain d2 where d2: "read_sectors_loop ata_read (n - k) (lba + k) (pos + k * 512) ?b d1 =
        (0, blit ?b (pos + k * 512) (content d1) ((lba + k) * 512) ((n - k) * 512), d2)"
      "content d2 = content d1"
      using less [of "n - k"] k by fastforce
    have "blit ?b (pos + k * 512) (content d1) (lba * 512 + k * 512) ((n - k) * 512) =
        blit buf pos (content d) (lba * 512) (k * 512 + (n - k) * 512)"
      by (rule blit_blit) (simp add: d1(2))
    moreover have "k * 512 + (n - k) * 512 = n * 512" using k(3) by (simp flip: add_mult_distrib)
    ultimately have "blit ?b (pos + k * 512) (content d1) ((lba + k) * 512) ((n - k) * 512) =
        blit buf pos (content d) (lba * 512) (n * 512)" by (simp add: add_mult_distrib)
    moreover have "read_sectors_loop ata_read n lba pos buf d =
        read_sectors_loop ata_read (n - k) (lba + k) (pos + k * 512) ?b d1"
      using False d1(1) by (subst read_sectors_loop.simps) (simp add: Let_def k_def)
    ultimately show ?thesis using d1(2) d2 by auto
  qed
qed

lemma write_loop_ok:
  assumes "disk_ok ata_read ata_write content"
  shows "\<exists>d'. write_sectors_loop ata_write n lba pos buf d = (0, d') \<and>
      content d' = blit (content d) (lba * 512) buf pos (n * 512)"
proof (induction n arbitrary: lba pos d rule: less_induct)
  case (less n)
  show ?case
  proof (cases "n = 0")
    case True
    then show ?thesis by (subst write_sectors_loop.simps) simp
  next
    case False
    define k where "k = chunk_size n"
    have k: "0 < k" "k \<le> 255" "k \<le> n" using False by (auto simp: k_def chunk_size_def)
    obtain d1 where d1: "ata_write lba k buf pos d = (0, d1)"
      "content d1 = blit (content d) (lba * 512) buf pos (k * 512)" using assms k unfolding disk_ok_def by blast
    obtain d2 where d2: "write_sectors_loop ata_write (n - k) (lba + k) (pos + k * 512) buf d1 = (0, d2)"
      "content d2 = blit (content d1) ((lba + k) * 512) buf (pos + k * 512) ((n - k) * 512)"
      using less [of "n - k"] k by fastforce
    have "blit (content d1) (lba * 512 + k * 512) buf (pos + k * 512) ((n - k) * 512) =
        blit (content d) (lba * 512) buf pos (k * 512 + (n - k) * 512)"
      unfolding d1(2) by (rule blit_blit) simp
    moreover have "k * 512 + (n - k) * 512 = n * 512" using k(3) by (simp flip: add_mult_distrib)
    ultimately have "content d2 = blit (content d) (lba * 512) buf pos (n * 512)"
      using d2(2) by (simp add: add_mult_distrib)
    moreover have "write_sectors_loop ata_write n lba pos buf d =
        write_sectors_loop ata_write (n - k) (lba + k) (pos + k * 512) buf d1"
      using False d1(1) by (subst write_sectors_loop.simps) (simp add: Let_def k_def)
    ultimately show ?thesis using d2(1) by auto
  qed
qed

text \<open>Writing the partition and reading it back gives the volume; other sectors stay.\<close>

lemma partition_roundtrip:
  assumes ok: "disk_ok ata_read ata_write content"
  shows "\<exists>d1. write_partition ata_write v d = (0, d1) \<and>
           (\<forall>i. i < 262 * 512 \<or> 2310 * 512 \<le> i \<longrightarrow> content d1 i = content d i) \<and>
           (\<exists>buf' d2. read_partition ata_read buf d1 = (0, buf', d2) \<and> agree 0 DISKFS_SIZE v buf')"
proof -
  obtain d1 where w: "write_partition ata_write v d = (0, d1)"
    "content d1 = blit (content d) (262 * 512) v 0 (2048 * 512)"
    using write_loop_ok [OF ok, of 2048 262 0 v d] by (auto simp: write_partition_def diskfs_consts)
  obtain d2 where r: "read_partition ata_read buf d1 = (0, blit buf 0 (content d1) (262 * 512) (2048 * 512), d2)"
    using read_loop_ok [OF ok, of 2048 262 0 buf d1] by (auto simp: read_partition_def diskfs_consts)
  have "agree 0 DISKFS_SIZE v (blit buf 0 (content d1) (262 * 512) (2048 * 512))"
    by (auto simp: agree_def diskfs_consts w(2))
  with w r show ?thesis by (auto simp: w(2))
qed

section \<open>Remounting\<close>

definition disk_mounted :: "fat \<Rightarrow> bool" where
  "disk_mounted f \<longleftrightarrow> fs_ok f \<and> fat12_init (vol f) = Some f \<and> bpb_valid (vol f) \<and>
     total_sectors f * bytes_per_sector f \<le> DISKFS_SIZE \<and> 24 \<le> fat_offset f"

lemma fat12_init_cong:
  assumes "agree 0 24 m m'" and "fat12_init m = Some f"
  shows "fat12_init m' = Some (f\<lparr>vol := m'\<rparr>)"
proof -
  have r: "read16 m' p = read16 m p" if "p + 1 < 24" for p
    using assms(1) that by (intro read16_cong) (simp_all add: agree_def)
  have b: "m' p = m p" if "p < 24" for p using assms(1) that by (simp add: agree_def)
  show ?thesis
    using assms(2) by (auto simp: fat12_init_def Let_def r b split: if_splits)
qed

lemma bpb_valid_cong: "agree 0 24 m m' \<Longrightarrow> bpb_valid m' = bpb_valid m"
  using read16_cong [of m' 11 m] by (simp add: bpb_valid_def agree_def)

lemma remount:
  assumes f: "disk_mounted f" and "same_geom f t" "boot_same f t" "fs_ok t"
  shows "disk_mounted t"
proof -
  obtain v where t: "t = f\<lparr>vol := v\<rparr>" using assms(2) by (auto simp: same_geom_def)
  have ag: "agree 0 24 (vol f) (vol t)" using assms(1,3) by (auto simp: disk_mounted_def agree_def)
  have "fat12_init (vol t) = Some (f\<lparr>vol := vol t\<rparr>)"
    using f by (intro fat12_init_cong [OF ag]) (simp add: disk_mounted_def)
  then show ?thesis
    using f assms(4) bpb_valid_cong [OF ag] by (simp add: disk_mounted_def t)
qed

lemma init_after_sync:
  assumes ok: "disk_ok ata_read ata_write content" and f: "disk_mounted f"
  shows "\<exists>d1 u d2. write_partition ata_write (vol f) d = (0, d1) \<and>
           diskfs_init ata_read ata_write 0 buf d1 = Some (u, d2) \<and> disk_available u \<and>
           disk_mounted (mounted u) \<and> fs_map (mounted u) = fs_map f"
proof -
  obtain d1 buf' d2 where w: "write_partition ata_write (vol f) d = (0, d1)"
    "read_partition ata_read buf d1 = (0, buf', d2)" "agree 0 DISKFS_SIZE (vol f) buf'"
    using partition_roundtrip [OF ok, of "vol f" d buf] by blast
  have ag: "agree 0 24 (vol f) buf'" "agree 0 (total_sectors f * bytes_per_sector f) (vol f) buf'"
    using w(3) f by (auto simp: disk_mounted_def agree_def DISKFS_SIZE_def HDD_FS_SECTOR_COUNT_def)
  let ?u = "f\<lparr>vol := buf'\<rparr>"
  have i: "fat12_init buf' = Some ?u"
    using f by (intro fat12_init_cong [OF ag(1)]) (simp add: disk_mounted_def)
  have b: "bpb_valid buf'" using f bpb_valid_cong [OF ag(1)] by (simp add: disk_mounted_def)
  have "same_geom f ?u" by auto
  note c = fs_map_cong [OF _ this, simplified, OF _ ag(2)]
  have m: "disk_mounted ?u" "fs_map ?u = fs_map f"
    using f c i b by (auto simp: disk_mounted_def)
  have "diskfs_init ata_read ata_write 0 buf d1 = Some (\<lparr>disk_available = True, mounted = ?u\<rparr>, d2)"
    using w(2) b i by (simp add: diskfs_init_def)
  with w(1) m show ?thesis by (intro exI conjI) (assumption | simp)+
qed

section \<open>Properties\<close>

text \<open>
  C2: Writing a file on a consistent volume succeeds when the name is storable, enough clusters are
  free once the old version is released, and the directory has a slot; the volume stays
  consistent, reading the name returns exactly the bytes written, and every other name keeps its
  contents.
\<close>

theorem fat_write_read:
  assumes "fs_ok s" and "name_ok name" and "n < 2 ^ 31"
    and "blocks s n \<le> card (usable s (name_to_83 name))"
    and "fs_map s (name_to_83 name) \<noteq> None \<or> dir_room s"
  shows "\<exists>t buf'. fat12_write_file name data n s = Some (0, t) \<and> fs_ok t \<and>
           fat12_read_file t name n buf = Some (int n, buf') \<and> seg buf' 0 n = seg data 0 n \<and>
           (\<forall>other. name_to_83 other \<noteq> name_to_83 name \<longrightarrow>
              fs_map t (name_to_83 other) = fs_map s (name_to_83 other))"
proof -
  obtain t where t: "fat12_write_file name data n s = Some (0, t)" "fs_ok t"
    "fs_map t = (fs_map s)(name_to_83 name \<mapsto> seg data 0 n)"
    using write_file_correct [OF assms] by blast
  have "fs_map t (name_to_83 name) = Some (seg data 0 n)" using t(3) by simp
  from read_file_correct(2) [OF t(2) this, of n buf]
  obtain buf' where "fat12_read_file t name n buf = Some (int n, buf')" "seg buf' 0 n = seg data 0 n"
    by auto
  with t show ?thesis by auto
qed

lemma formatted_room:
  "n \<le> 1022 * 512 \<Longrightarrow> blocks formatted n \<le> card (usable formatted n83)"
proof -
  assume "n \<le> 1022 * 512"
  then have "blocks formatted n \<le> 1022" by (intro blocks_le) (simp_all add: formatted_geom)
  moreover have "usable formatted n83 = {2..<1024}"
  proof -
    have "lookup formatted n83 = None" using formatted_ok(2) [of n83] by (simp add: fs_map_def)
    then show ?thesis by (simp add: usable_def old_chain_def formatted_free)
  qed
  ultimately show ?thesis by simp
qed

theorem fat_write_read_witness:
  "\<exists>t buf'. fat12_write_file (bytes_of ''a.txt'') (\<lambda>i. of_nat i) 600 formatted = Some (0, t) \<and> fs_ok t \<and>
     fat12_read_file t (bytes_of ''a.txt'') 600 (\<lambda>_. 0) = Some (600, buf') \<and> buf' 599 = 87"
proof -
  have nm: "name_ok (bytes_of ''a.txt'')" by (simp add: name_ok_def)
  from fat_write_read [OF formatted_ok(1) nm, of 600 "\<lambda>i. of_nat i" "\<lambda>_. 0"] formatted_room [of 600] formatted_ok(3)
  obtain t buf' where r: "fat12_write_file (bytes_of ''a.txt'') (\<lambda>i. of_nat i) 600 formatted = Some (0, t)" "fs_ok t"
    "fat12_read_file t (bytes_of ''a.txt'') 600 (\<lambda>_. 0) = Some (600, buf')"
    "seg buf' 0 600 = seg (\<lambda>i. of_nat i) 0 600" by auto
  have "buf' 599 = seg buf' 0 600 ! 599" by simp
  also have "\<dots> = seg (\<lambda>i. of_nat i) 0 600 ! 599" by (simp only: r(4))
  also have "\<dots> = 87" by simp
  finally show ?thesis using r(1-3) by blast
qed

text \<open>
  C22: Deleting removes exactly the named file from a consistent volume and keeps it consistent; a
  name that does not exist is reported and nothing changes.
\<close>

theorem fat_delete_correct:
  assumes "fs_ok s"
  shows "if fs_map s (name_to_83 name) = None then fat12_delete_file name s = Some (- 1, s)
    else \<exists>t. fat12_delete_file name s = Some (0, t) \<and> fs_ok t \<and>
           fs_map t = (fs_map s)(name_to_83 name := None)"
  using delete_file_correct [OF assms, of name] by auto

theorem fat_delete_correct_witness:
  "\<exists>s t. fs_ok s \<and> fat12_delete_file (bytes_of ''a.txt'') s = Some (0, t) \<and> fs_map t = Map.empty"
proof -
  let ?a = "bytes_of ''a.txt''"
  have nm: "name_ok ?a" by (simp add: name_ok_def)
  have "fs_map formatted (name_to_83 ?a) \<noteq> None \<or> dir_room formatted" using formatted_ok(3) by simp
  from write_file_correct [OF formatted_ok(1) nm, of 3 "\<lambda>_. 1", OF _ _ this] formatted_room [of 3]
  obtain s where s: "fs_ok s" "fs_map s = (fs_map formatted)(name_to_83 ?a \<mapsto> seg (\<lambda>_. 1) 0 3)" by auto
  have "fs_map s (name_to_83 ?a) \<noteq> None" using s(2) by simp
  with fat_delete_correct [OF s(1), of ?a]
  obtain t where t: "fat12_delete_file ?a s = Some (0, t)" "fs_map t = (fs_map s)(name_to_83 ?a := None)" by auto
  have "fs_map formatted = Map.empty" using formatted_ok(2) by (rule ext)
  then have "fs_map t = Map.empty" by (simp add: t(2) s(2))
  with s(1) t(1) show ?thesis by blast
qed

text \<open>
  C12: A file written through \<open>diskfs_write_file\<close> survives a reboot: with a working disk the
  write is synchronised, and initialising from the disk again, whatever the buffer held, mounts a
  consistent volume whose files are those before the write with the new one added.
\<close>

theorem disk_persistence:
  assumes "disk_ok ata_read ata_write content" and "disk_available s" and "disk_mounted (mounted s)"
    and "name_ok name" and "n < 2 ^ 31"
    and "blocks (mounted s) n \<le> card (usable (mounted s) (name_to_83 name))"
    and "fs_map (mounted s) (name_to_83 name) \<noteq> None \<or> dir_room (mounted s)"
  shows "\<exists>t d1 u d2. diskfs_write_file ata_write name data n s d = Some (0, t, d1) \<and>
           disk_available t \<and> disk_mounted (mounted t) \<and>
           diskfs_init ata_read ata_write 0 buf d1 = Some (u, d2) \<and>
           disk_available u \<and> disk_mounted (mounted u) \<and>
           fs_map (mounted u) = (fs_map (mounted s))(name_to_83 name \<mapsto> seg data 0 n)"
proof -
  have ok: "fs_ok (mounted s)" using assms(3) by (simp add: disk_mounted_def)
  obtain t where t: "fat12_write_file name data n (mounted s) = Some (0, t)" "fs_ok t"
    "fs_map t = (fs_map (mounted s))(name_to_83 name \<mapsto> seg data 0 n)"
    "same_geom (mounted s) t" "boot_same (mounted s) t"
    using write_file_correct [OF ok assms(4-7)] by blast
  have m: "disk_mounted t" using remount [OF assms(3) t(4,5,2)] .
  obtain d1 u d2 where i: "write_partition ata_write (vol t) d = (0, d1)"
    "diskfs_init ata_read ata_write 0 buf d1 = Some (u, d2)" "disk_available u"
    "disk_mounted (mounted u)" "fs_map (mounted u) = fs_map t"
    using init_after_sync [OF assms(1) m] by blast
  have "diskfs_write_file ata_write name data n s d = Some (0, s\<lparr>mounted := t\<rparr>, d1)"
    using t(1) i(1) assms(2) by (simp add: diskfs_write_file_def sync_after_def diskfs_sync_def)
  with i t(3) m assms(2) show ?thesis by fastforce
qed

text \<open>A disk whose state is its contents, and a volume on it.\<close>

definition ram_read :: "mem reader" where
  "ram_read lba n buf pos d = (0, blit buf pos d (lba * 512) (n * 512), d)"

definition ram_write :: "mem writer" where
  "ram_write lba n buf pos d = (0, blit d (lba * 512) buf pos (n * 512))"

lemma formatted_mounted: "disk_mounted formatted"
proof -
  have "fat12_init (vol formatted) = Some formatted" using format_mount by (simp add: formatted_def)
  moreover have "bpb_valid (vol formatted)"
    by (simp add: formatted_def bpb_valid_def format_volume_def Let_def read16_eq)
  ultimately show ?thesis
    using formatted_ok(1) formatted_geom(2)
    by (simp add: disk_mounted_def) (simp add: formatted_def diskfs_consts)
qed

theorem disk_persistence_witness:
  "\<exists>t d1 u d2. diskfs_write_file ram_write (bytes_of ''a.txt'') (\<lambda>i. of_nat (i + 7)) 2
       \<lparr>disk_available = True, mounted = formatted\<rparr> (\<lambda>_. 0) = Some (0, t, d1) \<and>
     diskfs_init ram_read ram_write 0 (\<lambda>_. 0xAA) d1 = Some (u, d2) \<and>
     fs_map (mounted u) (name_to_83 (bytes_of ''a.txt'')) = Some [7, 8]"
proof -
  let ?s = "\<lparr>disk_available = True, mounted = formatted\<rparr>"
  have d: "disk_ok ram_read ram_write (\<lambda>d. d)" by (simp add: disk_ok_def ram_read_def ram_write_def)
  have nm: "name_ok (bytes_of ''a.txt'')" by (simp add: name_ok_def)
  have x: "disk_available ?s" "disk_mounted (mounted ?s)"
    "blocks (mounted ?s) 2 \<le> card (usable (mounted ?s) (name_to_83 (bytes_of ''a.txt'')))"
    "fs_map (mounted ?s) (name_to_83 (bytes_of ''a.txt'')) \<noteq> None \<or> dir_room (mounted ?s)"
    "(2 :: nat) < 2 ^ 31"
    using formatted_mounted formatted_room [of 2] formatted_ok(3) by simp_all
  have "seg (\<lambda>i. of_nat (i + 7)) 0 2 = [7, 8 :: byte]" by (simp add: seg_def numeral_2_eq_2)
  then show ?thesis
    using disk_persistence [OF d x(1,2) nm x(5,3,4), of "\<lambda>i. of_nat (i + 7)" "\<lambda>_. 0" "\<lambda>_. 0xAA"] by fastforce
qed

text \<open>
  C28: A disk without a valid parameter block is formatted at boot: the mounted volume is
  consistent and empty, its 1022 clusters with a table entry are all free, and the partition on the
  disk holds the formatted volume.
\<close>

theorem disk_format_correct:
  assumes "disk_ok ata_read ata_write content"
    and "\<not> bpb_valid (\<lambda>i. content d (262 * 512 + i))"
  shows "\<exists>u d'. diskfs_init ata_read ata_write 0 buf d = Some (u, d') \<and> disk_available u \<and>
           disk_mounted (mounted u) \<and> fs_map (mounted u) = Map.empty \<and> free_pool (mounted u) = {2..<1024} \<and>
           (\<forall>i < DISKFS_SIZE. content d' (262 * 512 + i) = format_volume i)"
proof -
  let ?b = "blit buf 0 (content d) (262 * 512) (2048 * 512)"
  obtain d1 where r: "read_partition ata_read buf d = (0, ?b, d1)"
    using read_loop_ok [OF assms(1), of 2048 262 0 buf d] by (auto simp: read_partition_def diskfs_consts)
  have "agree 0 24 (\<lambda>i. content d (262 * 512 + i)) ?b" by (simp add: agree_def)
  then have nb: "\<not> bpb_valid ?b" using assms(2) bpb_valid_cong by blast
  obtain d2 where w: "write_partition ata_write format_volume d1 = (0, d2)"
    "content d2 = blit (content d1) (262 * 512) format_volume 0 (2048 * 512)"
    using write_loop_ok [OF assms(1), of 2048 262 0 format_volume d1]
    by (auto simp: write_partition_def diskfs_consts)
  have "diskfs_init ata_read ata_write 0 buf d = Some (\<lparr>disk_available = True, mounted = formatted\<rparr>, d2)"
    unfolding diskfs_init_def r using nb w(1) by (simp add: format_mount)
  moreover have "fs_map formatted = Map.empty" using formatted_ok(2) by (rule ext)
  ultimately show ?thesis
    using formatted_mounted formatted_free w(2)
    by (intro exI conjI) (assumption | simp add: diskfs_consts)+
qed

theorem disk_format_correct_witness:
  "\<exists>u d'. diskfs_init ram_read ram_write 0 (\<lambda>_. 0) (\<lambda>_. 0xFF) = Some (u, d') \<and>
     disk_mounted (mounted u) \<and> d' (262 * 512) = 0xEB \<and> d' (262 * 512 + 512) = 0xF8"
proof -
  have d: "disk_ok ram_read ram_write (\<lambda>d. d)" by (simp add: disk_ok_def ram_read_def ram_write_def)
  have "\<not> bpb_valid (\<lambda>i. 0xFF)" by (simp add: bpb_valid_def)
  with disk_format_correct [OF d, of "\<lambda>_. 0xFF" "\<lambda>_. 0"]
  obtain u d' where u: "diskfs_init ram_read ram_write 0 (\<lambda>_. 0) (\<lambda>_. 0xFF) = Some (u, d')"
    "disk_mounted (mounted u)" "\<forall>i < DISKFS_SIZE. d' (262 * 512 + i) = format_volume i" by blast
  have "d' (262 * 512 + 0) = format_volume 0" "d' (262 * 512 + 512) = format_volume 512"
    using spec [OF u(3), of 0] spec [OF u(3), of 512] by (simp_all add: diskfs_consts)
  then have "d' (262 * 512) = 0xEB" "d' (262 * 512 + 512) = 0xF8"
    by (simp_all add: format_volume_def Let_def)
  with u(1,2) show ?thesis by blast
qed

text \<open>
  The formatted volume counts 2040 data clusters, but three table sectors hold 1024 entries: the
  entry of cluster 1024, a cluster the allocator hands out, is the first directory entry's name.
\<close>

lemma disk_table_overlaps_directory:
  "1024 < cluster_count formatted + 2" "fat_entry_pos formatted 1024 = dir_pos formatted 0"
  "vol (fat12_write_fat 1024 0xFFF s) (fat_entry_pos s 1024) = 0xFF"
  by (simp_all add: formatted_geom fat_entry_pos_eq write_fat_vol Let_def)

end
