(* ===== verification/RamDiskSpec.thy ===== *)
theory RamDiskSpec
  imports DiskFsSpec
begin

text \<open>
  The volume that \<open>ramdisk_init\<close> builds, with its own cluster and entry writers, is a consistent
  FAT12 volume holding exactly the five sample files: each \<open>add_file\<close> of a file of at most one
  cluster is the corresponding update of \<open>fs_map\<close>.
\<close>

definition ram_geom :: "mem \<Rightarrow> fat" where
  "ram_geom m = \<lparr>vol = m, bytes_per_sector = 512, sectors_per_cluster = 1, reserved_sectors = 1,
     num_fats = 1, root_entry_count = 32, total_sectors = 512, sectors_per_fat = 2,
     root_dir_offset = 1536, root_dir_sectors = 2, data_start_offset = 2560\<rparr>"

lemma ram_geom_fields [simp]:
  "vol (ram_geom m) = m" "root_entry_count (ram_geom m) = 32" "root_dir_offset (ram_geom m) = 1536"
  "data_start_offset (ram_geom m) = 2560" "cluster_bytes (ram_geom m) = 512"
  "fat_offset (ram_geom m) = 512" "dir_pos (ram_geom m) i = 1536 + 32 * i"
  "cluster_count (ram_geom m) = 507" "fat_limit (ram_geom m) = 509" "geom_ok (ram_geom m)"
proof -
  show "vol (ram_geom m) = m" "root_entry_count (ram_geom m) = 32" "root_dir_offset (ram_geom m) = 1536"
  "data_start_offset (ram_geom m) = 2560" by (simp_all add: ram_geom_def)
  show a: "cluster_bytes (ram_geom m) = 512"
  "fat_offset (ram_geom m) = 512" "dir_pos (ram_geom m) i = 1536 + 32 * i"
    by (simp_all add: ram_geom_def cluster_bytes_def fat_offset_def u32_def dir_pos_def)
  show b: "cluster_count (ram_geom m) = 507"
    unfolding cluster_count_def a by (simp add: ram_geom_def)
  show "fat_limit (ram_geom m) = 509" unfolding fat_limit_def a b by (simp add: ram_geom_def)
  show "geom_ok (ram_geom m)" unfolding geom_ok_def a b by (simp add: ram_geom_def)
qed

lemma ram_geom_update [simp]: "ram_geom m\<lparr>vol := m'\<rparr> = ram_geom m'"
  by (simp add: ram_geom_def)

lemma same_geom_ram [simp]: "same_geom (ram_geom m) (ram_geom m')"
  by (simp add: same_geom_def)

text \<open>The RAM disk's own table writer is the driver's on this geometry.\<close>

lemma set_fat_write_fat:
  "c < 65536 \<Longrightarrow> ram_geom (fat12_set_fat c x m) = fat12_write_fat c x (ram_geom m)"
proof -
  assume "c < 65536"
  then have "fat_entry_pos (ram_geom m) c = 512 + c + c div 2"
    by (simp add: fat_entry_pos_def Let_def ram_geom_def u32_def)
  then show ?thesis
    by (simp add: fat12_set_fat_def fat12_write_fat_def Let_def FAT_OFFSET_def RESERVED_SECTORS_def SECTOR_SIZE_def)
qed

lemma put_bytes_blit: "put_bytes m p cs = blit m p (\<lambda>i. cs ! i) 0 (length cs)"
proof (induction cs arbitrary: m p)
  case (Cons c cs)
  have "blit (m(p := c)) (Suc p) (\<lambda>i. cs ! i) 0 (length cs) =
      blit (m(p := (c # cs) ! 0)) (Suc p) (\<lambda>i. (c # cs) ! i) (Suc 0) (length cs)"
    by (rule ext) (simp add: blit_def)
  also have "\<dots> = blit m p (\<lambda>i. (c # cs) ! i) 0 (Suc (length cs))" by (rule blit_step)
  finally show ?case unfolding put_bytes.simps Cons.IH by simp
qed simp

lemma write16_put16: "write16 p v m = put16 p v m"
  by (simp add: write16_def put16_def)

lemma write32_put32: "v < 2 ^ 32 \<Longrightarrow> write32 p v m = put32 p v m"
proof -
  have "(word_of_nat (v mod 65536) :: byte) = word_of_nat v"
    "(word_of_nat (v mod 65536 div 256) :: byte) = word_of_nat (v div 256)"
  proof -
    have "v mod 65536 mod 256 = v mod 256" by (rule mod_mod_cancel) simp
    then show "(word_of_nat (v mod 65536) :: byte) = word_of_nat v"
      by (simp add: word_of_nat_eq_iff take_bit_eq_mod)
    have "v mod (256 * 256) = 256 * (v div 256 mod 256) + v mod 256" by (rule mod_mult2_eq)
    then have "v mod 65536 div 256 = v div 256 mod 256" by simp
    then show "(word_of_nat (v mod 65536 div 256) :: byte) = word_of_nat (v div 256)"
      by (simp add: word_of_nat_eq_iff take_bit_eq_mod)
  qed
  moreover have "v div 65536 div 256 = v div 16777216" by (simp add: div_mult2_eq [symmetric])
  ultimately show ?thesis
    by (simp add: write32_def put32_def put16_def fun_upd_twist numeral_3_eq_3)
qed

section \<open>Adding a file of one cluster\<close>

definition padded :: "nat \<Rightarrow> byte list \<Rightarrow> byte list" where
  "padded n cs = map to_upper (take n cs) @ replicate (n - length cs) SPACE"

lemma add_clusters_one:
  assumes "0 < length data" "length data \<le> 512" "next_free_cluster r = c" "2 \<le> c" "c < 509"
  shows "add_clusters (length data) data (length data) 0 r =
    (True, r\<lparr>rd_mem := fat12_set_fat c 0xFFF
              (blit (rd_mem r) (2560 + (c - 2) * 512) (\<lambda>i. data ! i) 0 (length data)),
             next_free_cluster := c + 1\<rparr>)"
proof -
  obtain n where n: "length data = Suc n" using assms(1) by (cases "length data") auto
  have d: "TOTAL_SECTORS * SECTOR_SIZE = 262144"
    "SECTORS_PER_CLUSTER * SECTOR_SIZE = 512" "DATA_OFFSET = 2560"
    by (simp_all add: ramdisk_consts)
  have z: "add_clusters k data 0 w r' = (True, r')" for k w r' by (cases k) simp_all
  have ch: "(if Suc n < 512 then Suc n else 512) = Suc n" using assms(2) n by simp
  have "c - 2 < 507" "n \<le> 511" using assms n by simp_all
  then show ?thesis
    using assms(3-5) ch unfolding n by (simp add: d z Let_def u16_id)
qed

text \<open>The state of \<open>ramdisk_init\<close> after \<open>k\<close> files.\<close>

definition ram_state :: "nat \<Rightarrow> ramdisk \<Rightarrow> bool" where
  "ram_state k r \<longleftrightarrow> fs_ok (ram_geom (rd_mem r)) \<and> next_free_cluster r = 2 + k \<and> next_dirent r = k \<and>
     (\<forall>j < k. rd_mem r (1536 + 32 * j) \<noteq> 0) \<and> (\<forall>j. k \<le> j \<and> j < 32 \<longrightarrow> rd_mem r (1536 + 32 * j) = 0) \<and>
     {2 + k..<509} \<subseteq> free_pool (ram_geom (rd_mem r))"

lemma add_file_map:
  assumes r: "ram_state k r" and k: "k < 31" and data: "0 < length data" "length data \<le> 512"
    and ext: "length name \<le> 8" "length ext \<le> 3"
    and n83: "n83 = padded 8 name @ padded 3 ext" "n83 ! 0 \<noteq> 0" "n83 ! 0 \<noteq> 0xE5"
    and fresh: "fs_map (ram_geom (rd_mem r)) n83 = None"
  shows "ram_state (Suc k) (add_file name ext data r)"
    and "fs_map (ram_geom (rd_mem (add_file name ext data r))) =
           (fs_map (ram_geom (rd_mem r)))(n83 \<mapsto> data)"
proof -
  let ?s = "ram_geom (rd_mem r)" and ?c = "2 + k" and ?n = "length data" and ?data = "\<lambda>i. data ! i"
  have ok: "fs_ok ?s" and cf: "?c \<in> free_pool ?s" and st: "next_free_cluster r = ?c" "next_dirent r = k"
    using r k by (auto simp: ram_state_def)
  let ?w0 = "\<lparr>ws_fat = ?s, ws_first = 0, ws_prev = 0, ws_written = 0\<rparr>"
  let ?w = "write_cluster ?data ?n ?c ?w0"
  have n31: "?n < 2 ^ 31" using data by simp
  have wr: "writing ?s ?data ?n [?c] ?w"
    using writing_step [OF writing_start ram_geom_fields(10) n31, where data = ?data and c = ?c] cf data by simp
  have u: "u32 512 = 512" "u32 ?n = ?n" using data by (auto simp: u32_def)
  have off: "cluster_to_offset ?s (Suc (Suc k)) = 2560 + k * 512"
    using cluster_range(1) [of ?s ?c] k by simp
  define m1 where "m1 = fat12_set_fat ?c 0xFFF (blit (rd_mem r) (2560 + (?c - 2) * 512) ?data 0 ?n)"
  have ch: "(if ?n < 512 then ?n else 512) = ?n" using data by simp
  have wf: "ws_fat ?w = ram_geom m1" "ws_first ?w = ?c" "ws_written ?w = ?n"
    using k data by (simp_all add: write_cluster_def Let_def off u ch m1_def set_fat_write_fat)
  define dir where "dir = 1536 + 32 * k"
  define m2 where "m2 = (put_bytes (put_bytes (blit m1 dir (\<lambda>_. SPACE) 0 11) dir (map to_upper (take 8 name)))
      (dir + 8) (map to_upper (take 3 ext)))(dir + 11 := 0x20)"
  define m3 where "m3 = put32 (dir + 28) ?n (put16 (dir + 26) ?c m2)"
  have af: "add_file name ext data r = \<lparr>rd_mem = m3, next_free_cluster = ?c + 1, next_dirent = Suc k\<rparr>"
  proof -
    have "ROOTDIR_OFFSET + k * 32 = dir" by (simp add: ramdisk_consts dir_def)
    moreover have "\<not> k \<ge> ROOT_DIR_ENTRIES" using k by (simp add: ramdisk_consts)
    moreover have "?n < 2 ^ 32" using data by simp
    ultimately show ?thesis
      using k by (intro ramdisk.equality) (simp_all add: add_file_def st add_clusters_one [OF data st(1)] Let_def m1_def m2_def m3_def
          write16_put16 write32_put32 del: put_bytes.simps put_bytes_simps)
  qed
  let ?t = "ram_geom m3"
  have se: "?t = set_entry k ?c ?n (ram_geom m2)"
    by (simp add: set_entry_def Let_def m3_def dir_def)
  have cn: "?c < 65536" using k by simp
  note f = set_entry_fields [OF cn n31, where i = k and s = "ram_geom m2", folded se]
  have m2out: "m2 a = m1 a" if "a < dir \<or> dir + 32 \<le> a" for a
    using that ext by (auto simp: m2_def put_bytes_blit)
  have m2name: "seg m2 dir 11 = n83"
  proof -
    have "11 = 8 + (3 :: nat)" by simp
    then have "seg m2 dir 11 = seg m2 dir 8 @ seg m2 (dir + 8) 3" by (metis seg_append)
    moreover have "seg m2 dir 8 = padded 8 name"
      using ext by (auto simp: list_eq_iff_nth_eq padded_def m2_def put_bytes_blit blit_def nth_append)
    moreover have "seg m2 (dir + 8) 3 = padded 3 ext"
      using ext by (auto simp: list_eq_iff_nth_eq padded_def m2_def put_bytes_blit blit_def nth_append)
    ultimately show ?thesis using n83(1) by simp
  qed
  have m2first: "m2 dir = n83 ! 0"
  proof -
    have "seg m2 dir 11 ! 0 = m2 (dir + 0)" by (rule nth_seg) simp
    then show ?thesis using m2name by simp
  qed
  have slot: "rd_mem r (1536 + 32 * k) = 0" "\<forall>j < k. rd_mem r (1536 + 32 * j) \<noteq> 0"
    using r k by (auto simp: ram_state_def)
  have nu: "\<not> entry_used ?s k" using slot by (simp add: entry_used_def)
  have lk: "lookup ?s n83 = None" using fresh by (simp add: fs_map_def)
  have s1: "?s = free_clusters (old_chain ?s n83) ?s"
    by (simp add: old_chain_def lk free_clusters_def)
  have t1: "same_geom (ws_fat ?w) ?t" unfolding wf(1) by simp
  have out: "m3 a = m1 a" if "a < dir \<or> dir + 32 \<le> a" for a
    using that f(5) [of a] m2out [of a] by (simp add: dir_def)
  have out': "vol ?t a = vol (ws_fat ?w) a" if "a < dir_pos ?s k \<or> dir_pos ?s k + 32 \<le> a" for a
    unfolding wf(1) using out [of a] that by (simp add: dir_def)
  have idx: "k < root_entry_count ?s" "\<forall>j < k. vol ?s (dir_pos ?s j) \<noteq> 0"
    "lookup ?s n83 = Some k \<or> lookup ?s n83 = None \<and> \<not> entry_used ?s k"
    using k slot nu lk by simp_all
  have name: "vol ?t (dir_pos ?s k) \<noteq> 0" "vol ?t (dir_pos ?s k) \<noteq> 0xE5" "dir_name ?t k = n83"
    using f(3,6) m2first m2name n83 by (simp_all add: dir_def dir_name_def)
  have "dir_attr ?t k = 0x20" using f(4) by (simp add: dir_attr_def dir_def m2_def)
  then have attr: "dir_attr ?t k AND 0x08 = 0" "dir_attr ?t k AND 0x10 = 0" by simp_all
  have first: "dir_first_cluster ?t k = (if ?n = 0 then 0 else ws_first ?w)"
    unfolding wf(2) using f(1) data by simp
  note inst = install_entry [OF ok s1 wr wf(3) n31 t1 out' idx name attr f(2) first]
  show "fs_map (ram_geom (rd_mem (add_file name ext data r))) = (fs_map ?s)(n83 \<mapsto> data)"
  proof -
    have "seg ?data 0 ?n = data" by (simp add: list_eq_iff_nth_eq)
    then show ?thesis unfolding af ramdisk.select_convs using inst(2) by (simp only:)
  qed
  have rs: "root_same ?s (ram_geom m1)" using wr unfolding writing_def wf(1) by blast
  have other: "m3 (1536 + 32 * j) = rd_mem r (1536 + 32 * j)" if "j < 32" "j \<noteq> k" for j
  proof -
    have "m3 (1536 + 32 * j) = m1 (1536 + 32 * j)" using that by (intro out) (auto simp: dir_def)
    also have "\<dots> = rd_mem r (1536 + 32 * j)" using rs that by (simp add: agree_def)
    finally show ?thesis .
  qed
  have k0: "m3 (1536 + 32 * k) \<noteq> 0" using f(6) m2first n83 by (simp add: dir_def)
  have free: "x \<in> free_pool ?t" if "2 + Suc k \<le> x" "x < 509" for x
  proof -
    have "fat12_read_fat ?t x = fat12_read_fat (ram_geom m1) x"
      by (rule read_fat_above) (use that out in \<open>auto simp: dir_def\<close>)
    also have "\<dots> = fat12_read_fat ?s x" using wr that unfolding writing_def wf(1) by simp
    finally have e: "fat12_read_fat ?t x = fat12_read_fat ?s x" .
    have "x \<in> {2 + k..<509}" using that by simp
    then have "x \<in> free_pool ?s" using r unfolding ram_state_def by blast
    with e that show ?thesis by (simp add: free_pool_def)
  qed
  show "ram_state (Suc k) (add_file name ext data r)"
    unfolding ram_state_def af ramdisk.select_convs
  proof (intro conjI allI impI)
    show "fs_ok ?t" by (rule inst(1))
    show "m3 (1536 + 32 * j) \<noteq> 0" if "j < Suc k" for j
      using other [of j] k0 slot(2) that k by (cases "j = k") auto
    show "m3 (1536 + 32 * j) = 0" if "Suc k \<le> j \<and> j < 32" for j
      using other [of j] r that by (auto simp: ram_state_def)
    show "{2 + Suc k..<509} \<subseteq> free_pool ?t" using free by auto
  qed simp_all
qed

section \<open>The five sample files\<close>

lemma ramdisk_empty_state: "ram_state 0 ramdisk_empty" "fs_map (ram_geom (rd_mem ramdisk_empty)) n = None"
proof -
  let ?m = "rd_mem ramdisk_empty"
  have z: "?m a = 0" if "515 \<le> a" for a
    using that by (simp add: ramdisk_empty_def Let_def fat12_set_fat_def FAT_OFFSET_def
        RESERVED_SECTORS_def SECTOR_SIZE_def format_bpb_def write16_def write32_def)
  have e: "?m (1536 + 32 * i) = 0" for i by (rule z) simp
  then have nu: "\<not> entry_used (ram_geom ?m) i" for i by (simp add: entry_used_def)
  then have nf: "\<not> is_file (ram_geom ?m) i" for i by (simp add: is_file_def)
  have ok: "fs_ok (ram_geom ?m)"
    using nu nf e by (simp add: fs_ok_def end_marked_def names_unique_def chains_apart_def)
  then show "fs_map (ram_geom ?m) n = None"
    using nf fs_map_Some_iff [of "ram_geom ?m" n] by (cases "fs_map (ram_geom ?m) n") auto
  have "c \<in> free_pool (ram_geom ?m)" if "2 \<le> c" "c < 509" for c
  proof -
    have "1 \<le> c div 2" using that by simp
    then have p: "fat_entry_pos (ram_geom ?m) c \<ge> 515"
      using that by (simp add: fat_entry_pos_eq)
    then have "read16w ?m (fat_entry_pos (ram_geom ?m) c) = 0"
      by (simp add: read16w_def z)
    then show ?thesis using that by (simp add: free_pool_def fat12_read_fat_def Let_def)
  qed
  then show "ram_state 0 ramdisk_empty"
    using ok e by (auto simp: ram_state_def) (simp_all add: ramdisk_empty_def Let_def)
qed

definition name_readme :: "byte list" where "name_readme = bytes_of ''README  TXT''"
definition name_hello :: "byte list" where "name_hello = bytes_of ''HELLO   TXT''"
definition name_colors :: "byte list" where "name_colors = bytes_of ''COLORS  TXT''"
definition name_crt0 :: "byte list" where "name_crt0 = bytes_of ''CRT0    H  ''"
definition name_hello_c :: "byte list" where "name_hello_c = bytes_of ''HELLO   C  ''"

lemmas sample_names = name_readme_def name_hello_def name_colors_def name_crt0_def name_hello_c_def

lemma padded_names:
  "padded 8 (bytes_of ''readme'') @ padded 3 (bytes_of ''txt'') = name_readme"
  "padded 8 (bytes_of ''hello'') @ padded 3 (bytes_of ''txt'') = name_hello"
  "padded 8 (bytes_of ''colors'') @ padded 3 (bytes_of ''txt'') = name_colors"
  "padded 8 (bytes_of ''crt0'') @ padded 3 (bytes_of ''h'') = name_crt0"
  "padded 8 (bytes_of ''hello'') @ padded 3 (bytes_of ''c'') = name_hello_c"
  by code_simp+

lemma sample_sizes:
  "length file_readme = 167" "length file_hello = 50" "length file_colors = 81"
  "length file_crt0 = 397" "length file_hello_c = 30"
  by (simp_all add: file_readme_def file_hello_def file_colors_def file_crt0_def file_hello_c_def
      CRLF_def LF_def)

lemma sample_nonempty:
  "file_readme \<noteq> []" "file_hello \<noteq> []" "file_colors \<noteq> []" "file_crt0 \<noteq> []" "file_hello_c \<noteq> []"
  using sample_sizes by auto

lemma sample_names_distinct:
  "name_hello \<noteq> name_readme" "name_colors \<noteq> name_readme" "name_colors \<noteq> name_hello"
  "name_crt0 \<noteq> name_readme" "name_crt0 \<noteq> name_hello" "name_crt0 \<noteq> name_colors"
  "name_hello_c \<noteq> name_readme" "name_hello_c \<noteq> name_hello" "name_hello_c \<noteq> name_colors"
  "name_hello_c \<noteq> name_crt0"
  by (simp_all add: sample_names)

lemma sample_first:
  "name_readme ! 0 \<noteq> 0" "name_readme ! 0 \<noteq> 0xE5" "name_hello ! 0 \<noteq> 0" "name_hello ! 0 \<noteq> 0xE5"
  "name_colors ! 0 \<noteq> 0" "name_colors ! 0 \<noteq> 0xE5" "name_crt0 ! 0 \<noteq> 0" "name_crt0 ! 0 \<noteq> 0xE5"
  "name_hello_c ! 0 \<noteq> 0" "name_hello_c ! 0 \<noteq> 0xE5"
  by (simp_all add: sample_names)

text \<open>No file operation touches the parameter block.\<close>

definition boot_block :: "mem \<Rightarrow> bool" where
  "boot_block m \<longleftrightarrow> agree 0 24 (format_bpb (\<lambda>_. 0)) m"

lemma boot_block_empty: "boot_block (rd_mem ramdisk_empty)"
  by (simp add: boot_block_def agree_def ramdisk_empty_def Let_def fat12_set_fat_def FAT_OFFSET_def
      RESERVED_SECTORS_def SECTOR_SIZE_def)

lemma set_fat_low: "a < 512 \<Longrightarrow> fat12_set_fat c x m a = m a"
  by (simp add: fat12_set_fat_def Let_def FAT_OFFSET_def RESERVED_SECTORS_def SECTOR_SIZE_def)

lemma add_clusters_low:
  "a < 512 \<Longrightarrow> rd_mem (snd (add_clusters n data l w r)) a = rd_mem r a"
  by (induction n data l w r rule: add_clusters.induct)
     (auto simp: Let_def set_fat_low ramdisk_consts blit_def)

lemma add_file_boot: "boot_block (rd_mem r) \<Longrightarrow> boot_block (rd_mem (add_file name ext data r))"
proof -
  have "rd_mem (add_file name ext data r) a = rd_mem r a" if "a < 512" for a
    using that add_clusters_low [of a "length data" data "length data" 0 r]
    by (auto simp: add_file_def Let_def put_bytes_blit write16_def write32_def ramdisk_consts
        split: prod.split bool.split)
  then show "boot_block (rd_mem r) \<Longrightarrow> ?thesis" by (simp add: boot_block_def agree_def)
qed

lemma mount_ram: "boot_block (rd_mem r) \<Longrightarrow> fat12_init (rd_mem r) = Some (ram_geom (rd_mem r))"
proof -
  assume "boot_block (rd_mem r)"
  then have a: "agree 0 24 (format_bpb (\<lambda>_. 0)) (rd_mem r)" by (simp add: boot_block_def)
  have "fat12_init (format_bpb (\<lambda>_. 0)) = Some (ram_geom (format_bpb (\<lambda>_. 0)))"
    by (simp add: fat12_init_def ram_geom_def format_bpb_def write16_def write32_def Let_def read16_eq u32_def
        ramdisk_consts)
  from fat12_init_cong [OF a this] show ?thesis by simp
qed

text \<open>
  C30: The RAM disk that the boot code formats is mounted as a consistent FAT12 volume whose
  files are exactly the five samples with their contents, and whose clusters after the fifth are free.
\<close>

theorem ramdisk_contents:
  "\<exists>f. ramdisk_init = Some f \<and> fs_ok f \<and> {7..<509} \<subseteq> free_pool f \<and>
     fs_map f = [name_readme \<mapsto> file_readme, name_hello \<mapsto> file_hello, name_colors \<mapsto> file_colors,
                 name_crt0 \<mapsto> file_crt0, name_hello_c \<mapsto> file_hello_c]"
proof -
  let ?b = bytes_of
  define r1 where "r1 = add_file (?b ''readme'') (?b ''txt'') file_readme ramdisk_empty"
  define r2 where "r2 = add_file (?b ''hello'') (?b ''txt'') file_hello r1"
  define r3 where "r3 = add_file (?b ''colors'') (?b ''txt'') file_colors r2"
  define r4 where "r4 = add_file (?b ''crt0'') (?b ''h'') file_crt0 r3"
  define r5 where "r5 = add_file (?b ''hello'') (?b ''c'') file_hello_c r4"
  define M where "M r = fs_map (ram_geom (rd_mem r))" for r :: ramdisk
  have M0: "M ramdisk_empty = Map.empty" unfolding M_def using ramdisk_empty_state(2) by (rule ext)
  note [simp] = sample_sizes sample_nonempty sample_names_distinct sample_first
  have 1: "ram_state 1 r1" "M r1 = [name_readme \<mapsto> file_readme]"
    using add_file_map [OF ramdisk_empty_state(1) _ _ _ _ _ padded_names(1) [symmetric]] M0
    by (simp_all add: r1_def M_def)
  have 2: "ram_state 2 r2" "M r2 = [name_readme \<mapsto> file_readme, name_hello \<mapsto> file_hello]"
    using add_file_map [OF 1(1) _ _ _ _ _ padded_names(2) [symmetric]] 1(2)
    by (simp_all add: r2_def M_def numeral_2_eq_2)
  have 3: "ram_state 3 r3" "M r3 = [name_readme \<mapsto> file_readme, name_hello \<mapsto> file_hello,
      name_colors \<mapsto> file_colors]"
    using add_file_map [OF 2(1) _ _ _ _ _ padded_names(3) [symmetric]] 2(2)
    by (simp_all add: r3_def M_def numeral_3_eq_3)
  have 4: "ram_state 4 r4" "M r4 = [name_readme \<mapsto> file_readme, name_hello \<mapsto> file_hello,
      name_colors \<mapsto> file_colors, name_crt0 \<mapsto> file_crt0]"
    using add_file_map [OF 3(1) _ _ _ _ _ padded_names(4) [symmetric]] 3(2)
    by (simp_all add: r4_def M_def)
  have 5: "ram_state 5 r5" "M r5 = [name_readme \<mapsto> file_readme, name_hello \<mapsto> file_hello,
      name_colors \<mapsto> file_colors, name_crt0 \<mapsto> file_crt0, name_hello_c \<mapsto> file_hello_c]"
    using add_file_map [OF 4(1) _ _ _ _ _ padded_names(5) [symmetric]] 4(2)
    by (simp_all add: r5_def M_def)
  have r5: "ramdisk_files = r5"
    by (simp only: ramdisk_files_def Let_def r1_def r2_def r3_def r4_def r5_def)
  have "ramdisk_init = Some (ram_geom (rd_mem r5))"
    unfolding ramdisk_init_def r5
    by (intro mount_ram) (simp only: r1_def r2_def r3_def r4_def r5_def add_file_boot boot_block_empty)
  with 5 show ?thesis unfolding M_def ram_state_def by auto
qed

end
