(* ===== verification/Fat12Names.thy ===== *)
theory Fat12Names
  imports DiskFsSpec
begin

text \<open>
  Names and directory listings: the friendly form that \<open>fat12_list_root\<close> reports converts back to
  the 8.3 name of the entry, so every listed file can be opened by the name it is listed under.
\<close>

section \<open>Names\<close>










section \<open>Listing the directory\<close>






end
