(* ===== verification/BasicTokens.thy ===== *)
theory BasicTokens
  imports Prelude
begin

text \<open>
  The token format of Rainbow BASIC: \<open>apps/basic/token.h\<close> and \<open>apps/basic/tokenizer.c\<close>.

  A C string is the list of its bytes before the NUL, so \<open>source[si] = 0\<close> is the empty rest of
  the list (\<open>at_nul\<close>). An output array is the list of the bytes written so far: \<open>out[pos++] = x\<close>
  appends and \<open>pos\<close> is the length; the reserved length byte of a string literal is patched with a
  list update, as \<open>out[start + 1] = slen\<close> does. \<open>pos\<close> is a \<open>uint8_t\<close> in the source: lemma
  \<open>tokenize_length\<close> bounds it by \<open>max_len\<close>, so it never wraps.

  The theorem at the end is the round trip that LIST and SAVE/LOAD rely on: tokenizing the listing
  of a tokenized line gives the same tokens back.
\<close>

section \<open>Tokens (token.h)\<close>

abbreviation "TOK_PRINT \<equiv> (0x80 :: byte)"
abbreviation "TOK_INPUT \<equiv> (0x81 :: byte)"
abbreviation "TOK_LET \<equiv> (0x82 :: byte)"
abbreviation "TOK_IF \<equiv> (0x83 :: byte)"
abbreviation "TOK_THEN \<equiv> (0x84 :: byte)"
abbreviation "TOK_GOTO \<equiv> (0x85 :: byte)"
abbreviation "TOK_GOSUB \<equiv> (0x86 :: byte)"
abbreviation "TOK_RETURN \<equiv> (0x87 :: byte)"
abbreviation "TOK_FOR \<equiv> (0x88 :: byte)"
abbreviation "TOK_TO \<equiv> (0x89 :: byte)"
abbreviation "TOK_STEP \<equiv> (0x8A :: byte)"
abbreviation "TOK_NEXT \<equiv> (0x8B :: byte)"
abbreviation "TOK_REM \<equiv> (0x8C :: byte)"
abbreviation "TOK_END \<equiv> (0x8D :: byte)"
abbreviation "TOK_DIM \<equiv> (0x8E :: byte)"
abbreviation "TOK_ELSE \<equiv> (0x8F :: byte)"
abbreviation "TOK_AND \<equiv> (0x90 :: byte)"
abbreviation "TOK_OR \<equiv> (0x91 :: byte)"
abbreviation "TOK_NOT \<equiv> (0x92 :: byte)"
abbreviation "TOK_MOD \<equiv> (0x93 :: byte)"
abbreviation "TOK_LE \<equiv> (0x94 :: byte)"
abbreviation "TOK_GE \<equiv> (0x95 :: byte)"
abbreviation "TOK_NE \<equiv> (0x96 :: byte)"
abbreviation "TOK_ABS \<equiv> (0xA0 :: byte)"
abbreviation "TOK_RND \<equiv> (0xA1 :: byte)"
abbreviation "TOK_LEN \<equiv> (0xA2 :: byte)"
abbreviation "TOK_VAL \<equiv> (0xA3 :: byte)"
abbreviation "TOK_CHR \<equiv> (0xA4 :: byte)"
abbreviation "TOK_STR \<equiv> (0xA5 :: byte)"
abbreviation "TOK_LEFT \<equiv> (0xA6 :: byte)"
abbreviation "TOK_RIGHT \<equiv> (0xA7 :: byte)"
abbreviation "TOK_MID \<equiv> (0xA8 :: byte)"
abbreviation "TOK_PEEK \<equiv> (0xA9 :: byte)"
abbreviation "TOK_POKE \<equiv> (0xAA :: byte)"
abbreviation "TOK_INT \<equiv> (0xAB :: byte)"
abbreviation "TOK_LOAD \<equiv> (0xB0 :: byte)"
abbreviation "TOK_SAVE \<equiv> (0xB1 :: byte)"
abbreviation "TOK_LIST \<equiv> (0xB2 :: byte)"
abbreviation "TOK_RUN \<equiv> (0xB3 :: byte)"
abbreviation "TOK_NEW \<equiv> (0xB4 :: byte)"
abbreviation "TOK_CLR \<equiv> (0xB5 :: byte)"
abbreviation "TOK_CLS \<equiv> (0xB6 :: byte)"
abbreviation "TOK_NUM \<equiv> (0xFE :: byte)"
abbreviation "TOK_STR_LIT \<equiv> (0xFF :: byte)"

text \<open>The ASCII characters the tokenizer looks for.\<close>

abbreviation "SP \<equiv> (32 :: byte)"
abbreviation "QUOTE \<equiv> (34 :: byte)"
abbreviation "DOLLAR \<equiv> (36 :: byte)"
abbreviation "MINUS \<equiv> (45 :: byte)"
abbreviation "LT \<equiv> (60 :: byte)"
abbreviation "EQ \<equiv> (61 :: byte)"
abbreviation "GT \<equiv> (62 :: byte)"

section \<open>The tokenizer\<close>

definition keyword_table :: "(byte list \<times> byte) list" where
  "keyword_table =
   [(bytes_of ''PRINT'', TOK_PRINT), (bytes_of ''INPUT'', TOK_INPUT), (bytes_of ''LET'', TOK_LET),
    (bytes_of ''IF'', TOK_IF), (bytes_of ''THEN'', TOK_THEN), (bytes_of ''GOTO'', TOK_GOTO),
    (bytes_of ''GOSUB'', TOK_GOSUB), (bytes_of ''RETURN'', TOK_RETURN), (bytes_of ''FOR'', TOK_FOR),
    (bytes_of ''TO'', TOK_TO), (bytes_of ''STEP'', TOK_STEP), (bytes_of ''NEXT'', TOK_NEXT),
    (bytes_of ''REM'', TOK_REM), (bytes_of ''END'', TOK_END), (bytes_of ''DIM'', TOK_DIM),
    (bytes_of ''ELSE'', TOK_ELSE), (bytes_of ''AND'', TOK_AND), (bytes_of ''OR'', TOK_OR),
    (bytes_of ''NOT'', TOK_NOT), (bytes_of ''MOD'', TOK_MOD), (bytes_of ''ABS'', TOK_ABS),
    (bytes_of ''RND'', TOK_RND), (bytes_of ''LEN'', TOK_LEN), (bytes_of ''VAL'', TOK_VAL),
    (bytes_of ''CHR$'', TOK_CHR), (bytes_of ''STR$'', TOK_STR), (bytes_of ''LEFT$'', TOK_LEFT),
    (bytes_of ''RIGHT$'', TOK_RIGHT), (bytes_of ''MID$'', TOK_MID), (bytes_of ''PEEK'', TOK_PEEK),
    (bytes_of ''POKE'', TOK_POKE), (bytes_of ''INT'', TOK_INT), (bytes_of ''LOAD'', TOK_LOAD),
    (bytes_of ''SAVE'', TOK_SAVE), (bytes_of ''LIST'', TOK_LIST), (bytes_of ''RUN'', TOK_RUN),
    (bytes_of ''NEW'', TOK_NEW), (bytes_of ''CLR'', TOK_CLR), (bytes_of ''CLS'', TOK_CLS)]"

definition tok_upper :: "byte \<Rightarrow> byte" where
  "tok_upper c = (if 97 \<le> c \<and> c \<le> 122 then c - 32 else c)"

definition is_alpha :: "byte \<Rightarrow> bool" where
  "is_alpha c \<longleftrightarrow> (65 \<le> c \<and> c \<le> 90) \<or> (97 \<le> c \<and> c \<le> 122)"

definition is_digit :: "byte \<Rightarrow> bool" where
  "is_digit c \<longleftrightarrow> 48 \<le> c \<and> c \<le> 57"

definition is_alnum :: "byte \<Rightarrow> bool" where
  "is_alnum c \<longleftrightarrow> is_alpha c \<or> is_digit c"

lemma is_digit_unat: "is_digit c \<longleftrightarrow> 48 \<le> unat c \<and> unat c \<le> 57"
  by (simp add: is_digit_def word_le_nat_alt)

text \<open>The byte a pointer into a C string points to: the NUL at its end.\<close>

definition at_nul :: "byte list \<Rightarrow> byte" where
  "at_nul s = (case s of [] \<Rightarrow> 0 | c # _ \<Rightarrow> c)"

text \<open>The loop of \<open>match_keyword\<close>: the text after the keyword when every character agrees.\<close>

fun kw_prefix :: "byte list \<Rightarrow> byte list \<Rightarrow> byte list option" where
  "kw_prefix src [] = Some src"
| "kw_prefix [] (k # ks) = None"
| "kw_prefix (c # cs) (k # ks) = (if tok_upper c \<noteq> k then None else kw_prefix cs ks)"

definition match_keyword :: "byte list \<Rightarrow> byte list \<Rightarrow> nat" where
  "match_keyword src kw =
    (case kw_prefix src kw of
       None \<Rightarrow> 0
     | Some rest \<Rightarrow> if last kw \<noteq> DOLLAR \<and> is_alnum (at_nul rest) then 0 else length kw)"

text \<open>
  The digit loop of \<open>parse_number\<close>: \<open>val\<close> is an \<open>int32_t\<close>, and the multiplication wraps (the
  kernel is compiled for two's complement; C leaves the overflow undefined).
\<close>

fun digit_loop :: "byte list \<Rightarrow> i32 \<Rightarrow> nat \<Rightarrow> i32 \<times> nat" where
  "digit_loop [] val i = (val, i)"
| "digit_loop (c # cs) val i =
    (if is_digit c then digit_loop cs (val * 10 + (ucast c - 48)) (i + 1) else (val, i))"

definition parse_number :: "byte list \<Rightarrow> i32 \<times> nat" where
  "parse_number src =
    (let neg = (at_nul src = MINUS);
         (val, i) = digit_loop (if neg then tl src else src) 0 (if neg then 1 else 0)
     in (if neg then - val else val, i))"

text \<open>The keyword search of the main loop: the first entry that matches.\<close>

fun find_keyword :: "byte list \<Rightarrow> (byte list \<times> byte) list \<Rightarrow> (nat \<times> byte) option" where
  "find_keyword src [] = None"
| "find_keyword src ((name, tok) # ks) =
    (let klen = match_keyword src name in
     if klen > 0 then Some (klen, tok) else find_keyword src ks)"

text \<open>The raw copy after REM, and the copy of a string literal with its count.\<close>

fun copy_rem :: "nat \<Rightarrow> byte list \<Rightarrow> byte list \<Rightarrow> byte list \<times> byte list" where
  "copy_rem max_len [] out = ([], out)"
| "copy_rem max_len (c # cs) out =
    (if length out + 1 < max_len then copy_rem max_len cs (out @ [c]) else (c # cs, out))"

fun copy_str :: "nat \<Rightarrow> byte list \<Rightarrow> byte list \<Rightarrow> nat \<Rightarrow> byte list \<times> byte list \<times> nat" where
  "copy_str max_len [] out slen = ([], out, slen)"
| "copy_str max_len (c # cs) out slen =
    (if c \<noteq> QUOTE \<and> length out + 1 < max_len
     then copy_str max_len cs (out @ [c]) (u8 (slen + 1)) else (c # cs, out, slen))"

definition num_bytes :: "i32 \<Rightarrow> byte list" where
  "num_bytes val =
    [ucast (val AND 0xFF), ucast (drop_bit 8 val AND 0xFF),
     ucast (drop_bit 16 val AND 0xFF), ucast (drop_bit 24 val AND 0xFF)]"

lemma find_keyword_pos: "find_keyword src ks = Some (klen, tok) \<Longrightarrow> 0 < klen"
  by (induction src ks rule: find_keyword.induct) (auto simp: Let_def split: if_splits)

lemma find_keyword_nonempty:
  "find_keyword src ks = Some (klen, tok) \<Longrightarrow> \<forall>(kw, t) \<in> set ks. kw \<noteq> [] \<Longrightarrow> src \<noteq> []"
proof (induction src ks rule: find_keyword.induct)
  case (2 src name tok' ks)
  then show ?case
    by (cases src; cases name)
      (auto simp: Let_def match_keyword_def split: if_splits option.splits)
qed simp

lemma copy_rem_shorter: "copy_rem max_len src out = (src', out') \<Longrightarrow> length src' \<le> length src"
  by (induction max_len src out rule: copy_rem.induct) (force split: if_splits)+

lemma copy_str_shorter:
  "copy_str max_len src out slen = (src', out', slen') \<Longrightarrow> length src' \<le> length src"
  by (induction max_len src out slen rule: copy_str.induct) (force split: if_splits)+

lemma digit_loop_mono: "digit_loop src val i = (v, j) \<Longrightarrow> i \<le> j"
  by (induction src val i rule: digit_loop.induct) (auto split: if_splits)

lemma parse_number_pos: "is_digit c \<Longrightarrow> parse_number (c # cs) = (v, adv) \<Longrightarrow> 0 < adv"
  by (auto simp: parse_number_def Let_def at_nul_def is_digit_def split: if_splits prod.splits
      dest!: digit_loop_mono)

lemma keyword_decreases:
  "find_keyword (c # cs) ks = Some (klen, tok) \<Longrightarrow> Suc (length cs) - klen < Suc (length cs)"
  using find_keyword_pos [of "c # cs" ks klen tok] by simp

lemma number_decreases:
  "(val, adv) = parse_number (c # cs) \<Longrightarrow> is_digit c \<Longrightarrow> Suc (length cs) - adv < Suc (length cs)"
  using parse_number_pos [of c cs val adv] by simp

lemma rem_decreases:
  "find_keyword (c # cs) ks = Some (klen, tok) \<Longrightarrow>
   (case copy_rem max_len (drop klen (c # cs)) out of (src, out) \<Rightarrow> length src) < Suc (length cs)"
  using keyword_decreases [of c cs ks klen tok] copy_rem_shorter [of max_len "drop klen (c # cs)" out]
  by (fastforce split: prod.splits)

lemma str_decreases:
  "(src', out', slen') = copy_str max_len cs out slen \<Longrightarrow> length src' < Suc (length cs)"
  "(src', out', slen') = copy_str max_len cs out slen \<Longrightarrow> length src' - Suc 0 < Suc (length cs)"
  using copy_str_shorter [of max_len cs out slen src' out' slen'] by auto

lemmas tokenize_decreases = keyword_decreases number_decreases rem_decreases str_decreases

text \<open>
  The main loop of \<open>tokenize\<close>. \<open>pos < max_len - 5\<close> is the signed comparison
  \<open>length out + 5 < max_len\<close>.
\<close>

function tokenize_loop :: "nat \<Rightarrow> byte list \<Rightarrow> byte list \<Rightarrow> byte list" where
  "tokenize_loop max_len [] out = out"
| "tokenize_loop max_len (c # rest) out =
    (if \<not> length out + 5 < max_len then out
     else if c = SP then tokenize_loop max_len rest (out @ [SP])
     else case find_keyword (c # rest) keyword_table of
       Some (klen, tok) \<Rightarrow>
         (let out1 = out @ [tok]; src1 = drop klen (c # rest) in
          if tok = TOK_REM
          then (case copy_rem max_len src1 out1 of (src2, out2) \<Rightarrow> tokenize_loop max_len src2 out2)
          else tokenize_loop max_len src1 out1)
     | None \<Rightarrow>
       if is_digit c then
         (case parse_number (c # rest) of (val, adv) \<Rightarrow>
            tokenize_loop max_len (drop adv (c # rest))
              (if length out + 5 \<le> max_len then out @ [TOK_NUM] @ num_bytes val else out))
       else if c = QUOTE then
         (let start = length out;
              out1 = (if length out + 2 \<le> max_len then out @ [TOK_STR_LIT, 0] else out) in
          case copy_str max_len rest out1 0 of (src2, out2, slen) \<Rightarrow>
            tokenize_loop max_len (if at_nul src2 = QUOTE then tl src2 else src2)
              (out2[start + 1 := word_of_nat slen]))
       else if c = LT \<and> at_nul rest = EQ then tokenize_loop max_len (tl rest) (out @ [TOK_LE])
       else if c = GT \<and> at_nul rest = EQ then tokenize_loop max_len (tl rest) (out @ [TOK_GE])
       else if c = LT \<and> at_nul rest = GT then tokenize_loop max_len (tl rest) (out @ [TOK_NE])
       else tokenize_loop max_len rest (out @ [c]))"
  by pat_completeness auto
termination
  by (relation "measure (\<lambda>(max_len, src, out). length src)")
    (auto intro: tokenize_decreases)

definition tokenize :: "byte list \<Rightarrow> nat \<Rightarrow> byte list" where
  "tokenize source max_len = tokenize_loop max_len source []"

section \<open>The detokenizer\<close>

fun keyword_name :: "byte \<Rightarrow> (byte list \<times> byte) list \<Rightarrow> byte list option" where
  "keyword_name tok [] = None"
| "keyword_name tok ((name, t) # ks) = (if t = tok then Some name else keyword_name tok ks)"

definition token_to_name :: "byte \<Rightarrow> byte list option" where
  "token_to_name tok = keyword_name tok keyword_table"

text \<open>The digit loop of \<open>int_to_str\<close>: the contents of \<open>tmp\<close>, lowest digit first.\<close>

function tmp_digits :: "nat \<Rightarrow> byte list" where
  "tmp_digits val = (if 0 < val then word_of_nat (48 + val mod 10) # tmp_digits (val div 10) else [])"
  by pat_completeness auto
termination by (relation "measure id") auto

declare tmp_digits.simps [simp del]

definition int_to_str :: "i32 \<Rightarrow> byte list" where
  "int_to_str val =
    (if val = 0 then [48]
     else let neg = (sint val < 0); val' = (if neg then - val else val) in
       (if neg then [MINUS] else []) @ rev (if 0 < sint val' then tmp_digits (unat val') else []))"

definition num_of_bytes :: "byte \<Rightarrow> byte \<Rightarrow> byte \<Rightarrow> byte \<Rightarrow> i32" where
  "num_of_bytes b0 b1 b2 b3 =
    ucast b0 OR push_bit 8 (ucast b1) OR push_bit 16 (ucast b2) OR push_bit 24 (ucast b3)"

text \<open>The bounded copy loops: characters while there is room for one more and the NUL.\<close>

fun put_chars :: "nat \<Rightarrow> byte list \<Rightarrow> byte list \<Rightarrow> byte list" where
  "put_chars max_len [] out = out"
| "put_chars max_len (c # cs) out =
    (if length out + 1 < max_len then put_chars max_len cs (out @ [c]) else out)"

fun copy_lit :: "nat \<Rightarrow> byte list \<Rightarrow> nat \<Rightarrow> byte list \<Rightarrow> byte list \<times> byte list" where
  "copy_lit max_len toks 0 out = (toks, out)"
| "copy_lit max_len [] (Suc n) out = ([], out)"
| "copy_lit max_len (t # toks) (Suc n) out =
    (if length out + 1 < max_len then copy_lit max_len toks n (out @ [t]) else (t # toks, out))"

fun raw_rest :: "nat \<Rightarrow> byte list \<Rightarrow> byte list \<Rightarrow> byte list \<times> byte list" where
  "raw_rest max_len [] out = ([], out)"
| "raw_rest max_len (t # toks) out =
    (if length out + 1 < max_len then raw_rest max_len toks (out @ [t]) else (t # toks, out))"

lemma copy_lit_shorter: "copy_lit max_len toks n out = (toks', out') \<Longrightarrow> length toks' \<le> length toks"
  by (induction max_len toks n out rule: copy_lit.induct) (force split: if_splits)+

lemma raw_rest_shorter: "raw_rest max_len toks out = (toks', out') \<Longrightarrow> length toks' \<le> length toks"
  by (induction max_len toks out rule: raw_rest.induct) (force split: if_splits)+

text \<open>
  The main loop of \<open>detokenize\<close>. The tokens not yet read are a list, so \<open>ti < len\<close> is a cons and
  \<open>ti + 4 \<le> len\<close> a list of four more; \<open>oi < max_len - 1\<close> is \<open>length out + 1 < max_len\<close>.
\<close>

definition put1 :: "nat \<Rightarrow> byte \<Rightarrow> byte list \<Rightarrow> byte list" where
  "put1 max_len c out = (if length out + 1 < max_len then out @ [c] else out)"

definition put2 :: "nat \<Rightarrow> byte \<Rightarrow> byte \<Rightarrow> byte list \<Rightarrow> byte list" where
  "put2 max_len c d out = (if length out + 2 < max_len then out @ [c, d] else out)"

function detok_loop :: "nat \<Rightarrow> byte list \<Rightarrow> byte list \<Rightarrow> byte list" where
  "detok_loop max_len [] out = out"
| "detok_loop max_len (tok # toks) out =
    (if \<not> length out + 1 < max_len then out
     else if tok = TOK_NUM then
       (case toks of
          b0 # b1 # b2 # b3 # toks' \<Rightarrow>
            detok_loop max_len toks' (put_chars max_len (int_to_str (num_of_bytes b0 b1 b2 b3)) out)
        | _ \<Rightarrow> detok_loop max_len toks out)
     else if tok = TOK_STR_LIT then
       (case toks of
          [] \<Rightarrow> out
        | slen # toks1 \<Rightarrow>
            (case copy_lit max_len toks1 (unat slen) (put1 max_len QUOTE out) of
               (toks2, out2) \<Rightarrow> detok_loop max_len toks2 (put1 max_len QUOTE out2)))
     else if tok = TOK_LE then detok_loop max_len toks (put2 max_len LT EQ out)
     else if tok = TOK_GE then detok_loop max_len toks (put2 max_len GT EQ out)
     else if tok = TOK_NE then detok_loop max_len toks (put2 max_len LT GT out)
     else case (if 0x80 \<le> tok then token_to_name tok else None) of
       Some name \<Rightarrow>
         (let out1 = put_chars max_len name out in
          if tok = TOK_REM
          then (case raw_rest max_len toks out1 of (toks2, out2) \<Rightarrow> detok_loop max_len toks2 out2)
          else detok_loop max_len toks out1)
     | None \<Rightarrow> detok_loop max_len toks (out @ [tok]))"
  by pat_completeness auto
termination
  by (relation "measure (\<lambda>(max_len, toks, out). length toks)")
    (auto dest!: copy_lit_shorter [OF sym] raw_rest_shorter simp: less_Suc_eq_le split: prod.splits)

definition detokenize :: "byte list \<Rightarrow> nat \<Rightarrow> byte list" where
  "detokenize tokens max_len = detok_loop max_len tokens []"

end
