(* ===== verification/BasicVars.thy ===== *)
theory BasicVars
  imports BasicTokens
begin

text \<open>
  The variables of BASIC, \<open>apps/basic/vars.c\<close>: 286 numbers (A to Z, then A0 to Z9) and 26 strings of
  at most 80 characters. A pointer to a variable is its index in the table, NULL is \<^const>\<open>None\<close>.
\<close>

definition MAX_NUM_VARS :: nat where "MAX_NUM_VARS = 286"
definition MAX_STR_VARS :: nat where "MAX_STR_VARS = 26"
definition STR_MAX_LEN :: nat where "STR_MAX_LEN = 80"

record bvars =
  num_vars :: "nat \<Rightarrow> i32"
  str_vars :: "nat \<Rightarrow> mem"

definition vars_clear :: "'a bvars_scheme \<Rightarrow> 'a bvars_scheme" where
  "vars_clear s = s\<lparr>
     num_vars := (\<lambda>i. if i < MAX_NUM_VARS then 0 else num_vars s i),
     str_vars := (\<lambda>r i. if r < MAX_STR_VARS \<and> i < STR_MAX_LEN + 1 then 0 else str_vars s r i)\<rparr>"

definition var_num :: "byte \<Rightarrow> int \<Rightarrow> nat option" where
  "var_num name0 index =
    (let name = (if 97 \<le> name0 \<and> name0 \<le> 122 then name0 - 32 else name0) in
     if name < 65 \<or> 90 < name then None
     else if index < 0 then Some (unat name - 65)
     else if index \<le> 9 then Some (26 + (unat name - 65) * 10 + nat index)
     else None)"

definition var_str :: "byte \<Rightarrow> nat option" where
  "var_str name0 =
    (let name = (if 97 \<le> name0 \<and> name0 \<le> 122 then name0 - 32 else name0) in
     if name < 65 \<or> 90 < name then None else Some (unat name - 65))"

definition is_upper :: "byte \<Rightarrow> bool" where
  "is_upper c \<longleftrightarrow> 65 \<le> c \<and> c \<le> 90"

lemma upper_unat: "is_upper c \<longleftrightarrow> 65 \<le> unat c \<and> unat c \<le> 90"
  by (simp add: is_upper_def word_le_nat_alt)

lemma var_num_upper:
  assumes "is_upper c"
  shows "index < 0 \<Longrightarrow> var_num c index = Some (unat c - 65)"
    and "0 \<le> index \<Longrightarrow> index \<le> 9 \<Longrightarrow> var_num c index = Some (26 + (unat c - 65) * 10 + nat index)"
    and "var_str c = Some (unat c - 65)"
  using assms by (auto simp: var_num_def var_str_def is_upper_def word_le_nat_alt word_less_nat_alt)

text \<open>Different variables have different slots, and every slot is inside its table.\<close>

lemma var_num_slot:
  assumes "is_upper c" and "-1 \<le> i" and "i \<le> 9"
  shows "\<exists>n. var_num c i = Some n \<and> n < MAX_NUM_VARS"
proof -
  have "unat c \<le> 90" using assms(1) upper_unat by blast
  then show ?thesis
    using var_num_upper(1,2) [OF assms(1), where index = i] assms(2,3) by (cases "i < 0") (auto simp: MAX_NUM_VARS_def)
qed

lemma digits_unique:
  fixes x y i j :: nat
  assumes "x * 10 + i = y * 10 + j" and "i < 10" and "j < 10"
  shows "x = y \<and> i = j"
  using assms by presburger

lemma var_num_inj:
  assumes "is_upper c" "is_upper d" "-1 \<le> i" "i \<le> 9" "-1 \<le> j" "j \<le> 9"
    and "var_num c i = var_num d j"
  shows "c = d \<and> i = j"
proof -
  have c: "65 \<le> unat c" "unat c \<le> 90" "65 \<le> unat d" "unat d \<le> 90"
    using assms(1,2) upper_unat by blast+
  note v = var_num_upper(1,2) [OF assms(1), where index = i] var_num_upper(1,2) [OF assms(2), where index = j]
  consider "i < 0" "j < 0" | "i < 0" "0 \<le> j" | "0 \<le> i" "j < 0" | "0 \<le> i" "0 \<le> j" by linarith
  then show ?thesis
  proof cases
    case 1
    then show ?thesis using v assms c by (auto simp: word_unat_eq_iff)
  next
    case 4
    then have "(unat c - 65) * 10 + nat i = (unat d - 65) * 10 + nat j" and "nat i < 10" "nat j < 10"
      using v assms by auto
    then have "unat c - 65 = unat d - 65" and "nat i = nat j"
      using digits_unique by blast+
    then show ?thesis using c 4 by (auto simp: word_unat_eq_iff)
  qed (use v assms c in auto)
qed

end
