(* ===== verification/BasicExpr.thy ===== *)
theory BasicExpr
  imports BasicVars CString "HOL-Library.Monad_Syntax" "HOL-Library.Signed_Division"
begin

text \<open>
  The expression evaluator of BASIC, \<open>apps/basic/expr.c\<close>: recursive descent over the token array,
  with a pool for string results.

  \<^item> The tokens are an array with its length; a position is a \<open>uint8_t\<close>. It advances by one only
    where a token was seen below the length, so only the steps over literals can wrap (\<open>u8\<close>).
  \<^item> A string value points into the pool; the pointer is the offset in \<open>spool\<close>.
  \<^item> A parser returns the value, the state and the position, or \<^const>\<open>None\<close> when the C code traps
    (\<open>INT_MIN / -1\<close>), runs over a string without end, or needs more than \<open>LOOPS\<close> rounds of a loop
    or levels of nesting. A line has at most 255 tokens, and each round and level uses one, so 256
    is enough (theory \<open>BasicExprSpec\<close> proves it for rendered expressions).
  \<^item> PEEK reads \<open>ram\<close>, the memory that is not part of the modelled state.
\<close>

section \<open>State and values\<close>

record benv = bvars +
  spool :: mem
  spool_pos :: nat
  expr_error :: bool
  rnd_state :: i32
  ram :: mem

datatype bas_value = VAL_NUM i32 | VAL_STR nat nat

type_synonym parse_result = "(bas_value \<times> benv \<times> nat) option"
type_synonym parser = "benv \<Rightarrow> nat \<Rightarrow> parse_result"

definition STRING_POOL_SIZE :: nat where "STRING_POOL_SIZE = 2048"

definition string_pool_alloc :: "benv \<Rightarrow> nat \<Rightarrow> nat option \<times> benv" where
  "string_pool_alloc s len =
    (if spool_pos s + len + 1 > STRING_POOL_SIZE then (None, s)
     else (Some (spool_pos s), s\<lparr>spool_pos := spool_pos s + len + 1\<rparr>))"

definition string_pool_reset :: "benv \<Rightarrow> benv" where
  "string_pool_reset s = s\<lparr>spool_pos := 0\<rparr>"

definition expr_clear_error :: "benv \<Rightarrow> benv" where
  "expr_clear_error s = s\<lparr>expr_error := False\<rparr>"

text \<open>\<open>expr_error = true; return make_num(0);\<close>\<close>

definition fail :: "benv \<Rightarrow> nat \<Rightarrow> parse_result" where
  "fail s pos = Some (VAL_NUM 0, s\<lparr>expr_error := True\<rparr>, pos)"

definition basic_rnd :: "benv \<Rightarrow> i32 \<Rightarrow> i32 \<times> benv" where
  "basic_rnd s max_val =
    (let r1 = rnd_state s XOR push_bit 13 (rnd_state s);
         r2 = r1 XOR drop_bit 17 r1;
         r3 = r2 XOR push_bit 5 r2
     in (if sint max_val \<le> 0 then 0 else r3 mod max_val, s\<lparr>rnd_state := r3\<rparr>))"

definition peek_tok :: "mem \<Rightarrow> nat \<Rightarrow> nat \<Rightarrow> byte" where
  "peek_tok tokens len pos = (if pos \<ge> len then 0 else tokens pos)"

function skip_spaces :: "mem \<Rightarrow> nat \<Rightarrow> nat \<Rightarrow> nat" where
  "skip_spaces tokens len pos =
    (if pos < len \<and> tokens pos = SP then skip_spaces tokens len (pos + 1) else pos)"
  by pat_completeness auto
termination by (relation "measure (\<lambda>(t, len, pos). len - pos)") auto

declare skip_spaces.simps [simp del]

definition read_num_literal :: "mem \<Rightarrow> nat \<Rightarrow> i32 \<times> nat" where
  "read_num_literal tokens pos =
    (num_of_bytes (tokens pos) (tokens (pos + 1)) (tokens (pos + 2)) (tokens (pos + 3)), u8 (pos + 4))"

text \<open>The copy of \<open>int_to_str\<close> in this file, and the parser of VAL on the bytes of the string.\<close>

definition i32_to_str :: "i32 \<Rightarrow> byte list" where
  "i32_to_str val =
    (if val = 0 then [48]
     else let neg = (sint val < 0); val' = (if neg then - val else val) in
       (if neg then [MINUS] else []) @ rev (if 0 < sint val' then tmp_digits (unat val') else []))"

definition str_to_i32 :: "byte list \<Rightarrow> i32" where
  "str_to_i32 s =
    (let s1 = dropWhile (\<lambda>c. c = SP) s;
         neg = (at_nul s1 = MINUS);
         val = fst (digit_loop (if neg then tl s1 else s1) 0 0)
     in if neg then - val else val)"

definition is_letter :: "byte \<Rightarrow> bool" where
  "is_letter c \<longleftrightarrow> is_upper c \<or> (97 \<le> c \<and> c \<le> 122)"

definition upcase :: "byte \<Rightarrow> byte" where
  "upcase c = (if 97 \<le> c \<and> c \<le> 122 then c - 32 else c)"

section \<open>Functions\<close>

text \<open>\<open>skip_spaces\<close> and an optional separator.\<close>

definition skip_opt :: "byte \<Rightarrow> mem \<Rightarrow> nat \<Rightarrow> nat \<Rightarrow> nat" where
  "skip_opt c tokens len pos =
    (let pos' = skip_spaces tokens len pos in if peek_tok tokens len pos' = c then pos' + 1 else pos')"

abbreviation "COMMA \<equiv> (44 :: byte)"
abbreviation "LPAREN \<equiv> (40 :: byte)"
abbreviation "RPAREN \<equiv> (41 :: byte)"

text \<open>
  The tail of LEFT$, RIGHT$ and MID$: allocate \<open>(uint8_t)n\<close>, copy \<open>(size_t)n\<close> bytes from \<open>src\<close>,
  terminate. (\<open>n\<close> is at most the length of the string unless \<open>p + n\<close> overflowed in MID$.)
\<close>

definition substring :: "benv \<Rightarrow> nat \<Rightarrow> nat \<Rightarrow> i32 \<Rightarrow> parse_result" where
  "substring s pos src n =
    (case string_pool_alloc s (u8 (unat n)) of
       (None, s1) \<Rightarrow> fail s1 pos
     | (Some p, s1) \<Rightarrow>
         Some (VAL_STR p (u8 (unat n)),
               s1\<lparr>spool := (blit (spool s1) p (spool s1) src (unat n))(p + unat n := 0)\<rparr>, pos))"

definition clamp :: "i32 \<Rightarrow> nat \<Rightarrow> i32" where
  "clamp n len = (let n1 = (if sint n < 0 then 0 else n) in if sint n1 > int len then of_nat len else n1)"

definition func1 :: "byte \<Rightarrow> bas_value \<Rightarrow> benv \<Rightarrow> nat \<Rightarrow> parse_result" where
  "func1 func_tok arg s pos =
    (if func_tok = TOK_ABS then
       (case arg of VAL_NUM n \<Rightarrow> Some (VAL_NUM (if sint n < 0 then - n else n), s, pos) | _ \<Rightarrow> fail s pos)
     else if func_tok = TOK_RND then
       (case arg of VAL_NUM n \<Rightarrow> (case basic_rnd s n of (r, s') \<Rightarrow> Some (VAL_NUM r, s', pos)) | _ \<Rightarrow> fail s pos)
     else if func_tok = TOK_INT then
       (case arg of VAL_NUM n \<Rightarrow> Some (arg, s, pos) | _ \<Rightarrow> fail s pos)
     else if func_tok = TOK_LEN then
       (case arg of VAL_STR p l \<Rightarrow> Some (VAL_NUM (of_nat l), s, pos) | _ \<Rightarrow> fail s pos)
     else if func_tok = TOK_VAL then
       (case arg of VAL_STR p l \<Rightarrow> Some (VAL_NUM (str_to_i32 (seg (spool s) p l)), s, pos) | _ \<Rightarrow> fail s pos)
     else if func_tok = TOK_CHR then
       (case arg of
          VAL_NUM n \<Rightarrow>
            (case string_pool_alloc s 1 of
               (None, s1) \<Rightarrow> fail s1 pos
             | (Some p, s1) \<Rightarrow>
                 Some (VAL_STR p 1, s1\<lparr>spool := (spool s1)(p := ucast n, p + 1 := 0)\<rparr>, pos))
        | _ \<Rightarrow> fail s pos)
     else if func_tok = TOK_STR then
       (case arg of
          VAL_NUM n \<Rightarrow>
            (let buf = i32_to_str n @ [0]; l = u8 (length (i32_to_str n)) in
             case string_pool_alloc s l of
               (None, s1) \<Rightarrow> fail s1 pos
             | (Some p, s1) \<Rightarrow>
                 Some (VAL_STR p l, s1\<lparr>spool := blit (spool s1) p (arr_of buf (\<lambda>_. 0)) 0 (l + 1)\<rparr>, pos))
        | _ \<Rightarrow> fail s pos)
     else
       (case arg of VAL_NUM n \<Rightarrow> Some (VAL_NUM (ucast (ram s (unat n))), s, pos) | _ \<Rightarrow> fail s pos))"

definition parse_function :: "parser \<Rightarrow> byte \<Rightarrow> mem \<Rightarrow> nat \<Rightarrow> parser" where
  "parse_function parse_or func_tok tokens len s pos =
    (let pos0 = skip_spaces tokens len pos in
     if peek_tok tokens len pos0 \<noteq> LPAREN then fail s pos0
     else do {
       (arg, s1, pos1) \<leftarrow> parse_or s (pos0 + 1);
       if expr_error s1 then Some (VAL_NUM 0, s1, pos1)
       else if func_tok \<in> {TOK_ABS, TOK_RND, TOK_INT, TOK_LEN, TOK_VAL, TOK_CHR, TOK_STR, TOK_PEEK} then
         func1 func_tok arg s1 (skip_opt RPAREN tokens len pos1)
       else if func_tok = TOK_LEFT then do {
         (arg2, s2, pos2) \<leftarrow> parse_or s1 (skip_opt COMMA tokens len pos1);
         let pos3 = skip_opt RPAREN tokens len pos2;
         (case (arg, arg2) of
            (VAL_STR p l, VAL_NUM n) \<Rightarrow> substring s2 pos3 p (clamp n l)
          | _ \<Rightarrow> fail s2 pos3) }
       else if func_tok = TOK_RIGHT then do {
         (arg2, s2, pos2) \<leftarrow> parse_or s1 (skip_opt COMMA tokens len pos1);
         let pos3 = skip_opt RPAREN tokens len pos2;
         (case (arg, arg2) of
            (VAL_STR p l, VAL_NUM n) \<Rightarrow> substring s2 pos3 (p + (l - unat (clamp n l))) (clamp n l)
          | _ \<Rightarrow> fail s2 pos3) }
       else if func_tok = TOK_MID then do {
         (arg2, s2, pos2) \<leftarrow> parse_or s1 (skip_opt COMMA tokens len pos1);
         (arg3, s3, pos3) \<leftarrow> parse_or s2 (skip_opt COMMA tokens len pos2);
         let pos4 = skip_opt RPAREN tokens len pos3;
         (case (arg, arg2, arg3) of
            (VAL_STR sp l, VAL_NUM a, VAL_NUM b) \<Rightarrow>
              (let p = clamp (a - 1) l;
                   n1 = (if sint b < 0 then 0 else b);
                   n = (if sint (p + n1) > int l then of_nat l - p else n1)
               in substring s3 pos4 (sp + unat p) n)
          | _ \<Rightarrow> fail s3 pos4) }
       else fail s1 pos1 })"

section \<open>The levels of the grammar\<close>

definition parse_variable :: "byte \<Rightarrow> mem \<Rightarrow> nat \<Rightarrow> parser" where
  "parse_variable tok tokens len s pos =
    (let name = upcase tok in
     if peek_tok tokens len pos = DOLLAR then
       (case var_str name of
          None \<Rightarrow> fail s (pos + 1)
        | Some row \<Rightarrow> do {
            l0 \<leftarrow> strlen (str_vars s row) 0;
            (case string_pool_alloc s (u8 l0) of
               (None, s1) \<Rightarrow> fail s1 (pos + 1)
             | (Some p, s1) \<Rightarrow>
                 Some (VAL_STR p (u8 l0),
                   s1\<lparr>spool := blit (spool s1) p (str_vars s1 row) 0 (u8 l0 + 1)\<rparr>, pos + 1)) })
     else
       (let indexed = is_digit (peek_tok tokens len pos);
            idx = (if indexed then uint (tokens pos) - 48 else - 1);
            pos' = (if indexed then pos + 1 else pos)
        in case var_num name idx of
             None \<Rightarrow> fail s pos'
           | Some slot \<Rightarrow> Some (VAL_NUM (num_vars s slot), s, pos')))"

text \<open>
  \<open>parse_primary\<close>, with the parser of whole expressions as an argument and the unary operators
  calling \<open>prim\<close>, the next level of nesting.
\<close>

definition primary_step :: "parser \<Rightarrow> parser \<Rightarrow> mem \<Rightarrow> nat \<Rightarrow> parser" where
  "primary_step prim parse_or tokens len s pos00 =
    (let pos0 = skip_spaces tokens len pos00; tok = peek_tok tokens len pos0; pos = pos0 + 1 in
     if tok = MINUS then do {
       (v, s1, pos1) \<leftarrow> prim s pos;
       (case v of VAL_NUM n \<Rightarrow> Some (VAL_NUM (- n), s1, pos1) | _ \<Rightarrow> fail s1 pos1) }
     else if tok = TOK_NOT then do {
       (v, s1, pos1) \<leftarrow> prim s pos;
       (case v of VAL_NUM n \<Rightarrow> Some (VAL_NUM (if n \<noteq> 0 then 0 else 1), s1, pos1) | _ \<Rightarrow> fail s1 pos1) }
     else if tok = LPAREN then do {
       (v, s1, pos1) \<leftarrow> parse_or s pos;
       Some (v, s1, skip_opt RPAREN tokens len pos1) }
     else if tok = TOK_NUM then
       (case read_num_literal tokens pos of (n, pos1) \<Rightarrow> Some (VAL_NUM n, s, pos1))
     else if tok = TOK_STR_LIT then
       (let slen = unat (tokens pos); pos1 = u8 (pos + 1) in
        case string_pool_alloc s slen of
          (None, s1) \<Rightarrow> fail s1 pos1
        | (Some p, s1) \<Rightarrow>
            Some (VAL_STR p slen,
              s1\<lparr>spool := (blit (spool s1) p tokens pos1 slen)(p + slen := 0)\<rparr>, u8 (pos1 + slen)))
     else if TOK_ABS \<le> tok \<and> tok \<le> TOK_INT then parse_function parse_or tok tokens len s pos
     else if is_letter tok then parse_variable tok tokens len s pos
     else fail s pos0)"

fun mul_loop :: "nat \<Rightarrow> parser \<Rightarrow> mem \<Rightarrow> nat \<Rightarrow> bas_value \<Rightarrow> parser" where
  "mul_loop 0 prim tokens len left s pos = None"
| "mul_loop (Suc rounds) prim tokens len left s pos0 =
    (let pos = skip_spaces tokens len pos0; tok = peek_tok tokens len pos in
     if tok = 42 \<or> tok = 47 \<or> tok = TOK_MOD then do {
       (right, s1, pos1) \<leftarrow> prim s (pos + 1);
       if expr_error s1 then Some (VAL_NUM 0, s1, pos1)
       else (case (left, right) of
           (VAL_NUM a, VAL_NUM b) \<Rightarrow>
             if tok = 42 then mul_loop rounds prim tokens len (VAL_NUM (a * b)) s1 pos1
             else if b = 0 then fail s1 pos1
             else if b = -1 \<and> sint a = - (2 ^ 31) then None
             else if tok = 47 then mul_loop rounds prim tokens len (VAL_NUM (word_of_int (sint a sdiv sint b))) s1 pos1
             else mul_loop rounds prim tokens len (VAL_NUM (word_of_int (sint a smod sint b))) s1 pos1
         | _ \<Rightarrow> fail s1 pos1) }
     else Some (left, s, pos))"

definition concat_strings :: "benv \<Rightarrow> nat \<Rightarrow> nat \<Rightarrow> nat \<Rightarrow> nat \<Rightarrow> (bas_value \<times> benv) option" where
  "concat_strings s p1 l1 p2 l2 =
    (let newlen = u8 (l1 + l2) in
     case string_pool_alloc s newlen of
       (None, s1) \<Rightarrow> None
     | (Some p, s1) \<Rightarrow>
         (let sp1 = blit (spool s1) p (spool s1) p1 l1; sp2 = blit sp1 (p + l1) sp1 p2 l2
          in Some (VAL_STR p newlen, s1\<lparr>spool := sp2(p + newlen := 0)\<rparr>)))"

fun add_loop :: "nat \<Rightarrow> parser \<Rightarrow> mem \<Rightarrow> nat \<Rightarrow> bas_value \<Rightarrow> parser" where
  "add_loop 0 parse_mul tokens len left s pos = None"
| "add_loop (Suc rounds) parse_mul tokens len left s pos0 =
    (let pos = skip_spaces tokens len pos0; tok = peek_tok tokens len pos in
     if tok = 43 \<or> tok = MINUS then do {
       (right, s1, pos1) \<leftarrow> parse_mul s (pos + 1);
       if expr_error s1 then Some (VAL_NUM 0, s1, pos1)
       else (case (left, right) of
           (VAL_STR p1 l1, VAL_STR p2 l2) \<Rightarrow>
             if tok = 43 then
               (case concat_strings s1 p1 l1 p2 l2 of
                  None \<Rightarrow> fail s1 pos1
                | Some (v, s2) \<Rightarrow> add_loop rounds parse_mul tokens len v s2 pos1)
             else fail s1 pos1
         | (VAL_NUM a, VAL_NUM b) \<Rightarrow>
             add_loop rounds parse_mul tokens len (VAL_NUM (if tok = 43 then a + b else a - b)) s1 pos1
         | _ \<Rightarrow> fail s1 pos1) }
     else Some (left, s, pos))"

definition compare_result :: "byte \<Rightarrow> int \<Rightarrow> i32" where
  "compare_result tok cmp =
    (if (tok = EQ \<and> cmp = 0) \<or> (tok = TOK_NE \<and> cmp \<noteq> 0) \<or> (tok = LT \<and> cmp < 0) \<or> (tok = GT \<and> cmp > 0) \<or>
        (tok = TOK_LE \<and> cmp \<le> 0) \<or> (tok = TOK_GE \<and> cmp \<ge> 0) then - 1 else 0)"

definition is_comparison :: "byte \<Rightarrow> bool" where
  "is_comparison tok \<longleftrightarrow> tok \<in> {EQ, LT, GT, TOK_LE, TOK_GE, TOK_NE}"

definition compare_level :: "parser \<Rightarrow> mem \<Rightarrow> nat \<Rightarrow> parser" where
  "compare_level parse_add tokens len s pos0 = do {
     (left, s1, pos1) \<leftarrow> parse_add s pos0;
     if expr_error s1 then Some (left, s1, pos1)
     else
       (let pos = skip_spaces tokens len pos1; tok = peek_tok tokens len pos in
        if is_comparison tok then do {
          (right, s2, pos2) \<leftarrow> parse_add s1 (pos + 1);
          if expr_error s2 then Some (VAL_NUM 0, s2, pos2)
          else (case (left, right) of
              (VAL_STR p1 l1, VAL_STR p2 l2) \<Rightarrow> do {
                cmp \<leftarrow> strcmp (spool s2) p1 p2;
                Some (VAL_NUM (compare_result tok cmp), s2, pos2) }
            | (VAL_NUM a, VAL_NUM b) \<Rightarrow> Some (VAL_NUM (compare_result tok (sint a - sint b)), s2, pos2)
            | _ \<Rightarrow> fail s2 pos2) }
        else Some (left, s1, pos)) }"

text \<open>
  AND and OR look at the \<open>num\<close> member of the union without a test of the type; for a string that is
  its pointer, which is not null.
\<close>

definition truth :: "bas_value \<Rightarrow> bool" where
  "truth v = (case v of VAL_NUM n \<Rightarrow> n \<noteq> 0 | VAL_STR _ _ \<Rightarrow> True)"

fun and_loop :: "nat \<Rightarrow> parser \<Rightarrow> mem \<Rightarrow> nat \<Rightarrow> bas_value \<Rightarrow> parser" where
  "and_loop 0 parse_compare tokens len left s pos = None"
| "and_loop (Suc rounds) parse_compare tokens len left s pos0 =
    (let pos = skip_spaces tokens len pos0 in
     if peek_tok tokens len pos = TOK_AND then do {
       (right, s1, pos1) \<leftarrow> parse_compare s (pos + 1);
       if expr_error s1 then Some (VAL_NUM 0, s1, pos1)
       else and_loop rounds parse_compare tokens len (VAL_NUM (if truth left \<and> truth right then - 1 else 0)) s1 pos1 }
     else Some (left, s, pos))"

fun or_loop :: "nat \<Rightarrow> parser \<Rightarrow> mem \<Rightarrow> nat \<Rightarrow> bas_value \<Rightarrow> parser" where
  "or_loop 0 parse_and tokens len left s pos = None"
| "or_loop (Suc rounds) parse_and tokens len left s pos0 =
    (let pos = skip_spaces tokens len pos0 in
     if peek_tok tokens len pos = TOK_OR then do {
       (right, s1, pos1) \<leftarrow> parse_and s (pos + 1);
       if expr_error s1 then Some (VAL_NUM 0, s1, pos1)
       else or_loop rounds parse_and tokens len (VAL_NUM (if truth left \<or> truth right then - 1 else 0)) s1 pos1 }
     else Some (left, s, pos))"

text \<open>A level: the operand, then, unless it failed, the loop of the level.\<close>

definition LOOPS :: nat where "LOOPS = 256"

definition mul_level :: "parser \<Rightarrow> mem \<Rightarrow> nat \<Rightarrow> parser" where
  "mul_level prim tokens len s pos = do {
     (left, s1, pos1) \<leftarrow> prim s pos;
     if expr_error s1 then Some (left, s1, pos1) else mul_loop LOOPS prim tokens len left s1 pos1 }"

definition add_level :: "parser \<Rightarrow> mem \<Rightarrow> nat \<Rightarrow> parser" where
  "add_level parse_mul tokens len s pos = do {
     (left, s1, pos1) \<leftarrow> parse_mul s pos;
     if expr_error s1 then Some (left, s1, pos1) else add_loop LOOPS parse_mul tokens len left s1 pos1 }"

definition and_level :: "parser \<Rightarrow> mem \<Rightarrow> nat \<Rightarrow> parser" where
  "and_level parse_compare tokens len s pos = do {
     (left, s1, pos1) \<leftarrow> parse_compare s pos;
     if expr_error s1 then Some (left, s1, pos1) else and_loop LOOPS parse_compare tokens len left s1 pos1 }"

definition or_level :: "parser \<Rightarrow> mem \<Rightarrow> nat \<Rightarrow> parser" where
  "or_level parse_and tokens len s pos = do {
     (left, s1, pos1) \<leftarrow> parse_and s pos;
     if expr_error s1 then Some (left, s1, pos1) else or_loop LOOPS parse_and tokens len left s1 pos1 }"

definition parse_mul :: "parser \<Rightarrow> mem \<Rightarrow> nat \<Rightarrow> parser" where
  "parse_mul prim tokens len = mul_level prim tokens len"

definition parse_add :: "parser \<Rightarrow> mem \<Rightarrow> nat \<Rightarrow> parser" where
  "parse_add prim tokens len = add_level (parse_mul prim tokens len) tokens len"

definition parse_compare :: "parser \<Rightarrow> mem \<Rightarrow> nat \<Rightarrow> parser" where
  "parse_compare prim tokens len = compare_level (parse_add prim tokens len) tokens len"

definition parse_and :: "parser \<Rightarrow> mem \<Rightarrow> nat \<Rightarrow> parser" where
  "parse_and prim tokens len = and_level (parse_compare prim tokens len) tokens len"

definition parse_or :: "parser \<Rightarrow> mem \<Rightarrow> nat \<Rightarrow> parser" where
  "parse_or prim tokens len = or_level (parse_and prim tokens len) tokens len"

primrec parse_primary :: "nat \<Rightarrow> mem \<Rightarrow> nat \<Rightarrow> parser" where
  "parse_primary 0 tokens len = (\<lambda>s pos. None)"
| "parse_primary (Suc depth) tokens len =
    primary_step (parse_primary depth tokens len) (parse_or (parse_primary depth tokens len) tokens len) tokens len"

definition expr_eval :: "mem \<Rightarrow> nat \<Rightarrow> parser" where
  "expr_eval tokens len = parse_or (parse_primary LOOPS tokens len) tokens len"

lemma i32_to_str_eq: "i32_to_str = int_to_str"
  by (rule ext) (simp add: i32_to_str_def int_to_str_def)

end
