(* ===== verification/BasicProgram.thy ===== *)
theory BasicProgram
  imports Prelude
begin

text \<open>
  The BASIC program store, \<open>apps/basic/program.c\<close>: a flat buffer of 8192 bytes that holds the
  lines one after the other, each with a three-byte header (line number, little endian, and the
  length of the line with its header).

  A \<open>uint8_t *\<close> into \<open>prog_buf\<close> is the offset from its start and NULL is \<^const>\<open>None\<close>. The two
  searches run along the line lengths and would not end on a line of length 0, so they are partial
  functions (\<^const>\<open>None\<close> for a loop that does not end); \<open>find_from_rep\<close> shows that they return on
  every buffer that represents a program. The represented program is a list of numbered lines.
\<close>

section \<open>The buffer and its operations\<close>

definition PROG_SIZE :: nat where
  "PROG_SIZE = 8192"

record prog =
  prog_buf :: mem
  prog_end :: nat

definition prog_init :: "prog \<Rightarrow> prog" where
  "prog_init P = P\<lparr>prog_buf := (\<lambda>i. if i < PROG_SIZE then 0 else prog_buf P i), prog_end := 0\<rparr>"

definition prog_line_number :: "prog \<Rightarrow> nat \<Rightarrow> nat" where
  "prog_line_number P line = unat (prog_buf P line) + 256 * unat (prog_buf P (line + 1))"

definition prog_line_length :: "prog \<Rightarrow> nat \<Rightarrow> nat" where
  "prog_line_length P line = unat (prog_buf P (line + 2))"

definition prog_first_line :: "prog \<Rightarrow> nat option" where
  "prog_first_line P = (if prog_end P = 0 then None else Some 0)"

definition prog_next_line :: "prog \<Rightarrow> nat \<Rightarrow> nat option" where
  "prog_next_line P current =
    (let len = unat (prog_buf P (current + 2)); nxt = current + len
     in if prog_end P \<le> nxt then None else Some nxt)"

partial_function (option) find_from :: "prog \<Rightarrow> nat \<Rightarrow> nat option \<Rightarrow> nat option option" where
  "find_from P num p =
    (case p of
       None \<Rightarrow> Some None
     | Some line \<Rightarrow>
         if prog_line_number P line = num then Some (Some line)
         else if prog_line_number P line > num then Some None
         else find_from P num (prog_next_line P line))"

definition prog_find_line :: "prog \<Rightarrow> nat \<Rightarrow> nat option option" where
  "prog_find_line P num = find_from P num (prog_first_line P)"

partial_function (option) insert_pos_from :: "prog \<Rightarrow> nat \<Rightarrow> nat option \<Rightarrow> nat option" where
  "insert_pos_from P num p =
    (case p of
       None \<Rightarrow> Some (prog_end P)
     | Some line \<Rightarrow>
         if prog_line_number P line \<ge> num then Some line
         else insert_pos_from P num (prog_next_line P line))"

definition find_insert_pos :: "prog \<Rightarrow> nat \<Rightarrow> nat option" where
  "find_insert_pos P num = insert_pos_from P num (prog_first_line P)"

definition prog_delete_line :: "prog \<Rightarrow> nat \<Rightarrow> prog option" where
  "prog_delete_line P num =
    (case prog_find_line P num of
       None \<Rightarrow> None
     | Some None \<Rightarrow> Some P
     | Some (Some p) \<Rightarrow>
         (let len = unat (prog_buf P (p + 2)); after = p + len; tail = sub32 (prog_end P) after in
          Some (P\<lparr>prog_buf := (if tail > 0 then blit (prog_buf P) p (prog_buf P) after tail else prog_buf P),
                  prog_end := sub32 (prog_end P) len\<rparr>)))"

definition prog_insert_line :: "prog \<Rightarrow> nat \<Rightarrow> mem \<Rightarrow> nat \<Rightarrow> prog option" where
  "prog_insert_line P0 num tokens tok_len =
    (case prog_delete_line P0 num of
       None \<Rightarrow> None
     | Some P \<Rightarrow>
         (let total = u8 (tok_len + 3) in
          if prog_end P + total > PROG_SIZE then Some P
          else case find_insert_pos P num of
            None \<Rightarrow> None
          | Some offset \<Rightarrow>
              (let tail = sub32 (prog_end P) offset;
                   buf1 = (if tail > 0 then blit (prog_buf P) (offset + total) (prog_buf P) offset tail
                           else prog_buf P);
                   buf2 = buf1(offset := word_of_nat (num mod 256), offset + 1 := word_of_nat (num div 256),
                               offset + 2 := word_of_nat total);
                   buf3 = blit buf2 (offset + 3) tokens 0 tok_len
               in Some (P\<lparr>prog_buf := buf3, prog_end := prog_end P + total\<rparr>))))"

definition prog_used :: "prog \<Rightarrow> nat" where
  "prog_used P = prog_end P"

section \<open>The program a buffer represents\<close>

type_synonym line = "nat \<times> byte list"

definition enc_line :: "line \<Rightarrow> byte list" where
  "enc_line l = [word_of_nat (fst l mod 256), word_of_nat (fst l div 256), word_of_nat (length (snd l) + 3)] @ snd l"

definition enc_prog :: "line list \<Rightarrow> byte list" where
  "enc_prog ls = concat (map enc_line ls)"

definition line_valid :: "line \<Rightarrow> bool" where
  "line_valid l \<longleftrightarrow> fst l < 65536 \<and> length (snd l) + 3 < 256"

definition prog_rep :: "prog \<Rightarrow> line list \<Rightarrow> bool" where
  "prog_rep P ls \<longleftrightarrow>
    seg (prog_buf P) 0 (prog_end P) = enc_prog ls \<and> prog_end P \<le> PROG_SIZE \<and>
    list_all line_valid ls \<and> sorted_wrt (\<lambda>a b. fst a < fst b) ls"

definition before :: "nat \<Rightarrow> line list \<Rightarrow> line list" where
  "before num ls = takeWhile (\<lambda>l. fst l < num) ls"

definition after :: "nat \<Rightarrow> line list \<Rightarrow> line list" where
  "after num ls = dropWhile (\<lambda>l. fst l \<le> num) ls"

lemma before_Cons: "before num (l # ls) = (if fst l < num then l # before num ls else [])"
  by (simp add: before_def)

lemma length_enc_line [simp]: "length (enc_line l) = length (snd l) + 3"
  by (simp add: enc_line_def)

lemma enc_prog_simps [simp]:
  "enc_prog [] = []" "enc_prog (l # ls) = enc_line l @ enc_prog ls"
  "enc_prog (xs @ ys) = enc_prog xs @ enc_prog ys"
  by (simp_all add: enc_prog_def)

lemma prog_rep_length: "prog_rep P ls \<Longrightarrow> prog_end P = length (enc_prog ls)"
  unfolding prog_rep_def by (metis length_seg)

lemma prog_rep_nth:
  "prog_rep P ls \<Longrightarrow> i < length (enc_prog ls) \<Longrightarrow> prog_buf P i = enc_prog ls ! i"
  by (metis add_0 nth_seg prog_rep_def prog_rep_length)

lemma sum_bytes: "n < 65536 \<Longrightarrow>
  unat (word_of_nat (n mod 256) :: byte) + 256 * unat (word_of_nat (n div 256) :: byte) = n"
  by (simp add: wrap_simps)

lemma line_at:
  assumes "prog_rep P (xs @ l # ys)"
  shows "prog_line_number P (length (enc_prog xs)) = fst l"
    and "unat (prog_buf P (length (enc_prog xs) + 2)) = length (snd l) + 3"
    and "prog_next_line P (length (enc_prog xs)) =
      (if ys = [] then None else Some (length (enc_prog (xs @ [l]))))"
    and "seg (prog_buf P) (length (enc_prog xs) + 3) (length (snd l)) = snd l"
proof -
  let ?o = "length (enc_prog xs)"
  have v: "line_valid l" using assms by (simp add: prog_rep_def)
  have b: "prog_buf P (?o + i) = enc_line l ! i" if "i < length (snd l) + 3" for i
    using prog_rep_nth [OF assms, of "?o + i"] that by (simp add: nth_append)
  have b0: "prog_buf P ?o = enc_line l ! 0" and b1: "prog_buf P (?o + 1) = enc_line l ! 1"
    and b2: "prog_buf P (?o + 2) = enc_line l ! 2"
    using b [of 0] b [of 1] b [of 2] by simp_all
  show "prog_line_number P ?o = fst l"
    using v unfolding prog_line_number_def b0 b1 by (simp add: enc_line_def line_valid_def sum_bytes)
  show len: "unat (prog_buf P (?o + 2)) = length (snd l) + 3"
    using v unfolding b2 enc_line_def line_valid_def
    by (simp add: unat_byte_of_nat numeral_2_eq_2 del: of_nat_add of_nat_Suc)
  have "ys = [] \<or> 0 < length (enc_prog ys)" by (cases ys) auto
  then show "prog_next_line P ?o = (if ys = [] then None else Some (length (enc_prog (xs @ [l]))))"
    using prog_rep_length [OF assms] unfolding prog_next_line_def Let_def len by auto
  show "seg (prog_buf P) (?o + 3) (length (snd l)) = snd l"
    using b by (simp add: list_eq_iff_nth_eq add.assoc enc_line_def)
qed

lemma find_from_rep:
  assumes "prog_rep P (xs @ ys)"
  shows "find_from P num (if ys = [] then None else Some (length (enc_prog xs))) =
      Some (case dropWhile (\<lambda>l. fst l < num) ys of [] \<Rightarrow> None
        | v # vs \<Rightarrow> if fst v = num then Some (length (enc_prog (xs @ before num ys))) else None)"
  using assms
proof (induction ys arbitrary: xs)
  case Nil
  then show ?case by (simp add: find_from.simps)
next
  case (Cons l ys)
  have IH: "find_from P num (if ys = [] then None else Some (length (enc_prog (xs @ [l])))) =
      Some (case dropWhile (\<lambda>l. fst l < num) ys of [] \<Rightarrow> None
        | v # vs \<Rightarrow> if fst v = num then Some (length (enc_prog ((xs @ [l]) @ before num ys))) else None)"
    using Cons.IH [of "xs @ [l]"] Cons.prems by simp
  have "find_from P num (Some (length (enc_prog xs))) =
    (if fst l = num then Some (Some (length (enc_prog xs))) else if fst l > num then Some None
     else find_from P num (if ys = [] then None else Some (length (enc_prog (xs @ [l])))))"
    using line_at [OF Cons.prems] by (subst find_from.simps) simp
  then show ?case unfolding IH
    by (cases "dropWhile (\<lambda>l. fst l < num) ys") (auto simp: before_Cons simp del: dropWhile_eq_Nil_conv)
qed

lemma insert_pos_from_rep:
  assumes "prog_rep P (xs @ ys)"
  shows "insert_pos_from P num (if ys = [] then None else Some (length (enc_prog xs))) =
      Some (length (enc_prog (xs @ before num ys)))"
  using assms
proof (induction ys arbitrary: xs)
  case Nil
  then show ?case using prog_rep_length [OF Nil] by (simp add: insert_pos_from.simps before_def)
next
  case (Cons l ys)
  have IH: "insert_pos_from P num (if ys = [] then None else Some (length (enc_prog (xs @ [l])))) =
      Some (length (enc_prog ((xs @ [l]) @ before num ys)))"
    using Cons.IH [of "xs @ [l]"] Cons.prems by simp
  have "insert_pos_from P num (Some (length (enc_prog xs))) =
    (if fst l \<ge> num then Some (length (enc_prog xs))
     else insert_pos_from P num (if ys = [] then None else Some (length (enc_prog (xs @ [l])))))"
    using line_at [OF Cons.prems] by (subst insert_pos_from.simps) simp
  then show ?case unfolding IH by (simp add: before_def)
qed

section \<open>Deleting and inserting\<close>

lemma after_all: "\<forall>l \<in> set ls. num < fst l \<Longrightarrow> after num ls = ls"
  by (cases ls) (auto simp: after_def)

lemma split_sorted:
  assumes "sorted_wrt (\<lambda>a b. fst a < fst b) ls"
  shows "(num \<notin> fst ` set ls \<and> ls = before num ls @ after num ls \<and> dropWhile (\<lambda>l. fst l < num) ls = after num ls) \<or>
    (\<exists>t. ls = before num ls @ (num, t) # after num ls \<and>
         dropWhile (\<lambda>l. fst l < num) ls = (num, t) # after num ls)"
  using assms
proof (induction ls)
  case (Cons l ls)
  consider "fst l < num" | "fst l = num" | "num < fst l" by linarith
  then show ?case
  proof cases
    case 1
    then show ?thesis using Cons by (auto simp: before_Cons after_def)
  next
    case 2
    then have "after num ls = ls" using Cons.prems by (intro after_all) auto
    then show ?thesis using 2 Cons.prems
      by (intro disjI2 exI [of _ "snd l"]) (auto simp: before_Cons after_def prod_eq_iff)
  next
    case 3
    have "\<forall>k \<in> set ls. num < fst k" using Cons.prems 3 by auto
    then show ?thesis using 3 after_all [of "l # ls" num] by (auto simp: before_Cons)
  qed
qed (simp add: before_def after_def)

lemma find_line_rep:
  assumes "prog_rep P ls"
  shows "prog_find_line P num =
    Some (if num \<in> fst ` set ls then Some (length (enc_prog (before num ls))) else None)"
proof -
  have "ls = [] \<longleftrightarrow> prog_end P = 0" using prog_rep_length [OF assms] by (cases ls) auto
  then have start: "prog_first_line P = (if ls = [] then None else Some (length (enc_prog [])))"
    by (simp add: prog_first_line_def)
  have s: "sorted_wrt (\<lambda>a b. fst a < fst b) ls" using assms by (simp add: prog_rep_def)
  have nin: "num \<notin> fst ` set (after num ls)"
    if "sorted_wrt (\<lambda>a b. fst a < fst b) (after num ls)"
  proof (cases "after num ls")
    case (Cons v vs)
    then have "\<not> fst v \<le> num" unfolding after_def by (simp add: dropWhile_eq_Cons_conv)
    then show ?thesis using that Cons by fastforce
  qed simp
  show ?thesis
    using find_from_rep [of P "[]" ls num] assms split_sorted [OF s, of num]
    unfolding prog_find_line_def start
    by (auto split: list.split simp del: dropWhile_eq_Nil_conv)
       (metis image_eqI in_set_conv_decomp fst_conv)+
qed

lemma sorted_parts:
  assumes "sorted_wrt (\<lambda>a b. fst a < fst b) ls"
  shows "sorted_wrt (\<lambda>a b. fst a < fst b) (before num ls @ after num ls)"
    and "\<forall>l \<in> set (before num ls). fst l < num" and "\<forall>l \<in> set (after num ls). num < fst l"
proof -
  show b: "\<forall>l \<in> set (before num ls). fst l < num"
    by (auto simp: before_def dest: set_takeWhileD)
  show "sorted_wrt (\<lambda>a b. fst a < fst b) (before num ls @ after num ls)"
    using split_sorted [OF assms, of num] assms
    by (metis (no_types, lifting) list.set_intros(2) sorted_wrt.simps(2) sorted_wrt_append)
  show "\<forall>l \<in> set (after num ls). num < fst l"
  proof (cases "after num ls")
    case (Cons v vs)
    then have "\<not> fst v \<le> num" unfolding after_def by (simp add: dropWhile_eq_Cons_conv)
    moreover have "sorted_wrt (\<lambda>a b. fst a < fst b) (v # vs)"
      using \<open>sorted_wrt _ (before num ls @ after num ls)\<close> Cons by (simp add: sorted_wrt_append)
    ultimately show ?thesis using Cons by fastforce
  qed simp
qed

lemma seg_split3:
  assumes "seg m 0 n = xs @ ys @ zs"
  shows "seg m 0 (length xs) = xs" and "seg m (length xs) (length ys) = ys"
    and "seg m (length xs + length ys) (length zs) = zs"
proof -
  have n: "n = length xs + (length ys + length zs)"
    using arg_cong [OF assms, of length] by simp
  have "seg m 0 (length xs) @ seg m (length xs) (length ys) @ seg m (length xs + length ys) (length zs)
      = xs @ ys @ zs"
    using assms unfolding n seg_append by simp
  then show "seg m 0 (length xs) = xs" and "seg m (length xs) (length ys) = ys"
    and "seg m (length xs + length ys) (length zs) = zs" by simp_all
qed

lemma prog_rep_small: "prog_rep P ls \<Longrightarrow> prog_end P < 4294967296"
  by (simp add: prog_rep_def PROG_SIZE_def)

lemma delete_line_rep:
  assumes "prog_rep P ls"
  obtains P' where "prog_delete_line P num = Some P'" and "prog_rep P' (before num ls @ after num ls)"
proof -
  have so: "sorted_wrt (\<lambda>a b. fst a < fst b) ls" using assms by (simp add: prog_rep_def)
  let ?us = "before num ls" and ?vs = "after num ls"
  show ?thesis
  proof (cases "num \<in> fst ` set ls")
    case False
    then have "ls = ?us @ ?vs" using split_sorted [OF so, of num] by (metis fst_conv image_eqI in_set_conv_decomp)
    then show ?thesis
      using that [of P] False assms find_line_rep [OF assms, of num] by (simp add: prog_delete_line_def)
  next
    case True
    then obtain t where ls: "ls = ?us @ (num, t) # ?vs" using split_sorted [OF so, of num] by metis
    let ?o = "length (enc_prog ?us)" and ?b = "prog_buf P"
    have rep: "prog_rep P (?us @ (num, t) # ?vs)" using assms ls by simp
    note at = line_at [OF rep]
    have e: "prog_end P = ?o + (length t + 3) + length (enc_prog ?vs)"
      using prog_rep_length [OF rep] by simp
    have tail: "sub32 (prog_end P) (?o + (length t + 3)) = length (enc_prog ?vs)"
      and len: "sub32 (prog_end P) (length t + 3) = ?o + length (enc_prog ?vs)"
      using prog_rep_small [OF assms] e by (simp_all add: sub32_id)
    let ?b' = "if length (enc_prog ?vs) > 0 then blit ?b ?o ?b (?o + (length t + 3)) (length (enc_prog ?vs)) else ?b"
    have del: "prog_delete_line P num = Some (P\<lparr>prog_buf := ?b', prog_end := ?o + length (enc_prog ?vs)\<rparr>)"
      using find_line_rep [OF assms, of num] True at(2) tail len by (simp add: prog_delete_line_def Let_def)
    have "seg ?b 0 (prog_end P) = enc_prog ?us @ enc_line (num, t) @ enc_prog ?vs"
      using rep by (simp add: prog_rep_def)
    from seg_split3 [OF this]
    have "seg ?b' 0 ?o = enc_prog ?us" and "seg ?b' ?o (length (enc_prog ?vs)) = enc_prog ?vs"
      by (simp_all add: seg_blit seg_blit_out)
    then have "seg ?b' 0 (?o + length (enc_prog ?vs)) = enc_prog (?us @ ?vs)"
      unfolding seg_append by simp
    moreover have "list_all line_valid (?us @ ?vs)" and "?o + length (enc_prog ?vs) \<le> PROG_SIZE"
      using rep e by (simp_all add: prog_rep_def)
    ultimately show ?thesis
      using that del sorted_parts(1) [OF so] by (simp add: prog_rep_def)
  qed
qed

definition insert_spec :: "nat \<Rightarrow> byte list \<Rightarrow> line list \<Rightarrow> line list" where
  "insert_spec num toks ls =
    (if length (enc_prog (before num ls @ after num ls)) + length toks + 3 \<le> PROG_SIZE
     then before num ls @ (num, toks) # after num ls else before num ls @ after num ls)"

lemma before_parts: 
  assumes "\<forall>l \<in> set us. fst l < num" and "\<forall>l \<in> set vs. num < fst l"
  shows "before num (us @ vs) = us" and "dropWhile (\<lambda>l. fst l < num) (us @ vs) = vs"
  using assms by (cases vs; auto simp: before_def takeWhile_append dropWhile_append)+

lemma insert_line_rep:
  assumes "prog_rep P ls" and "num < 65536" and "tok_len + 3 < 256"
  obtains P' where "prog_insert_line P num tokens tok_len = Some P'"
    and "prog_rep P' (insert_spec num (seg tokens 0 tok_len) ls)"
proof -
  let ?us = "before num ls" and ?vs = "after num ls" and ?t = "seg tokens 0 tok_len"
  have so: "sorted_wrt (\<lambda>a b. fst a < fst b) ls" using assms by (simp add: prog_rep_def)
  obtain Q where del: "prog_delete_line P num = Some Q" and Q: "prog_rep Q (?us @ ?vs)"
    using delete_line_rep [OF assms(1)] by blast
  note parts = sorted_parts [OF so, of num]
  let ?o = "length (enc_prog ?us)" and ?b = "prog_buf Q" and ?n = "length (enc_prog ?vs)"
  have e: "prog_end Q = ?o + ?n" using prog_rep_length [OF Q] by simp
  have total: "u8 (tok_len + 3) = tok_len + 3" using assms(3) by (rule u8_id)
  show ?thesis
  proof (cases "prog_end Q + (tok_len + 3) > PROG_SIZE")
    case True
    then show ?thesis
      using that [of Q] Q del total e by (simp add: prog_insert_line_def Let_def insert_spec_def)
  next
    case False
    have "?us @ ?vs = [] \<longleftrightarrow> prog_end Q = 0" using prog_rep_length [OF Q] by (cases "?us @ ?vs") auto
    then have "prog_first_line Q = (if ?us @ ?vs = [] then None else Some (length (enc_prog [])))"
      by (simp add: prog_first_line_def)
    then have pos: "find_insert_pos Q num = Some ?o"
      using insert_pos_from_rep [of Q "[]" "?us @ ?vs" num] Q before_parts [OF parts(2,3)]
      by (simp add: find_insert_pos_def)
    have tail: "sub32 (prog_end Q) ?o = ?n" using prog_rep_small [OF Q] e by (simp add: sub32_id)
    define b1 where "b1 = (if ?n > 0 then blit ?b (?o + (tok_len + 3)) ?b ?o ?n else ?b)"
    define b2 where "b2 = b1(?o := word_of_nat (num mod 256), ?o + 1 := word_of_nat (num div 256),
        ?o + 2 := word_of_nat (tok_len + 3))"
    define b3 where "b3 = blit b2 (?o + 3) tokens 0 tok_len"
    have ins: "prog_insert_line P num tokens tok_len =
        Some (Q\<lparr>prog_buf := b3, prog_end := prog_end Q + (tok_len + 3)\<rparr>)"
      using False
      by (simp only: prog_insert_line_def del option.case Let_def total pos tail if_False b3_def b2_def b1_def)
    have "seg ?b 0 (prog_end Q) = enc_prog ?us @ [] @ enc_prog ?vs"
      using Q by (simp add: prog_rep_def)
    note sp = seg_split3 [OF this]
    have us: "seg b3 0 ?o = enc_prog ?us"
      using sp(1) by (simp add: b3_def b2_def b1_def seg_blit_out)
    have vs: "seg b3 (?o + (tok_len + 3)) ?n = enc_prog ?vs"
      using sp(3) by (simp add: b3_def b2_def b1_def seg_blit_out seg_blit)
    have "seg b3 ?o 3 = take 3 (enc_line (num, ?t))"
      by (simp add: b3_def b2_def seg_Suc enc_line_def numeral_3_eq_3)
    moreover have "seg b3 (?o + 3) tok_len = ?t" by (simp add: b3_def seg_blit)
    ultimately have line: "seg b3 ?o (3 + tok_len) = enc_line (num, ?t)"
      by (simp add: seg_append enc_line_def)
    have "seg b3 0 (?o + ((3 + tok_len) + ?n)) = enc_prog (?us @ (num, ?t) # ?vs)"
      using us line vs unfolding seg_append by (simp add: add.commute)
    moreover have "list_all line_valid (?us @ (num, ?t) # ?vs)"
      using Q assms(2,3) by (simp add: prog_rep_def line_valid_def)
    moreover have "sorted_wrt (\<lambda>a b. fst a < fst b) (?us @ (num, ?t) # ?vs)"
      using parts by (simp add: sorted_wrt_append)
    moreover have "insert_spec num ?t ls = ?us @ (num, ?t) # ?vs"
      using False e by (simp add: insert_spec_def)
    ultimately show ?thesis
      using that ins False e by (simp add: prog_rep_def add.commute add.left_commute)
  qed
qed

section \<open>The store as a map from line numbers to tokens\<close>

text \<open>The token data of a line as the interpreter and LIST read it: from byte 3, \<open>length - 3\<close> bytes.\<close>

definition line_tokens :: "prog \<Rightarrow> nat \<Rightarrow> byte list" where
  "line_tokens P line = seg (prog_buf P) (line + 3) (prog_line_length P line - 3)"

definition prog_lookup :: "prog \<Rightarrow> nat \<Rightarrow> byte list option" where
  "prog_lookup P num =
    (case prog_find_line P num of Some (Some p) \<Rightarrow> Some (line_tokens P p) | _ \<Rightarrow> None)"

definition prog_ok :: "prog \<Rightarrow> bool" where
  "prog_ok P \<longleftrightarrow> (\<exists>ls. prog_rep P ls)"

definition store_line :: "prog \<Rightarrow> nat \<Rightarrow> byte list \<Rightarrow> prog option" where
  "store_line P num toks = prog_insert_line P num (arr_of toks (\<lambda>_. 0)) (length toks)"

lemma lookup_rep:
  assumes "prog_rep P ls"
  shows "prog_lookup P = map_of ls"
proof
  fix num
  have so: "sorted_wrt (\<lambda>a b. fst a < fst b) ls" using assms by (simp add: prog_rep_def)
  have d: "distinct (map fst ls)" using so
    by (induction ls) force+
  show "prog_lookup P num = map_of ls num"
  proof (cases "num \<in> fst ` set ls")
    case True
    then obtain t where ls: "ls = before num ls @ (num, t) # after num ls"
      using split_sorted [OF so, of num] by metis
    have rep: "prog_rep P (before num ls @ (num, t) # after num ls)" using assms ls by simp
    have "prog_lookup P num = Some t"
      using find_line_rep [OF assms, of num] True line_at(2,4) [OF rep]
      by (simp add: prog_lookup_def line_tokens_def prog_line_length_def)
    moreover have "map_of ls num = Some t"
      using d ls by (metis in_set_conv_decomp map_of_eq_Some_iff)
    ultimately show ?thesis by simp
  next
    case False
    then show ?thesis
      using find_line_rep [OF assms, of num] by (simp add: prog_lookup_def map_of_eq_None_iff [THEN iffD2])
  qed
qed

lemma map_of_parts:
  assumes "sorted_wrt (\<lambda>a b. fst a < fst b) ls"
  shows "map_of (before num ls @ after num ls) = (map_of ls)(num := None)"
    and "map_of (before num ls @ (num, t) # after num ls) = (map_of ls)(num \<mapsto> t)"
proof -
  note parts = sorted_parts [OF assms, of num]
  have none: "map_of (before num ls) num = None" "map_of (after num ls) num = None"
    using parts(2,3) by (fastforce simp: map_of_eq_None_iff)+
  have ls: "ls = before num ls @ after num ls \<or> (\<exists>t. ls = before num ls @ (num, t) # after num ls)"
    using split_sorted [OF assms, of num] by blast
  then consider (absent) "map_of ls = map_of (after num ls) ++ map_of (before num ls)"
    | (present) t' where "map_of ls = (map_of (after num ls))(num \<mapsto> t') ++ map_of (before num ls)"
    using map_of_append [of "before num ls"] by (metis map_of.simps(2) fst_conv snd_conv)
  then show "map_of (before num ls @ after num ls) = (map_of ls)(num := None)"
    and "map_of (before num ls @ (num, t) # after num ls) = (map_of ls)(num \<mapsto> t)"
    using none by (cases; auto simp: map_add_def fun_eq_iff split: option.splits)+
qed

text \<open>Entering a list of numbered lines one after the other.\<close>

fun enter_lines :: "('p \<Rightarrow> nat \<Rightarrow> byte list \<Rightarrow> 'p option) \<Rightarrow> 'p \<Rightarrow> line list \<Rightarrow> 'p option" where
  "enter_lines ins P [] = Some P"
| "enter_lines ins P ((n, t) # ls) = (case ins P n t of None \<Rightarrow> None | Some P' \<Rightarrow> enter_lines ins P' ls)"

text \<open>
  The contract of a line store, as the shell uses it (typing lines, NEW, LOAD): \<open>room\<close> is the
  number of bytes in use, \<open>cap\<close> the capacity.
\<close>

locale line_store =
  fixes ok :: "'p \<Rightarrow> bool"
    and ins :: "'p \<Rightarrow> nat \<Rightarrow> byte list \<Rightarrow> 'p option"
    and del :: "'p \<Rightarrow> nat \<Rightarrow> 'p option"
    and look :: "'p \<Rightarrow> nat \<Rightarrow> byte list option"
    and used :: "'p \<Rightarrow> nat"
    and cap :: nat
  assumes ins_law: "ok P \<Longrightarrow> n < 65536 \<Longrightarrow> length t + 3 < 256 \<Longrightarrow> used P + length t + 3 \<le> cap \<Longrightarrow>
      \<exists>P'. ins P n t = Some P' \<and> ok P' \<and> look P' = (look P)(n \<mapsto> t) \<and> used P' \<le> used P + length t + 3"
    and del_law: "ok P \<Longrightarrow> \<exists>P'. del P n = Some P' \<and> ok P' \<and> look P' = (look P)(n := None) \<and> used P' \<le> used P"
begin

lemma enter_lines_lookup:
  assumes "ok P" and "list_all line_valid ls" and "used P + length (enc_prog ls) \<le> cap"
  shows "\<exists>P'. enter_lines ins P ls = Some P' \<and> ok P' \<and> look P' = look P ++ map_of (rev ls)"
  using assms
proof (induction ls arbitrary: P)
  case (Cons l ls)
  obtain n t where l: "l = (n, t)" by fastforce
  obtain Q where Q: "ins P n t = Some Q" "ok Q" "look Q = (look P)(n \<mapsto> t)" "used Q \<le> used P + length t + 3"
    using ins_law [OF Cons.prems(1), of n t] Cons.prems by (auto simp: l line_valid_def)
  have "list_all line_valid ls" and "used Q + length (enc_prog ls) \<le> cap"
    using Cons.prems Q(4) by (simp_all add: l)
  then obtain P' where "enter_lines ins Q ls = Some P'" "ok P'" "look P' = look Q ++ map_of (rev ls)"
    using Cons.IH [OF Q(2)] by blast
  moreover have "look Q ++ map_of (rev ls) = look P ++ map_of (rev (l # ls))"
    unfolding Q(3) l by (auto simp: map_add_def fun_eq_iff split: option.splits)
  ultimately show ?case using Q(1) by (simp add: l)
qed simp

end

lemma store_line_law:
  assumes "prog_ok P" and "num < 65536" and "length t + 3 < 256" and "prog_used P + length t + 3 \<le> PROG_SIZE"
  shows "\<exists>P'. store_line P num t = Some P' \<and> prog_ok P' \<and> prog_lookup P' = (prog_lookup P)(num \<mapsto> t) \<and>
    prog_used P' \<le> prog_used P + length t + 3"
proof -
  obtain ls where rep: "prog_rep P ls" using assms(1) by (auto simp: prog_ok_def)
  have so: "sorted_wrt (\<lambda>a b. fst a < fst b) ls" using rep by (simp add: prog_rep_def)
  obtain P' where P': "store_line P num t = Some P'" "prog_rep P' (insert_spec num t ls)"
    using insert_line_rep [OF rep assms(2,3), of "arr_of t (\<lambda>_. 0)"]
    unfolding store_line_def by (metis seg_arr_of)
  have le: "length (enc_prog (before num ls @ after num ls)) \<le> length (enc_prog ls)"
    using split_sorted [OF so, of num]
    by (metis (no_types, lifting) enc_prog_simps(2,3) le_add2 length_append nat_add_left_cancel_le order_refl)
  then have "insert_spec num t ls = before num ls @ (num, t) # after num ls"
    using assms(4) prog_rep_length [OF rep] by (simp add: insert_spec_def prog_used_def)
  then show ?thesis
    using P' le lookup_rep [OF rep] lookup_rep [OF P'(2)] map_of_parts(2) [OF so, of num t]
      prog_rep_length [OF rep] prog_rep_length [OF P'(2)]
    by (auto simp: prog_ok_def prog_used_def)
qed

lemma delete_line_law:
  assumes "prog_ok P"
  shows "\<exists>P'. prog_delete_line P num = Some P' \<and> prog_ok P' \<and> prog_lookup P' = (prog_lookup P)(num := None) \<and>
    prog_used P' \<le> prog_used P"
proof -
  obtain ls where rep: "prog_rep P ls" using assms(1) by (auto simp: prog_ok_def)
  have so: "sorted_wrt (\<lambda>a b. fst a < fst b) ls" using rep by (simp add: prog_rep_def)
  obtain P' where P': "prog_delete_line P num = Some P'" "prog_rep P' (before num ls @ after num ls)"
    using delete_line_rep [OF rep] by blast
  have "length (enc_prog (before num ls @ after num ls)) \<le> length (enc_prog ls)"
    using split_sorted [OF so, of num]
    by (metis (no_types, lifting) enc_prog_simps(2,3) le_add2 length_append nat_add_left_cancel_le order_refl)
  then show ?thesis
    using P' lookup_rep [OF rep] lookup_rep [OF P'(2)] map_of_parts(1) [OF so, of num]
      prog_rep_length [OF rep] prog_rep_length [OF P'(2)]
    by (auto simp: prog_ok_def prog_used_def)
qed

interpretation ps: line_store prog_ok store_line prog_delete_line prog_lookup prog_used PROG_SIZE
  by unfold_locales (use store_line_law delete_line_law in blast)+

lemma prog_init_rep: "prog_rep (prog_init P) []"
  by (simp add: prog_rep_def prog_init_def)

section \<open>Properties\<close>

text \<open>
  C16: On a buffer that represents a sorted program, every search returns; a line with fewer than 253
  token bytes is inserted at its place, replacing the line of the same number, or, when the 8192
  bytes do not suffice, only the old line is removed; deletion removes exactly that line; and a
  search finds the offset of the line or NULL.
\<close>

theorem prog_store_refines:
  assumes "prog_rep P ls" and "num < 65536" and "tok_len + 3 < 256"
  shows "(\<exists>P'. prog_insert_line P num tokens tok_len = Some P' \<and>
            prog_rep P' (insert_spec num (seg tokens 0 tok_len) ls)) \<and>
    (\<exists>P'. prog_delete_line P num = Some P' \<and> prog_rep P' (before num ls @ after num ls)) \<and>
    prog_find_line P num = Some (if num \<in> fst ` set ls then Some (length (enc_prog (before num ls))) else None)"
  using insert_line_rep [OF assms] delete_line_rep [OF assms(1)] find_line_rep [OF assms(1)] by metis

theorem prog_store_refines_witness:
  "\<exists>P'. prog_insert_line (prog_init \<lparr>prog_buf = (\<lambda>_. 9), prog_end = 5\<rparr>) 300 (\<lambda>_. 7) 2 = Some P' \<and>
     prog_rep P' [(300, [7, 7])]"
  using prog_store_refines [OF prog_init_rep, of 300 2 "\<lparr>prog_buf = (\<lambda>_. 9), prog_end = 5\<rparr>" "\<lambda>_. 7"]
  by (simp add: insert_spec_def before_def after_def PROG_SIZE_def seg_Suc numeral_2_eq_2)

text \<open>
  C31: After NEW, entering numbered lines in any order, with repetitions, that fit the buffer
  together leaves under every line number the tokens entered last for it, and nothing else.
\<close>

theorem program_entry_correct:
  assumes "list_all line_valid ls" and "length (enc_prog ls) \<le> PROG_SIZE"
  shows "\<exists>P'. enter_lines store_line (prog_init P) ls = Some P' \<and> prog_lookup P' = map_of (rev ls)"
proof -
  have ok: "prog_ok (prog_init P)" using prog_init_rep by (auto simp: prog_ok_def)
  have e: "prog_lookup (prog_init P) = Map.empty" using lookup_rep [OF prog_init_rep] by simp
  have "prog_used (prog_init P) = 0" by (simp add: prog_used_def prog_init_def)
  then show ?thesis
    using ps.enter_lines_lookup [OF ok assms(1)] assms(2) by (auto simp: e)
qed

theorem program_entry_correct_witness:
  "\<exists>P'. enter_lines store_line (prog_init \<lparr>prog_buf = (\<lambda>_. 9), prog_end = 5\<rparr>) [(20, [1]), (10, [2, 3]), (20, [4])] = Some P' \<and>
     prog_lookup P' = map_of (rev [(20, [1]), (10, [2, 3]), (20, [4])])"
  by (rule program_entry_correct) (simp_all add: line_valid_def enc_prog_def PROG_SIZE_def)

end
