(* ===== verification/BasicExec.thy ===== *)
theory BasicExec
  imports BasicExpr BasicProgram
begin

text \<open>
  The statements of BASIC, \<open>apps/basic/exec.c\<close>.

  \<^item> \<open>xw\<close> is everything a statement can touch: the interpreter state (\<open>struct exec_state\<close>, of which
    there is one instance, \<open>basic_state\<close>), the error state, the variables and the string pool
    (\<open>env\<close>), the program, the console and the keyboard.
  \<^item> A line pointer is the offset of the line in the program buffer, NULL is \<^const>\<open>None\<close>.
  \<^item> The console is the list of what was written; the keyboard is the list of what happens at it:
    \<open>Some c\<close> is a key, \<open>None\<close> a moment at which \<open>keyboard_has_key\<close> finds none. Waiting for a key
    that never comes is \<^const>\<open>None\<close>, as is every trap.
\<close>

section \<open>State\<close>

record for_entry =
  fvar :: byte
  fvar_idx :: int
  flimit :: i32
  fstep :: i32
  fline :: "nat option"
  fpos :: nat

datatype con = Putc byte | Clear | Color nat nat

record xw =
  env :: benv
  prg :: prog
  current_line :: "nat option"
  pos :: nat
  running :: bool
  jumped :: bool
  gosub_line :: "nat \<Rightarrow> nat option"
  gosub_pos :: "nat \<Rightarrow> nat"
  gosub_sp :: nat
  for_stack :: "nat \<Rightarrow> for_entry"
  for_sp :: nat
  error_msg :: string
  error_line_num :: nat
  has_error :: bool
  console :: "con list"
  keys :: "int option list"

definition exec_init :: "xw \<Rightarrow> xw" where
  "exec_init w = w\<lparr>current_line := None, pos := 0, running := False, jumped := False, gosub_sp := 0, for_sp := 0\<rparr>"

definition exec_clear_error :: "xw \<Rightarrow> xw" where
  "exec_clear_error w = w\<lparr>has_error := False, error_msg := []\<rparr>"

definition exec_set_error :: "string \<Rightarrow> xw \<Rightarrow> xw" where
  "exec_set_error msg w = w\<lparr>has_error := True, error_msg := take 38 msg,
     error_line_num := (case current_line w of Some l \<Rightarrow> prog_line_number (prg w) l | None \<Rightarrow> 0),
     running := False\<rparr>"

section \<open>Console and keyboard\<close>

definition vga_putchar :: "byte \<Rightarrow> xw \<Rightarrow> xw" where
  "vga_putchar c w = w\<lparr>console := console w @ [Putc c]\<rparr>"

definition vga_write :: "byte list \<Rightarrow> xw \<Rightarrow> xw" where
  "vga_write s w = w\<lparr>console := console w @ map Putc s\<rparr>"

text \<open>\<open>keyboard_has_key\<close> consumes the moment at which it finds nothing; \<open>keyboard_getchar\<close> waits.\<close>

definition keyboard_poll :: "int option list \<Rightarrow> bool \<times> int option list" where
  "keyboard_poll ks = (case ks of [] \<Rightarrow> (False, []) | None # r \<Rightarrow> (False, r) | Some c # r \<Rightarrow> (True, ks))"

fun keyboard_get :: "int option list \<Rightarrow> (int \<times> int option list) option" where
  "keyboard_get [] = None"
| "keyboard_get (None # r) = keyboard_get r"
| "keyboard_get (Some c # r) = Some (c, r)"

abbreviation "CTRL_C \<equiv> (3 :: int)"

text \<open>
  The line editor of \<open>read_input_line\<close>; \<open>brk\<close> is what it writes on Ctrl+C (nothing here, a newline
  in the copy of \<open>basic.c\<close>). The result is the text in the buffer before its NUL.
\<close>

fun read_line :: "con list \<Rightarrow> nat \<Rightarrow> byte list \<Rightarrow> con list \<Rightarrow> int option list \<Rightarrow>
    (byte list \<times> con list \<times> int option list) option" where
  "read_line brk max_len buf out [] = None"
| "read_line brk max_len buf out (None # ks) = read_line brk max_len buf out ks"
| "read_line brk max_len buf out (Some c # ks) =
    (if c = 10 then Some (buf, out @ [Putc 10], ks)
     else if c = 8 then
       (if 0 < length buf then read_line brk max_len (butlast buf) (out @ [Putc 8]) ks
        else read_line brk max_len buf out ks)
     else if c = CTRL_C then Some ([], out @ brk, ks)
     else if 32 \<le> c \<and> c < 127 \<and> length buf + 1 < max_len
     then read_line brk max_len (buf @ [word_of_int c]) (out @ [Putc (word_of_int c)]) ks
     else read_line brk max_len buf out ks)"

definition read_input_line :: "nat \<Rightarrow> xw \<Rightarrow> (byte list \<times> xw) option" where
  "read_input_line max_len w =
    (case read_line [] max_len [] (console w) (keys w) of
       None \<Rightarrow> None
     | Some (buf, out, ks) \<Rightarrow> Some (buf, w\<lparr>console := out, keys := ks\<rparr>))"

section \<open>Helpers\<close>

definition skip_sp :: "mem \<Rightarrow> nat \<Rightarrow> xw \<Rightarrow> xw" where
  "skip_sp tokens len w = w\<lparr>pos := skip_spaces tokens len (pos w)\<rparr>"

definition advance :: "xw \<Rightarrow> xw" where
  "advance w = w\<lparr>pos := pos w + 1\<rparr>"

definition tok_here :: "mem \<Rightarrow> nat \<Rightarrow> xw \<Rightarrow> byte" where
  "tok_here tokens len w = peek_tok tokens len (pos w)"

text \<open>\<open>expr_clear_error(); v = expr_eval(tokens, len, \&state->pos);\<close>\<close>

definition eval_expr :: "mem \<Rightarrow> nat \<Rightarrow> xw \<Rightarrow> (bas_value \<times> xw) option" where
  "eval_expr tokens len w =
    (case expr_eval tokens len (expr_clear_error (env w)) (pos w) of
       None \<Rightarrow> None
     | Some (v, e, p) \<Rightarrow> Some (v, w\<lparr>env := e, pos := p\<rparr>))"

definition exec_i32_to_str :: "i32 \<Rightarrow> byte list" where
  "exec_i32_to_str val =
    (if val = 0 then [48]
     else let neg = (sint val < 0); val' = (if neg then - val else val) in
       (if neg then [MINUS] else []) @ rev (if 0 < sint val' then tmp_digits (unat val') else []))"

definition parse_var_target :: "mem \<Rightarrow> nat \<Rightarrow> xw \<Rightarrow> (byte \<times> int \<times> bool) option \<times> xw" where
  "parse_var_target tokens len w0 =
    (let w = skip_sp tokens len w0; tok = tok_here tokens len w in
     if \<not> is_letter tok then (None, w)
     else
       let name = upcase tok; w1 = advance w; c = tok_here tokens len w1 in
       if c = DOLLAR then (Some (name, - 1, True), advance w1)
       else if is_digit c then (Some (name, uint c - 48, False), advance w1)
       else (Some (name, - 1, False), w1))"

definition syntax_error :: "xw \<Rightarrow> xw option" where
  "syntax_error w = Some (exec_set_error ''SYNTAX ERROR'' w)"

text \<open>A numeric expression, or the syntax error that most statements raise for anything else.\<close>

definition eval_num :: "mem \<Rightarrow> nat \<Rightarrow> xw \<Rightarrow> (i32 option \<times> xw) option" where
  "eval_num tokens len w =
    (case eval_expr tokens len w of
       None \<Rightarrow> None
     | Some (VAL_NUM n, w1) \<Rightarrow> Some (if expr_error (env w1) then None else Some n, w1)
     | Some (VAL_STR p l, w1) \<Rightarrow> Some (None, w1))"

definition set_num :: "byte \<Rightarrow> int \<Rightarrow> i32 \<Rightarrow> xw \<Rightarrow> xw" where
  "set_num name idx v w =
    (case var_num name idx of
       None \<Rightarrow> w
     | Some slot \<Rightarrow> w\<lparr>env := (env w)\<lparr>num_vars := (num_vars (env w))(slot := v)\<rparr>\<rparr>)"

definition set_str :: "byte \<Rightarrow> (nat \<Rightarrow> mem \<Rightarrow> mem) \<Rightarrow> xw \<Rightarrow> xw" where
  "set_str name f w =
    (case var_str name of
       None \<Rightarrow> w
     | Some row \<Rightarrow> w\<lparr>env := (env w)\<lparr>str_vars := (str_vars (env w))(row := f row (str_vars (env w) row))\<rparr>\<rparr>)"

section \<open>PRINT, INPUT, LET\<close>

abbreviation "COLON \<equiv> (58 :: byte)"
abbreviation "SEMICOLON \<equiv> (59 :: byte)"

definition print_value :: "bas_value \<Rightarrow> xw \<Rightarrow> xw" where
  "print_value v w =
    (case v of
       VAL_NUM n \<Rightarrow> vga_write (exec_i32_to_str n) w
     | VAL_STR p l \<Rightarrow> vga_write (seg (spool (env w)) p l) w)"

fun print_loop :: "nat \<Rightarrow> mem \<Rightarrow> nat \<Rightarrow> bool \<Rightarrow> xw \<Rightarrow> xw option" where
  "print_loop 0 tokens len newline w = None"
| "print_loop (Suc rounds) tokens len newline w0 =
    (let done = (\<lambda>w. Some (if newline then vga_putchar 10 w else w));
         stop = (\<lambda>w. pos w \<ge> len \<or> tokens (pos w) = COLON \<or> tokens (pos w) = TOK_ELSE) in
     if stop w0 then done w0
     else
       let w = skip_sp tokens len w0 in
       if stop w then done w
       else if tokens (pos w) = SEMICOLON then print_loop rounds tokens len False (advance w)
       else if tokens (pos w) = COMMA then print_loop rounds tokens len False (advance (vga_putchar 9 w))
       else case eval_expr tokens len w of
              None \<Rightarrow> None
            | Some (v, w1) \<Rightarrow>
                if expr_error (env w1) then syntax_error w1
                else print_loop rounds tokens len True (print_value v w1))"

definition stmt_print :: "mem \<Rightarrow> nat \<Rightarrow> xw \<Rightarrow> xw option" where
  "stmt_print tokens len w = print_loop LOOPS tokens len True (advance w)"

text \<open>The prompt is copied from the tokens one byte at a time, \<open>pos\<close> being a \<open>uint8_t\<close>.\<close>

fun put_prompt :: "mem \<Rightarrow> nat \<Rightarrow> xw \<Rightarrow> xw" where
  "put_prompt tokens 0 w = w"
| "put_prompt tokens (Suc n) w =
    put_prompt tokens n ((vga_putchar (tokens (pos w)) w)\<lparr>pos := u8 (pos w + 1)\<rparr>)"

definition input_prompt :: "mem \<Rightarrow> nat \<Rightarrow> xw \<Rightarrow> xw" where
  "input_prompt tokens len w =
    (if tok_here tokens len w = TOK_STR_LIT then
       let w1 = advance w; slen = unat (tokens (pos w1));
           w2 = put_prompt tokens slen (w1\<lparr>pos := u8 (pos w1 + 1)\<rparr>);
           w3 = skip_sp tokens len w2
       in if tok_here tokens len w3 = SEMICOLON then advance w3 else w3
     else w)"

definition stmt_input :: "mem \<Rightarrow> nat \<Rightarrow> xw \<Rightarrow> xw option" where
  "stmt_input tokens len w0 =
    (let w1 = input_prompt tokens len (skip_sp tokens len (advance w0));
         w2 = vga_write (bytes_of ''? '') w1 in
     case parse_var_target tokens len w2 of
       (None, w3) \<Rightarrow> syntax_error w3
     | (Some (name, idx, is_str), w3) \<Rightarrow>
         (case read_input_line 80 w3 of
            None \<Rightarrow> None
          | Some (ibuf, w4) \<Rightarrow>
              if is_str
              then Some (set_str name (\<lambda>_ row. blit row 0 (arr_of (ibuf @ [0]) (\<lambda>_. 0)) 0 (length ibuf + 1)) w4)
              else Some (set_num name idx (str_to_i32 ibuf) w4)))"

definition stmt_assign :: "mem \<Rightarrow> nat \<Rightarrow> xw \<Rightarrow> xw option" where
  "stmt_assign tokens len w0 =
    (case parse_var_target tokens len w0 of
       (None, w1) \<Rightarrow> syntax_error w1
     | (Some (name, idx, is_str), w1) \<Rightarrow>
         (let w2 = skip_sp tokens len w1 in
          if tok_here tokens len w2 \<noteq> EQ then syntax_error w2
          else case eval_expr tokens len (advance w2) of
            None \<Rightarrow> None
          | Some (v, w3) \<Rightarrow>
              if expr_error (env w3) then syntax_error w3
              else if is_str then
                (case v of
                   VAL_NUM _ \<Rightarrow> Some (exec_set_error ''TYPE MISMATCH'' w3)
                 | VAL_STR p l \<Rightarrow>
                     (let n = min l STR_MAX_LEN in
                      Some (set_str name (\<lambda>_ row. (blit row 0 (spool (env w3)) p n)(n := 0)) w3)))
              else
                (case v of
                   VAL_NUM n \<Rightarrow> Some (set_num name idx n w3)
                 | VAL_STR _ _ \<Rightarrow> Some (exec_set_error ''TYPE MISMATCH'' w3))))"

section \<open>Jumps\<close>

text \<open>\<open>line = prog_find_line((uint16_t)n); if (!line) error; current_line = line; jumped = true;\<close>\<close>

definition jump_to :: "i32 \<Rightarrow> xw \<Rightarrow> xw option" where
  "jump_to n w =
    (case prog_find_line (prg w) (unat n mod 65536) of
       None \<Rightarrow> None
     | Some None \<Rightarrow> Some (exec_set_error ''UNDEFINED LINE'' w)
     | Some (Some line) \<Rightarrow> Some (w\<lparr>current_line := Some line, jumped := True\<rparr>))"

fun skip_to_else :: "nat \<Rightarrow> mem \<Rightarrow> nat \<Rightarrow> nat \<Rightarrow> nat" where
  "skip_to_else 0 tokens len p = p"
| "skip_to_else (Suc n) tokens len p =
    (if p < len \<and> tokens p \<noteq> TOK_ELSE then skip_to_else n tokens len (p + 1) else p)"

definition stmt_if :: "(xw \<Rightarrow> xw option) \<Rightarrow> mem \<Rightarrow> nat \<Rightarrow> xw \<Rightarrow> xw option" where
  "stmt_if exec_stmt tokens len w0 =
    (case eval_expr tokens len (advance w0) of
       None \<Rightarrow> None
     | Some (cond, w1) \<Rightarrow>
         if expr_error (env w1) then syntax_error w1
         else
           let w2 = skip_sp tokens len w1;
               w3 = (if tok_here tokens len w2 = TOK_THEN then advance w2 else w2);
               is_true = (case cond of VAL_NUM n \<Rightarrow> n \<noteq> 0 | VAL_STR p l \<Rightarrow> 0 < l) in
           if is_true then
             let w4 = skip_sp tokens len w3 in
             if tok_here tokens len w4 = TOK_NUM then
               (case read_num_literal tokens (pos w4 + 1) of (target, p) \<Rightarrow> jump_to target (w4\<lparr>pos := p\<rparr>))
             else exec_stmt w4
           else
             let w4 = w3\<lparr>pos := skip_to_else len tokens len (pos w3)\<rparr> in
             if pos w4 < len \<and> tokens (pos w4) = TOK_ELSE then exec_stmt (advance w4) else Some w4)"

definition stmt_goto :: "mem \<Rightarrow> nat \<Rightarrow> xw \<Rightarrow> xw option" where
  "stmt_goto tokens len w0 =
    (case eval_num tokens len (advance w0) of
       None \<Rightarrow> None
     | Some (None, w1) \<Rightarrow> syntax_error w1
     | Some (Some n, w1) \<Rightarrow> jump_to n w1)"

definition stmt_gosub :: "mem \<Rightarrow> nat \<Rightarrow> xw \<Rightarrow> xw option" where
  "stmt_gosub tokens len w0 =
    (case eval_num tokens len (advance w0) of
       None \<Rightarrow> None
     | Some (None, w1) \<Rightarrow> syntax_error w1
     | Some (Some n, w1) \<Rightarrow>
         if gosub_sp w1 \<ge> 32 then Some (exec_set_error ''OUT OF MEMORY'' w1)
         else jump_to n (w1\<lparr>gosub_line := (gosub_line w1)(gosub_sp w1 := current_line w1),
                            gosub_pos := (gosub_pos w1)(gosub_sp w1 := pos w1),
                            gosub_sp := gosub_sp w1 + 1\<rparr>))"

definition stmt_return :: "xw \<Rightarrow> xw option" where
  "stmt_return w0 =
    (let w = advance w0 in
     if gosub_sp w = 0 then Some (exec_set_error ''RETURN WITHOUT GOSUB'' w)
     else
       let sp = gosub_sp w - 1 in
       Some (w\<lparr>gosub_sp := sp, current_line := gosub_line w sp, pos := gosub_pos w sp\<rparr>))"

section \<open>FOR and NEXT\<close>

text \<open>The part of FOR behind the two bounds: the optional STEP and the entry on the stack.\<close>

definition for_push :: "byte \<Rightarrow> int \<Rightarrow> i32 \<Rightarrow> i32 \<Rightarrow> i32 \<Rightarrow> xw \<Rightarrow> xw option" where
  "for_push name idx start limit step w0 =
    (case var_num name idx of
       None \<Rightarrow> syntax_error w0
     | Some _ \<Rightarrow>
         (let w = set_num name idx start w0 in
          if for_sp w \<ge> 8 then Some (exec_set_error ''OUT OF MEMORY'' w)
          else Some (w\<lparr>for_stack := (for_stack w)(for_sp w :=
                        \<lparr>fvar = name, fvar_idx = idx, flimit = limit, fstep = step,
                         fline = current_line w, fpos = pos w\<rparr>),
                      for_sp := for_sp w + 1\<rparr>)))"

definition for_step :: "byte \<Rightarrow> int \<Rightarrow> i32 \<Rightarrow> i32 \<Rightarrow> mem \<Rightarrow> nat \<Rightarrow> xw \<Rightarrow> xw option" where
  "for_step name idx start limit tokens len w0 =
    (let w = skip_sp tokens len w0 in
     if tok_here tokens len w = TOK_STEP then
       (case eval_num tokens len (advance w) of
          None \<Rightarrow> None
        | Some (None, w1) \<Rightarrow> syntax_error w1
        | Some (Some step, w1) \<Rightarrow> for_push name idx start limit step w1)
     else for_push name idx start limit 1 w)"

definition stmt_for :: "mem \<Rightarrow> nat \<Rightarrow> xw \<Rightarrow> xw option" where
  "stmt_for tokens len w0 =
    (case parse_var_target tokens len (advance w0) of
       (None, w1) \<Rightarrow> syntax_error w1
     | (Some (name, idx, is_str), w1) \<Rightarrow>
         if is_str then syntax_error w1
         else
           let w2 = skip_sp tokens len w1 in
           if tok_here tokens len w2 \<noteq> EQ then syntax_error w2
           else case eval_num tokens len (advance w2) of
             None \<Rightarrow> None
           | Some (None, w3) \<Rightarrow> syntax_error w3
           | Some (Some start, w3) \<Rightarrow>
               (let w4 = skip_sp tokens len w3 in
                if tok_here tokens len w4 \<noteq> TOK_TO then syntax_error w4
                else case eval_num tokens len (advance w4) of
                  None \<Rightarrow> None
                | Some (None, w5) \<Rightarrow> syntax_error w5
                | Some (Some limit, w5) \<Rightarrow> for_step name idx start limit tokens len w5))"

text \<open>\<open>find_for st name idx n\<close>: the highest entry below \<open>n\<close> for the variable (the \<open>fi\<close> loop).\<close>

fun find_for :: "(nat \<Rightarrow> for_entry) \<Rightarrow> byte \<Rightarrow> int \<Rightarrow> nat \<Rightarrow> nat option" where
  "find_for st name idx 0 = None"
| "find_for st name idx (Suc n) =
    (if fvar (st n) \<noteq> name \<or> fvar_idx (st n) \<noteq> idx then find_for st name idx n else Some n)"

definition next_var :: "mem \<Rightarrow> nat \<Rightarrow> xw \<Rightarrow> (byte \<times> int) \<times> xw" where
  "next_var tokens len w0 =
    (let w = skip_sp tokens len w0 in
     if pos w < len \<and> is_letter (tokens (pos w)) then
       let name = upcase (tokens (pos w)); w1 = advance w in
       if pos w1 < len \<and> is_digit (tokens (pos w1)) then ((name, uint (tokens (pos w1)) - 48), advance w1)
       else ((name, - 1), w1)
     else ((0, - 1), w))"

definition next_step :: "nat \<Rightarrow> xw \<Rightarrow> xw option" where
  "next_step fi w =
    (let e = for_stack w fi in
     case var_num (fvar e) (fvar_idx e) of
       None \<Rightarrow> syntax_error w
     | Some slot \<Rightarrow>
         (let v = num_vars (env w) slot + fstep e;
              w1 = w\<lparr>env := (env w)\<lparr>num_vars := (num_vars (env w))(slot := v)\<rparr>\<rparr>;
              finished = (if 0 < sint (fstep e) then sint v > sint (flimit e) else sint v < sint (flimit e)) in
          if finished then Some (w1\<lparr>for_sp := fi\<rparr>)
          else Some (w1\<lparr>current_line := fline e, pos := fpos e, jumped := True\<rparr>)))"

definition stmt_next :: "mem \<Rightarrow> nat \<Rightarrow> xw \<Rightarrow> xw option" where
  "stmt_next tokens len w0 =
    (case next_var tokens len (advance w0) of
       ((name, idx), w) \<Rightarrow>
         if for_sp w = 0 then Some (exec_set_error ''NEXT WITHOUT FOR'' w)
         else if name \<noteq> 0 then
           (case find_for (for_stack w) name idx (for_sp w) of
              None \<Rightarrow> Some (exec_set_error ''NEXT WITHOUT FOR'' w)
            | Some fi \<Rightarrow> next_step fi w)
         else next_step (for_sp w - 1) w)"

section \<open>The other statements\<close>

definition stmt_poke :: "mem \<Rightarrow> nat \<Rightarrow> xw \<Rightarrow> xw option" where
  "stmt_poke tokens len w0 =
    (case eval_num tokens len (advance w0) of
       None \<Rightarrow> None
     | Some (None, w1) \<Rightarrow> syntax_error w1
     | Some (Some addr, w1) \<Rightarrow>
         (let w2 = skip_sp tokens len w1;
              w3 = (if tok_here tokens len w2 = COMMA then advance w2 else w2) in
          case eval_num tokens len w3 of
            None \<Rightarrow> None
          | Some (None, w4) \<Rightarrow> syntax_error w4
          | Some (Some val, w4) \<Rightarrow>
              Some (w4\<lparr>env := (env w4)\<lparr>ram := (ram (env w4))(unat addr := ucast val)\<rparr>\<rparr>)))"

definition other_stmt :: "byte \<Rightarrow> nat \<Rightarrow> xw \<Rightarrow> xw option" where
  "other_stmt tok len w =
    (if tok = TOK_REM then Some (w\<lparr>pos := len\<rparr>)
     else if tok = TOK_END then Some ((advance w)\<lparr>running := False\<rparr>)
     else if tok = TOK_CLS then Some ((advance w)\<lparr>console := console w @ [Clear]\<rparr>)
     else if tok = TOK_CLR then Some ((advance w)\<lparr>env := vars_clear (env w)\<rparr>)
     else syntax_error w)"

text \<open>The poll for Ctrl+C between the statements of a running program.\<close>

definition break_poll :: "xw \<Rightarrow> (bool \<times> xw) option" where
  "break_poll w =
    (if \<not> running w then Some (False, w)
     else case keyboard_poll (keys w) of
       (False, ks) \<Rightarrow> Some (False, w\<lparr>keys := ks\<rparr>)
     | (True, ks) \<Rightarrow>
         (case keyboard_get ks of
            None \<Rightarrow> None
          | Some (c, ks') \<Rightarrow>
              if c = CTRL_C then
                (let w1 = vga_write (bytes_of ''\<newline>BREAK'') (w\<lparr>keys := ks'\<rparr>);
                     w2 = (case current_line w of
                             None \<Rightarrow> w1
                           | Some l \<Rightarrow> vga_write (bytes_of '' IN '' @
                               exec_i32_to_str (word_of_nat (prog_line_number (prg w) l))) w1)
                 in Some (True, (vga_putchar 10 w2)\<lparr>running := False\<rparr>))
              else Some (False, w\<lparr>keys := ks'\<rparr>)))"

primrec exec_statement :: "nat \<Rightarrow> mem \<Rightarrow> nat \<Rightarrow> xw \<Rightarrow> xw option" where
  "exec_statement 0 tokens len w0 = None"
| "exec_statement (Suc depth) tokens len w0 =
    (let w1 = skip_sp tokens len w0 in
     if pos w1 \<ge> len then Some w1
     else
       let tok = tokens (pos w1) in
       case break_poll w1 of
         None \<Rightarrow> None
       | Some (True, w) \<Rightarrow> Some w
       | Some (False, w) \<Rightarrow>
           if tok = TOK_PRINT then stmt_print tokens len w
           else if tok = TOK_INPUT then stmt_input tokens len w
           else if tok = TOK_LET then stmt_assign tokens len (advance w)
           else if is_letter tok then stmt_assign tokens len w
           else if tok = TOK_IF then stmt_if (exec_statement depth tokens len) tokens len w
           else if tok = TOK_GOTO then stmt_goto tokens len w
           else if tok = TOK_GOSUB then stmt_gosub tokens len w
           else if tok = TOK_RETURN then stmt_return w
           else if tok = TOK_FOR then stmt_for tokens len w
           else if tok = TOK_NEXT then stmt_next tokens len w
           else if tok = TOK_POKE then stmt_poke tokens len w
           else other_stmt tok len w)"

text \<open>
  The statements of a line. A RETURN moves \<open>pos\<close> back at most once per entry of the GOSUB stack and
  every other statement moves it forward, so 33 passes of 256 rounds bound the loop.
\<close>

definition LINE_ROUNDS :: nat where "LINE_ROUNDS = 33 * 256"

fun line_loop :: "nat \<Rightarrow> mem \<Rightarrow> nat \<Rightarrow> xw \<Rightarrow> xw option" where
  "line_loop 0 tokens len w = None"
| "line_loop (Suc rounds) tokens len w0 =
    (if \<not> (pos w0 < len \<and> running w0 \<and> \<not> has_error w0) then Some w0
     else
       let w = skip_sp tokens len w0 in
       if pos w \<ge> len then Some w
       else if tokens (pos w) = COLON then line_loop rounds tokens len (advance w)
       else case exec_statement LOOPS tokens len w of
         None \<Rightarrow> None
       | Some w1 \<Rightarrow> if jumped w1 then Some w1 else line_loop rounds tokens len w1)"

definition exec_line_at :: "mem \<Rightarrow> nat \<Rightarrow> nat \<Rightarrow> xw \<Rightarrow> xw option" where
  "exec_line_at tokens len start_pos w =
    line_loop LINE_ROUNDS tokens len
      (w\<lparr>pos := start_pos, jumped := False, env := string_pool_reset (env w)\<rparr>)"

definition exec_line :: "mem \<Rightarrow> nat \<Rightarrow> xw \<Rightarrow> xw option" where
  "exec_line tokens len w = exec_line_at tokens len 0 w"

definition exec_immediate :: "mem \<Rightarrow> nat \<Rightarrow> xw \<Rightarrow> xw option" where
  "exec_immediate tokens len w = exec_line tokens len (exec_clear_error ((exec_init w)\<lparr>running := True\<rparr>))"

end
