(* ===== verification/BasicRoundtrip.thy ===== *)
theory BasicRoundtrip
  imports BasicTokens
begin

text \<open>
  The round trip between source text and tokens. \<open>tok_spec\<close> and \<open>detok_spec\<close> are what the two
  loops compute when no buffer limit is met; \<open>canon\<close> is the listing of a source line (keywords in
  upper case, numbers without leading zeros, string literals closed).
\<close>

section \<open>The loops without their limits\<close>

function tok_spec :: "byte list \<Rightarrow> byte list" where
  "tok_spec [] = []"
| "tok_spec (c # rest) =
    (if c = SP then SP # tok_spec rest
     else case find_keyword (c # rest) keyword_table of
       Some (klen, tok) \<Rightarrow>
         tok # (if tok = TOK_REM then drop klen (c # rest) else tok_spec (drop klen (c # rest)))
     | None \<Rightarrow>
       if is_digit c then
         (case parse_number (c # rest) of (val, adv) \<Rightarrow>
            TOK_NUM # num_bytes val @ tok_spec (drop adv (c # rest)))
       else if c = QUOTE then
         (let str = takeWhile (\<lambda>x. x \<noteq> QUOTE) rest in
          TOK_STR_LIT # word_of_nat (length str) # str @ tok_spec (tl (dropWhile (\<lambda>x. x \<noteq> QUOTE) rest)))
       else if c = LT \<and> at_nul rest = EQ then TOK_LE # tok_spec (tl rest)
       else if c = GT \<and> at_nul rest = EQ then TOK_GE # tok_spec (tl rest)
       else if c = LT \<and> at_nul rest = GT then TOK_NE # tok_spec (tl rest)
       else c # tok_spec rest)"
  by pat_completeness auto
termination
  by (relation "measure length")
    (auto intro: tokenize_decreases simp: le_imp_less_Suc length_dropWhile_le le_trans [OF diff_le_self])

lemma copy_rem_extends: "copy_rem m src out = (src', out') \<Longrightarrow> length out \<le> length out'"
  by (induction m src out rule: copy_rem.induct) (force split: if_splits)+

lemma copy_rem_complete:
  "copy_rem m src out = (src', out') \<Longrightarrow> length out' + 1 < m \<Longrightarrow> src' = [] \<and> out' = out @ src"
  by (induction m src out rule: copy_rem.induct) (auto split: if_splits)

lemma copy_str_extends: "copy_str m src out n = (src', out', n') \<Longrightarrow> length out \<le> length out'"
  by (induction m src out n rule: copy_str.induct) (force split: if_splits)+

lemma copy_str_complete:
  "copy_str m src out n = (src', out', n') \<Longrightarrow> length out' + 1 < m \<Longrightarrow> m \<le> 255 \<Longrightarrow> n \<le> length out \<Longrightarrow>
   src' = dropWhile (\<lambda>x. x \<noteq> QUOTE) src \<and> out' = out @ takeWhile (\<lambda>x. x \<noteq> QUOTE) src \<and>
   n' = n + length (takeWhile (\<lambda>x. x \<noteq> QUOTE) src)"
proof (induction m src out n rule: copy_str.induct)
  case (2 m c cs out n)
  show ?case
  proof (cases "c \<noteq> QUOTE \<and> length out + 1 < m")
    case True
    then have "u8 (n + 1) = n + 1" using 2 by (intro u8_id) simp
    then show ?thesis using 2 True by auto
  next
    case False
    then show ?thesis using 2 by auto
  qed
qed auto

lemma tl_at_quote:
  assumes "s = dropWhile (\<lambda>x. x \<noteq> QUOTE) r"
  shows "(if at_nul s = QUOTE then tl s else s) = tl s"
proof (cases s)
  case (Cons a list)
  then have "\<not> a \<noteq> QUOTE"
    using assms hd_dropWhile [of "\<lambda>x. x \<noteq> QUOTE" r] by (metis list.distinct(1) list.sel(1))
  then show ?thesis using Cons by (simp add: at_nul_def)
qed (simp add: at_nul_def)

text \<open>The lexical classes of the main loop, in the order it tests them.\<close>

definition comparison :: "byte \<Rightarrow> byte \<Rightarrow> byte option" where
  "comparison c d =
    (if c = LT \<and> d = EQ then Some TOK_LE else if c = GT \<and> d = EQ then Some TOK_GE
     else if c = LT \<and> d = GT then Some TOK_NE else None)"

definition plain_start :: "byte \<Rightarrow> byte list \<Rightarrow> bool" where
  "plain_start c rest \<longleftrightarrow> c \<noteq> SP \<and> find_keyword (c # rest) keyword_table = None"

lemma tok_cases:
  obtains (space) "c = SP"
  | (keyword) klen tok where "c \<noteq> SP" "find_keyword (c # rest) keyword_table = Some (klen, tok)" "tok \<noteq> TOK_REM"
  | (remark) klen where "c \<noteq> SP" "find_keyword (c # rest) keyword_table = Some (klen, TOK_REM)"
  | (number) val adv where "plain_start c rest" "is_digit c" "parse_number (c # rest) = (val, adv)"
  | (string) "plain_start c rest" "c = QUOTE"
  | (oper) tok where "plain_start c rest" "comparison c (at_nul rest) = Some tok"
  | (other) "plain_start c rest" "\<not> is_digit c" "c \<noteq> QUOTE" "comparison c (at_nul rest) = None"
  unfolding plain_start_def
  by (cases "find_keyword (c # rest) keyword_table"; cases "parse_number (c # rest)";
      cases "comparison c (at_nul rest)") fastforce+

lemma comparison_SomeD:
  "comparison c d = Some tok \<Longrightarrow> (c, d, tok) \<in> {(LT, EQ, TOK_LE), (GT, EQ, TOK_GE), (LT, GT, TOK_NE)}"
  by (auto simp: comparison_def split: if_splits)

lemma loop_steps:
  assumes "length out + 5 < m"
  shows "tokenize_loop m (SP # rest) out = tokenize_loop m rest (out @ [SP])"
    and "c \<noteq> SP \<Longrightarrow> find_keyword (c # rest) keyword_table = Some (klen, tok) \<Longrightarrow> tok \<noteq> TOK_REM \<Longrightarrow>
      tokenize_loop m (c # rest) out = tokenize_loop m (drop klen (c # rest)) (out @ [tok])"
    and "c \<noteq> SP \<Longrightarrow> find_keyword (c # rest) keyword_table = Some (klen, TOK_REM) \<Longrightarrow>
      tokenize_loop m (c # rest) out =
        (case copy_rem m (drop klen (c # rest)) (out @ [TOK_REM]) of (src2, out2) \<Rightarrow> tokenize_loop m src2 out2)"
    and "plain_start c rest \<Longrightarrow> is_digit c \<Longrightarrow> parse_number (c # rest) = (val, adv) \<Longrightarrow>
      tokenize_loop m (c # rest) out =
        tokenize_loop m (drop adv (c # rest)) (out @ TOK_NUM # num_bytes val)"
    and "plain_start QUOTE rest \<Longrightarrow>
      tokenize_loop m (QUOTE # rest) out =
        (case copy_str m rest (out @ [TOK_STR_LIT, 0]) 0 of (src2, out2, slen) \<Rightarrow>
            tokenize_loop m (if at_nul src2 = QUOTE then tl src2 else src2)
              (out2[length out + 1 := word_of_nat slen]))"
    and "plain_start c rest \<Longrightarrow> comparison c (at_nul rest) = Some tok \<Longrightarrow>
      tokenize_loop m (c # rest) out = tokenize_loop m (tl rest) (out @ [tok])"
    and "plain_start c rest \<Longrightarrow> \<not> is_digit c \<Longrightarrow> c \<noteq> QUOTE \<Longrightarrow> comparison c (at_nul rest) = None \<Longrightarrow>
      tokenize_loop m (c # rest) out = tokenize_loop m rest (out @ [c])"
  using assms
  by (auto simp: plain_start_def Let_def is_digit_def comparison_def split: if_splits)

lemma spec_steps:
  shows "tok_spec (SP # rest) = SP # tok_spec rest"
    and "c \<noteq> SP \<Longrightarrow> find_keyword (c # rest) keyword_table = Some (klen, tok) \<Longrightarrow> tok \<noteq> TOK_REM \<Longrightarrow>
      tok_spec (c # rest) = tok # tok_spec (drop klen (c # rest))"
    and "c \<noteq> SP \<Longrightarrow> find_keyword (c # rest) keyword_table = Some (klen, TOK_REM) \<Longrightarrow>
      tok_spec (c # rest) = TOK_REM # drop klen (c # rest)"
    and "plain_start c rest \<Longrightarrow> is_digit c \<Longrightarrow> parse_number (c # rest) = (val, adv) \<Longrightarrow>
      tok_spec (c # rest) = TOK_NUM # num_bytes val @ tok_spec (drop adv (c # rest))"
    and "plain_start QUOTE rest \<Longrightarrow>
      tok_spec (QUOTE # rest) =
        TOK_STR_LIT # word_of_nat (length (takeWhile (\<lambda>x. x \<noteq> QUOTE) rest)) #
          takeWhile (\<lambda>x. x \<noteq> QUOTE) rest @ tok_spec (tl (dropWhile (\<lambda>x. x \<noteq> QUOTE) rest))"
    and "plain_start c rest \<Longrightarrow> comparison c (at_nul rest) = Some tok \<Longrightarrow>
      tok_spec (c # rest) = tok # tok_spec (tl rest)"
    and "plain_start c rest \<Longrightarrow> \<not> is_digit c \<Longrightarrow> c \<noteq> QUOTE \<Longrightarrow> comparison c (at_nul rest) = None \<Longrightarrow>
      tok_spec (c # rest) = c # tok_spec rest"
  by (auto simp: plain_start_def Let_def is_digit_def comparison_def split: if_splits)

declare tokenize_loop.simps(2) [simp del] tok_spec.simps(2) [simp del]

lemma step_shorter:
  shows "find_keyword (c # rest) ks = Some (klen, tok) \<Longrightarrow> length (drop klen (c # rest)) < length (c # rest)"
    and "is_digit c \<Longrightarrow> parse_number (c # rest) = (val, adv) \<Longrightarrow> length (drop adv (c # rest)) < length (c # rest)"
    and "length (tl rest) < length (c # rest)"
    and "length (tl (dropWhile P rest)) < length (c # rest)"
proof -
  show "find_keyword (c # rest) ks = Some (klen, tok) \<Longrightarrow> length (drop klen (c # rest)) < length (c # rest)"
    using find_keyword_pos [of "c # rest" ks klen tok] by simp
  show "is_digit c \<Longrightarrow> parse_number (c # rest) = (val, adv) \<Longrightarrow> length (drop adv (c # rest)) < length (c # rest)"
    using parse_number_pos [of c rest val adv] by simp
  show "length (tl rest) < length (c # rest)" by simp
  show "length (tl (dropWhile P rest)) < length (c # rest)"
    using length_dropWhile_le [of P rest] by simp
qed

lemma tokenize_loop_extends: "length out \<le> length (tokenize_loop m src out)"
proof (induction "length src" arbitrary: src out rule: less_induct)
  case less
  show ?case
  proof (cases "src = [] \<or> \<not> length out + 5 < m")
    case True
    then show ?thesis by (cases src) (simp_all add: tokenize_loop.simps(2))
  next
    case False
    then obtain c rest where src: "src = c # rest" and room: "length out + 5 < m" by (cases src) auto
    have IH: "length o' \<le> length (tokenize_loop m s o')" if "length s < length (c # rest)" for s o'
      using less that src by blast
    show ?thesis
    proof (cases rule: tok_cases [where c = c and rest = rest])
      case space
      then show ?thesis using IH [of rest "out @ [SP]"] by (simp add: src loop_steps [OF room])
    next
      case (keyword klen tok)
      then show ?thesis
        using IH [OF step_shorter(1) [OF keyword(2)], of "out @ [tok]"] by (simp add: src loop_steps [OF room])
    next
      case (remark klen)
      obtain s2 o2 where cr: "copy_rem m (drop klen (c # rest)) (out @ [TOK_REM]) = (s2, o2)" by fastforce
      have "length s2 < length (c # rest)"
        using copy_rem_shorter [OF cr] step_shorter(1) [OF remark(2)] by linarith
      then show ?thesis
        using IH [of s2 o2] copy_rem_extends [OF cr] cr remark by (simp add: src loop_steps [OF room])
    next
      case (number val adv)
      then show ?thesis
        using IH [OF step_shorter(2) [OF number(2,3)], of "out @ TOK_NUM # num_bytes val"]
        by (simp add: src loop_steps [OF room])
    next
      case string
      obtain s2 o2 n2 where cs: "copy_str m rest (out @ [TOK_STR_LIT, 0]) 0 = (s2, o2, n2)" by (metis prod_cases3)
      let ?s = "if at_nul s2 = QUOTE then tl s2 else s2" and ?o = "o2[length out + 1 := word_of_nat n2]"
      have "length ?s < length (c # rest)" using copy_str_shorter [OF cs] by (cases s2) auto
      then have "length ?o \<le> length (tokenize_loop m ?s ?o)" by (rule IH)
      moreover have "tokenize_loop m src out = tokenize_loop m ?s ?o"
        using string cs by (simp add: src loop_steps [OF room])
      ultimately show ?thesis using copy_str_extends [OF cs] by simp
    next
      case (oper tok)
      then show ?thesis using IH [OF step_shorter(3), of "out @ [tok]"] by (simp add: src loop_steps [OF room])
    next
      case other
      then show ?thesis using IH [of rest "out @ [c]"] by (simp add: src loop_steps [OF room])
    qed
  qed
qed

lemma copy_rem_fits: "length out + length src < m \<Longrightarrow> copy_rem m src out = ([], out @ src)"
  by (induction m src out rule: copy_rem.induct) auto

lemma copy_str_fits:
  "length out + length (takeWhile (\<lambda>x. x \<noteq> QUOTE) src) < m \<Longrightarrow> copy_str m src out n = (src', out', n') \<Longrightarrow>
   length out' = length out + length (takeWhile (\<lambda>x. x \<noteq> QUOTE) src)"
  by (induction m src out n rule: copy_str.induct) (auto split: if_splits)

lemma length_num_bytes: "length (num_bytes v) = 4"
  by (simp add: num_bytes_def)

text \<open>A run that stops with room to spare, or whose tokens leave room to spare, has met no limit.\<close>

lemma tokenize_loop_unbounded:
  assumes "length (tokenize_loop m src out) + 5 < m \<or> length out + length (tok_spec src) + 5 < m"
    and "m \<le> 255"
  shows "tokenize_loop m src out = out @ tok_spec src"
  using assms(1)
proof (induction "length src" arbitrary: src out rule: less_induct)
  case less
  show ?case
  proof (cases src)
    case Nil
    then show ?thesis by simp
  next
    case src: (Cons c rest)
    have room: "length out + 5 < m"
      using tokenize_loop_extends [of out m src] less.prems by auto
    have IH: "tokenize_loop m s o' = o' @ tok_spec s"
      if "tokenize_loop m src out = tokenize_loop m s o'" and "length s < length (c # rest)"
        and "length o' + length (tok_spec s) \<le> length out + length (tok_spec src)" for s o'
    proof (rule less.hyps)
      show "length s < length src" using that src by simp
      show "length (tokenize_loop m s o') + 5 < m \<or> length o' + length (tok_spec s) + 5 < m"
        using less.prems that by auto
    qed
    have fits: "length o' + 5 < m \<or> length out + length (tok_spec src) + 5 < m"
      if "tokenize_loop m src out = tokenize_loop m s o'" for s o'
      using tokenize_loop_extends [of o' m s] less.prems that by auto
    show ?thesis
    proof (cases rule: tok_cases [where c = c and rest = rest])
      case space
      then show ?thesis using IH [of rest "out @ [SP]"] by (simp add: src loop_steps [OF room] spec_steps length_num_bytes)
    next
      case (keyword klen tok)
      then show ?thesis
        using IH [OF _ step_shorter(1) [OF keyword(2)], of "out @ [tok]"]
        by (simp add: src loop_steps [OF room] spec_steps length_num_bytes)
    next
      case (remark klen)
      obtain s2 o2 where cr: "copy_rem m (drop klen (c # rest)) (out @ [TOK_REM]) = (s2, o2)" by fastforce
      then have step: "tokenize_loop m src out = tokenize_loop m s2 o2"
        using remark by (simp add: src loop_steps [OF room])
      have "s2 = [] \<and> o2 = (out @ [TOK_REM]) @ drop klen (c # rest)"
        using copy_rem_complete [OF cr] copy_rem_fits [of "out @ [TOK_REM]" "drop klen (c # rest)" m]
          fits [OF step] cr remark by (auto simp: src spec_steps(3))
      then show ?thesis using step remark by (simp add: src spec_steps(3))
    next
      case (number val adv)
      then show ?thesis
        using IH [OF _ step_shorter(2) [OF number(2,3)], of "out @ TOK_NUM # num_bytes val"]
        by (simp add: src loop_steps [OF room] spec_steps length_num_bytes)
    next
      case string
      obtain s2 o2 n2 where cs: "copy_str m rest (out @ [TOK_STR_LIT, 0]) 0 = (s2, o2, n2)" by (metis prod_cases3)
      let ?s = "if at_nul s2 = QUOTE then tl s2 else s2" and ?o = "o2[length out + 1 := word_of_nat n2]"
      have step: "tokenize_loop m src out = tokenize_loop m ?s ?o"
        using string cs by (simp add: src loop_steps [OF room])
      have "length o2 + 1 < m"
        using fits [OF step] copy_str_fits [OF _ cs] string by (auto simp: src spec_steps(5))
      from copy_str_complete [OF cs this assms(2)]
      have s2: "s2 = dropWhile (\<lambda>x. x \<noteq> QUOTE) rest"
        and o2: "o2 = (out @ [TOK_STR_LIT, 0]) @ takeWhile (\<lambda>x. x \<noteq> QUOTE) rest"
        and n2: "n2 = length (takeWhile (\<lambda>x. x \<noteq> QUOTE) rest)" by simp_all
      have s: "?s = tl (dropWhile (\<lambda>x. x \<noteq> QUOTE) rest)"
        using tl_at_quote [OF s2] s2 by simp
      have "length ?o + length (tok_spec ?s) \<le> length out + length (tok_spec src)"
        using string unfolding s by (simp add: src spec_steps(5) o2)
      then have "tokenize_loop m src out = ?o @ tok_spec ?s"
        using IH [OF step] step_shorter(4) unfolding step s by blast
      moreover have "?o = out @ [TOK_STR_LIT, word_of_nat n2] @ takeWhile (\<lambda>x. x \<noteq> QUOTE) rest"
        unfolding o2 by (simp add: list_update_append)
      ultimately show ?thesis unfolding s using string by (simp add: src spec_steps n2)
    next
      case (oper tok)
      then show ?thesis
        using IH [OF _ step_shorter(3), of "out @ [tok]"] by (simp add: src loop_steps [OF room] spec_steps length_num_bytes)
    next
      case other
      then show ?thesis
        using IH [of rest "out @ [c]"] by (simp add: src loop_steps [OF room] spec_steps length_num_bytes)
    qed
  qed
qed

section \<open>Numbers\<close>

fun digits_val :: "byte list \<Rightarrow> nat \<Rightarrow> nat" where
  "digits_val [] acc = acc"
| "digits_val (c # cs) acc = (if is_digit c then digits_val cs (acc * 10 + (unat c - 48)) else acc)"

definition dec :: "nat \<Rightarrow> byte list" where
  "dec n = (if n = 0 then [48] else rev (tmp_digits n))"

lemma ucast_digit:
  assumes "is_digit c"
  shows "(ucast c :: i32) - 48 = word_of_nat (unat c - 48)"
proof -
  have "48 \<le> unat c" using assms is_digit_unat by blast
  then have "(word_of_nat (unat c - 48) :: i32) = word_of_nat (unat c) - word_of_nat 48"
    by (rule of_nat_diff)
  then show ?thesis by simp
qed

lemma digit_char:
  assumes "k < 10"
  shows "unat (word_of_nat (48 + k) :: byte) = 48 + k" and "is_digit (word_of_nat (48 + k))"
proof -
  show u: "unat (word_of_nat (48 + k) :: byte) = 48 + k"
    using assms by (intro unat_byte_of_nat) simp
  show "is_digit (word_of_nat (48 + k))"
    unfolding is_digit_unat u using assms by simp
qed

lemma digit_loop_val:
  "digit_loop src (word_of_nat acc) i =
     (word_of_nat (digits_val src acc), i + length (takeWhile is_digit src))"
proof (induction src arbitrary: acc i)
  case (Cons c cs)
  then show ?case
    using Cons [of "acc * 10 + (unat c - 48)" "i + 1"] by (simp add: ucast_digit)
qed simp

lemma parse_number_val:
  assumes "is_digit c"
  shows "parse_number (c # cs) =
    (word_of_nat (digits_val (c # cs) 0), length (takeWhile is_digit (c # cs)))"
proof -
  have "c \<noteq> MINUS" using assms by (auto simp: is_digit_def)
  then show ?thesis
    using digit_loop_val [of "c # cs" 0 0] by (simp add: parse_number_def at_nul_def del: digit_loop.simps)
qed

lemma tmp_digits_digits: "\<forall>d \<in> set (tmp_digits n). is_digit d"
proof (induction n rule: tmp_digits.induct)
  case (1 n)
  then show ?case
    using digit_char(2) [of "n mod 10"] by (subst tmp_digits.simps) (auto simp del: of_nat_add)
qed

lemma digits_val_append:
  "\<forall>d \<in> set ds. is_digit d \<Longrightarrow> digits_val (ds @ r) acc = digits_val r (digits_val ds acc)"
  by (induction ds arbitrary: acc) auto

lemma digits_val_tmp: "digits_val (rev (tmp_digits n)) 0 = n"
proof (induction n rule: tmp_digits.induct)
  case (1 n)
  show ?case
  proof (cases "0 < n")
    case True
    then show ?thesis
      using 1 tmp_digits_digits digit_char [of "n mod 10"]
      by (subst tmp_digits.simps) (simp add: digits_val_append del: of_nat_add)
  qed (simp add: tmp_digits.simps)
qed

lemma dec_digits: "\<forall>d \<in> set (dec n). is_digit d"
  using tmp_digits_digits by (simp add: dec_def is_digit_def)

lemma dec_nonempty: "dec n \<noteq> []"
  by (simp add: dec_def) (subst tmp_digits.simps, simp)

lemma digits_val_dec: "digits_val (dec n) 0 = n"
  using digits_val_tmp [of n] by (simp add: dec_def is_digit_def)

lemma int_to_str_dec:
  assumes "n < 2147483648"
  shows "int_to_str (word_of_nat n) = dec n"
proof (cases "n = 0")
  case False
  have u: "unat (word_of_nat n :: i32) = n" using assms by (simp add: unat_of_nat)
  have s: "sint (word_of_nat n :: i32) = int n"
    using assms by (simp add: signed_of_nat signed_take_bit_int_eq_self)
  have "(word_of_nat n :: i32) \<noteq> 0" using u False by auto
  then show ?thesis using u s False by (simp add: int_to_str_def dec_def)
qed (simp add: int_to_str_def dec_def)

lemma and255: "(w :: i32) AND 255 = take_bit 8 w"
  by (simp add: take_bit_eq_mask mask_eq_exp_minus_1)

lemma byte_part: "(ucast (ucast (take_bit 8 w :: i32) :: byte) :: i32) = take_bit 8 w"
  by (rule bit_word_eqI) (auto simp: bit_simps)

lemma num_of_bytes_inverse: "num_bytes v = [b0, b1, b2, b3] \<Longrightarrow> num_of_bytes b0 b1 b2 b3 = v"
proof -
  assume "num_bytes v = [b0, b1, b2, b3]"
  then have b: "b0 = ucast (take_bit 8 v)" "b1 = ucast (take_bit 8 (drop_bit 8 v))"
    "b2 = ucast (take_bit 8 (drop_bit 16 v))" "b3 = ucast (take_bit 8 (drop_bit 24 v))"
    by (simp_all add: num_bytes_def and255)
  show ?thesis
    unfolding num_of_bytes_def b byte_part
  proof (rule bit_word_eqI)
  fix n assume n: "n < LENGTH(32)"
  then consider "n < 8" | "8 \<le> n \<and> n < 16" | "16 \<le> n \<and> n < 24" | "24 \<le> n \<and> n < 32" by fastforce
  then show "bit (take_bit 8 v OR push_bit 8 (take_bit 8 (drop_bit 8 v)) OR push_bit 16 (take_bit 8 (drop_bit 16 v)) OR push_bit 24 (take_bit 8 (drop_bit 24 v))) n = bit v n"
    by cases (auto simp add: bit_or_iff bit_push_bit_iff bit_take_bit_iff bit_drop_bit_eq)
  qed
qed
section \<open>The detokenizer without its limits\<close>

function detok_spec :: "byte list \<Rightarrow> byte list" where
  "detok_spec [] = []"
| "detok_spec (tok # toks) =
    (if tok = TOK_NUM then
       (case toks of
          b0 # b1 # b2 # b3 # toks' \<Rightarrow> int_to_str (num_of_bytes b0 b1 b2 b3) @ detok_spec toks'
        | _ \<Rightarrow> detok_spec toks)
     else if tok = TOK_STR_LIT then
       (case toks of
          [] \<Rightarrow> []
        | slen # toks1 \<Rightarrow>
            QUOTE # take (unat slen) toks1 @ QUOTE # detok_spec (drop (unat slen) toks1))
     else if tok = TOK_LE then LT # EQ # detok_spec toks
     else if tok = TOK_GE then GT # EQ # detok_spec toks
     else if tok = TOK_NE then LT # GT # detok_spec toks
     else case (if 0x80 \<le> tok then token_to_name tok else None) of
       Some name \<Rightarrow> name @ (if tok = TOK_REM then toks else detok_spec toks)
     | None \<Rightarrow> tok # detok_spec toks)"
  by pat_completeness auto
termination by (relation "measure length") auto

lemma put_chars_extends: "length out \<le> length (put_chars m cs out)"
  by (induction m cs out rule: put_chars.induct) auto

lemma put_chars_complete: "length (put_chars m cs out) + 1 < m \<Longrightarrow> put_chars m cs out = out @ cs"
  by (induction m cs out rule: put_chars.induct) (auto split: if_splits)

lemma copy_lit_extends: "copy_lit m toks n out = (toks', out') \<Longrightarrow> length out \<le> length out'"
  by (induction m toks n out rule: copy_lit.induct) (force split: if_splits)+

lemma copy_lit_complete:
  "copy_lit m toks n out = (toks', out') \<Longrightarrow> length out' + 1 < m \<Longrightarrow>
   toks' = drop n toks \<and> out' = out @ take n toks"
  by (induction m toks n out rule: copy_lit.induct) (auto split: if_splits)

lemma raw_rest_extends: "raw_rest m toks out = (toks', out') \<Longrightarrow> length out \<le> length out'"
  by (induction m toks out rule: raw_rest.induct) (force split: if_splits)+

lemma raw_rest_complete:
  "raw_rest m toks out = (toks', out') \<Longrightarrow> length out' + 1 < m \<Longrightarrow> toks' = [] \<and> out' = out @ toks"
  by (induction m toks out rule: raw_rest.induct) (auto split: if_splits)

lemma put1_extends: "length out \<le> length (put1 m c out)"
  by (simp add: put1_def)

lemma put2_extends: "length out \<le> length (put2 m c d out)"
  by (simp add: put2_def)

lemma put1_complete: "length (put1 m c out) + 1 < m \<Longrightarrow> put1 m c out = out @ [c]"
  by (auto simp: put1_def split: if_splits)

lemma put2_complete: "length (put2 m c d out) + 2 < m \<Longrightarrow> put2 m c d out = out @ [c, d]"
  by (auto simp: put2_def split: if_splits)

declare detok_loop.simps(2) [simp del] detok_spec.simps(2) [simp del]

text \<open>One step of the loop: which call follows, and what the specification adds to it.\<close>

lemma detok_step:
  assumes "length out + 1 < m"
  shows "detok_loop m (tok # toks) out = out \<and> tok = TOK_STR_LIT \<and> toks = [] \<or>
    (\<exists>toks' out' w. length toks' < length (tok # toks) \<and> length out \<le> length out' \<and>
       detok_loop m (tok # toks) out = detok_loop m toks' out' \<and>
       (length out' + 2 < m \<longrightarrow> out' = out @ w \<and> detok_spec (tok # toks) = w @ detok_spec toks'))"
proof -
  let ?goal = "\<lambda>toks' out' w. length toks' < length (tok # toks) \<and> length out \<le> length out' \<and>
       detok_loop m (tok # toks) out = detok_loop m toks' out' \<and>
       (length out' + 2 < m \<longrightarrow> out' = out @ w \<and> detok_spec (tok # toks) = w @ detok_spec toks')"
  let ?special = "{TOK_NUM, TOK_STR_LIT, TOK_LE, TOK_GE, TOK_NE}"
  let ?name = "if 0x80 \<le> tok then token_to_name tok else None"
  consider (num) "tok = TOK_NUM" | (str) "tok = TOK_STR_LIT"
    | (le) "tok = TOK_LE" | (ge) "tok = TOK_GE" | (ne) "tok = TOK_NE"
    | (name) name where "tok \<notin> ?special" "?name = Some name"
    | (ascii) "tok \<notin> ?special" "?name = None"
    by (cases ?name) blast+
  then show ?thesis
  proof cases
    case num
    show ?thesis
    proof (cases "\<exists>b0 b1 b2 b3 r. toks = b0 # b1 # b2 # b3 # r")
      case True
      then obtain b0 b1 b2 b3 r where toks: "toks = b0 # b1 # b2 # b3 # r" by blast
      let ?w = "int_to_str (num_of_bytes b0 b1 b2 b3)"
      have "?goal r (put_chars m ?w out) ?w"
        using num toks assms put_chars_complete [of m ?w out]
        by (simp add: detok_loop.simps(2) detok_spec.simps(2) put_chars_extends)
      then show ?thesis by blast
    next
      case False
      then have short: "(case toks of b0 # b1 # b2 # b3 # r \<Rightarrow> f b0 b1 b2 b3 r | _ \<Rightarrow> e) = e" for f and e :: "byte list"
        by (auto split: list.split)
      have "?goal toks out []"
        using num assms by (simp add: detok_loop.simps(2) detok_spec.simps(2) short)
      then show ?thesis by blast
    qed
  next
    case str
    show ?thesis
    proof (cases toks)
      case Nil
      then show ?thesis using str assms by (simp add: detok_loop.simps(2))
    next
      case (Cons slen r)
      obtain t2 o2 where cl: "copy_lit m r (unat slen) (put1 m QUOTE out) = (t2, o2)" by fastforce
      note ext = copy_lit_extends [OF cl] put1_extends [of o2 m QUOTE] put1_extends [of out m QUOTE]
      have "detok_loop m (tok # toks) out = detok_loop m t2 (put1 m QUOTE o2)"
        using str Cons assms cl by (simp add: detok_loop.simps(2))
      moreover have "put1 m QUOTE o2 = out @ (QUOTE # take (unat slen) r @ [QUOTE]) \<and> t2 = drop (unat slen) r"
        if "length (put1 m QUOTE o2) + 2 < m"
        using that ext copy_lit_complete [OF cl] put1_complete [of m QUOTE out] put1_complete [of m QUOTE o2]
        by auto
      ultimately have "?goal t2 (put1 m QUOTE o2) (QUOTE # take (unat slen) r @ [QUOTE])"
        using str Cons ext copy_lit_shorter [OF cl] by (auto simp: detok_spec.simps(2))
      then show ?thesis by blast
    qed
  next
    case le
    have "?goal toks (put2 m LT EQ out) [LT, EQ]"
      using le assms put2_complete [of m LT EQ out]
      by (simp add: detok_loop.simps(2) detok_spec.simps(2) put2_extends)
    then show ?thesis by blast
  next
    case ge
    have "?goal toks (put2 m GT EQ out) [GT, EQ]"
      using ge assms put2_complete [of m GT EQ out]
      by (simp add: detok_loop.simps(2) detok_spec.simps(2) put2_extends)
    then show ?thesis by blast
  next
    case ne
    have "?goal toks (put2 m LT GT out) [LT, GT]"
      using ne assms put2_complete [of m LT GT out]
      by (simp add: detok_loop.simps(2) detok_spec.simps(2) put2_extends)
    then show ?thesis by blast
  next
    case name
    show ?thesis
    proof (cases "tok = TOK_REM")
      case False
      have "?goal toks (put_chars m name out) name"
        using name False assms put_chars_complete [of m name out]
        by (simp add: detok_loop.simps(2) detok_spec.simps(2) put_chars_extends)
      then show ?thesis by blast
    next
      case True
      obtain t2 o2 where rr: "raw_rest m toks (put_chars m name out) = (t2, o2)" by fastforce
      have "?goal t2 o2 (name @ toks)"
        using name True assms rr put_chars_complete [of m name out] put_chars_extends [of out m name]
          raw_rest_extends [OF rr] raw_rest_complete [OF rr] raw_rest_shorter [OF rr]
        by (auto simp: detok_loop.simps(2) detok_spec.simps(2))
      then show ?thesis by blast
    qed
  next
    case ascii
    have "?goal toks (out @ [tok]) [tok]"
      using ascii assms by (simp add: detok_loop.simps(2) detok_spec.simps(2))
    then show ?thesis by blast
  qed
qed

lemma detok_loop_extends: "length out \<le> length (detok_loop m toks out)"
proof (induction "length toks" arbitrary: toks out rule: less_induct)
  case less
  show ?case
  proof (cases "toks = [] \<or> \<not> length out + 1 < m")
    case True
    then show ?thesis by (cases toks) (simp_all add: detok_loop.simps(2))
  next
    case False
    then obtain tok r where toks: "toks = tok # r" and "length out + 1 < m" by (cases toks) auto
    from detok_step [OF this(2), of tok r] show ?thesis
    proof (elim disjE exE conjE)
      fix toks' out' w
      assume "length toks' < length (tok # r)" "length out \<le> length out'"
        "detok_loop m (tok # r) out = detok_loop m toks' out'"
      then show ?thesis using less.hyps [of toks' out'] toks by simp
    qed (simp add: toks)
  qed
qed

lemma detok_loop_unbounded:
  assumes "length (detok_loop m toks out) + 2 < m"
  shows "detok_loop m toks out = out @ detok_spec toks"
  using assms
proof (induction "length toks" arbitrary: toks out rule: less_induct)
  case less
  show ?case
  proof (cases toks)
    case Nil
    then show ?thesis by simp
  next
    case toks: (Cons tok r)
    have room: "length out + 1 < m"
      using detok_loop_extends [of out m toks] less.prems by linarith
    from detok_step [OF room, of tok r] show ?thesis
    proof (elim disjE exE conjE)
      assume "detok_loop m (tok # r) out = out" "tok = TOK_STR_LIT" "r = []"
      then show ?thesis by (simp add: toks detok_spec.simps)
    next
      fix toks' out' w
      assume *: "length toks' < length (tok # r)" "length out \<le> length out'"
        "detok_loop m (tok # r) out = detok_loop m toks' out'"
        "length out' + 2 < m \<longrightarrow> out' = out @ w \<and> detok_spec (tok # r) = w @ detok_spec toks'"
      have "detok_loop m toks' out' = out' @ detok_spec toks'"
        using less * toks by simp
      moreover have "length out' + 2 < m"
        using detok_loop_extends [of out' m toks'] less.prems * toks by simp
      ultimately show ?thesis using * toks by simp
    qed
  qed
qed

end
