(* ===== verification/BasicListing.thy ===== *)
theory BasicListing
  imports BasicRoundtrip
begin

text \<open>
  The listing of a tokenized BASIC line tokenizes to the same tokens: what LIST shows and SAVE
  writes is the program. The difficulty is \<open>match_keyword\<close>, which looks at the characters after
  the keyword: \<open>kwscan\<close> is the part of a text it depends on, and the listing keeps it.
\<close>

section \<open>Keywords depend only on the letters a text starts with\<close>

definition kwchar :: "byte \<Rightarrow> bool" where
  "kwchar c \<longleftrightarrow> is_alpha c \<or> c = DOLLAR"

definition kwkey :: "byte \<Rightarrow> bool" where
  "kwkey k \<longleftrightarrow> (65 \<le> k \<and> k \<le> 90) \<or> k = DOLLAR"

definition kwscan :: "byte list \<Rightarrow> byte list \<times> bool" where
  "kwscan s = (map tok_upper (takeWhile kwchar s), is_digit (at_nul (dropWhile kwchar s)))"

lemma upper_cases:
  assumes "97 \<le> c" and "c \<le> (122 :: byte)"
  shows "unat (c - 32) = unat c - 32"
  using assms by (simp add: unat_sub word_le_nat_alt)

lemma is_alpha_upper: "is_alpha (tok_upper c) = is_alpha c"
  using upper_cases [of c]
  by (auto simp: is_alpha_def tok_upper_def word_le_nat_alt)

lemma to_upper_eq_dollar: "tok_upper c = DOLLAR \<longleftrightarrow> c = DOLLAR"
proof
  assume "tok_upper c = DOLLAR"
  then show "c = DOLLAR"
    using upper_cases [of c]
    by (auto simp: tok_upper_def word_le_nat_alt split: if_splits dest!: arg_cong [where f = unat])
qed (simp add: tok_upper_def)

lemma kwkey_upper: "kwkey (tok_upper c) \<longleftrightarrow> kwchar c"
  using upper_cases [of c]
  by (auto simp: kwkey_def kwchar_def to_upper_eq_dollar) (auto simp: tok_upper_def is_alpha_def word_le_nat_alt split: if_splits)

lemma digit_not_kwchar: "is_digit c \<Longrightarrow> \<not> kwchar c"
  by (auto simp: is_digit_def kwchar_def is_alpha_def word_le_nat_alt)

lemma nul_not_alnum: "\<not> is_alpha 0" "\<not> is_digit 0"
  by (simp_all add: is_alpha_def is_digit_def)

lemma dollar_not_alnum: "\<not> is_alpha DOLLAR" "\<not> is_digit DOLLAR" "tok_upper DOLLAR = DOLLAR"
  by (simp_all add: is_alpha_def is_digit_def tok_upper_def)

lemma alpha_not_digit: "is_alpha c \<Longrightarrow> \<not> is_digit c"
  using digit_not_kwchar kwchar_def by blast

definition kwmatch :: "byte list \<times> bool \<Rightarrow> byte list \<Rightarrow> bool" where
  "kwmatch sc kw \<longleftrightarrow> take (length kw) (fst sc) = kw \<and>
    \<not> (last kw \<noteq> DOLLAR \<and> (if length kw < length (fst sc) then is_alpha (fst sc ! length kw) else snd sc))"

lemma kw_prefix_scan:
  assumes "\<forall>k \<in> set kw. kwkey k"
  shows "(case kw_prefix src kw of
       None \<Rightarrow> take (length kw) (fst (kwscan src)) \<noteq> kw
     | Some rest \<Rightarrow> take (length kw) (fst (kwscan src)) = kw \<and>
         is_alnum (at_nul rest) =
           (if length kw < length (fst (kwscan src)) then is_alpha (fst (kwscan src) ! length kw) else snd (kwscan src)))"
  using assms
proof (induction src kw rule: kw_prefix.induct)
  case (1 src)
  then show ?case
    using nul_not_alnum
    by (cases src) (auto simp: kwscan_def at_nul_def is_alnum_def is_alpha_upper kwchar_def dollar_not_alnum dest: alpha_not_digit)
next
  case (2 k ks)
  then show ?case by (simp add: kwscan_def)
next
  case (3 c cs k ks)
  show ?case
  proof (cases "tok_upper c = k")
    case True
    then have "kwchar c" using 3 kwkey_upper by auto
    then show ?thesis using 3 True by (auto simp: kwscan_def split: option.splits)
  next
    case False
    then show ?thesis by (auto simp: kwscan_def)
  qed
qed

lemma match_keyword_scan:
  assumes "\<forall>k \<in> set kw. kwkey k"
  shows "match_keyword src kw = (if kwmatch (kwscan src) kw then length kw else 0)"
  using kw_prefix_scan [OF assms, of src]
  by (auto simp: match_keyword_def kwmatch_def split: option.splits)

lemma find_keyword_scan:
  assumes "kwscan s = kwscan s'" and "\<forall>(kw, t) \<in> set ks. \<forall>k \<in> set kw. kwkey k"
  shows "find_keyword s ks = find_keyword s' ks"
  using assms(2) by (induction ks) (auto simp: match_keyword_scan assms(1))

lemma kw_prefix_split:
  "kw_prefix src kw = Some rest \<Longrightarrow> src = take (length kw) src @ rest \<and> map tok_upper (take (length kw) src) = kw"
  by (induction src kw rule: kw_prefix.induct) (auto split: if_splits)

lemma find_keyword_Some:
  assumes "find_keyword src ks = Some (klen, tok)"
  obtains kw where "(kw, tok) \<in> set ks" and "klen = length kw" and "map tok_upper (take klen src) = kw"
    and "src = take klen src @ drop klen src" and "length (take klen src) = klen" and "0 < klen"
proof -
  have "\<exists>kw. (kw, tok) \<in> set ks \<and> match_keyword src kw = klen \<and> 0 < klen"
    using assms by (induction src ks rule: find_keyword.induct) (auto simp: Let_def split: if_splits)
  then obtain kw where kw: "(kw, tok) \<in> set ks" "match_keyword src kw = klen" "0 < klen" by blast
  then obtain rest where p: "kw_prefix src kw = Some rest" and l: "klen = length kw"
    by (auto simp: match_keyword_def split: option.splits if_splits)
  have m: "map tok_upper (take klen src) = kw" using kw_prefix_split [OF p] l by simp
  then have "length (take klen src) = klen" using l by (metis length_map)
  then show ?thesis using that kw l m by simp
qed

lemma keyword_table_keys: "\<forall>(kw, t) \<in> set keyword_table. \<forall>k \<in> set kw. kwkey k"
  by (simp add: keyword_table_def kwkey_def)

lemma keyword_table_names:
  "\<forall>(kw, t) \<in> set keyword_table. 0x80 \<le> t \<and> token_to_name t = Some kw \<and> kw \<noteq> [] \<and> is_alpha (hd kw) \<and>
     t \<notin> {TOK_NUM, TOK_STR_LIT, TOK_LE, TOK_GE, TOK_NE}"
  by (simp add: keyword_table_def token_to_name_def is_alpha_def)

section \<open>The listing of a line\<close>

text \<open>
  A line that fits the token format: 7-bit characters and numbers below \<open>2 ^ 31\<close>. (A byte from
  \<open>0x80\<close> up is stored raw and listed as the keyword it collides with; a longer number overflows
  the \<open>int32_t\<close> of \<open>parse_number\<close>.)
\<close>

fun basic_text :: "byte list \<Rightarrow> bool" where
  "basic_text [] = True"
| "basic_text (c # cs) = (c < 0x80 \<and> digits_val (c # cs) 0 < 2147483648 \<and> basic_text cs)"

declare basic_text.simps(2) [simp del]

lemma basic_text_tl: "basic_text (c # cs) \<Longrightarrow> basic_text cs"
  by (simp add: basic_text.simps(2))

lemma basic_text_drop: "basic_text s \<Longrightarrow> basic_text (drop n s)"
  by (induction n arbitrary: s) (simp, metis basic_text_tl drop_Suc list.exhaust drop_Nil list.sel(2,3))

lemma basic_text_tl' : "basic_text s \<Longrightarrow> basic_text (tl s)"
  using basic_text_drop [of s 1] by (simp add: drop_Suc)

lemma basic_text_dropWhile: "basic_text s \<Longrightarrow> basic_text (dropWhile P s)"
  by (simp add: dropWhile_eq_drop basic_text_drop)

abbreviation canon :: "byte list \<Rightarrow> byte list" where
  "canon s \<equiv> detok_spec (tok_spec s)"

lemma canon_keyword:
  assumes "c \<noteq> SP" and "find_keyword (c # rest) keyword_table = Some (klen, tok)"
  obtains kw where "find_keyword (c # rest) keyword_table = Some (length kw, tok)"
    and "canon (c # rest) =
      kw @ (if tok = TOK_REM then drop klen (c # rest) else canon (drop klen (c # rest)))"
    and "klen = length kw" and "map tok_upper (take klen (c # rest)) = kw" and "\<forall>k \<in> set kw. kwkey k"
    and "kw \<noteq> []" and "length (take klen (c # rest)) = klen"
proof -
  from find_keyword_Some [OF assms(2)] obtain kw where
    kw: "(kw, tok) \<in> set keyword_table" "klen = length kw" "map tok_upper (take klen (c # rest)) = kw"
      "length (take klen (c # rest)) = klen" by metis
  have n: "0x80 \<le> tok" "token_to_name tok = Some kw" "kw \<noteq> []"
    "tok \<notin> {TOK_NUM, TOK_STR_LIT, TOK_LE, TOK_GE, TOK_NE}"
    using keyword_table_names kw(1) by auto
  have "canon (c # rest) =
      kw @ (if tok = TOK_REM then drop klen (c # rest) else canon (drop klen (c # rest)))"
    using assms n spec_steps(2,3) by (cases "tok = TOK_REM") (simp_all add: detok_spec.simps(2))
  then show ?thesis using that kw n keyword_table_keys assms(2) by fast
qed

lemma canon_number:
  assumes "plain_start c rest" and "is_digit c" and "basic_text (c # rest)"
  shows "canon (c # rest) =
    dec (digits_val (c # rest) 0) @ canon (dropWhile is_digit (c # rest))"
proof -
  let ?v = "digits_val (c # rest) 0"
  obtain b0 b1 b2 b3 where b: "num_bytes (word_of_nat ?v) = [b0, b1, b2, b3]"
    by (simp add: num_bytes_def)
  have "int_to_str (word_of_nat ?v) = dec ?v"
    using assms(3) by (intro int_to_str_dec) (simp add: basic_text.simps(2))
  then show ?thesis
    using spec_steps(4) [OF assms(1,2) parse_number_val [OF assms(2)]] num_of_bytes_inverse [OF b] b
    by (simp add: detok_spec.simps(2) dropWhile_eq_drop)
qed

lemma canon_string:
  assumes "plain_start QUOTE rest" and "length (tok_spec (QUOTE # rest)) < 256"
  shows "canon (QUOTE # rest) =
    QUOTE # takeWhile (\<lambda>x. x \<noteq> QUOTE) rest @ QUOTE # canon (tl (dropWhile (\<lambda>x. x \<noteq> QUOTE) rest))"
proof -
  let ?n = "length (takeWhile (\<lambda>x. x \<noteq> QUOTE) rest)"
  have "?n < 256" using assms by (simp add: spec_steps(5))
  then have "unat (word_of_nat ?n :: byte) = ?n" by (rule unat_byte_of_nat)
  then show ?thesis using assms by (simp add: spec_steps(5) detok_spec.simps(2))
qed

lemma canon_space: "canon (SP # rest) = SP # canon rest"
  by (simp add: spec_steps(1) detok_spec.simps(2))

lemma canon_oper:
  assumes "plain_start c rest" and "comparison c (at_nul rest) = Some tok"
  shows "canon (c # rest) = c # at_nul rest # canon (tl rest)"
  using comparison_SomeD [OF assms(2)] spec_steps(6) [OF assms] by (auto simp: detok_spec.simps(2))

lemma canon_other:
  assumes "plain_start c rest" and "\<not> is_digit c" and "c \<noteq> QUOTE" and "comparison c (at_nul rest) = None"
    and "c < 0x80"
  shows "canon (c # rest) = c # canon rest"
proof -
  have "c \<notin> {TOK_NUM, TOK_STR_LIT, TOK_LE, TOK_GE, TOK_NE}" and "\<not> 0x80 \<le> c" using assms(5) by auto
  then show ?thesis using assms spec_steps(7) [OF assms(1-4)] by (simp add: detok_spec.simps(2))
qed

text \<open>Induction over the lexemes of a line, with the listing of each.\<close>

definition line_ok :: "byte list \<Rightarrow> bool" where
  "line_ok s \<longleftrightarrow> basic_text s \<and> length (tok_spec s) < 256"

lemma line_ok_rest:
  assumes "line_ok (c # rest)"
  shows "c = SP \<Longrightarrow> line_ok rest"
    and "c \<noteq> SP \<Longrightarrow> find_keyword (c # rest) keyword_table = Some (klen, tok) \<Longrightarrow> tok \<noteq> TOK_REM \<Longrightarrow>
      line_ok (drop klen (c # rest))"
    and "plain_start c rest \<Longrightarrow> is_digit c \<Longrightarrow> line_ok (dropWhile is_digit (c # rest))"
    and "plain_start c rest \<Longrightarrow> c = QUOTE \<Longrightarrow> line_ok (tl (dropWhile (\<lambda>x. x \<noteq> QUOTE) rest))"
    and "plain_start c rest \<Longrightarrow> comparison c (at_nul rest) = Some tok \<Longrightarrow> line_ok (tl rest)"
    and "plain_start c rest \<Longrightarrow> \<not> is_digit c \<Longrightarrow> c \<noteq> QUOTE \<Longrightarrow> comparison c (at_nul rest) = None \<Longrightarrow> line_ok rest"
proof -
  have bt: "basic_text (c # rest)" and len: "length (tok_spec (c # rest)) < 256"
    using assms by (simp_all add: line_ok_def)
  note bt1 = basic_text_tl [OF bt]
  show "c = SP \<Longrightarrow> line_ok rest" using bt1 len by (simp add: line_ok_def spec_steps(1))
  show "c \<noteq> SP \<Longrightarrow> find_keyword (c # rest) keyword_table = Some (klen, tok) \<Longrightarrow> tok \<noteq> TOK_REM \<Longrightarrow>
      line_ok (drop klen (c # rest))"
    using basic_text_drop [OF bt] len by (simp add: line_ok_def spec_steps(2))
  show "line_ok (dropWhile is_digit (c # rest))" if "plain_start c rest" "is_digit c"
    using basic_text_dropWhile [OF bt, of is_digit] len
      spec_steps(4) [OF that parse_number_val [OF that(2)]]
    unfolding line_ok_def dropWhile_eq_drop by simp
  show "line_ok (tl (dropWhile (\<lambda>x. x \<noteq> QUOTE) rest))" if "plain_start c rest" "c = QUOTE"
    using basic_text_tl' [OF basic_text_dropWhile [OF bt1]] len that
    by (simp add: line_ok_def spec_steps(5))
  show "plain_start c rest \<Longrightarrow> comparison c (at_nul rest) = Some tok \<Longrightarrow> line_ok (tl rest)"
    using basic_text_tl' [OF bt1] len by (simp add: line_ok_def spec_steps(6))
  show "plain_start c rest \<Longrightarrow> \<not> is_digit c \<Longrightarrow> c \<noteq> QUOTE \<Longrightarrow> comparison c (at_nul rest) = None \<Longrightarrow> line_ok rest"
    using bt1 len by (simp add: line_ok_def spec_steps(7))
qed

lemma lexeme_induct [consumes 1, case_names nil space keyword remark number string oper other]:
  assumes "line_ok s"
    and "P []"
    and "\<And>rest. line_ok (SP # rest) \<Longrightarrow> line_ok rest \<Longrightarrow> P rest \<Longrightarrow> P (SP # rest)"
    and "\<And>c rest klen tok. line_ok (c # rest) \<Longrightarrow> c \<noteq> SP \<Longrightarrow>
      find_keyword (c # rest) keyword_table = Some (klen, tok) \<Longrightarrow> tok \<noteq> TOK_REM \<Longrightarrow>
      line_ok (drop klen (c # rest)) \<Longrightarrow> P (drop klen (c # rest)) \<Longrightarrow> P (c # rest)"
    and "\<And>c rest klen. line_ok (c # rest) \<Longrightarrow> c \<noteq> SP \<Longrightarrow>
      find_keyword (c # rest) keyword_table = Some (klen, TOK_REM) \<Longrightarrow> P (c # rest)"
    and "\<And>c rest. line_ok (c # rest) \<Longrightarrow> plain_start c rest \<Longrightarrow> is_digit c \<Longrightarrow>
      line_ok (dropWhile is_digit (c # rest)) \<Longrightarrow> P (dropWhile is_digit (c # rest)) \<Longrightarrow> P (c # rest)"
    and "\<And>rest. line_ok (QUOTE # rest) \<Longrightarrow> plain_start QUOTE rest \<Longrightarrow>
      line_ok (tl (dropWhile (\<lambda>x. x \<noteq> QUOTE) rest)) \<Longrightarrow>
      P (tl (dropWhile (\<lambda>x. x \<noteq> QUOTE) rest)) \<Longrightarrow> P (QUOTE # rest)"
    and "\<And>c rest tok. line_ok (c # rest) \<Longrightarrow> plain_start c rest \<Longrightarrow> comparison c (at_nul rest) = Some tok \<Longrightarrow>
      line_ok (tl rest) \<Longrightarrow> P (tl rest) \<Longrightarrow> P (c # rest)"
    and "\<And>c rest. line_ok (c # rest) \<Longrightarrow> plain_start c rest \<Longrightarrow> \<not> is_digit c \<Longrightarrow> c \<noteq> QUOTE \<Longrightarrow>
      comparison c (at_nul rest) = None \<Longrightarrow> line_ok rest \<Longrightarrow> P rest \<Longrightarrow> P (c # rest)"
  shows "P s"
  using assms(1)
proof (induction "length s" arbitrary: s rule: less_induct)
  case less
  show ?case
  proof (cases s)
    case Nil
    then show ?thesis using assms(2) by simp
  next
    case src: (Cons c rest)
    have IH: "line_ok s' \<Longrightarrow> P s'" if "length s' < length (c # rest)" for s'
      using less that src by force
    have ok: "line_ok (c # rest)" using less.prems src by simp
    note rest = line_ok_rest [OF ok]
    show ?thesis
      unfolding src
    proof (cases rule: tok_cases [where c = c and rest = rest])
      case space
      then show "P (c # rest)" using IH [of rest] ok rest(1) assms(3) by simp
    next
      case (keyword klen tok)
      then show "P (c # rest)"
        using IH [OF step_shorter(1) [OF keyword(2)]] rest(2) [OF keyword] ok assms(4) by blast
    next
      case (remark klen)
      then show "P (c # rest)" using ok assms(5) by blast
    next
      case (number val adv)
      have "length (dropWhile is_digit (c # rest)) < length (c # rest)"
        using number(2) length_dropWhile_le [of is_digit rest] by simp
      then show "P (c # rest)" using IH rest(3) [OF number(1,2)] ok number assms(6) by blast
    next
      case string
      then show "P (c # rest)"
        using IH [OF step_shorter(4)] rest(4) [OF string] ok assms(7) by blast
    next
      case (oper tok)
      then show "P (c # rest)"
        using IH [OF step_shorter(3)] rest(5) [OF oper] ok assms(8) by blast
    next
      case other
      then show "P (c # rest)" using IH [of rest] rest(6) [OF other] ok assms(9) by simp
    qed
  qed
qed

lemma canon_facts:
  assumes "line_ok (c # rest)" and "plain_start c rest"
  shows "is_digit c \<Longrightarrow> canon (c # rest) = dec (digits_val (c # rest) 0) @ canon (dropWhile is_digit (c # rest))"
    and "c = QUOTE \<Longrightarrow> canon (c # rest) =
      QUOTE # takeWhile (\<lambda>x. x \<noteq> QUOTE) rest @ QUOTE # canon (tl (dropWhile (\<lambda>x. x \<noteq> QUOTE) rest))"
    and "\<not> is_digit c \<Longrightarrow> c \<noteq> QUOTE \<Longrightarrow> comparison c (at_nul rest) = None \<Longrightarrow> canon (c # rest) = c # canon rest"
  using assms canon_number canon_string canon_other [OF assms(2)]
  by (auto simp: line_ok_def basic_text.simps(2))

lemma kwscan_kwchars:
  "\<forall>k \<in> set p. kwchar k \<Longrightarrow> kwscan (p @ r) = (map tok_upper p @ fst (kwscan r), snd (kwscan r))"
  by (simp add: kwscan_def)

lemma kwscan_stop: "\<not> kwchar c \<Longrightarrow> kwscan (c # r) = ([], is_digit c)"
  by (simp add: kwscan_def at_nul_def)

lemma key_facts:
  assumes "\<forall>k \<in> set kw. kwkey k"
  shows "\<forall>k \<in> set kw. kwchar k" and "map tok_upper kw = kw"
  using assms by (auto simp: kwkey_def kwchar_def is_alpha_def tok_upper_def word_le_nat_alt intro!: map_idI)

lemma stops: "\<not> kwchar SP" "\<not> kwchar QUOTE" "\<not> kwchar LT" "\<not> kwchar GT" "\<not> is_digit LT" "\<not> is_digit GT"
  "\<not> is_digit SP" "\<not> is_digit QUOTE"
  by (simp_all add: kwchar_def is_alpha_def is_digit_def)

lemma keyword_scan:
  assumes "map tok_upper (take klen s) = kw" and "\<forall>k \<in> set kw. kwkey k"
  shows "kwscan s = (kw @ fst (kwscan (drop klen s)), snd (kwscan (drop klen s)))"
proof -
  have "\<forall>k \<in> set (take klen s). kwchar k"
    using assms kwkey_upper by auto
  from kwscan_kwchars [OF this, of "drop klen s"] show ?thesis using assms(1) by simp
qed

lemma kwscan_canon: "line_ok s \<Longrightarrow> kwscan (canon s) = kwscan s"
proof (induction rule: lexeme_induct)
  case (keyword c rest klen tok)
  from keyword(2,3) obtain kw where
    kw0: "canon (c # rest) =
        kw @ (if tok = TOK_REM then drop klen (c # rest) else canon (drop klen (c # rest)))"
      and kw: "map tok_upper (take klen (c # rest)) = kw" "\<forall>k \<in> set kw. kwkey k"
    by (rule canon_keyword)
  then have kw1: "canon (c # rest) = kw @ canon (drop klen (c # rest))" using keyword(4) by simp
  show ?case
    using keyword(6) key_facts [OF kw(2)] unfolding kw1 keyword_scan [OF kw]
    by (simp add: kwscan_kwchars)
next
  case (remark c rest klen)
  from remark(2,3) obtain kw where
    kw0: "canon (c # rest) =
        kw @ (if TOK_REM = TOK_REM then drop klen (c # rest) else canon (drop klen (c # rest)))"
      and kw: "map tok_upper (take klen (c # rest)) = kw" "\<forall>k \<in> set kw. kwkey k"
    by (rule canon_keyword)
  then have kw1: "canon (c # rest) = kw @ drop klen (c # rest)" by simp
  show ?case
    using key_facts [OF kw(2)] unfolding kw1 keyword_scan [OF kw]
    by (simp add: kwscan_kwchars)
next
  case (number c rest)
  obtain d ds where d: "dec (digits_val (c # rest) 0) = d # ds" and "is_digit d"
    using dec_nonempty dec_digits by (metis list.set_intros(1) neq_Nil_conv)
  then show ?case
    using number(3) unfolding canon_facts(1) [OF number(1-3)] d
    by (simp add: kwscan_stop digit_not_kwchar)
next
  case (string rest)
  then show ?case unfolding canon_facts(2) [OF string(1,2) refl] by (simp add: kwscan_stop stops)
next
  case (oper c rest tok)
  then show ?case
    using comparison_SomeD [OF oper(3)] by (auto simp: canon_oper kwscan_stop stops)
next
  case (other c rest)
  then show ?case
    using kwscan_kwchars [of "[c]" rest] kwscan_kwchars [of "[c]" "canon rest"]
    unfolding canon_facts(3) [OF other(1-5)]
    by (cases "kwchar c") (simp_all add: kwscan_stop)
qed (simp_all add: canon_space kwscan_stop stops)

lemma find_keyword_canon:
  "line_ok s \<Longrightarrow> find_keyword (canon s) keyword_table = find_keyword s keyword_table"
  by (rule find_keyword_scan [OF kwscan_canon keyword_table_keys])

lemma digit_start_scan: "is_digit (at_nul s) \<longleftrightarrow> kwscan s = ([], True)"
proof (cases s)
  case (Cons c r)
  then show ?thesis
    by (cases "kwchar c") (auto simp: kwscan_def at_nul_def dest: digit_not_kwchar)
qed (simp add: kwscan_def at_nul_def nul_not_alnum)

lemma kwkey_not_sep: "kwkey k \<Longrightarrow> k \<notin> {EQ, GT, SP}"
  by (auto simp: kwkey_def)

lemma digit_not_sep: "is_digit k \<Longrightarrow> k \<notin> {EQ, GT, SP, QUOTE, MINUS}"
  by (auto simp: is_digit_def)

lemma canon_head: "line_ok s \<Longrightarrow> at_nul (canon s) \<in> {EQ, GT} \<Longrightarrow> at_nul (canon s) = at_nul s"
proof (induction rule: lexeme_induct)
  case (keyword c rest klen tok)
  from keyword(2,3) obtain kw where
    "canon (c # rest) = kw @ (if tok = TOK_REM then drop klen (c # rest) else canon (drop klen (c # rest)))"
    and "\<forall>k \<in> set kw. kwkey k" and "kw \<noteq> []"
    by (rule canon_keyword)
  then show ?case
    using keyword(7) kwkey_not_sep by (cases kw) (auto simp: at_nul_def)
next
  case (remark c rest klen)
  from remark(2,3) obtain kw where
    "canon (c # rest) = kw @ (if TOK_REM = TOK_REM then drop klen (c # rest) else canon (drop klen (c # rest)))"
    and "\<forall>k \<in> set kw. kwkey k" and "kw \<noteq> []"
    by (rule canon_keyword)
  then show ?case
    using remark(4) kwkey_not_sep by (cases kw) (auto simp: at_nul_def)
next
  case (number c rest)
  obtain d ds where d: "dec (digits_val (c # rest) 0) = d # ds" and "is_digit d"
    using dec_nonempty dec_digits by (metis list.set_intros(1) neq_Nil_conv)
  then show ?case
    using number(6) digit_not_sep [of d] unfolding canon_facts(1) [OF number(1-3)] d
    by (auto simp: at_nul_def)
next
  case (string rest)
  then show ?case unfolding canon_facts(2) [OF string(1,2) refl] by (simp add: at_nul_def)
next
  case (other c rest)
  then show ?case unfolding canon_facts(3) [OF other(1-5)] by (simp add: at_nul_def)
qed (simp_all add: canon_space canon_oper at_nul_def)

lemma plain_start_canon:
  assumes "line_ok (c # rest)" and "plain_start c rest" and "canon (c # rest) = d # r" and "d \<noteq> SP"
  shows "plain_start d r"
  using assms find_keyword_canon [OF assms(1)] by (simp add: plain_start_def)

lemma at_nul_Cons: "at_nul (c # r) = c"
  by (simp add: at_nul_def)

lemma plain_start_stop:
  assumes "\<not> kwchar c" and "plain_start c rest"
  shows "plain_start c rest'"
proof -
  have "find_keyword (c # rest) keyword_table = find_keyword (c # rest') keyword_table"
    using find_keyword_scan [OF _ keyword_table_keys] assms(1) by (simp add: kwscan_stop)
  then show ?thesis using assms(2) by (simp add: plain_start_def)
qed

lemma takeWhile_digits:
  "\<forall>d \<in> set ds. is_digit d \<Longrightarrow> \<not> is_digit (at_nul r) \<Longrightarrow>
   takeWhile is_digit (ds @ r) = ds \<and> dropWhile is_digit (ds @ r) = r \<and> digits_val (ds @ r) 0 = digits_val ds 0"
  by (cases r) (auto simp: at_nul_def digits_val_append takeWhile_append dropWhile_append)

text \<open>The listing tokenizes to the tokens it came from.\<close>

lemma tok_spec_canon: "line_ok s \<Longrightarrow> tok_spec (canon s) = tok_spec s"
proof (induction rule: lexeme_induct)
  case (space rest)
  then show ?case by (subst canon_space) (simp add: spec_steps(1))
next
  case (keyword c rest klen tok)
  from keyword(2,3) obtain kw where
    f: "find_keyword (c # rest) keyword_table = Some (length kw, tok)"
    and "canon (c # rest) = kw @ (if tok = TOK_REM then drop klen (c # rest) else canon (drop klen (c # rest)))"
    and k: "\<forall>k \<in> set kw. kwkey k" and "kw \<noteq> []"
    by (rule canon_keyword)
  then obtain k ks where kw: "kw = k # ks" and cn: "canon (c # rest) = k # ks @ canon (drop klen (c # rest))"
    using keyword(4) by (cases kw) auto
  have "tok_spec (canon (c # rest)) = tok # tok_spec (canon (drop klen (c # rest)))"
    using spec_steps(2) [of k "ks @ canon (drop klen (c # rest))" "length kw" tok]
      find_keyword_canon [OF keyword(1)] f kwkey_not_sep [of k] k keyword(4)
    unfolding cn kw by simp
  then show ?case using keyword by (simp add: spec_steps(2))
next
  case (remark c rest klen)
  from remark(2,3) obtain kw where
    f: "find_keyword (c # rest) keyword_table = Some (length kw, TOK_REM)"
    and "canon (c # rest) = kw @ (if TOK_REM = TOK_REM then drop klen (c # rest) else canon (drop klen (c # rest)))"
    and k: "\<forall>k \<in> set kw. kwkey k" and "kw \<noteq> []"
    by (rule canon_keyword)
  then obtain k ks where kw: "kw = k # ks" and cn: "canon (c # rest) = k # ks @ drop klen (c # rest)"
    by (cases kw) auto
  have "tok_spec (canon (c # rest)) = TOK_REM # drop klen (c # rest)"
    using spec_steps(3) [of k "ks @ drop klen (c # rest)" "length kw"]
      find_keyword_canon [OF remark(1)] f kwkey_not_sep [of k] k
    unfolding cn kw by simp
  then show ?case using remark by (simp add: spec_steps(3))
next
  case (number c rest)
  let ?v = "digits_val (c # rest) 0" and ?r = "dropWhile is_digit (c # rest)"
  obtain d ds where d: "dec ?v = d # ds" and dd: "is_digit d"
    using dec_nonempty dec_digits by (metis list.set_intros(1) neq_Nil_conv)
  have cn: "canon (c # rest) = d # ds @ canon ?r"
    unfolding canon_facts(1) [OF number(1-3)] d by simp
  have "\<not> is_digit (at_nul ?r)"
    using hd_dropWhile [of is_digit "c # rest"] by (cases ?r) (auto simp: at_nul_def nul_not_alnum)
  then have nd: "\<not> is_digit (at_nul (canon ?r))"
    using kwscan_canon [OF number(4)] unfolding digit_start_scan by simp
  note tw = takeWhile_digits [OF dec_digits nd, of ?v, unfolded d append_Cons digits_val_dec [of ?v, unfolded d]]
  have ps: "plain_start d (ds @ canon ?r)"
    using plain_start_canon [OF number(1,2) cn] digit_not_sep [OF dd] by simp
  have "tok_spec (canon (c # rest)) = TOK_NUM # num_bytes (word_of_nat ?v) @ tok_spec (canon ?r)"
    using spec_steps(4) [OF ps dd parse_number_val [OF dd]] tw
    unfolding cn dropWhile_eq_drop [symmetric] by simp
  then show ?case
    using spec_steps(4) [OF number(2,3) parse_number_val [OF number(3)]] number(5)
    unfolding dropWhile_eq_drop [symmetric] by simp
next
  case (string rest)
  let ?s = "takeWhile (\<lambda>x. x \<noteq> QUOTE) rest" and ?r = "tl (dropWhile (\<lambda>x. x \<noteq> QUOTE) rest)"
  note cn = canon_facts(2) [OF string(1,2) refl]
  have ps: "plain_start QUOTE (?s @ QUOTE # canon ?r)"
    using plain_start_stop [of QUOTE] string(2) stops by blast
  have "takeWhile (\<lambda>x. x \<noteq> QUOTE) (?s @ QUOTE # canon ?r) = ?s"
    and "dropWhile (\<lambda>x. x \<noteq> QUOTE) (?s @ QUOTE # canon ?r) = QUOTE # canon ?r"
    using set_takeWhileD by (fastforce simp: takeWhile_append dropWhile_append)+
  then show ?case
    using spec_steps(5) [OF ps] spec_steps(5) [OF string(2)] string(4) unfolding cn by simp
next
  case (oper c rest tok)
  have ps: "plain_start c (at_nul rest # canon (tl rest))"
    using plain_start_stop [of c] comparison_SomeD [OF oper(3)] oper(2) stops by auto
  show ?case
    using spec_steps(6) [OF ps, of tok] spec_steps(6) [OF oper(2,3)] oper(3,5)
    unfolding canon_oper [OF oper(2,3)] by (simp add: at_nul_Cons)
next
  case (other c rest)
  note cn = canon_facts(3) [OF other(1-5)]
  have ps: "plain_start c (canon rest)"
    using plain_start_canon [OF other(1,2) cn] other(2) by (simp add: plain_start_def)
  have "comparison c (at_nul (canon rest)) = None"
    using canon_head [OF other(6)] other(5) by (auto simp: comparison_def split: if_splits)
  then show ?case
    using spec_steps(7) [OF ps other(3,4)] spec_steps(7) [OF other(2-5)] other(7) unfolding cn by simp
qed simp

lemma tokenize_is_spec:
  "length (tokenize src m) + 5 < m \<or> length (tok_spec src) + 5 < m \<Longrightarrow> m \<le> 255 \<Longrightarrow>
   tokenize src m = tok_spec src"
  using tokenize_loop_unbounded [of m src "[]"] by (simp add: tokenize_def)

lemma detokenize_is_spec:
  "length (detokenize toks n) + 2 < n \<Longrightarrow> detokenize toks n = detok_spec toks"
  using detok_loop_unbounded [of n toks "[]"] by (simp add: detokenize_def)

text \<open>
  C14: For a 7-bit source line whose numbers fit an \<open>int32_t\<close>, if neither the token buffer nor the
  listing buffer was filled, tokenizing the listing of its tokens gives the same tokens.
\<close>

theorem tokenize_roundtrip:
  assumes "basic_text src" and "m \<le> 255"
    and "length (tokenize src m) + 5 < m"
    and "length (detokenize (tokenize src m) n) + 2 < n"
  shows "tokenize (detokenize (tokenize src m) n) m = tokenize src m"
proof -
  have t: "tokenize src m = tok_spec src" using assms tokenize_is_spec by blast
  have d: "detokenize (tok_spec src) n = canon src"
    using detokenize_is_spec [OF assms(4)] unfolding t .
  have "line_ok src" using assms t by (simp add: line_ok_def)
  then have "tok_spec (canon src) = tok_spec src" by (rule tok_spec_canon)
  then show ?thesis
    using tokenize_is_spec [of "canon src" m] assms(2,3) unfolding t d by simp
qed

lemmas tok_eval = tokenize_def tokenize_loop.simps(2) keyword_table_def match_keyword_def
  is_alnum_def is_alpha_def is_digit_def tok_upper_def at_nul_def parse_number_def num_bytes_def
  detokenize_def detok_loop.simps(2) token_to_name_def num_of_bytes_def int_to_str_def tmp_digits.simps
  basic_text.simps(2) put1_def put2_def

lemma sample_line: "tokenize (bytes_of ''if a<=07'') 120 = [TOK_IF, 32, 97, TOK_LE, TOK_NUM, 7, 0, 0, 0]"
  by (simp add: tok_eval)

lemma sample_listing: "detokenize [TOK_IF, 32, 97, TOK_LE, TOK_NUM, 7, 0, 0, 0] 160 = bytes_of ''IF a<=7''"
  by (simp add: tok_eval)

theorem tokenize_roundtrip_witness:
  "tokenize (detokenize (tokenize (bytes_of ''if a<=07'') 120) 160) 120 = tokenize (bytes_of ''if a<=07'') 120"
proof (rule tokenize_roundtrip)
  show "basic_text (bytes_of ''if a<=07'')" by (simp add: tok_eval)
  show "length (tokenize (bytes_of ''if a<=07'') 120) + 5 < 120" unfolding sample_line by simp
  show "length (detokenize (tokenize (bytes_of ''if a<=07'') 120) 160) + 2 < 160"
    unfolding sample_line sample_listing by simp
qed simp

end
