(* ===== verification/BasicShell.thy ===== *)
theory BasicShell
  imports BasicExec BasicListing
begin

text \<open>
  The BASIC command line, \<open>apps/basic/basic.c\<close> (and its entry point \<open>main.c\<close>): RUN, LIST, SAVE,
  LOAD and the read-eval loop.

  The file system is behind system calls (\<open>apps/lib/oscompat.c\<close>), so the two calls the shell makes
  are arguments: \<open>wr name data fs\<close> is \<open>diskfs_write_file\<close> and \<open>rd name size fs\<close> is
  \<open>fat12_read_file\<close>, with the bytes read (or \<^const>\<open>None\<close> for a negative result). A run of a
  program, a listing and the read-eval loop need not end: they are partial functions.
\<close>

section \<open>Parsing of commands\<close>

definition INPUT_MAX :: nat where "INPUT_MAX = 160"

definition i32_to_str_basic :: "i32 \<Rightarrow> byte list" where
  "i32_to_str_basic val =
    (if val = 0 then [48]
     else let neg = (sint val < 0); val' = (if neg then - val else val) in
       (if neg then [MINUS] else []) @ rev (if 0 < sint val' then tmp_digits (unat val') else []))"

definition basic_readline :: "nat \<Rightarrow> xw \<Rightarrow> (byte list \<times> xw) option" where
  "basic_readline max_len w =
    (case read_line [Putc 10] max_len [] (console w) (keys w) of
       None \<Rightarrow> None
     | Some (buf, out, ks) \<Rightarrow> Some (buf, w\<lparr>console := out, keys := ks\<rparr>))"

definition basic_upper :: "byte \<Rightarrow> byte" where
  "basic_upper c = (if 97 \<le> c \<and> c \<le> 122 then c - 32 else c)"

fun line_digits :: "byte list \<Rightarrow> nat \<Rightarrow> nat \<Rightarrow> nat \<times> nat" where
  "line_digits [] num i = (num, i)"
| "line_digits (c # cs) num i =
    (if 48 \<le> c \<and> c \<le> 57 then line_digits cs (u16 (num * 10 + (unat c - 48))) (i + 1) else (num, i))"

definition parse_line_number :: "byte list \<Rightarrow> nat \<times> nat" where
  "parse_line_number s = (case line_digits s 0 0 of (num, i) \<Rightarrow> (if 0 < i then num else 0, i))"

fun cmd_match :: "byte list \<Rightarrow> byte list \<Rightarrow> bool" where
  "cmd_match input [] = (at_nul input = 0 \<or> at_nul input = SP)"
| "cmd_match input (c # cmd) = (if basic_upper (at_nul input) \<noteq> c then False else cmd_match (tl input) cmd)"

definition skip_blanks :: "byte list \<Rightarrow> byte list" where
  "skip_blanks s = dropWhile (\<lambda>c. c = SP) s"

text \<open>The C string in a buffer: its bytes before the first NUL.\<close>

definition cstr :: "byte list \<Rightarrow> byte list" where
  "cstr buf = takeWhile (\<lambda>c. c \<noteq> 0) buf"

section \<open>LIST\<close>

definition list_range :: "byte list \<Rightarrow> nat \<times> nat" where
  "list_range args0 =
    (if args0 = [] then (0, 9999)
     else
       let args = skip_blanks args0; (from_line, adv) = parse_line_number args in
       if adv > 0 then
         let rest = drop adv args in
         if at_nul rest = MINUS then
           (case parse_line_number (tl rest) of (to_line, adv2) \<Rightarrow> (from_line, if adv2 = 0 then 9999 else to_line))
         else (from_line, from_line)
       else (0, 9999))"

text \<open>The text of one line as LIST prints it and SAVE writes it, without the newline.\<close>

definition list_line :: "prog \<Rightarrow> nat \<Rightarrow> byte list" where
  "list_line P line =
    i32_to_str_basic (word_of_nat (prog_line_number P line)) @ [SP] @
    cstr (detokenize (seg (prog_buf P) (line + 3) (u8 (prog_line_length P line + 253))) 160)"

partial_function (option) list_loop :: "nat \<Rightarrow> nat \<Rightarrow> nat option \<Rightarrow> xw \<Rightarrow> xw option" where
  "list_loop from_line to_line p w =
    (case p of
       None \<Rightarrow> Some w
     | Some line \<Rightarrow>
         (let num = prog_line_number (prg w) line;
              w1 = (if from_line \<le> num \<and> num \<le> to_line
                    then vga_putchar 10 (vga_write (list_line (prg w) line) w) else w)
          in list_loop from_line to_line (prog_next_line (prg w) line) w1))"

definition cmd_list :: "byte list \<Rightarrow> xw \<Rightarrow> xw option" where
  "cmd_list args w =
    (case list_range args of (from_line, to_line) \<Rightarrow> list_loop from_line to_line (prog_first_line (prg w)) w)"

section \<open>RUN\<close>

partial_function (option) run_loop :: "nat \<Rightarrow> xw \<Rightarrow> xw option" where
  "run_loop resume_pos w =
    (case current_line w of
       None \<Rightarrow> Some w
     | Some line \<Rightarrow>
         if \<not> running w \<or> has_error w then Some w
         else
           let data_len = u8 (prog_line_length (prg w) line + 253);
               tokens = (\<lambda>i. prog_buf (prg w) (line + 3 + i)) in
           case exec_line_at tokens data_len resume_pos (w\<lparr>jumped := False\<rparr>) of
             None \<Rightarrow> None
           | Some w1 \<Rightarrow>
               if running w1 \<and> \<not> has_error w1 then
                 if jumped w1 then run_loop (pos w1) w1
                 else
                   case current_line w1 of
                     None \<Rightarrow> None
                   | Some l \<Rightarrow> run_loop 0 (w1\<lparr>current_line := prog_next_line (prg w1) l\<rparr>)
               else run_loop 0 w1)"

definition report_error :: "xw \<Rightarrow> xw" where
  "report_error w =
    (if has_error w then
       let w1 = vga_write (bytes_of ''?'' @ map of_char (error_msg w)) w;
           w2 = (if error_line_num w > 0
                 then vga_write (bytes_of '' IN '' @ i32_to_str_basic (word_of_nat (error_line_num w))) w1 else w1)
       in vga_putchar 10 w2
     else w)"

definition run_start :: "xw \<Rightarrow> xw" where
  "run_start w =
    (let w1 = exec_clear_error (exec_init w);
         w2 = w1\<lparr>env := string_pool_reset (vars_clear (env w1))\<rparr>
     in w2\<lparr>current_line := prog_first_line (prg w2), running := True\<rparr>)"

definition cmd_run :: "xw \<Rightarrow> xw option" where
  "cmd_run w = map_option report_error (run_loop 0 (run_start w))"

section \<open>SAVE and LOAD\<close>

definition SAVE_SIZE :: nat where "SAVE_SIZE = 4096"

partial_function (option) save_loop :: "prog \<Rightarrow> nat option \<Rightarrow> byte list \<Rightarrow> byte list option" where
  "save_loop P p buf =
    (case p of
       None \<Rightarrow> Some buf
     | Some line \<Rightarrow>
         if length buf < SAVE_SIZE - 170
         then save_loop P (prog_next_line P line) (buf @ list_line P line @ [10])
         else Some buf)"

definition cmd_save :: "(byte list \<Rightarrow> byte list \<Rightarrow> 'fs \<Rightarrow> (int \<times> 'fs) option) \<Rightarrow> byte list \<Rightarrow> xw \<times> 'fs \<Rightarrow> (xw \<times> 'fs) option" where
  "cmd_save wr filename w_fs =
    (case w_fs of (w, fs) \<Rightarrow>
       if filename = [] then Some (vga_write (bytes_of ''?MISSING FILENAME\<newline>'') w, fs)
       else case save_loop (prg w) (prog_first_line (prg w)) [] of
         None \<Rightarrow> None
       | Some buf \<Rightarrow>
           (case wr filename buf fs of
              None \<Rightarrow> None
            | Some (r, fs') \<Rightarrow>
                if r = 0 then Some (vga_write (bytes_of ''OK\<newline>'') w, fs')
                else Some (vga_write (bytes_of ''?SAVE ERROR\<newline>'') w, fs')))"

text \<open>One line of a file: at most 158 bytes up to a newline, which is skipped when it is next.\<close>

fun take_line :: "nat \<Rightarrow> byte list \<Rightarrow> byte list \<times> byte list" where
  "take_line 0 data = ([], data)"
| "take_line (Suc n) [] = ([], [])"
| "take_line (Suc n) (c # cs) =
    (if c = 10 then ([], c # cs) else case take_line n cs of (l, r) \<Rightarrow> (c # l, r))"

definition skip_newline :: "byte list \<Rightarrow> byte list" where
  "skip_newline data = (if data \<noteq> [] \<and> hd data = 10 then tl data else data)"

text \<open>A numbered line that is typed or loaded: tokenize and store.\<close>

definition enter_line :: "nat \<Rightarrow> byte list \<Rightarrow> prog \<Rightarrow> prog option" where
  "enter_line num src P =
    (let toks = tokenize src 120 in if length toks > 0 then store_line P num toks else Some P)"

lemma take_line_length: "take_line n data = (l, r) \<Longrightarrow> length l + length r = length data"
  by (induction n data arbitrary: l r rule: take_line.induct) (auto split: if_splits prod.splits)

lemma load_progress:
  assumes "take_line 158 data = (l, r)" and "data \<noteq> []"
  shows "length (skip_newline r) < length data"
proof (cases "l = []")
  case True
  obtain c cs where d: "data = c # cs" using assms(2) by (cases data) auto
  obtain n where n: "(158 :: nat) = Suc n" by (metis Suc_numeral pred_numeral_simps(2) semiring_norm(26) numeral_eq_Suc)
  have "c = 10 \<and> r = c # cs" using assms(1) True unfolding d n by (auto split: if_splits prod.splits)
  then show ?thesis by (simp add: skip_newline_def d)
next
  case False
  then have "0 < length l" by simp
  then have "length r < length data" using take_line_length [OF assms(1)] by linarith
  then show ?thesis by (auto simp: skip_newline_def)
qed

function load_loop :: "byte list \<Rightarrow> prog \<Rightarrow> prog option" where
  "load_loop data P =
    (if data = [] then Some P
     else
       let (line_buf, rest) = take_line 158 data; rest' = skip_newline rest in
       if line_buf = [] then load_loop rest' P
       else
         let line = cstr line_buf; (num, adv) = parse_line_number line in
         if num = 0 then load_loop rest' P
         else
           case enter_line num (skip_blanks (drop adv line)) P of
             None \<Rightarrow> None
           | Some P' \<Rightarrow> load_loop rest' P')"
  by pat_completeness auto

termination
  by (relation "measure (\<lambda>(data, P). length data)") (auto dest!: load_progress [OF sym])

declare load_loop.simps [simp del]

definition cmd_load :: "(byte list \<Rightarrow> nat \<Rightarrow> 'fs \<Rightarrow> byte list option option) \<Rightarrow> byte list \<Rightarrow> xw \<times> 'fs \<Rightarrow> (xw \<times> 'fs) option" where
  "cmd_load rd filename w_fs =
    (case w_fs of (w, fs) \<Rightarrow>
       if filename = [] then Some (vga_write (bytes_of ''?MISSING FILENAME\<newline>'') w, fs)
       else case rd filename SAVE_SIZE fs of
         None \<Rightarrow> None
       | Some None \<Rightarrow> Some (vga_write (bytes_of ''?FILE NOT FOUND\<newline>'') w, fs)
       | Some (Some data) \<Rightarrow>
           (case load_loop data (prog_init (prg w)) of
              None \<Rightarrow> None
            | Some P \<Rightarrow> Some (vga_write (bytes_of ''OK\<newline>'') (w\<lparr>prg := P\<rparr>), fs)))"

section \<open>The read-eval loop\<close>

definition file_arg :: "byte list \<Rightarrow> byte list" where
  "file_arg args =
    (if at_nul args = QUOTE then take 12 (takeWhile (\<lambda>c. c \<noteq> QUOTE) (tl args)) else args)"

definition shell_number :: "nat \<Rightarrow> byte list \<Rightarrow> xw \<Rightarrow> xw option" where
  "shell_number num src w =
    (if src = [] then map_option (\<lambda>P. w\<lparr>prg := P\<rparr>) (prog_delete_line (prg w) num)
     else map_option (\<lambda>P. w\<lparr>prg := P\<rparr>) (enter_line num src (prg w)))"

definition shell_immediate :: "byte list \<Rightarrow> xw \<Rightarrow> xw option" where
  "shell_immediate input w =
    (let toks = tokenize input 120 in
     if length toks > 0 then
       (case exec_immediate (arr_of toks (\<lambda>_. 0)) (length toks) w of
          None \<Rightarrow> None
        | Some w1 \<Rightarrow>
            if has_error w1
            then Some (exec_clear_error (vga_putchar 10 (vga_write (bytes_of ''?'' @ map of_char (error_msg w1)) w1)))
            else Some w1)
     else Some w)"

definition shell_command ::
  "(byte list \<Rightarrow> byte list \<Rightarrow> 'fs \<Rightarrow> (int \<times> 'fs) option) \<Rightarrow> (byte list \<Rightarrow> nat \<Rightarrow> 'fs \<Rightarrow> byte list option option) \<Rightarrow>
   byte list \<Rightarrow> xw \<times> 'fs \<Rightarrow> (xw \<times> 'fs) option" where
  "shell_command wr rd input w_fs =
    (case w_fs of (w, fs) \<Rightarrow>
     case parse_line_number input of (line_num, adv) \<Rightarrow>
       if line_num > 0 then map_option (\<lambda>w'. (w', fs)) (shell_number line_num (skip_blanks (drop adv input)) w)
       else if cmd_match input (bytes_of ''RUN'') then
         map_option (\<lambda>w'. (vga_write (bytes_of ''READY.\<newline>'') w', fs)) (cmd_run w)
       else if cmd_match input (bytes_of ''LIST'') then
         map_option (\<lambda>w'. (w', fs)) (cmd_list (skip_blanks (drop 4 input)) w)
       else if cmd_match input (bytes_of ''NEW'') then
         Some (vga_write (bytes_of ''READY.\<newline>'') (w\<lparr>prg := prog_init (prg w), env := vars_clear (env w)\<rparr>), fs)
       else if cmd_match input (bytes_of ''SAVE'') then
         cmd_save wr (file_arg (skip_blanks (drop 4 input))) (w, fs)
       else if cmd_match input (bytes_of ''LOAD'') then
         cmd_load rd (file_arg (skip_blanks (drop 4 input))) (w, fs)
       else map_option (\<lambda>w'. (w', fs)) (shell_immediate input w))"

partial_function (option) shell_loop ::
  "(byte list \<Rightarrow> byte list \<Rightarrow> 'fs \<Rightarrow> (int \<times> 'fs) option) \<Rightarrow> (byte list \<Rightarrow> nat \<Rightarrow> 'fs \<Rightarrow> byte list option option) \<Rightarrow>
   xw \<times> 'fs \<Rightarrow> (xw \<times> 'fs) option" where
  "shell_loop wr rd w_fs =
    (case basic_readline INPUT_MAX (fst w_fs) of
       None \<Rightarrow> None
     | Some (input, w) \<Rightarrow>
         if input = [] then shell_loop wr rd (w, snd w_fs)
         else if cmd_match input (bytes_of ''SYSTEM'') then Some (w, snd w_fs)
         else
           (case shell_command wr rd input (w, snd w_fs) of
              None \<Rightarrow> None
            | Some w_fs' \<Rightarrow> shell_loop wr rd w_fs'))"

definition shell_init :: "xw \<Rightarrow> xw" where
  "shell_init w =
    exec_clear_error (exec_init (w\<lparr>prg := prog_init (prg w), env := vars_clear (env w)\<rparr>))"

definition basic_run ::
  "(byte list \<Rightarrow> byte list \<Rightarrow> 'fs \<Rightarrow> (int \<times> 'fs) option) \<Rightarrow> (byte list \<Rightarrow> nat \<Rightarrow> 'fs \<Rightarrow> byte list option option) \<Rightarrow>
   xw \<times> 'fs \<Rightarrow> (xw \<times> 'fs) option" where
  "basic_run wr rd w_fs =
    (let w = shell_init (fst w_fs);
         banner = [Color 11 0] @ map Putc (bytes_of ''Rainbow BASIC v1.0\<newline>'') @ [Color 15 0] @
           map Putc (bytes_of ''8192 BYTES FREE\<newline>'') @ map Putc (bytes_of ''READY.\<newline>'')
     in shell_loop wr rd (w\<lparr>console := console w @ banner\<rparr>, snd w_fs))"

definition basic_load_and_run ::
  "(byte list \<Rightarrow> nat \<Rightarrow> 'fs \<Rightarrow> byte list option option) \<Rightarrow> byte list \<Rightarrow> xw \<times> 'fs \<Rightarrow> (xw \<times> 'fs) option" where
  "basic_load_and_run rd filename w_fs =
    (case cmd_load rd filename (shell_init (fst w_fs), snd w_fs) of
       None \<Rightarrow> None
     | Some (w, fs) \<Rightarrow>
         (case prog_first_line (prg w) of
            None \<Rightarrow> Some (w, fs)
          | Some _ \<Rightarrow> map_option (\<lambda>w'. (w', fs)) (cmd_run w)))"

end
