(* ===== verification/BasicSaveLoad.thy ===== *)
theory BasicSaveLoad
  imports BasicShell
begin

text \<open>
  SAVE and LOAD are inverse: a program of ordinary lines that is listed into a file and loaded from
  it again is the same program, line by line and token by token.
\<close>

section \<open>The listing contains no control characters of its own\<close>

lemma canon_chars:
  "line_ok s \<Longrightarrow> c \<in> set (canon s) \<Longrightarrow> c \<in> set s \<or> kwkey c \<or> is_digit c \<or> c = QUOTE"
proof (induction rule: lexeme_induct)
  case (space rest)
  then show ?case by (auto simp: canon_space)
next
  case (keyword d rest klen tok)
  from keyword(2,3) obtain kw where
    "canon (d # rest) = kw @ (if tok = TOK_REM then drop klen (d # rest) else canon (drop klen (d # rest)))"
    and "\<forall>k \<in> set kw. kwkey k"
    by (rule canon_keyword)
  then have "c \<in> set (canon (drop klen (d # rest))) \<or> kwkey c" using keyword(4) keyword.prems by auto
  then show ?case using keyword.IH set_drop_subset [of klen "d # rest"] by blast
next
  case (remark d rest klen)
  from remark(2,3) obtain kw where
    "canon (d # rest) = kw @ (if TOK_REM = TOK_REM then drop klen (d # rest) else canon (drop klen (d # rest)))"
    and "\<forall>k \<in> set kw. kwkey k"
    by (rule canon_keyword)
  then have "c \<in> set (drop klen (d # rest)) \<or> kwkey c" using remark.prems by auto
  then show ?case using set_drop_subset [of klen "d # rest"] by blast
next
  case (number d rest)
  have "is_digit c \<or> c \<in> set (canon (dropWhile is_digit (d # rest)))"
    using number.prems dec_digits unfolding canon_facts(1) [OF number(1-3)] by auto
  then show ?case using number.IH set_dropWhileD [of c is_digit "d # rest"] by blast
next
  case (string rest)
  let ?t = "tl (dropWhile (\<lambda>x. x \<noteq> QUOTE) rest)"
  have 1: "x \<in> set rest" if "x \<in> set ?t" for x
    using that set_dropWhileD [of x "\<lambda>x. x \<noteq> QUOTE" rest] list.set_sel(2) [of "dropWhile (\<lambda>x. x \<noteq> QUOTE) rest" x]
    by (cases "dropWhile (\<lambda>x. x \<noteq> QUOTE) rest") auto
  have 2: "x \<in> set rest" if "x \<in> set (takeWhile (\<lambda>x. x \<noteq> QUOTE) rest)" for x
    using set_takeWhileD [OF that] by simp
  have "c = QUOTE \<or> c \<in> set (takeWhile (\<lambda>x. x \<noteq> QUOTE) rest) \<or> c \<in> set (canon ?t)"
    using string.prems unfolding canon_facts(2) [OF string(1,2) refl] by auto
  then show ?case using string.IH 1 2 by (metis list.set_intros(2))
next
  case (oper d rest tok)
  have "set (tl rest) \<subseteq> set rest" and "at_nul rest \<in> set rest"
    using comparison_SomeD [OF oper(3)] by (cases rest; auto simp: at_nul_def)+
  then show ?case using oper unfolding canon_oper [OF oper(2,3)] by auto
next
  case (other d rest)
  then show ?case unfolding canon_facts(3) [OF other(1-5)] by auto
qed simp

lemma no_control: "kwkey c \<or> is_digit c \<or> c = QUOTE \<Longrightarrow> c \<noteq> 0 \<and> c \<noteq> 10"
  by (auto simp: kwkey_def is_digit_def)

section \<open>The lines that can be saved\<close>

text \<open>
  A stored line is \<open>listable\<close> when it was typed as ordinary text (7-bit, numbers within an
  \<open>int32_t\<close>, no control characters), starts with no blank and is listed within the 158 characters
  LOAD reads.
\<close>

definition listable :: "line \<Rightarrow> bool" where
  "listable l \<longleftrightarrow> 0 < fst l \<and> fst l < 65536 \<and> snd l \<noteq> [] \<and> hd (snd l) \<noteq> SP \<and>
    (\<exists>src. basic_text src \<and> 0 \<notin> set src \<and> 10 \<notin> set src \<and> snd l = tokenize src 120) \<and>
    length (snd l) < 115 \<and> length (dec (fst l)) + 1 + length (detokenize (snd l) 160) \<le> 158"

definition line_text :: "line \<Rightarrow> byte list" where
  "line_text l = dec (fst l) @ [SP] @ detokenize (snd l) 160"

definition listing :: "line list \<Rightarrow> byte list" where
  "listing ls = concat (map (\<lambda>l. line_text l @ [10]) ls)"

lemma i32_to_str_basic_eq: "i32_to_str_basic = int_to_str"
  by (rule ext) (simp add: i32_to_str_basic_def int_to_str_def)

lemma listable_text:
  assumes "listable l"
  shows "0 \<notin> set (line_text l)" and "10 \<notin> set (line_text l)" and "length (line_text l) \<le> 158"
    and "tokenize (detokenize (snd l) 160) 120 = snd l" and "at_nul (detokenize (snd l) 160) \<noteq> SP"
proof -
  obtain src where src: "basic_text src" "0 \<notin> set src" "10 \<notin> set src" and t: "snd l = tokenize src 120"
    using assms by (auto simp: listable_def)
  have short: "length (tokenize src 120) + 5 < 120" using assms t by (simp add: listable_def)
  have spec: "snd l = tok_spec src" using tokenize_is_spec [of src 120] short t by simp
  have "0 < length (dec (fst l))" using dec_nonempty by simp
  then have fits: "length (detokenize (snd l) 160) + 2 < 160" using assms by (simp add: listable_def)
  have d: "detokenize (snd l) 160 = canon src" using detokenize_is_spec [OF fits] spec by simp
  have ok: "line_ok src" using src(1) short t spec by (simp add: line_ok_def)
  have ctl: "c \<noteq> 0 \<and> c \<noteq> 10" if "c \<in> set (canon src)" for c
    using canon_chars [OF ok that] src no_control by blast
  have dig: "c \<noteq> 0 \<and> c \<noteq> 10" if "c \<in> set (dec n)" for c n
    using dec_digits that no_control by blast
  show "0 \<notin> set (line_text l)" and "10 \<notin> set (line_text l)"
    using ctl dig unfolding line_text_def d by auto
  show "length (line_text l) \<le> 158" using assms by (simp add: line_text_def listable_def)
  have ct: "tok_spec (canon src) = snd l" using tok_spec_canon [OF ok] spec by simp
  then show "tokenize (detokenize (snd l) 160) 120 = snd l"
    using tokenize_is_spec [of "canon src" 120] short t d by simp
  show "at_nul (detokenize (snd l) 160) \<noteq> SP"
  proof
    assume "at_nul (detokenize (snd l) 160) = SP"
    then obtain r where "canon src = SP # r" using d by (cases "canon src") (auto simp: at_nul_def)
    then have "tok_spec (canon src) = SP # tok_spec r" using spec_steps(1) by simp
    then have "hd (snd l) = SP" using ct by simp
    then show False using assms by (simp add: listable_def)
  qed
qed

section \<open>SAVE\<close>

lemma cstr_id: "0 \<notin> set s \<Longrightarrow> cstr s = s"
  by (auto simp: cstr_def takeWhile_eq_all_conv)

lemma list_line_text:
  assumes "prog_rep P (xs @ l # ys)" and "listable l"
  shows "list_line P (length (enc_prog xs)) = line_text l"
proof -
  note at = line_at [OF assms(1)]
  have v: "length (snd l) + 3 < 256" using assms(1) by (simp add: prog_rep_def line_valid_def)
  have "u8 (prog_line_length P (length (enc_prog xs)) + 253) = length (snd l)"
    using at(2) v by (simp add: prog_line_length_def u8_def)
  then have s: "seg (prog_buf P) (length (enc_prog xs) + 3) (u8 (prog_line_length P (length (enc_prog xs)) + 253)) = snd l"
    using at(4) by simp
  have "0 \<notin> set (detokenize (snd l) 160)" using listable_text(1) [OF assms(2)] by (auto simp: line_text_def)
  then have c: "cstr (detokenize (snd l) 160) = detokenize (snd l) 160" by (rule cstr_id)
  have n: "i32_to_str_basic (word_of_nat (fst l)) = dec (fst l)"
    unfolding i32_to_str_basic_eq using assms(2) by (intro int_to_str_dec) (simp add: listable_def)
  show ?thesis unfolding list_line_def at(1) s c n line_text_def ..
qed

lemma line_text_length: "listable l \<Longrightarrow> 0 < length (line_text l)"
  by (simp add: line_text_def)

lemma save_loop_rep:
  "prog_rep P (xs @ ys) \<Longrightarrow> list_all listable ys \<Longrightarrow> length buf + length (listing ys) < 3926 \<Longrightarrow>
   save_loop P (if ys = [] then None else Some (length (enc_prog xs))) buf = Some (buf @ listing ys)"
proof (induction ys arbitrary: xs buf)
  case Nil
  then show ?case by (subst save_loop.simps) (simp add: listing_def)
next
  case (Cons l ys)
  have rep: "prog_rep P ((xs @ [l]) @ ys)" using Cons.prems(1) by simp
  have t: "list_line P (length (enc_prog xs)) = line_text l"
    using list_line_text [OF Cons.prems(1)] Cons.prems(2) by simp
  have lst: "listing (l # ys) = line_text l @ [10] @ listing ys" by (simp add: listing_def)
  have small: "length (buf @ line_text l @ [10]) + length (listing ys) < 3926"
    using Cons.prems(3) unfolding lst by simp
  have room: "length buf < SAVE_SIZE - 170" using Cons.prems(3) unfolding SAVE_SIZE_def by simp
  have nx: "prog_next_line P (length (enc_prog xs)) = (if ys = [] then None else Some (length (enc_prog (xs @ [l]))))"
    by (rule line_at(3) [OF Cons.prems(1)])
  have "save_loop P (Some (length (enc_prog xs))) buf =
      save_loop P (if ys = [] then None else Some (length (enc_prog (xs @ [l])))) (buf @ line_text l @ [10])"
    by (subst save_loop.simps) (simp only: option.case room t nx if_True)
  also have "\<dots> = Some ((buf @ line_text l @ [10]) @ listing ys)"
    using Cons.IH [OF rep _ small] Cons.prems(2) by simp
  finally show ?case by (simp add: lst)
qed

section \<open>LOAD\<close>

lemma take_line_text:
  "10 \<notin> set t \<Longrightarrow> length t \<le> n \<Longrightarrow> take_line n (t @ 10 # rest) = (t, 10 # rest)"
proof (induction t arbitrary: n)
  case Nil
  then show ?case by (cases n) auto
next
  case (Cons c t)
  then obtain m where "n = Suc m" by (cases n) auto
  then show ?case using Cons by simp
qed

lemma line_digits_val:
  "\<forall>d \<in> set ds. is_digit d \<Longrightarrow> \<not> is_digit (at_nul r) \<Longrightarrow>
   line_digits (ds @ r) (u16 num) i = (u16 (digits_val ds num), i + length ds)"
proof (induction ds arbitrary: num i)
  case Nil
  then show ?case by (cases r) (auto simp: is_digit_def at_nul_def)
next
  case (Cons d ds)
  have "u16 (u16 num * 10 + (unat d - 48)) = u16 (num * 10 + (unat d - 48))"
    unfolding u16_def by (metis mod_add_left_eq mod_mult_left_eq)
  then show ?case using Cons.IH [of "num * 10 + (unat d - 48)" "i + 1"] Cons.prems by (simp add: is_digit_def)
qed

lemma parse_line_text:
  assumes "0 < n" and "n < 65536"
  shows "parse_line_number (dec n @ SP # r) = (n, length (dec n))"
proof -
  have "line_digits (dec n @ SP # r) (u16 0) 0 = (u16 (digits_val (dec n) 0), 0 + length (dec n))"
    using dec_digits by (intro line_digits_val) (auto simp: at_nul_def is_digit_def)
  then show ?thesis using assms dec_nonempty by (simp add: parse_line_number_def digits_val_dec u16_def)
qed

lemma skip_blanks_text: "at_nul s \<noteq> SP \<Longrightarrow> skip_blanks (SP # s) = s"
  by (cases s) (auto simp: skip_blanks_def at_nul_def)

lemma load_loop_line:
  assumes "listable l"
  shows "load_loop (line_text l @ 10 # rest) P =
    (case store_line P (fst l) (snd l) of None \<Rightarrow> None | Some P' \<Rightarrow> load_loop rest P')"
proof -
  note txt_facts = listable_text [OF assms]
  have ne: "line_text l \<noteq> []" by (simp add: line_text_def)
  have lim: "0 < fst l" "fst l < 65536" "snd l \<noteq> []" using assms by (auto simp: listable_def)
  have tk: "take_line 158 (line_text l @ 10 # rest) = (line_text l, 10 # rest)"
    using take_line_text txt_facts(2,3) by blast
  have pl: "parse_line_number (line_text l) = (fst l, length (dec (fst l)))"
    unfolding line_text_def using parse_line_text [OF lim(1,2)] by simp
  have sk: "skip_blanks (drop (length (dec (fst l))) (line_text l)) = detokenize (snd l) 160"
    unfolding line_text_def using skip_blanks_text [OF txt_facts(5)] by simp
  have en: "enter_line (fst l) (detokenize (snd l) 160) P = store_line P (fst l) (snd l)"
    unfolding enter_line_def txt_facts(4) using lim(3) by simp
  have sn: "skip_newline (10 # rest) = rest" by (simp add: skip_newline_def)
  show ?thesis
    by (subst load_loop.simps)
      (simp add: tk sn ne cong: option.case_cong add: cstr_id [OF txt_facts(1)] pl lim(1) [THEN less_not_refl2] sk en)
qed

lemma load_loop_listing:
  "list_all listable ls \<Longrightarrow> load_loop (listing ls) P = enter_lines store_line P ls"
proof (induction ls arbitrary: P)
  case Nil
  then show ?case by (subst load_loop.simps) (simp add: listing_def)
next
  case (Cons l ls)
  have "listing (l # ls) = line_text l @ 10 # listing ls" by (simp add: listing_def)
  then show ?case
    using Cons load_loop_line [of l "listing ls" P] by (cases l) (simp split: option.split)
qed

section \<open>The property\<close>

lemma save_correct:
  assumes "prog_rep (prg w) ls" and "list_all listable ls" and "length (listing ls) < 3926"
    and "filename \<noteq> []" and "wr filename (listing ls) fs = Some (0, fs')"
  shows "cmd_save wr filename (w, fs) = Some (vga_write (bytes_of ''OK\<newline>'') w, fs')"
proof -
  have "prog_first_line (prg w) = (if ls = [] then None else Some (length (enc_prog [])))"
    using prog_rep_length [OF assms(1)] by (cases ls) (simp_all add: prog_first_line_def)
  then have "save_loop (prg w) (prog_first_line (prg w)) [] = Some (listing ls)"
    using save_loop_rep [of "prg w" "[]" ls "[]"] assms(1-3) by simp
  then show ?thesis using assms(4,5) by (simp add: cmd_save_def)
qed

text \<open>
  C4: Let the program consist of ordinary lines whose listing fits the 4096 bytes of the buffer.
  If the file system writes the file that SAVE hands it and then reads it back, SAVE prints OK, and
  LOAD, in any later state of the interpreter, prints OK and leaves under every line number exactly
  the tokens the saved program had there.
\<close>

theorem save_load_roundtrip:
  assumes "prog_rep (prg w) ls" and "list_all listable ls" and "length (listing ls) < 3926"
    and "filename \<noteq> []"
    and "wr filename (listing ls) fs = Some (0, fs')"
    and "rd filename SAVE_SIZE fs'' = Some (Some (listing ls))"
  shows "cmd_save wr filename (w, fs) = Some (vga_write (bytes_of ''OK\<newline>'') w, fs') \<and>
    (\<exists>P. cmd_load rd filename (w2, fs'') = Some (vga_write (bytes_of ''OK\<newline>'') (w2\<lparr>prg := P\<rparr>), fs'') \<and>
       prog_lookup P = prog_lookup (prg w))"
proof -
  have v: "list_all line_valid ls" and fit: "length (enc_prog ls) \<le> PROG_SIZE"
    using assms(1) prog_rep_length [OF assms(1)] by (auto simp: prog_rep_def)
  have ok: "prog_ok (prog_init (prg w2))" using prog_init_rep by (auto simp: prog_ok_def)
  have e: "prog_lookup (prog_init (prg w2)) = Map.empty" using lookup_rep [OF prog_init_rep] by simp
  have u: "prog_used (prog_init (prg w2)) = 0" by (simp add: prog_used_def prog_init_def)
  obtain P where P: "enter_lines store_line (prog_init (prg w2)) ls = Some P" "prog_lookup P = map_of (rev ls)"
    using ps.enter_lines_lookup [OF ok v] fit u by (auto simp: e)
  have "sorted_wrt (\<lambda>a b. fst a < fst b) ls" using assms(1) by (simp add: prog_rep_def)
  then have "distinct (map fst ls)" by (induction ls) force+
  then have "map_of (rev ls) = map_of ls"
    by (subst map_of_inject_set) (simp_all add: rev_map [symmetric])
  then have "prog_lookup P = prog_lookup (prg w)" using P(2) lookup_rep [OF assms(1)] by simp
  moreover have "load_loop (listing ls) (prog_init (prg w2)) = Some P"
    using load_loop_listing [OF assms(2)] P(1) by simp
  ultimately have "cmd_load rd filename (w2, fs'') = Some (vga_write (bytes_of ''OK\<newline>'') (w2\<lparr>prg := P\<rparr>), fs'') \<and>
       prog_lookup P = prog_lookup (prg w)"
    using assms(4,6) by (simp add: cmd_load_def)
  then show ?thesis
    using save_correct [where wr = wr and fs = fs and fs' = fs', OF assms(1-5)] by blast
qed

definition sample_prog :: prog where
  "sample_prog = \<lparr>prog_buf = arr_of [10, 0, 4, TOK_CLS] (\<lambda>_. 0), prog_end = 4\<rparr>"

theorem save_load_roundtrip_witness:
  "\<forall>w w2. \<exists>P. cmd_save (\<lambda>name data fs. Some (0, fs(name := Some data))) (bytes_of ''A'') (w\<lparr>prg := sample_prog\<rparr>, \<lambda>_. None) =
        Some (vga_write (bytes_of ''OK\<newline>'') (w\<lparr>prg := sample_prog\<rparr>), (\<lambda>_. None)(bytes_of ''A'' := Some (bytes_of ''10 CLS\<newline>''))) \<and>
      cmd_load (\<lambda>name size fs. Some (fs name)) (bytes_of ''A'')
        (w2, (\<lambda>_. None)(bytes_of ''A'' := Some (bytes_of ''10 CLS\<newline>''))) =
      Some (vga_write (bytes_of ''OK\<newline>'') (w2\<lparr>prg := P\<rparr>), (\<lambda>_. None)(bytes_of ''A'' := Some (bytes_of ''10 CLS\<newline>''))) \<and>
      prog_lookup P = prog_lookup sample_prog"
proof (intro allI)
  fix w w2 :: xw
  let ?ls = "[(10, [TOK_CLS])] :: line list"
  have rep: "prog_rep (prg (w\<lparr>prg := sample_prog\<rparr>)) ?ls"
    by (simp add: prog_rep_def sample_prog_def enc_prog_def enc_line_def PROG_SIZE_def line_valid_def seg_def arr_of_def upt_rec)
  have tk: "tokenize (bytes_of ''CLS'') 120 = [TOK_CLS]" by (simp add: tok_eval)
  have dt: "detokenize [TOK_CLS] 160 = bytes_of ''CLS''" by (simp add: tok_eval)
  have dc: "dec 10 = bytes_of ''10''" by (simp add: dec_def tmp_digits.simps)
  have ls: "listing ?ls = bytes_of ''10 CLS\<newline>''" by (simp add: listing_def line_text_def dt dc)
  have src: "basic_text (bytes_of ''CLS'') \<and> 0 \<notin> set (bytes_of ''CLS'') \<and> 10 \<notin> set (bytes_of ''CLS'') \<and>
      [TOK_CLS] = tokenize (bytes_of ''CLS'') 120"
    unfolding tk by (simp add: tok_eval)
  have ok: "list_all listable ?ls"
  proof -
    have "\<exists>s. basic_text s \<and> 0 \<notin> set s \<and> 10 \<notin> set s \<and> [TOK_CLS] = tokenize s 120" using src by blast
    then show ?thesis by (simp add: listable_def dt dc)
  qed
  show "\<exists>P. cmd_save (\<lambda>name data fs. Some (0, fs(name := Some data))) (bytes_of ''A'') (w\<lparr>prg := sample_prog\<rparr>, \<lambda>_. None) =
        Some (vga_write (bytes_of ''OK\<newline>'') (w\<lparr>prg := sample_prog\<rparr>), (\<lambda>_. None)(bytes_of ''A'' := Some (bytes_of ''10 CLS\<newline>''))) \<and>
      cmd_load (\<lambda>name size fs. Some (fs name)) (bytes_of ''A'')
        (w2, (\<lambda>_. None)(bytes_of ''A'' := Some (bytes_of ''10 CLS\<newline>''))) =
      Some (vga_write (bytes_of ''OK\<newline>'') (w2\<lparr>prg := P\<rparr>), (\<lambda>_. None)(bytes_of ''A'' := Some (bytes_of ''10 CLS\<newline>''))) \<and>
      prog_lookup P = prog_lookup sample_prog"
    using save_load_roundtrip [OF rep ok, where filename = "bytes_of ''A''" and fs = "\<lambda>_. None"
        and wr = "\<lambda>name data fs. Some (0, fs(name := Some data))" and rd = "\<lambda>name size fs. Some (fs name)"
        and fs' = "(\<lambda>_. None)(bytes_of ''A'' := Some (bytes_of ''10 CLS\<newline>''))"
        and fs'' = "(\<lambda>_. None)(bytes_of ''A'' := Some (bytes_of ''10 CLS\<newline>''))" and ?w2.0 = w2] ls
    by simp
qed

end
