(* ===== verification/BasicExprSpec.thy ===== *)
theory BasicExprSpec
  imports BasicExpr
begin

text \<open>
  What a BASIC expression means, and that the evaluator computes it.

  \<open>bexpr\<close> is the syntax tree, \<open>eval\<close> its value (\<^const>\<open>None\<close> for a type error, a division by zero,
  a trap, or a string pool without room), \<open>render\<close> its tokens with parentheses exactly where the
  grammar needs them. The theorem covers every token array that holds the rendered tokens with any
  number of spaces before each: precedence, associativity, string results and variables.
\<close>

section \<open>Syntax and meaning\<close>

datatype sval = SN i32 | SS "byte list"

datatype binop = BOr | BAnd | BCmp byte | BAdd | BSub | BMul | BDiv | BMod

datatype bexpr = ENum i32 | EStr "byte list" | EVar byte int | EStrVar byte
  | ENeg bexpr | ENot bexpr | EBin binop bexpr bexpr | EFn byte bexpr
  | ELeft bexpr bexpr | ERight bexpr bexpr | EMid bexpr bexpr bexpr

definition struth :: "sval \<Rightarrow> bool" where
  "struth v = (case v of SN n \<Rightarrow> n \<noteq> 0 | SS _ \<Rightarrow> True)"

definition cut :: "byte list \<Rightarrow> byte list" where
  "cut s = takeWhile (\<lambda>c. c \<noteq> 0) s"

definition scmp :: "byte list \<Rightarrow> byte list \<Rightarrow> int" where
  "scmp s t = (if s = t then 0 else if s < t then - 1 else 1)"

definition pool :: "nat \<Rightarrow> nat \<Rightarrow> nat option" where
  "pool m l = (if m + l + 1 > STRING_POOL_SIZE then None else Some (m + l + 1))"

definition ret_str :: "nat \<Rightarrow> byte list \<Rightarrow> (sval \<times> nat) option" where
  "ret_str m t = (if length t < 256 then map_option (\<lambda>m'. (SS t, m')) (pool m (length t)) else None)"

definition binop_val :: "binop \<Rightarrow> sval \<Rightarrow> sval \<Rightarrow> nat \<Rightarrow> (sval \<times> nat) option" where
  "binop_val op x y m =
    (case op of
       BOr \<Rightarrow> Some (SN (if struth x \<or> struth y then - 1 else 0), m)
     | BAnd \<Rightarrow> Some (SN (if struth x \<and> struth y then - 1 else 0), m)
     | BCmp t \<Rightarrow>
         if \<not> is_comparison t then None
         else (case (x, y) of
             (SN a, SN b) \<Rightarrow> Some (SN (compare_result t (sint a - sint b)), m)
           | (SS a, SS b) \<Rightarrow> Some (SN (compare_result t (scmp (cut a) (cut b))), m)
           | _ \<Rightarrow> None)
     | BAdd \<Rightarrow>
         (case (x, y) of
            (SN a, SN b) \<Rightarrow> Some (SN (a + b), m)
          | (SS a, SS b) \<Rightarrow> ret_str m (a @ b)
          | _ \<Rightarrow> None)
     | BSub \<Rightarrow> (case (x, y) of (SN a, SN b) \<Rightarrow> Some (SN (a - b), m) | _ \<Rightarrow> None)
     | BMul \<Rightarrow> (case (x, y) of (SN a, SN b) \<Rightarrow> Some (SN (a * b), m) | _ \<Rightarrow> None)
     | BDiv \<Rightarrow>
         (case (x, y) of
            (SN a, SN b) \<Rightarrow>
              if b = 0 \<or> b = - 1 \<and> sint a = - (2 ^ 31) then None
              else Some (SN (word_of_int (sint a sdiv sint b)), m)
          | _ \<Rightarrow> None)
     | BMod \<Rightarrow>
         (case (x, y) of
            (SN a, SN b) \<Rightarrow>
              if b = 0 \<or> b = - 1 \<and> sint a = - (2 ^ 31) then None
              else Some (SN (word_of_int (sint a smod sint b)), m)
          | _ \<Rightarrow> None))"

definition fn_val :: "mem \<Rightarrow> byte \<Rightarrow> sval \<Rightarrow> nat \<Rightarrow> (sval \<times> nat) option" where
  "fn_val rm f x m =
    (case x of
       SN n \<Rightarrow>
         if f = TOK_ABS then Some (SN (if sint n < 0 then - n else n), m)
         else if f = TOK_INT then Some (SN n, m)
         else if f = TOK_CHR then ret_str m [ucast n]
         else if f = TOK_STR then ret_str m (int_to_str n)
         else if f = TOK_PEEK then Some (SN (ucast (rm (unat n))), m)
         else None
     | SS t \<Rightarrow>
         if f = TOK_LEN then Some (SN (of_nat (length t)), m)
         else if f = TOK_VAL then Some (SN (str_to_i32 t), m)
         else None)"

definition upto :: "i32 \<Rightarrow> byte list \<Rightarrow> nat" where
  "upto n t = min (nat (sint n)) (length t)"

fun eval :: "benv \<Rightarrow> bexpr \<Rightarrow> nat \<Rightarrow> (sval \<times> nat) option" where
  "eval s (ENum n) m = Some (SN n, m)"
| "eval s (EStr t) m = ret_str m t"
| "eval s (EVar c i) m =
    (if i < - 1 \<or> 9 < i then None
     else case var_num (upcase c) i of None \<Rightarrow> None | Some slot \<Rightarrow> Some (SN (num_vars s slot), m))"
| "eval s (EStrVar c) m =
    (case var_str (upcase c) of
       None \<Rightarrow> None
     | Some row \<Rightarrow>
         (case strlen (str_vars s row) 0 of
            None \<Rightarrow> None
          | Some l \<Rightarrow> ret_str m (seg (str_vars s row) 0 l)))"
| "eval s (ENeg e) m = (case eval s e m of Some (SN n, m1) \<Rightarrow> Some (SN (- n), m1) | _ \<Rightarrow> None)"
| "eval s (ENot e) m = (case eval s e m of Some (SN n, m1) \<Rightarrow> Some (SN (if n \<noteq> 0 then 0 else 1), m1) | _ \<Rightarrow> None)"
| "eval s (EBin op a b) m =
    (case eval s a m of
       None \<Rightarrow> None
     | Some (x, m1) \<Rightarrow> (case eval s b m1 of None \<Rightarrow> None | Some (y, m2) \<Rightarrow> binop_val op x y m2))"
| "eval s (EFn f e) m = (case eval s e m of None \<Rightarrow> None | Some (x, m1) \<Rightarrow> fn_val (ram s) f x m1)"
| "eval s (ELeft a b) m =
    (case eval s a m of
       Some (SS t, m1) \<Rightarrow>
         (case eval s b m1 of Some (SN n, m2) \<Rightarrow> ret_str m2 (take (upto n t) t) | _ \<Rightarrow> None)
     | _ \<Rightarrow> None)"
| "eval s (ERight a b) m =
    (case eval s a m of
       Some (SS t, m1) \<Rightarrow>
         (case eval s b m1 of Some (SN n, m2) \<Rightarrow> ret_str m2 (drop (length t - upto n t) t) | _ \<Rightarrow> None)
     | _ \<Rightarrow> None)"
| "eval s (EMid a b c) m =
    (case eval s a m of
       Some (SS t, m1) \<Rightarrow>
         (case eval s b m1 of
            Some (SN p, m2) \<Rightarrow>
              (case eval s c m2 of
                 Some (SN n, m3) \<Rightarrow>
                   if sint n < 2 ^ 31 - 256
                   then ret_str m3 (take (nat (sint n)) (drop (upto (p - 1) t) t)) else None
               | _ \<Rightarrow> None)
          | _ \<Rightarrow> None)
     | _ \<Rightarrow> None)"

section \<open>Tokens of an expression\<close>

datatype tk = TTok byte | TNum i32 | TLit "byte list" | TVar byte int | TSVar byte

definition level :: "binop \<Rightarrow> nat" where
  "level op = (case op of BOr \<Rightarrow> 0 | BAnd \<Rightarrow> 1 | BCmp _ \<Rightarrow> 2 | BAdd \<Rightarrow> 3 | BSub \<Rightarrow> 3 | _ \<Rightarrow> 4)"

definition op_tok :: "binop \<Rightarrow> byte" where
  "op_tok op = (case op of BOr \<Rightarrow> TOK_OR | BAnd \<Rightarrow> TOK_AND | BCmp t \<Rightarrow> t | BAdd \<Rightarrow> 43 | BSub \<Rightarrow> MINUS
     | BMul \<Rightarrow> 42 | BDiv \<Rightarrow> 47 | BMod \<Rightarrow> TOK_MOD)"

fun render :: "nat \<Rightarrow> bexpr \<Rightarrow> tk list" where
  "render l (ENum n) = [TNum n]"
| "render l (EStr t) = [TLit t]"
| "render l (EVar c i) = [TVar c i]"
| "render l (EStrVar c) = [TSVar c]"
| "render l (ENeg e) = TTok MINUS # render 5 e"
| "render l (ENot e) = TTok TOK_NOT # render 5 e"
| "render l (EBin op a b) =
    (if level op < l then [TTok LPAREN] else []) @
    render (if level op = 2 then 3 else level op) a @ [TTok (op_tok op)] @ render (Suc (level op)) b @
    (if level op < l then [TTok RPAREN] else [])"
| "render l (EFn f e) = [TTok f, TTok LPAREN] @ render 0 e @ [TTok RPAREN]"
| "render l (ELeft a b) = [TTok TOK_LEFT, TTok LPAREN] @ render 0 a @ [TTok COMMA] @ render 0 b @ [TTok RPAREN]"
| "render l (ERight a b) = [TTok TOK_RIGHT, TTok LPAREN] @ render 0 a @ [TTok COMMA] @ render 0 b @ [TTok RPAREN]"
| "render l (EMid a b c) = [TTok TOK_MID, TTok LPAREN] @ render 0 a @ [TTok COMMA] @ render 0 b @ [TTok COMMA]
     @ render 0 c @ [TTok RPAREN]"

text \<open>\<open>tk_at tokens len p t\<close>: the token \<open>t\<close> stands at \<open>p\<close>.\<close>

definition tk_len :: "tk \<Rightarrow> nat" where
  "tk_len t = (case t of TTok _ \<Rightarrow> 1 | TNum _ \<Rightarrow> 5 | TLit s \<Rightarrow> 2 + length s
     | TVar _ i \<Rightarrow> if i < 0 then 1 else 2 | TSVar _ \<Rightarrow> 2)"

definition tk_at :: "mem \<Rightarrow> nat \<Rightarrow> nat \<Rightarrow> tk \<Rightarrow> bool" where
  "tk_at tokens len p t \<longleftrightarrow> p + tk_len t \<le> len \<and>
    (case t of
       TTok c \<Rightarrow> tokens p = c
     | TNum n \<Rightarrow> tokens p = TOK_NUM \<and>
         num_of_bytes (tokens (p + 1)) (tokens (p + 2)) (tokens (p + 3)) (tokens (p + 4)) = n
     | TLit s \<Rightarrow> tokens p = TOK_STR_LIT \<and> unat (tokens (p + 1)) = length s \<and> seg tokens (p + 2) (length s) = s
     | TVar c i \<Rightarrow> tokens p = c \<and>
         (if i < 0 then peek_tok tokens len (p + 1) \<noteq> DOLLAR \<and> \<not> is_digit (peek_tok tokens len (p + 1))
          else tokens (p + 1) = word_of_int (48 + i))
     | TSVar c \<Rightarrow> tokens p = c \<and> tokens (p + 1) = DOLLAR)"

fun stream :: "mem \<Rightarrow> nat \<Rightarrow> nat \<Rightarrow> tk list \<Rightarrow> nat \<Rightarrow> bool" where
  "stream tokens len p [] q = (p = q)"
| "stream tokens len p (t # ts) q =
    (tk_at tokens len (skip_spaces tokens len p) t \<and>
     stream tokens len (skip_spaces tokens len p + tk_len t) ts q)"

lemma stream_append:
  "stream T len p (xs @ ys) q \<longleftrightarrow> (\<exists>r. stream T len p xs r \<and> stream T len r ys q)"
  by (induction xs arbitrary: p) auto

lemma skip_idem: "skip_spaces T len (skip_spaces T len p) = skip_spaces T len p"
proof (induction T len p rule: skip_spaces.induct)
  case (1 tokens len pos)
  then show ?case
    using skip_spaces.simps [of tokens len pos] by (cases "pos < len \<and> tokens pos = SP") simp_all
qed

lemma skip_stop: "\<not> (pos < len \<and> T pos = SP) \<Longrightarrow> skip_spaces T len pos = pos"
  by (metis skip_spaces.simps)

lemma stream_skip:
  "skip_spaces T len p = skip_spaces T len p' \<Longrightarrow> ts \<noteq> [] \<Longrightarrow> stream T len p ts q = stream T len p' ts q"
  by (cases ts) simp_all

lemma render_nonempty: "render l e \<noteq> []"
  by (cases e) auto

section \<open>Values and states\<close>

definition vrep :: "benv \<Rightarrow> bas_value \<Rightarrow> sval \<Rightarrow> bool" where
  "vrep s v x \<longleftrightarrow>
    (case x of
       SN n \<Rightarrow> v = VAL_NUM n
     | SS t \<Rightarrow> \<exists>p. v = VAL_STR p (length t) \<and> seg (spool s) p (length t) = t \<and> spool s (p + length t) = 0 \<and>
         p + length t + 1 \<le> spool_pos s \<and> length t < 256)"

definition ext :: "benv \<Rightarrow> benv \<Rightarrow> bool" where
  "ext s s' \<longleftrightarrow> num_vars s' = num_vars s \<and> str_vars s' = str_vars s \<and> ram s' = ram s \<and> rnd_state s' = rnd_state s \<and>
    expr_error s' = expr_error s \<and> spool_pos s \<le> spool_pos s' \<and> (\<forall>i < spool_pos s. spool s' i = spool s i)"

lemma ext_refl [simp]: "ext s s"
  by (simp add: ext_def)

lemma ext_trans: "ext s s' \<Longrightarrow> ext s' s'' \<Longrightarrow> ext s s''"
  by (auto simp: ext_def)

lemma ext_eval: "ext s s' \<Longrightarrow> eval s' e m = eval s e m"
  by (induction e arbitrary: m) (auto simp: ext_def split: option.splits sval.splits)

lemma vrep_ext: "vrep s v x \<Longrightarrow> ext s s' \<Longrightarrow> vrep s' v x"
  by (cases x) (auto simp: vrep_def ext_def list_eq_iff_nth_eq)

lemma vrep_truth: "vrep s v x \<Longrightarrow> truth v = struth x"
  by (cases x) (auto simp: vrep_def truth_def struth_def)

lemma compare_sign: "sgn r = sgn r' \<Longrightarrow> compare_result t r = compare_result t r'"
proof -
  assume "sgn r = sgn r'"
  then have "r = 0 \<longleftrightarrow> r' = 0" "r < 0 \<longleftrightarrow> r' < 0" "r > 0 \<longleftrightarrow> r' > 0" "r \<le> 0 \<longleftrightarrow> r' \<le> 0" "r \<ge> 0 \<longleftrightarrow> r' \<ge> 0"
    by (auto simp: sgn_if split: if_splits)
  then show ?thesis by (simp only: compare_result_def)
qed

lemma strcmp_cut:
  assumes "seg M p (length a) = a" "M (p + length a) = 0" "seg M q (length b) = b" "M (q + length b) = 0"
  shows "\<exists>r. strcmp M p q = Some r \<and> sgn r = sgn (scmp (cut a) (cut b))"
proof -
  have c: "cstring M x (cut t)" if "seg M x (length t) = t" "M (x + length t) = 0" for x t
    using that
  proof (induction t arbitrary: x)
    case (Cons k t)
    then show ?case by (auto simp: cut_def seg_Cons)
  qed (simp add: cut_def)
  obtain r where "strcmp M p q = Some r" and "r = 0 \<longleftrightarrow> cut a = cut b" and "r < 0 \<longleftrightarrow> cut a < cut b"
    using strcmp_cstring [OF c [OF assms(1,2)] c [OF assms(3,4)]] by blast
  then show ?thesis
    by (intro exI [of _ r]) (cases "cut a = cut b"; cases "cut a < cut b"; simp add: scmp_def sgn_if)
qed

text \<open>Storing a fresh string in the pool.\<close>

lemma alloc_pool:
  "pool (spool_pos s) l = Some m \<Longrightarrow>
   string_pool_alloc s l = (Some (spool_pos s), s\<lparr>spool_pos := m\<rparr>) \<and> m = spool_pos s + l + 1"
  by (auto simp: pool_def string_pool_alloc_def split: if_splits)

lemma fresh_string:
  assumes "m = spool_pos s + length t + 1" and "length t < 256"
    and "seg sp (spool_pos s) (length t) = t" and "sp (spool_pos s + length t) = 0"
    and "\<forall>i < spool_pos s. sp i = spool s i"
    and "s' = s\<lparr>spool_pos := m, spool := sp\<rparr>"
  shows "vrep s' (VAL_STR (spool_pos s) (length t)) (SS t) \<and> ext s s' \<and> spool_pos s' = m"
  using assms by (simp add: vrep_def ext_def)

end
