(* ===== verification/BasicLevels.thy ===== *)
theory BasicLevels
  imports BasicExprSpec
begin

text \<open>
  The operator levels of the evaluator, one from the next. \<open>parser_at\<close> and \<open>loop_at\<close> name
  the five levels of the grammar by number, so that one lemma covers the four operator loops.
\<close>

definition parser_at :: "nat \<Rightarrow> nat \<Rightarrow> mem \<Rightarrow> nat \<Rightarrow> parser" where
  "parser_at l d T len =
    (let prim = parse_primary d T len in
     if l = 0 then parse_or prim T len else if l = 1 then parse_and prim T len
     else if l = 2 then parse_compare prim T len else if l = 3 then parse_add prim T len
     else if l = 4 then parse_mul prim T len else prim)"

definition loop_at :: "nat \<Rightarrow> nat \<Rightarrow> mem \<Rightarrow> nat \<Rightarrow> nat \<Rightarrow> bas_value \<Rightarrow> parser" where
  "loop_at l d T len n v =
    (if l = 0 then or_loop n (parser_at 1 d T len) T len v
     else if l = 1 then and_loop n (parser_at 2 d T len) T len v
     else if l = 3 then add_loop n (parser_at 4 d T len) T len v
     else mul_loop n (parser_at 5 d T len) T len v)"

definition loop_level :: "nat \<Rightarrow> bool" where
  "loop_level l \<longleftrightarrow> l = 0 \<or> l = 1 \<or> l = 3 \<or> l = 4"

lemma parser_levels:
  "parser_at 0 d T len = or_level (parser_at 1 d T len) T len"
  "parser_at 1 d T len = and_level (parser_at 2 d T len) T len"
  "parser_at 2 d T len = compare_level (parser_at 3 d T len) T len"
  "parser_at 3 d T len = add_level (parser_at 4 d T len) T len"
  "parser_at 4 d T len = mul_level (parser_at 5 d T len) T len"
  "parser_at 5 d T len = parse_primary d T len"
  by (simp_all add: parser_at_def parse_or_def parse_and_def parse_compare_def parse_add_def parse_mul_def)

lemma parser_step:
  assumes "loop_level l" and "parser_at (l + 1) d T len s p = Some (v, s1, p1)" and "\<not> expr_error s1"
  shows "parser_at l d T len s p = loop_at l d T len LOOPS v s1 p1"
proof -
  consider "l = 0" | "l = 1" | "l = 3" | "l = 4" using assms(1) unfolding loop_level_def by blast
  then show ?thesis
  proof cases
    case 1
    then show ?thesis using assms parser_levels(1) [of d T len] by (simp add: or_level_def loop_at_def)
  next
    case 2
    then show ?thesis using assms parser_levels(2) [of d T len] by (simp add: and_level_def loop_at_def numeral_2_eq_2)
  next
    case 3
    then show ?thesis using assms parser_levels(4) [of d T len] by (simp add: add_level_def loop_at_def)
  next
    case 4
    then show ?thesis using assms parser_levels(5) [of d T len] by (simp add: mul_level_def loop_at_def)
  qed
qed

definition is_op :: "nat \<Rightarrow> byte \<Rightarrow> bool" where
  "is_op l t \<longleftrightarrow>
    (if l = 0 then t = TOK_OR else if l = 1 then t = TOK_AND else if l = 2 then is_comparison t
     else if l = 3 then t = 43 \<or> t = MINUS else if l = 4 then t = 42 \<or> t = 47 \<or> t = TOK_MOD else False)"

definition follow :: "nat \<Rightarrow> byte \<Rightarrow> bool" where
  "follow l t \<longleftrightarrow> (\<forall>k. l \<le> k \<longrightarrow> \<not> is_op k t)"

definition nxt :: "mem \<Rightarrow> nat \<Rightarrow> nat \<Rightarrow> byte" where
  "nxt T len q = peek_tok T len (skip_spaces T len q)"

lemma loop_stop:
  assumes "loop_level l" and "\<not> is_op l (nxt T len p)"
  shows "loop_at l d T len (Suc n) v s p = Some (v, s, skip_spaces T len p)"
  using assms by (auto simp: loop_level_def loop_at_def is_op_def nxt_def Let_def)

lemma nxt_skip: "nxt T len (skip_spaces T len p) = nxt T len p"
  by (simp add: nxt_def skip_idem)

lemma concat_correct:
  assumes "vrep s v1 (SS a)" and "vrep s v2 (SS b)" and "ret_str (spool_pos s) (a @ b) = Some (z, m)"
    and "v1 = VAL_STR p1 l1" and "v2 = VAL_STR p2 l2"
  shows "\<exists>u s2. concat_strings s p1 l1 p2 l2 = Some (u, s2) \<and> vrep s2 u z \<and> ext s s2 \<and> spool_pos s2 = m"
proof -
  let ?P = "spool_pos s"
  have z: "z = SS (a @ b)" and len: "length a + length b < 256"
    and pool: "pool ?P (length a + length b) = Some m"
    using assms(3) by (auto simp: ret_str_def split: if_splits)
  have v: "l1 = length a" "seg (spool s) p1 (length a) = a" "p1 + length a + 1 \<le> ?P"
    "l2 = length b" "seg (spool s) p2 (length b) = b" "p2 + length b + 1 \<le> ?P"
    using assms(1,2,4,5) by (auto simp: vrep_def)
  note al = alloc_pool [OF pool]
  define sp1 where "sp1 = blit (spool s) ?P (spool s) p1 (length a)"
  define sp2 where "sp2 = (blit sp1 (?P + length a) sp1 p2 (length b))(?P + (length a + length b) := 0)"
  have s1: "seg sp2 ?P (length a) = a"
    using v(2) unfolding sp2_def sp1_def by (simp add: seg_blit_out seg_blit)
  have "seg sp2 (?P + length a) (length b) = seg sp1 p2 (length b)"
    unfolding sp2_def by (simp add: seg_blit)
  also have "\<dots> = b" using v(5,6) unfolding sp1_def by (simp add: seg_blit_out)
  finally have seg: "seg sp2 ?P (length (a @ b)) = a @ b" using s1 by (simp add: seg_append)
  have nul: "sp2 (?P + length (a @ b)) = 0" and low: "\<forall>i < ?P. sp2 i = spool s i"
    by (simp_all add: sp2_def sp1_def)
  have m: "m = ?P + length (a @ b) + 1" and l256: "length (a @ b) < 256" using al len by simp_all
  note fresh_string [OF m l256 seg nul low refl]
  moreover have "concat_strings s p1 l1 p2 l2 = Some (VAL_STR ?P (length (a @ b)), s\<lparr>spool_pos := m, spool := sp2\<rparr>)"
    using al len v(1,4) by (simp add: concat_strings_def u8_id Let_def sp2_def sp1_def)
  ultimately show ?thesis unfolding z by blast
qed

lemma op_step:
  assumes lv: "level op = l" "loop_level l" and v0: "vrep s v x" and nx: "nxt T len p = op_tok op"
    and opd: "parser_at (l + 1) d T len s (skip_spaces T len p + 1) = Some (w, s1, p1)" and ok: "\<not> expr_error s1"
    and w: "vrep s1 w y" and ex: "ext s s1" and val: "binop_val op x y (spool_pos s1) = Some (z, m)"
  shows "\<exists>u s2. loop_at l d T len (Suc n) v s p = loop_at l d T len n u s2 p1 \<and>
    vrep s2 u z \<and> ext s1 s2 \<and> spool_pos s2 = m"
proof -
  have x: "vrep s1 v x" using v0 ex by (rule vrep_ext)
  have tr: "truth v = struth x" "truth w = struth y" using x w by (auto dest: vrep_truth)
  have num: "x = SN a \<Longrightarrow> v = VAL_NUM a" "y = SN b \<Longrightarrow> w = VAL_NUM b" for a b
    using x w by (auto simp: vrep_def)
  have tk: "peek_tok T len (skip_spaces T len p) = op_tok op" using nx by (simp add: nxt_def)
  have fin: ?thesis
    if "loop_at l d T len (Suc n) v s p = loop_at l d T len n (VAL_NUM k) s1 p1" "z = SN k" "m = spool_pos s1" for k
    using that by (intro exI [of _ "VAL_NUM k"] exI [of _ s1]) (simp add: vrep_def)
  show ?thesis
  proof (cases op)
    case BOr
    have l: "l = 0" using lv BOr by (simp add: level_def)
    show ?thesis
      by (rule fin [of "if struth x \<or> struth y then - 1 else 0"])
        (use BOr opd ok tk tr val in \<open>simp_all add: l loop_at_def op_tok_def binop_val_def\<close>)
  next
    case BAnd
    have l: "l = 1" using lv BAnd by (simp add: level_def)
    show ?thesis
      by (rule fin [of "if struth x \<and> struth y then - 1 else 0"])
        (use BAnd opd ok tk tr val in \<open>simp_all add: l loop_at_def op_tok_def binop_val_def numeral_2_eq_2\<close>)
  next
    case (BCmp t)
    then show ?thesis using lv by (simp add: level_def loop_level_def)
  next
    case BAdd
    then have l: "l = 3" using lv by (simp add: level_def)
    show ?thesis
    proof (cases x)
      case (SN a)
      then obtain b where y: "y = SN b" and z: "z = SN (a + b)" "m = spool_pos s1"
        using val BAdd by (auto simp: binop_val_def split: sval.splits)
      show ?thesis
        by (rule fin [of "a + b"])
          (use BAdd opd ok tk num(1) [OF SN] num(2) [OF y] z in \<open>simp_all add: l loop_at_def op_tok_def\<close>)
    next
      case (SS a)
      then obtain b where y: "y = SS b" and r: "ret_str (spool_pos s1) (a @ b) = Some (z, m)"
        using val BAdd by (auto simp: binop_val_def split: sval.splits)
      obtain p1' l1 p2' l2 where vw: "v = VAL_STR p1' l1" "w = VAL_STR p2' l2"
        using x w SS y by (auto simp: vrep_def)
      obtain u s2 where c: "concat_strings s1 p1' l1 p2' l2 = Some (u, s2)"
        and u: "vrep s2 u z" "ext s1 s2" "spool_pos s2 = m"
        using concat_correct [OF x [unfolded SS] w [unfolded y] r vw] by blast
      have "loop_at l d T len (Suc n) v s p = loop_at l d T len n u s2 p1"
        using opd ok tk BAdd vw c by (simp add: l loop_at_def op_tok_def)
      then show ?thesis using u by blast
    qed
  next
    case BSub
    then have l: "l = 3" using lv by (simp add: level_def)
    obtain a b where xy: "x = SN a" "y = SN b" and z: "z = SN (a - b)" "m = spool_pos s1"
      using val BSub by (auto simp: binop_val_def split: sval.splits)
    show ?thesis
      by (rule fin [of "a - b"])
        (use BSub opd ok tk num(1) [OF xy(1)] num(2) [OF xy(2)] z in \<open>simp_all add: l loop_at_def op_tok_def\<close>)
  next
    case BMul
    then have l: "l = 4" using lv by (simp add: level_def)
    obtain a b where xy: "x = SN a" "y = SN b" and z: "z = SN (a * b)" "m = spool_pos s1"
      using val BMul by (auto simp: binop_val_def split: sval.splits)
    show ?thesis
      by (rule fin [of "a * b"])
        (use BMul opd ok tk num(1) [OF xy(1)] num(2) [OF xy(2)] z in \<open>simp_all add: l loop_at_def op_tok_def\<close>)
  next
    case BDiv
    then have l: "l = 4" using lv by (simp add: level_def)
    obtain a b where xy: "x = SN a" "y = SN b" and c: "b \<noteq> 0" "\<not> (b = - 1 \<and> sint a = - (2 ^ 31))"
      and z: "z = SN (word_of_int (sint a sdiv sint b))" "m = spool_pos s1"
      using val BDiv by (auto simp: binop_val_def split: sval.splits if_splits)
    show ?thesis
      by (rule fin [of "word_of_int (sint a sdiv sint b)"])
        (use BDiv opd ok tk num(1) [OF xy(1)] num(2) [OF xy(2)] c z in \<open>auto simp: l loop_at_def op_tok_def\<close>)
  next
    case BMod
    then have l: "l = 4" using lv by (simp add: level_def)
    obtain a b where xy: "x = SN a" "y = SN b" and c: "b \<noteq> 0" "\<not> (b = - 1 \<and> sint a = - (2 ^ 31))"
      and z: "z = SN (word_of_int (sint a smod sint b))" "m = spool_pos s1"
      using val BMod by (auto simp: binop_val_def split: sval.splits if_splits)
    show ?thesis
      by (rule fin [of "word_of_int (sint a smod sint b)"])
        (use BMod opd ok tk num(1) [OF xy(1)] num(2) [OF xy(2)] c z in \<open>auto simp: l loop_at_def op_tok_def\<close>)
  qed
qed

section \<open>One level from the next\<close>

text \<open>\<open>yields\<close>: the run returned the value \<open>x\<close> at the end \<open>q\<close> of its tokens (up to spaces).\<close>

definition yields :: "mem \<Rightarrow> nat \<Rightarrow> benv \<Rightarrow> sval \<Rightarrow> nat \<Rightarrow> nat \<Rightarrow> parse_result \<Rightarrow> bool" where
  "yields T len s x m q r \<longleftrightarrow>
    (\<exists>v s' p'. r = Some (v, s', p') \<and> vrep s' v x \<and> ext s s' \<and> spool_pos s' = m \<and>
       skip_spaces T len p' = skip_spaces T len q)"

definition complete :: "nat \<Rightarrow> nat \<Rightarrow> mem \<Rightarrow> nat \<Rightarrow> bexpr \<Rightarrow> bool" where
  "complete l d T len e \<longleftrightarrow>
    (\<forall>s p q x m. \<not> expr_error s \<longrightarrow> stream T len p (render l e) q \<longrightarrow> follow l (nxt T len q) \<longrightarrow>
       eval s e (spool_pos s) = Some (x, m) \<longrightarrow> yields T len s x m q (parser_at l d T len s p))"

fun spine :: "nat \<Rightarrow> bexpr \<Rightarrow> nat" where
  "spine l (EBin op a b) = (if level op = l then Suc (spine l a) else 0)"
| "spine l e = 0"

definition partial :: "nat \<Rightarrow> nat \<Rightarrow> mem \<Rightarrow> nat \<Rightarrow> bexpr \<Rightarrow> bool" where
  "partial l d T len e \<longleftrightarrow>
    (\<forall>s p q x m. \<not> expr_error s \<longrightarrow> stream T len p (render l e) q \<longrightarrow> follow (l + 1) (nxt T len q) \<longrightarrow>
       eval s e (spool_pos s) = Some (x, m) \<longrightarrow>
       (\<exists>n v s' p'. n + spine l e = LOOPS \<and> parser_at l d T len s p = loop_at l d T len n v s' p' \<and>
          vrep s' v x \<and> ext s s' \<and> spool_pos s' = m \<and> skip_spaces T len p' = skip_spaces T len q))"

lemma follow_Suc: "follow l t \<Longrightarrow> follow (l + 1) t"
  by (simp add: follow_def)

lemma follow_5 [simp]: "follow 5 t"
  by (auto simp: follow_def is_op_def)

lemma ext_error: "ext s s' \<Longrightarrow> expr_error s' = expr_error s"
  by (simp add: ext_def)

lemma nxt_cong: "skip_spaces T len p = skip_spaces T len q \<Longrightarrow> nxt T len p = nxt T len q"
  by (simp add: nxt_def)

lemma skip_ge: "p \<le> skip_spaces T len p"
proof (induction T len p rule: skip_spaces.induct)
  case (1 T len p)
  then show ?case using skip_spaces.simps [of T len p] by (cases "p < len \<and> T p = SP") auto
qed

lemma stream_bound: "stream T len p ts q \<Longrightarrow> ts \<noteq> [] \<Longrightarrow> q \<le> len \<and> p + length ts \<le> q"
proof (induction ts arbitrary: p)
  case (Cons t ts)
  have "1 \<le> tk_len t" by (cases t) (simp_all add: tk_len_def)
  moreover have "skip_spaces T len p + tk_len t \<le> len" using Cons.prems by (simp add: tk_at_def)
  moreover have "ts \<noteq> [] \<Longrightarrow> q \<le> len \<and> skip_spaces T len p + tk_len t + length ts \<le> q"
    using Cons.IH [of "skip_spaces T len p + tk_len t"] Cons.prems by simp
  ultimately show ?case
    using Cons.prems skip_ge [of p T len] by (cases "ts = []") auto
qed simp

lemma spine_le: "spine l e \<le> length (render k e)"
proof (induction e arbitrary: k)
  case (EBin op a b)
  then show ?case by (auto intro!: le_SucI trans_le_add1)
qed simp_all

text \<open>The token after a stream, and the position after it.\<close>

lemma stream_tok:
  assumes "stream T len r (TTok c # ts) q"
  shows "nxt T len r = c" and "peek_tok T len (skip_spaces T len r) = c" and "skip_spaces T len r < len"
    and "stream T len (skip_spaces T len r + 1) ts q"
  using assms by (auto simp: nxt_def peek_tok_def tk_at_def tk_len_def)

lemma op_follow:
  "(\<And>t. op = BCmp t \<Longrightarrow> is_comparison t) \<Longrightarrow> follow (Suc (level op)) (op_tok op)"
  by (cases op) (auto simp: follow_def is_op_def level_def op_tok_def is_comparison_def)

lemma op_is_op: "(\<And>t. op = BCmp t \<Longrightarrow> is_comparison t) \<Longrightarrow> is_op (level op) (op_tok op)"
  by (cases op) (auto simp: is_op_def level_def op_tok_def is_comparison_def)

lemma binop_val_cmp: "binop_val (BCmp t) x y m = Some r \<Longrightarrow> is_comparison t"
  by (auto simp: binop_val_def split: if_splits)

lemma complete_partial:
  assumes "loop_level l" and "partial l d T len e" and "len < LOOPS"
  shows "complete l d T len e"
  unfolding complete_def
proof (intro allI impI)
  fix s p q x m
  assume *: "\<not> expr_error s" "stream T len p (render l e) q" "follow l (nxt T len q)"
    "eval s e (spool_pos s) = Some (x, m)"
  obtain n v s' p' where r: "n + spine l e = LOOPS" "parser_at l d T len s p = loop_at l d T len n v s' p'"
    "vrep s' v x" "ext s s'" "spool_pos s' = m" "skip_spaces T len p' = skip_spaces T len q"
    using assms(2) * follow_Suc unfolding partial_def by blast
  have "spine l e < LOOPS"
    using spine_le [of l e l] stream_bound [OF *(2) render_nonempty] assms(3) by linarith
  then obtain k where n: "n = Suc k" using r(1) by (cases n) auto
  have "\<not> is_op l (nxt T len p')" using *(3) nxt_cong [OF r(6)] by (simp add: follow_def)
  then show "yields T len s x m q (parser_at l d T len s p)"
    using loop_stop [OF assms(1)] r n by (auto simp: yields_def skip_idem)
qed

lemma partial_down:
  assumes "loop_level l" and "complete (l + 1) d T len e" and "render l e = render (l + 1) e" and "spine l e = 0"
  shows "partial l d T len e"
  unfolding partial_def
proof (intro allI impI)
  fix s p q x m
  assume *: "\<not> expr_error s" "stream T len p (render l e) q" "follow (l + 1) (nxt T len q)"
    "eval s e (spool_pos s) = Some (x, m)"
  then have "yields T len s x m q (parser_at (l + 1) d T len s p)"
    using assms(2,3) unfolding complete_def by simp
  then obtain v s' p' where r: "parser_at (l + 1) d T len s p = Some (v, s', p')" "vrep s' v x" "ext s s'"
    "spool_pos s' = m" "skip_spaces T len p' = skip_spaces T len q"
    by (auto simp: yields_def)
  have "\<not> expr_error s'" using r(3) *(1) ext_error by blast
  from parser_step [OF assms(1) r(1) this] show "\<exists>n v s' p'. n + spine l e = LOOPS \<and>
      parser_at l d T len s p = loop_at l d T len n v s' p' \<and>
      vrep s' v x \<and> ext s s' \<and> spool_pos s' = m \<and> skip_spaces T len p' = skip_spaces T len q"
    using r assms(4) by (intro exI [of _ LOOPS] exI [of _ v] exI [of _ s'] exI [of _ p']) simp
qed

lemma partial_bin:
  assumes "level op = l" and "loop_level l" and "partial l d T len a" and "complete (l + 1) d T len b"
    and "len < LOOPS"
  shows "partial l d T len (EBin op a b)"
  unfolding partial_def
proof (intro allI impI)
  fix s p q x m
  assume *: "\<not> expr_error s" "stream T len p (render l (EBin op a b)) q" "follow (l + 1) (nxt T len q)"
    "eval s (EBin op a b) (spool_pos s) = Some (x, m)"
  have l2: "l \<noteq> 2" using assms(2) by (auto simp: loop_level_def)
  have nc: "op = BCmp t \<Longrightarrow> is_comparison t" for t using assms(1) l2 by (auto simp: level_def)
  obtain r where sa: "stream T len p (render l a) r" and sr: "stream T len r (TTok (op_tok op) # render (l + 1) b) q"
    using *(2) assms(1) l2 by (auto simp: stream_append simp del: stream.simps)
  obtain xa ma xb mb where ea: "eval s a (spool_pos s) = Some (xa, ma)" and eb: "eval s b ma = Some (xb, mb)"
    and val: "binop_val op xa xb mb = Some (x, m)"
    using *(4) by (auto split: option.splits)
  have "follow (l + 1) (nxt T len r)"
    unfolding stream_tok(1) [OF sr] using op_follow [of op] nc assms(1) by auto
  then obtain n v s1 p1 where A: "n + spine l a = LOOPS" "parser_at l d T len s p = loop_at l d T len n v s1 p1"
    "vrep s1 v xa" "ext s s1" "spool_pos s1 = ma" "skip_spaces T len p1 = skip_spaces T len r"
    using assms(3) *(1) sa ea unfolding partial_def by blast
  have "spine l (EBin op a b) < LOOPS"
    using spine_le [of l "EBin op a b" l] stream_bound [OF *(2) render_nonempty] assms(5) by linarith
  then obtain k where n: "n = Suc k" using A(1) assms(1) by (cases n) auto
  have ok1: "\<not> expr_error s1" using A(4) *(1) ext_error by blast
  have "yields T len s1 xb mb q (parser_at (l + 1) d T len s1 (skip_spaces T len p1 + 1))"
    using assms(4) ok1 stream_tok(4) [OF sr] *(3) eb ext_eval [OF A(4)] A(5,6) unfolding complete_def by simp
  then obtain w s2 p2 where B: "parser_at (l + 1) d T len s1 (skip_spaces T len p1 + 1) = Some (w, s2, p2)"
    "vrep s2 w xb" "ext s1 s2" "spool_pos s2 = mb" "skip_spaces T len p2 = skip_spaces T len q"
    by (auto simp: yields_def)
  have ok2: "\<not> expr_error s2" using B(3) ok1 ext_error by blast
  have "nxt T len p1 = op_tok op" using nxt_cong [OF A(6)] stream_tok(1) [OF sr] by simp
  from op_step [OF assms(1,2) A(3) this B(1) ok2 B(2,3), of x m k] val B(4)
  obtain u s3 where C: "loop_at l d T len (Suc k) v s1 p1 = loop_at l d T len k u s3 p2" "vrep s3 u x" "ext s2 s3"
    "spool_pos s3 = m" by auto
  have "ext s s3" using A(4) B(3) C(3) ext_trans by blast
  moreover have "parser_at l d T len s p = loop_at l d T len k u s3 p2" using A(2) C(1) n by simp
  moreover have "k + spine l (EBin op a b) = LOOPS" using A(1) n assms(1) by simp
  ultimately show "\<exists>n v s' p'. n + spine l (EBin op a b) = LOOPS \<and>
      parser_at l d T len s p = loop_at l d T len n v s' p' \<and>
      vrep s' v x \<and> ext s s' \<and> spool_pos s' = m \<and> skip_spaces T len p' = skip_spaces T len q"
    using C(2,4) B(5) by blast
qed

end
