(* ===== verification/BasicPrimaries.thy ===== *)
theory BasicPrimaries
  imports BasicLevels
begin

text \<open>
  The comparison level, the primaries and the functions of the evaluator, each from the parsers of
  its operands.
\<close>

section \<open>Comparisons\<close>

lemma yieldsE:
  assumes "yields T len s x m q r"
  obtains v s' p' where "r = Some (v, s', p')" and "vrep s' v x" and "ext s s'" and "spool_pos s' = m"
    and "skip_spaces T len p' = skip_spaces T len q"
  using assms by (auto simp: yields_def)

lemma completeD:
  assumes "complete l d T len e" and "\<not> expr_error s" and "stream T len p (render l e) q"
    and "follow l (nxt T len q)" and "eval s e (spool_pos s) = Some (x, m)"
  obtains v s' p' where "parser_at l d T len s p = Some (v, s', p')" and "vrep s' v x" and "ext s s'"
    and "spool_pos s' = m" and "skip_spaces T len p' = skip_spaces T len q" and "\<not> expr_error s'"
proof -
  have "yields T len s x m q (parser_at l d T len s p)"
    using assms unfolding complete_def by blast
  then obtain v s' p' where r: "parser_at l d T len s p = Some (v, s', p')" "vrep s' v x" "ext s s'"
    "spool_pos s' = m" "skip_spaces T len p' = skip_spaces T len q"
    by (rule yieldsE)
  have "\<not> expr_error s'" using r(3) assms(2) ext_error by blast
  with r show ?thesis by (rule that)
qed

lemma compare_down:
  assumes "complete 3 d T len e" and "render 2 e = render 3 e"
  shows "complete 2 d T len e"
  unfolding complete_def
proof (intro allI impI)
  fix s p q x m
  assume *: "\<not> expr_error s" "stream T len p (render 2 e) q" "follow 2 (nxt T len q)"
    "eval s e (spool_pos s) = Some (x, m)"
  have "follow 3 (nxt T len q)" using follow_Suc [OF *(3)] by simp
  with assms(1) *(1) *(2)[unfolded assms(2)] obtain v s' p' where
    r: "parser_at 3 d T len s p = Some (v, s', p')" "vrep s' v x" "ext s s'" "spool_pos s' = m"
    "skip_spaces T len p' = skip_spaces T len q" "\<not> expr_error s'"
    using completeD *(4) by metis
  have "\<not> is_comparison (nxt T len p')"
    using *(3) nxt_cong [OF r(5)] by (auto simp: follow_def is_op_def)
  then have "parser_at 2 d T len s p = Some (v, s', skip_spaces T len p')"
    using r by (simp add: parser_levels(3) compare_level_def nxt_def)
  then show "yields T len s x m q (parser_at 2 d T len s p)"
    using r by (simp add: yields_def skip_idem)
qed

lemma compare_bin:
  assumes "complete 3 d T len a" and "complete 3 d T len b"
  shows "complete 2 d T len (EBin (BCmp t) a b)"
  unfolding complete_def
proof (intro allI impI)
  fix s p q x m
  assume *: "\<not> expr_error s" "stream T len p (render 2 (EBin (BCmp t) a b)) q" "follow 2 (nxt T len q)"
    "eval s (EBin (BCmp t) a b) (spool_pos s) = Some (x, m)"
  obtain r where sa: "stream T len p (render 3 a) r" and sr: "stream T len r (TTok t # render 3 b) q"
    using *(2) by (auto simp: stream_append level_def op_tok_def simp del: stream.simps)
  obtain xa ma xb mb where ea: "eval s a (spool_pos s) = Some (xa, ma)" and eb: "eval s b ma = Some (xb, mb)"
    and val: "binop_val (BCmp t) xa xb mb = Some (x, m)"
    using *(4) by (auto split: option.splits)
  have cmp: "is_comparison t" using val by (rule binop_val_cmp)
  have fa: "follow 3 (nxt T len r)"
    unfolding stream_tok(1) [OF sr] using cmp by (auto simp: follow_def is_op_def is_comparison_def)
  obtain v s1 p1 where A: "parser_at 3 d T len s p = Some (v, s1, p1)" "vrep s1 v xa" "ext s s1"
    "spool_pos s1 = ma" "skip_spaces T len p1 = skip_spaces T len r" "\<not> expr_error s1"
    using completeD [OF assms(1) *(1) sa fa ea] by metis
  have fb: "follow 3 (nxt T len q)" using follow_Suc [OF *(3)] by simp
  have sb: "stream T len (skip_spaces T len p1 + 1) (render 3 b) q"
    using stream_tok(4) [OF sr] A(5) by simp
  have eb1: "eval s1 b (spool_pos s1) = Some (xb, mb)" using eb ext_eval [OF A(3)] A(4) by simp
  obtain w s2 p2 where B: "parser_at 3 d T len s1 (skip_spaces T len p1 + 1) = Some (w, s2, p2)" "vrep s2 w xb"
    "ext s1 s2" "spool_pos s2 = mb" "skip_spaces T len p2 = skip_spaces T len q" "\<not> expr_error s2"
    using completeD [OF assms(2) A(6) sb fb eb1] by metis
  have v2: "vrep s2 v xa" using A(2) B(3) by (rule vrep_ext)
  have tok: "peek_tok T len (skip_spaces T len p1) = t"
    using stream_tok(2) [OF sr] A(5) by simp
  note run = A(1,6) B(1,6) tok cmp
  have "\<exists>u. parser_at 2 d T len s p = Some (u, s2, p2) \<and> vrep s2 u x" and m: "m = mb"
  proof -
    show m: "m = mb" using val by (auto simp: binop_val_def split: sval.splits if_splits)
    show "\<exists>u. parser_at 2 d T len s p = Some (u, s2, p2) \<and> vrep s2 u x"
    proof (cases xa)
      case (SN i)
      then obtain j where xb: "xb = SN j" and x: "x = SN (compare_result t (sint i - sint j))"
        using val cmp by (auto simp: binop_val_def split: sval.splits)
      have "v = VAL_NUM i" "w = VAL_NUM j" using v2 B(2) SN xb by (simp_all add: vrep_def)
      then show ?thesis
        using run x unfolding parser_levels(3) by (simp add: compare_level_def vrep_def)
    next
      case (SS i)
      then obtain j where xb: "xb = SS j" and x: "x = SN (compare_result t (scmp (cut i) (cut j)))"
        using val cmp by (auto simp: binop_val_def split: sval.splits)
      obtain pi pj where v: "v = VAL_STR pi (length i)" "seg (spool s2) pi (length i) = i" "spool s2 (pi + length i) = 0"
        "w = VAL_STR pj (length j)" "seg (spool s2) pj (length j) = j" "spool s2 (pj + length j) = 0"
        using v2 B(2) SS xb by (auto simp: vrep_def)
      obtain r where "strcmp (spool s2) pi pj = Some r" and "sgn r = sgn (scmp (cut i) (cut j))"
        using strcmp_cut [OF v(2,3,5,6)] by blast
      then show ?thesis
        using run x v(1,4) compare_sign [of r] unfolding parser_levels(3)
        by (simp add: compare_level_def vrep_def)
    qed
  qed
  then show "yields T len s x m q (parser_at 2 d T len s p)"
    using A(3) B(3,4,5) ext_trans unfolding yields_def by blast
qed

section \<open>Primaries\<close>

lemma primary_Suc:
  "parser_at 5 (Suc d) T len = primary_step (parser_at 5 d T len) (parser_at 0 d T len) T len"
  by (simp add: parser_at_def)

lemma skip_opt_tok:
  assumes "stream T len r [TTok c] q" and "skip_spaces T len p = skip_spaces T len r"
  shows "skip_opt c T len p = q"
  using stream_tok(2,4) [OF assms(1)] assms(2) by (simp add: skip_opt_def)

lemma skip_opt_stream:
  assumes "stream T len r (TTok c # ts) q" and "skip_spaces T len p = skip_spaces T len r"
  shows "stream T len (skip_opt c T len p) ts q"
  using stream_tok(2,4) [OF assms(1)] assms(2) by (simp add: skip_opt_def)

lemma follow_sep: "follow 0 RPAREN" "follow 0 COMMA"
  by (auto simp: follow_def is_op_def is_comparison_def)

lemma paren_complete:
  assumes "complete 0 d T len e" and "render 5 e = TTok LPAREN # render 0 e @ [TTok RPAREN]"
  shows "complete 5 (Suc d) T len e"
  unfolding complete_def
proof (intro allI impI)
  fix s p q x m
  assume *: "\<not> expr_error s" "stream T len p (render 5 e) q" "follow 5 (nxt T len q)"
    "eval s e (spool_pos s) = Some (x, m)"
  let ?p = "skip_spaces T len p"
  have st: "stream T len p (TTok LPAREN # render 0 e @ [TTok RPAREN]) q" using *(2) assms(2) by simp
  note tok = stream_tok [OF st]
  obtain r where se: "stream T len (?p + 1) (render 0 e) r" and sr: "stream T len r [TTok RPAREN] q"
    using tok(4) unfolding stream_append by blast
  have f: "follow 0 (nxt T len r)" unfolding stream_tok(1) [OF sr] by (rule follow_sep)
  obtain v s' p' where r: "parser_at 0 d T len s (?p + 1) = Some (v, s', p')" "vrep s' v x" "ext s s'"
    "spool_pos s' = m" "skip_spaces T len p' = skip_spaces T len r"
    using completeD [OF assms(1) *(1) se f *(4)] by metis
  then show "yields T len s x m q (parser_at 5 (Suc d) T len s p)"
    using tok(2) skip_opt_tok [OF sr r(5)]
    by (simp add: primary_Suc primary_step_def yields_def Let_def)
qed

lemma neg_complete:
  assumes "complete 5 d T len e"
  shows "complete 5 (Suc d) T len (ENeg e)" and "complete 5 (Suc d) T len (ENot e)"
proof -
  have *: "yields T len s (SN (f n)) m q (parser_at 5 (Suc d) T len s p)"
    if h: "\<not> expr_error s" "stream T len p (TTok c # render 5 e) q" "eval s e (spool_pos s) = Some (SN n, m)"
      "c = MINUS \<and> f = uminus \<or> c = TOK_NOT \<and> f = (\<lambda>n. if n \<noteq> 0 then 0 else 1)" for s p q m c f and n :: i32
  proof -
    note tok = stream_tok [OF h(2)]
    obtain v s' p' where r: "parser_at 5 d T len s (skip_spaces T len p + 1) = Some (v, s', p')"
      "vrep s' v (SN n)" "ext s s'" "spool_pos s' = m" "skip_spaces T len p' = skip_spaces T len q"
      using completeD [OF assms h(1) tok(4) follow_5 h(3)] by metis
    then show ?thesis
      using tok(2) h(4) by (auto simp: primary_Suc primary_step_def yields_def Let_def vrep_def)
  qed
  show "complete 5 (Suc d) T len (ENeg e)" "complete 5 (Suc d) T len (ENot e)"
    using * [where c = MINUS and f = uminus] * [where c = TOK_NOT and f = "\<lambda>n. if n \<noteq> 0 then 0 else 1"]
    unfolding complete_def by (auto split: option.splits sval.splits)
qed

section \<open>Literals and variables\<close>

lemma ret_strD:
  assumes "ret_str m0 t = Some (z, m)"
  shows "z = SS t" and "length t < 256" and "pool m0 (length t) = Some m" and "m = m0 + length t + 1"
  using assms by (auto simp: ret_str_def pool_def split: if_splits)

text \<open>Allocating room for \<open>t\<close> and writing it with its NUL yields a representation of \<open>t\<close>.\<close>

lemma stored:
  assumes "ret_str (spool_pos s) t = Some (z, m)"
    and "seg sp (spool_pos s) (length t) = t" and "sp (spool_pos s + length t) = 0"
    and "\<forall>i < spool_pos s. sp i = spool s i"
  shows "vrep (s\<lparr>spool_pos := m, spool := sp\<rparr>) (VAL_STR (spool_pos s) (length t)) z \<and>
    ext s (s\<lparr>spool_pos := m, spool := sp\<rparr>) \<and> spool_pos (s\<lparr>spool_pos := m, spool := sp\<rparr>) = m"
  unfolding ret_strD(1) [OF assms(1)]
  by (rule fresh_string [OF ret_strD(4) [OF assms(1)] ret_strD(2) [OF assms(1)] assms(2-4) refl])

lemma letter_tok:
  assumes "is_letter c"
  shows "c \<noteq> MINUS" "c \<noteq> TOK_NOT" "c \<noteq> LPAREN" "c \<noteq> TOK_NUM" "c \<noteq> TOK_STR_LIT" "\<not> TOK_ABS \<le> c"
  using assms by (auto simp: is_letter_def is_upper_def word_le_nat_alt)

lemma var_letter:
  "var_num (upcase c) i = Some k \<Longrightarrow> is_letter c"
  "var_str (upcase c) = Some k \<Longrightarrow> is_letter c"
  by (auto simp: var_num_def var_str_def upcase_def is_letter_def is_upper_def Let_def not_less split: if_splits)

lemma num_complete:
  assumes "len < LOOPS"
  shows "complete 5 (Suc d) T len (ENum n)"
  unfolding complete_def
proof (intro allI impI)
  fix s p q x m
  assume *: "\<not> expr_error s" "stream T len p (render 5 (ENum n)) q" "follow 5 (nxt T len q)"
    "eval s (ENum n) (spool_pos s) = Some (x, m)"
  let ?p = "skip_spaces T len p"
  have at: "?p + 5 \<le> len" "T ?p = TOK_NUM" "q = ?p + 5"
    "num_of_bytes (T (?p + 1)) (T (?p + 2)) (T (?p + 3)) (T (?p + 4)) = n"
    using *(2) by (auto simp: tk_at_def tk_len_def)
  have u: "u8 (?p + 1 + 4) = ?p + 5" using at(1) assms by (subst u8_id) (simp_all add: LOOPS_def)
  have "read_num_literal T (?p + 1) = (n, ?p + 5)"
  proof -
    have "?p + 1 + 1 = ?p + 2" "?p + 1 + 2 = ?p + 3" "?p + 1 + 3 = ?p + 4" by simp_all
    then show ?thesis using at(4) u by (simp only: read_num_literal_def)
  qed
  then have "parser_at 5 (Suc d) T len s p = Some (VAL_NUM n, s, ?p + 5)"
    using at by (simp add: primary_Suc primary_step_def peek_tok_def Let_def)
  then show "yields T len s x m q (parser_at 5 (Suc d) T len s p)"
    using *(4) at(3) by (auto simp: yields_def vrep_def)
qed

lemma lit_complete:
  assumes "len < LOOPS"
  shows "complete 5 (Suc d) T len (EStr t)"
  unfolding complete_def
proof (intro allI impI)
  fix s p q x m
  assume *: "\<not> expr_error s" "stream T len p (render 5 (EStr t)) q" "follow 5 (nxt T len q)"
    "eval s (EStr t) (spool_pos s) = Some (x, m)"
  let ?p = "skip_spaces T len p" and ?P = "spool_pos s"
  have at: "?p + (2 + length t) \<le> len" "T ?p = TOK_STR_LIT" "q = ?p + (2 + length t)"
    "unat (T (?p + 1)) = length t" "seg T (?p + 2) (length t) = t"
    using *(2) by (auto simp: tk_at_def tk_len_def)
  have u: "u8 (?p + 2) = ?p + 2" "u8 (?p + 2 + length t) = q"
    using at(1,3) assms by (simp_all add: LOOPS_def u8_id)
  have r: "ret_str ?P t = Some (x, m)" using *(4) by simp
  let ?sp = "(blit (spool s) ?P T (?p + 2) (length t))(?P + length t := 0)"
  note al = alloc_pool [OF ret_strD(3) [OF r]]
  have "parser_at 5 (Suc d) T len s p =
      Some (VAL_STR ?P (length t), s\<lparr>spool_pos := m, spool := ?sp\<rparr>, q)"
    using at u al by (simp add: primary_Suc primary_step_def peek_tok_def Let_def)
  moreover have "seg ?sp ?P (length t) = t" using at(5) by (simp add: seg_blit)
  ultimately show "yields T len s x m q (parser_at 5 (Suc d) T len s p)"
    using stored [OF r, of ?sp] by (simp add: yields_def)
qed

lemma var_complete: "complete 5 (Suc d) T len (EVar c i)"
  unfolding complete_def
proof (intro allI impI)
  fix s p q x m
  assume *: "\<not> expr_error s" "stream T len p (render 5 (EVar c i)) q" "follow 5 (nxt T len q)"
    "eval s (EVar c i) (spool_pos s) = Some (x, m)"
  let ?p = "skip_spaces T len p"
  obtain k where i: "- 1 \<le> i" "i \<le> 9" and k: "var_num (upcase c) i = Some k"
    and x: "x = SN (num_vars s k)" "m = spool_pos s"
    using *(4) by (auto split: if_splits option.splits)
  note lt = letter_tok [OF var_letter(1) [OF k]]
  have at: "?p < len" "T ?p = c" using *(2) by (auto simp: tk_at_def tk_len_def split: if_splits)
  have "parse_variable c T len s (?p + 1) = Some (VAL_NUM (num_vars s k), s, q)"
  proof (cases "i < 0")
    case True
    then have "peek_tok T len (?p + 1) \<noteq> DOLLAR" "\<not> is_digit (peek_tok T len (?p + 1))" "q = ?p + 1" "i = - 1"
      using *(2) i by (auto simp: tk_at_def tk_len_def)
    then show ?thesis using k by (simp add: parse_variable_def Let_def)
  next
    case False
    then have t: "?p + 1 < len" "T (?p + 1) = word_of_int (48 + i)" "q = ?p + 2"
      using *(2) by (auto simp: tk_at_def tk_len_def)
    have u: "uint (word_of_int (48 + i) :: byte) = 48 + i"
      by (subst uint_word_of_int) (use i False in simp)
    then have "unat (word_of_int (48 + i) :: byte) = nat (48 + i)" by (metis nat_uint_eq)
    then have dig: "is_digit (T (?p + 1))" unfolding t(2) is_digit_unat using i False by (simp add: nat_le_iff le_nat_iff)
    moreover have "T (?p + 1) \<noteq> DOLLAR" using dig by (auto simp: is_digit_def)
    ultimately show ?thesis
      using k t u by (simp add: parse_variable_def peek_tok_def Let_def)
  qed
  then have "parser_at 5 (Suc d) T len s p = Some (VAL_NUM (num_vars s k), s, q)"
    using at lt var_letter(1) [OF k] by (simp add: primary_Suc primary_step_def peek_tok_def Let_def)
  then show "yields T len s x m q (parser_at 5 (Suc d) T len s p)"
    using x by (simp add: yields_def vrep_def)
qed

lemma strlen_nul: "strlen M a = Some l \<Longrightarrow> M (a + l) = 0"
proof -
  have "strlen_from M a n = Some l \<Longrightarrow> M (a + l) = 0" for n
    by (rule strlen_from.raw_induct [of "\<lambda>m str len r. m (str + r) = 0"]) (auto split: if_splits)
  then show "strlen M a = Some l \<Longrightarrow> M (a + l) = 0" by (simp add: strlen_def)
qed

lemma strvar_complete: "complete 5 (Suc d) T len (EStrVar c)"
  unfolding complete_def
proof (intro allI impI)
  fix s p q x m
  assume *: "\<not> expr_error s" "stream T len p (render 5 (EStrVar c)) q" "follow 5 (nxt T len q)"
    "eval s (EStrVar c) (spool_pos s) = Some (x, m)"
  let ?p = "skip_spaces T len p" and ?P = "spool_pos s"
  obtain row l where row: "var_str (upcase c) = Some row" and l: "strlen (str_vars s row) 0 = Some l"
    and r: "ret_str ?P (seg (str_vars s row) 0 l) = Some (x, m)"
    using *(4) by (auto split: option.splits)
  note lt = letter_tok [OF var_letter(2) [OF row]]
  have at: "?p + 1 < len" "T ?p = c" "T (?p + 1) = DOLLAR" "q = ?p + 2"
    using *(2) by (auto simp: tk_at_def tk_len_def)
  have l8: "u8 l = l" using ret_strD(2) [OF r] by (simp add: u8_id)
  let ?sp = "blit (spool s) ?P (str_vars s row) 0 (l + 1)"
  have al: "string_pool_alloc s l = (Some ?P, s\<lparr>spool_pos := m\<rparr>)"
    using alloc_pool [of s l m] ret_strD(3) [OF r] by simp
  have "parse_variable c T len s (?p + 1) = Some (VAL_STR ?P l, s\<lparr>spool_pos := m, spool := ?sp\<rparr>, q)"
    using at row l l8 al by (simp add: parse_variable_def peek_tok_def Let_def)
  then have "parser_at 5 (Suc d) T len s p = Some (VAL_STR ?P l, s\<lparr>spool_pos := m, spool := ?sp\<rparr>, q)"
    using at lt var_letter(2) [OF row] by (simp add: primary_Suc primary_step_def peek_tok_def Let_def)
  moreover have "seg ?sp ?P l = seg (str_vars s row) 0 l"
    by (simp add: list_eq_iff_nth_eq)
  moreover have "?sp (?P + l) = 0" using strlen_nul [OF l] by simp
  ultimately show "yields T len s x m q (parser_at 5 (Suc d) T len s p)"
    using stored [OF r, of ?sp] by (simp add: yields_def)
qed

section \<open>Functions\<close>

lemma vrepD_num: "vrep s v (SN n) \<Longrightarrow> v = VAL_NUM n"
  by (simp add: vrep_def)

lemma func1_correct:
  assumes "vrep s v x" and "fn_val (ram s) f x (spool_pos s) = Some (z, m)"
  shows "f \<in> {TOK_ABS, TOK_RND, TOK_INT, TOK_LEN, TOK_VAL, TOK_CHR, TOK_STR, TOK_PEEK} \<and>
    (\<exists>u s2. func1 f v s q = Some (u, s2, q) \<and> vrep s2 u z \<and> ext s s2 \<and> spool_pos s2 = m)"
proof -
  let ?P = "spool_pos s"
  have fin: "\<exists>u s2. func1 f v s q = Some (u, s2, q) \<and> vrep s2 u z \<and> ext s s2 \<and> spool_pos s2 = m"
    if "func1 f v s q = Some (VAL_NUM k, s, q)" "z = SN k" "m = ?P" for k
    using that by (simp add: vrep_def)
  have fins: "\<exists>u s2. func1 f v s q = Some (u, s2, q) \<and> vrep s2 u z \<and> ext s s2 \<and> spool_pos s2 = m"
    if "func1 f v s q = Some (VAL_STR ?P (length t), s\<lparr>spool_pos := m, spool := sp\<rparr>, q)"
      "ret_str ?P t = Some (z, m)" "seg sp ?P (length t) = t" "sp (?P + length t) = 0" "\<forall>i < ?P. sp i = spool s i" for t sp
    using that(1) stored [OF that(2-5)] by blast
  show ?thesis
  proof (cases x)
    case (SN n)
    then have v: "v = VAL_NUM n" using assms(1) vrepD_num by simp
    consider "f = TOK_ABS" | "f = TOK_INT" | "f = TOK_CHR" | "f = TOK_STR" | "f = TOK_PEEK"
      using assms(2) SN by (auto simp: fn_val_def split: if_splits)
    then show ?thesis
    proof cases
      case 1
      have "\<exists>u s2. func1 f v s q = Some (u, s2, q) \<and> vrep s2 u z \<and> ext s s2 \<and> spool_pos s2 = m"
        by (rule fin [of "if sint n < 0 then - n else n"]) (use 1 v SN assms(2) in \<open>simp_all add: func1_def fn_val_def\<close>)
      then show ?thesis using 1 by simp
    next
      case 2
      have "\<exists>u s2. func1 f v s q = Some (u, s2, q) \<and> vrep s2 u z \<and> ext s s2 \<and> spool_pos s2 = m"
        by (rule fin [of n]) (use 2 v SN assms(2) in \<open>simp_all add: func1_def fn_val_def\<close>)
      then show ?thesis using 2 by simp
    next
      case 3
      then have r: "ret_str ?P [ucast n] = Some (z, m)" using SN assms(2) by (simp add: fn_val_def)
      have al: "string_pool_alloc s 1 = (Some ?P, s\<lparr>spool_pos := m\<rparr>)"
        using alloc_pool [of s 1 m] ret_strD(3) [OF r] by simp
      have "\<exists>u s2. func1 f v s q = Some (u, s2, q) \<and> vrep s2 u z \<and> ext s s2 \<and> spool_pos s2 = m"
        by (rule fins [of "[ucast n]" "(spool s)(?P := ucast n, ?P + 1 := 0)"])
          (use 3 v al r in \<open>simp_all add: func1_def seg_Suc\<close>)
      then show ?thesis using 3 by simp
    next
      case 4
      let ?t = "int_to_str n"
      have r: "ret_str ?P ?t = Some (z, m)" using 4 SN assms(2) by (simp add: fn_val_def)
      have l: "u8 (length ?t) = length ?t" using ret_strD(2) [OF r] by (simp add: u8_id)
      have al: "string_pool_alloc s (length ?t) = (Some ?P, s\<lparr>spool_pos := m\<rparr>)"
        using alloc_pool ret_strD(3) [OF r] by simp
      let ?sp = "blit (spool s) ?P (arr_of (?t @ [0]) (\<lambda>_. 0)) 0 (length ?t + 1)"
      have "\<exists>u s2. func1 f v s q = Some (u, s2, q) \<and> vrep s2 u z \<and> ext s s2 \<and> spool_pos s2 = m"
        by (rule fins [of ?t ?sp])
          (use 4 v al l r in \<open>simp_all add: func1_def i32_to_str_eq Let_def list_eq_iff_nth_eq arr_of_def nth_append\<close>)
      then show ?thesis using 4 by simp
    next
      case 5
      have "\<exists>u s2. func1 f v s q = Some (u, s2, q) \<and> vrep s2 u z \<and> ext s s2 \<and> spool_pos s2 = m"
        by (rule fin [of "ucast (ram s (unat n))"]) (use 5 v SN assms(2) in \<open>simp_all add: func1_def fn_val_def\<close>)
      then show ?thesis using 5 by simp
    qed
  next
    case (SS t)
    then obtain p where v: "v = VAL_STR p (length t)" "seg (spool s) p (length t) = t"
      using assms(1) by (auto simp: vrep_def)
    consider "f = TOK_LEN" | "f = TOK_VAL"
      using assms(2) SS by (auto simp: fn_val_def split: if_splits)
    then show ?thesis
    proof cases
      case 1
      have "\<exists>u s2. func1 f v s q = Some (u, s2, q) \<and> vrep s2 u z \<and> ext s s2 \<and> spool_pos s2 = m"
        by (rule fin [of "of_nat (length t)"]) (use 1 v SS assms(2) in \<open>simp_all add: func1_def fn_val_def\<close>)
      then show ?thesis using 1 by simp
    next
      case 2
      have "\<exists>u s2. func1 f v s q = Some (u, s2, q) \<and> vrep s2 u z \<and> ext s s2 \<and> spool_pos s2 = m"
        by (rule fin [of "str_to_i32 t"]) (use 2 v SS assms(2) in \<open>simp_all add: func1_def fn_val_def\<close>)
      then show ?thesis using 2 by simp
    qed
  qed
qed

lemma clamp_upto:
  assumes "length t < 256"
  shows "unat (clamp n (length t)) = upto n t"
proof -
  have small: "unat (word_of_nat (length t) :: i32) = length t" using assms by (simp add: unat_of_nat)
  consider "sint n < 0" | "0 \<le> sint n" "sint n \<le> int (length t)" | "int (length t) < sint n" by linarith
  then show ?thesis
  proof cases
    case 2
    then have "uint n = sint n" using assms by (simp add: uint_sint take_bit_int_eq_self)
    then have "unat n = nat (sint n)" by (metis nat_uint_eq)
    moreover have "nat (sint n) \<le> length t" using 2 by (simp add: nat_le_iff)
    ultimately show ?thesis using 2 by (simp add: clamp_def upto_def min_def)
  next
    case 3
    then have "length t \<le> nat (sint n)" by (simp add: le_nat_iff)
    then show ?thesis using 3 by (simp add: clamp_def upto_def small)
  qed (simp add: clamp_def upto_def)
qed

lemma substring_correct:
  assumes "ret_str (spool_pos s) (take k (drop j t)) = Some (z, m)" and "seg (spool s) p (length t) = t"
    and "p + length t + 1 \<le> spool_pos s" and "length t < 256" and "unat n = min k (length t - j)" and "j \<le> length t"
  shows "\<exists>u s2. substring s q (p + j) n = Some (u, s2, q) \<and> vrep s2 u z \<and> ext s s2 \<and> spool_pos s2 = m"
proof -
  let ?P = "spool_pos s" and ?t = "take k (drop j t)"
  have n: "unat n = length ?t" using assms(5) by (simp add: min.commute)
  have l: "u8 (length ?t) = length ?t" using assms(4) by (intro u8_id) simp
  have al: "string_pool_alloc s (length ?t) = (Some ?P, s\<lparr>spool_pos := m\<rparr>)"
    using alloc_pool ret_strD(3) [OF assms(1)] by blast
  let ?sp = "(blit (spool s) ?P (spool s) (p + j) (length ?t))(?P + length ?t := 0)"
  have "substring s q (p + j) n = Some (VAL_STR ?P (length ?t), s\<lparr>spool_pos := m, spool := ?sp\<rparr>, q)"
    using al l unfolding substring_def n by simp
  moreover have "seg (spool s) (p + j) (length ?t) = ?t"
    using arg_cong [OF assms(2), of "\<lambda>x. take k (drop j x)"] by (simp add: min.commute)
  then have "seg ?sp ?P (length ?t) = ?t" by (simp add: seg_blit)
  ultimately show ?thesis
    using stored [OF assms(1), of ?sp] by simp
qed

text \<open>The opening of every function call: its token, the parenthesis and the first argument.\<close>

lemma fn_range:
  assumes "f \<in> {TOK_ABS, TOK_RND, TOK_INT, TOK_LEN, TOK_VAL, TOK_CHR, TOK_STR, TOK_PEEK, TOK_LEFT, TOK_RIGHT, TOK_MID}"
  shows "TOK_ABS \<le> f" "f \<le> TOK_INT" "f \<noteq> MINUS" "f \<noteq> TOK_NOT" "f \<noteq> LPAREN" "f \<noteq> TOK_NUM" "f \<noteq> TOK_STR_LIT"
  using assms by auto

lemma call_start:
  assumes "complete 0 d T len e" and "\<not> expr_error s" and "stream T len p (TTok f # TTok LPAREN # render 0 e @ TTok c # ts) q"
    and "f \<in> {TOK_ABS, TOK_RND, TOK_INT, TOK_LEN, TOK_VAL, TOK_CHR, TOK_STR, TOK_PEEK, TOK_LEFT, TOK_RIGHT, TOK_MID}"
    and "c = RPAREN \<or> c = COMMA"
    and "eval s e (spool_pos s) = Some (x, m)"
  obtains v s1 p1 r where "parser_at 5 (Suc d) T len s p = parse_function (parser_at 0 d T len) f T len s (skip_spaces T len p + 1)"
    and "peek_tok T len (skip_spaces T len (skip_spaces T len p + 1)) = LPAREN"
    and "parser_at 0 d T len s (skip_spaces T len (skip_spaces T len p + 1) + 1) = Some (v, s1, p1)"
    and "vrep s1 v x" and "ext s s1" and "spool_pos s1 = m" and "\<not> expr_error s1"
    and "stream T len r (TTok c # ts) q" and "skip_spaces T len p1 = skip_spaces T len r"
proof -
  note t1 = stream_tok [OF assms(3)]
  note t2 = stream_tok [OF t1(4)]
  let ?p = "skip_spaces T len (skip_spaces T len p + 1) + 1"
  obtain r where se: "stream T len ?p (render 0 e) r" and sr: "stream T len r (TTok c # ts) q"
    using t2(4) unfolding stream_append by blast
  have f: "follow 0 (nxt T len r)" unfolding stream_tok(1) [OF sr] using assms(5) follow_sep by auto
  obtain v s1 p1 where r: "parser_at 0 d T len s ?p = Some (v, s1, p1)" "vrep s1 v x" "ext s s1" "spool_pos s1 = m"
    "skip_spaces T len p1 = skip_spaces T len r" "\<not> expr_error s1"
    by (rule completeD [OF assms(1,2) se f assms(6)])
  have "parser_at 5 (Suc d) T len s p = parse_function (parser_at 0 d T len) f T len s (skip_spaces T len p + 1)"
    using t1(2) fn_range [OF assms(4)] by (simp add: primary_Suc primary_step_def Let_def)
  then show ?thesis using that t2(2) r sr by blast
qed

lemma next_argument:
  assumes "complete 0 d T len e" and "\<not> expr_error s" and "stream T len r (TTok COMMA # render 0 e @ TTok c # ts) q"
    and "skip_spaces T len p1 = skip_spaces T len r"
    and "c = RPAREN \<or> c = COMMA"
    and "eval s e (spool_pos s) = Some (x, m)"
  obtains v s1 p2 r2 where "parser_at 0 d T len s (skip_opt COMMA T len p1) = Some (v, s1, p2)"
    and "vrep s1 v x" and "ext s s1" and "spool_pos s1 = m" and "\<not> expr_error s1"
    and "stream T len r2 (TTok c # ts) q" and "skip_spaces T len p2 = skip_spaces T len r2"
proof -
  obtain r2 where se: "stream T len (skip_opt COMMA T len p1) (render 0 e) r2" and sr: "stream T len r2 (TTok c # ts) q"
    using skip_opt_stream [OF assms(3,4)] unfolding stream_append by blast
  have f: "follow 0 (nxt T len r2)" unfolding stream_tok(1) [OF sr] using assms(5) follow_sep by auto
  obtain v s1 p2 where "parser_at 0 d T len s (skip_opt COMMA T len p1) = Some (v, s1, p2)"
    "vrep s1 v x" "ext s s1" "spool_pos s1 = m" "skip_spaces T len p2 = skip_spaces T len r2" "\<not> expr_error s1"
    by (rule completeD [OF assms(1,2) se f assms(6)])
  then show ?thesis using that sr by blast
qed

lemma fn_complete:
  assumes "complete 0 d T len e"
  shows "complete 5 (Suc d) T len (EFn f e)"
  unfolding complete_def
proof (intro allI impI)
  fix s p q x m
  assume *: "\<not> expr_error s" "stream T len p (render 5 (EFn f e)) q" "follow 5 (nxt T len q)"
    "eval s (EFn f e) (spool_pos s) = Some (x, m)"
  obtain xa ma where ea: "eval s e (spool_pos s) = Some (xa, ma)" and val: "fn_val (ram s) f xa ma = Some (x, m)"
    using *(4) by (auto split: option.splits)
  have st: "stream T len p (TTok f # TTok LPAREN # render 0 e @ [TTok RPAREN]) q" using *(2) by simp
  have fs: "f \<in> {TOK_ABS, TOK_RND, TOK_INT, TOK_LEN, TOK_VAL, TOK_CHR, TOK_STR, TOK_PEEK}"
    using val by (auto simp: fn_val_def split: sval.splits if_splits)
  then have fs': "f \<in> {TOK_ABS, TOK_RND, TOK_INT, TOK_LEN, TOK_VAL, TOK_CHR, TOK_STR, TOK_PEEK, TOK_LEFT, TOK_RIGHT, TOK_MID}"
    by blast
  obtain v s1 p1 r where c: "parser_at 5 (Suc d) T len s p =
      parse_function (parser_at 0 d T len) f T len s (skip_spaces T len p + 1)"
    "peek_tok T len (skip_spaces T len (skip_spaces T len p + 1)) = LPAREN"
    "parser_at 0 d T len s (skip_spaces T len (skip_spaces T len p + 1) + 1) = Some (v, s1, p1)"
    "vrep s1 v xa" "ext s s1" "spool_pos s1 = ma" "\<not> expr_error s1"
    "stream T len r [TTok RPAREN] q" "skip_spaces T len p1 = skip_spaces T len r"
    using call_start [OF assms *(1) st fs' _ ea] by blast
  have "fn_val (ram s1) f xa (spool_pos s1) = Some (x, m)" using val c(5,6) by (simp add: ext_def)
  from func1_correct [OF c(4) this, of q] obtain u s2 where
    "func1 f v s1 q = Some (u, s2, q)" "vrep s2 u x" "ext s1 s2" "spool_pos s2 = m" by blast
  then show "yields T len s x m q (parser_at 5 (Suc d) T len s p)"
    using c fs skip_opt_tok [OF c(8,9)] ext_trans [OF c(5)]
    by (simp add: parse_function_def Let_def yields_def)
qed

lemma two_args:
  assumes "complete 0 d T len a" and "complete 0 d T len b" and "\<not> expr_error s"
    and "stream T len p (TTok f # TTok LPAREN # render 0 a @ TTok COMMA # render 0 b @ [TTok RPAREN]) q"
    and "f = TOK_LEFT \<or> f = TOK_RIGHT"
    and "eval s a (spool_pos s) = Some (SS t, m1)" and "eval s b m1 = Some (SN n, m2)"
  obtains sp s2 where "parser_at 5 (Suc d) T len s p =
      (if f = TOK_LEFT then substring s2 q sp (clamp n (length t))
       else substring s2 q (sp + (length t - unat (clamp n (length t)))) (clamp n (length t)))"
    and "ext s s2" and "spool_pos s2 = m2" and "vrep s2 (VAL_STR sp (length t)) (SS t)"
proof -
  have fs: "f \<in> {TOK_ABS, TOK_RND, TOK_INT, TOK_LEN, TOK_VAL, TOK_CHR, TOK_STR, TOK_PEEK, TOK_LEFT, TOK_RIGHT, TOK_MID}"
    using assms(5) by blast
  obtain v s1 p1 r where c: "parser_at 5 (Suc d) T len s p =
      parse_function (parser_at 0 d T len) f T len s (skip_spaces T len p + 1)"
    "peek_tok T len (skip_spaces T len (skip_spaces T len p + 1)) = LPAREN"
    "parser_at 0 d T len s (skip_spaces T len (skip_spaces T len p + 1) + 1) = Some (v, s1, p1)"
    "vrep s1 v (SS t)" "ext s s1" "spool_pos s1 = m1" "\<not> expr_error s1"
    "stream T len r (TTok COMMA # render 0 b @ [TTok RPAREN]) q" "skip_spaces T len p1 = skip_spaces T len r"
    using call_start [OF assms(1,3,4) fs _ assms(6)] by blast
  have eb: "eval s1 b (spool_pos s1) = Some (SN n, m2)" using assms(7) ext_eval [OF c(5)] c(6) by simp
  obtain w s2 p2 r2 where d: "parser_at 0 d T len s1 (skip_opt COMMA T len p1) = Some (w, s2, p2)"
    "vrep s2 w (SN n)" "ext s1 s2" "spool_pos s2 = m2" "\<not> expr_error s2"
    "stream T len r2 [TTok RPAREN] q" "skip_spaces T len p2 = skip_spaces T len r2"
    using next_argument [OF assms(2) c(7,8,9) _ eb] by blast
  have v2: "vrep s2 v (SS t)" using c(4) d(3) by (rule vrep_ext)
  then obtain sp where v: "v = VAL_STR sp (length t)" by (auto simp: vrep_def)
  have w: "w = VAL_NUM n" using d(2) by (rule vrepD_num)
  have "parser_at 5 (Suc d) T len s p =
      (if f = TOK_LEFT then substring s2 q sp (clamp n (length t))
       else substring s2 q (sp + (length t - unat (clamp n (length t)))) (clamp n (length t)))"
    unfolding c(1) using c(2,3,7) d(1) assms(5) skip_opt_tok [OF d(6,7)] v w
    by (auto simp: parse_function_def Let_def)
  then show ?thesis using that ext_trans [OF c(5) d(3)] d(4) v2 v by blast
qed

lemma upto_le: "upto n t \<le> length t"
  by (simp add: upto_def)

lemma left_right_complete:
  assumes "complete 0 d T len a" and "complete 0 d T len b"
  shows "complete 5 (Suc d) T len (ELeft a b)" and "complete 5 (Suc d) T len (ERight a b)"
proof -
  have *: "yields T len s x m q (parser_at 5 (Suc d) T len s p)"
    if h: "\<not> expr_error s"
      "stream T len p (TTok f # TTok LPAREN # render 0 a @ TTok COMMA # render 0 b @ [TTok RPAREN]) q"
      "eval s a (spool_pos s) = Some (SS t, m1)" "eval s b m1 = Some (SN n, m2)"
      "ret_str m2 (take (upto n t) (drop j t)) = Some (x, m)"
      "f = TOK_LEFT \<and> j = 0 \<or> f = TOK_RIGHT \<and> j = length t - upto n t"
    for s p q x m f t n m1 m2 j
  proof -
    have f: "f = TOK_LEFT \<or> f = TOK_RIGHT" using h(6) by blast
    obtain sp s2 where r: "parser_at 5 (Suc d) T len s p =
        (if f = TOK_LEFT then substring s2 q sp (clamp n (length t))
         else substring s2 q (sp + (length t - unat (clamp n (length t)))) (clamp n (length t)))"
      "ext s s2" "spool_pos s2 = m2" "vrep s2 (VAL_STR sp (length t)) (SS t)"
      by (rule two_args [OF assms h(1,2) f h(3,4)])
    have v: "seg (spool s2) sp (length t) = t" "sp + length t + 1 \<le> spool_pos s2" "length t < 256"
      using r(4) by (auto simp: vrep_def)
    have c: "unat (clamp n (length t)) = upto n t" using v(3) by (rule clamp_upto)
    have j: "j \<le> length t" "unat (clamp n (length t)) = min (upto n t) (length t - j)"
      using h(6) c upto_le [of n t] by auto
    have rs: "ret_str (spool_pos s2) (take (upto n t) (drop j t)) = Some (x, m)" using h(5) r(3) by simp
    obtain u s3 where "substring s2 q (sp + j) (clamp n (length t)) = Some (u, s3, q)" "vrep s3 u x" "ext s2 s3"
      "spool_pos s3 = m"
      using substring_correct [OF rs v j(2,1), of q] by blast
    then show ?thesis
      using r(1) h(6) c ext_trans [OF r(2)] by (auto simp: yields_def)
  qed
  show "complete 5 (Suc d) T len (ELeft a b)"
    unfolding complete_def
    by (auto split: option.splits sval.splits intro!: * [where f = TOK_LEFT and j = 0] simp del: stream.simps)
  have "take k (drop (length t - k) t) = drop (length t - k) t" for k and t :: "byte list"
    by simp
  then show "complete 5 (Suc d) T len (ERight a b)"
    unfolding complete_def
    by (auto split: option.splits sval.splits intro!: * [where f = TOK_RIGHT] simp del: stream.simps)
qed

lemma mid_count:
  fixes b p n n1 :: i32
  assumes "length t < 256" and "sint b < 2 ^ 31 - 256" and "unat p = j" and "j \<le> length t"
    and "n1 = (if sint b < 0 then 0 else b)"
    and "n = (if sint (p + n1) > int (length t) then of_nat (length t) - p else n1)"
  shows "unat n = min (nat (sint b)) (length t - j)"
proof -
  have n1: "unat n1 = nat (sint b)"
  proof (cases "sint b < 0")
    case False
    then have "uint b = sint b" using assms(2) by (simp add: uint_sint take_bit_int_eq_self)
    then show ?thesis using False assms(5) by (simp add: flip: nat_uint_eq)
  qed (simp add: assms(5))
  have N: "nat (sint b) < 2147483392" using assms(2) by simp
  have p: "p = of_nat j" unfolding assms(3) [symmetric] by simp
  have n1': "n1 = of_nat (nat (sint b))" unfolding n1 [symmetric] by simp
  have "sint (p + n1) = int (j + nat (sint b))"
  proof -
    have "p + n1 = of_nat (j + nat (sint b))" unfolding p n1' by simp
    moreover have "int (j + nat (sint b)) < 2 ^ 31" using assms(1,2,4) by (cases "0 \<le> sint b") auto
    ultimately show ?thesis by (simp only: signed_of_nat) (simp add: signed_take_bit_int_eq_self)
  qed
  moreover have "unat (of_nat (length t) - p) = length t - j"
  proof -
    have "of_nat (length t) - p = (of_nat (length t - j) :: i32)" unfolding p using assms(4) by (simp add: of_nat_diff)
    then show ?thesis using assms(1) by (simp add: unat_of_nat)
  qed
  ultimately show ?thesis using n1 assms(6) by (auto simp: min_def)
qed

lemma mid_complete:
  assumes "complete 0 d T len a" and "complete 0 d T len b" and "complete 0 d T len c"
  shows "complete 5 (Suc d) T len (EMid a b c)"
  unfolding complete_def
proof (intro allI impI)
  fix s p q x m
  assume *: "\<not> expr_error s" "stream T len p (render 5 (EMid a b c)) q" "follow 5 (nxt T len q)"
    "eval s (EMid a b c) (spool_pos s) = Some (x, m)"
  obtain t m1 i m2 n m3 where ea: "eval s a (spool_pos s) = Some (SS t, m1)" and eb: "eval s b m1 = Some (SN i, m2)"
    and ec: "eval s c m2 = Some (SN n, m3)" and n: "sint n < 2 ^ 31 - 256"
    and rs: "ret_str m3 (take (nat (sint n)) (drop (upto (i - 1) t) t)) = Some (x, m)"
    using *(4) by (auto split: option.splits sval.splits if_splits)
  have st: "stream T len p (TTok TOK_MID # TTok LPAREN # render 0 a @ TTok COMMA # render 0 b @ TTok COMMA #
      render 0 c @ [TTok RPAREN]) q" using *(2) by simp
  have fs: "TOK_MID \<in> {TOK_ABS, TOK_RND, TOK_INT, TOK_LEN, TOK_VAL, TOK_CHR, TOK_STR, TOK_PEEK, TOK_LEFT, TOK_RIGHT, TOK_MID}"
    by simp
  obtain v s1 p1 r where A: "parser_at 5 (Suc d) T len s p =
      parse_function (parser_at 0 d T len) TOK_MID T len s (skip_spaces T len p + 1)"
    "peek_tok T len (skip_spaces T len (skip_spaces T len p + 1)) = LPAREN"
    "parser_at 0 d T len s (skip_spaces T len (skip_spaces T len p + 1) + 1) = Some (v, s1, p1)"
    "vrep s1 v (SS t)" "ext s s1" "spool_pos s1 = m1" "\<not> expr_error s1"
    "stream T len r (TTok COMMA # render 0 b @ TTok COMMA # render 0 c @ [TTok RPAREN]) q"
    "skip_spaces T len p1 = skip_spaces T len r"
    using call_start [OF assms(1) *(1) st fs _ ea] by blast
  have eb1: "eval s1 b (spool_pos s1) = Some (SN i, m2)" using eb ext_eval [OF A(5)] A(6) by simp
  obtain w s2 p2 r2 where B: "parser_at 0 d T len s1 (skip_opt COMMA T len p1) = Some (w, s2, p2)"
    "vrep s2 w (SN i)" "ext s1 s2" "spool_pos s2 = m2" "\<not> expr_error s2"
    "stream T len r2 (TTok COMMA # render 0 c @ [TTok RPAREN]) q" "skip_spaces T len p2 = skip_spaces T len r2"
    using next_argument [OF assms(2) A(7,8,9) _ eb1] by blast
  have ec1: "eval s2 c (spool_pos s2) = Some (SN n, m3)"
    using ec ext_eval [OF A(5)] ext_eval [OF B(3)] B(4) by simp
  obtain y s3 p3 r3 where C: "parser_at 0 d T len s2 (skip_opt COMMA T len p2) = Some (y, s3, p3)"
    "vrep s3 y (SN n)" "ext s2 s3" "spool_pos s3 = m3" "\<not> expr_error s3"
    "stream T len r3 [TTok RPAREN] q" "skip_spaces T len p3 = skip_spaces T len r3"
    using next_argument [OF assms(3) B(5,6,7) _ ec1] by blast
  have v3: "vrep s3 v (SS t)" using vrep_ext [OF vrep_ext [OF A(4) B(3)] C(3)] .
  then obtain sp where v: "v = VAL_STR sp (length t)" "seg (spool s3) sp (length t) = t"
    "sp + length t + 1 \<le> spool_pos s3" "length t < 256" by (auto simp: vrep_def)
  note wy = vrepD_num [OF B(2)] vrepD_num [OF C(2)]
  define j where "j = upto (i - 1) t"
  define n1 where "n1 = (if sint n < 0 then 0 else n)"
  define k where "k = (if sint (clamp (i - 1) (length t) + n1) > int (length t)
      then of_nat (length t) - clamp (i - 1) (length t) else n1)"
  have pj: "unat (clamp (i - 1) (length t)) = j" unfolding j_def using v(4) by (rule clamp_upto)
  have jl: "j \<le> length t" unfolding j_def by (rule upto_le)
  have uk: "unat k = min (nat (sint n)) (length t - j)"
    by (rule mid_count [OF v(4) n pj jl n1_def k_def])
  have rs': "ret_str (spool_pos s3) (take (nat (sint n)) (drop j t)) = Some (x, m)"
    using rs C(4) by (simp add: j_def)
  obtain u s4 where D: "substring s3 q (sp + j) k = Some (u, s4, q)" "vrep s4 u x" "ext s3 s4" "spool_pos s4 = m"
    using substring_correct [OF rs' v(2-4) uk jl, of q] by blast
  have "parser_at 5 (Suc d) T len s p = substring s3 q (sp + j) k"
    unfolding A(1) using A(2,3,7) B(1) C(1) skip_opt_tok [OF C(6,7)] v(1) wy pj
    by (simp add: parse_function_def Let_def n1_def [symmetric] k_def)
  then show "yields T len s x m q (parser_at 5 (Suc d) T len s p)"
    using D ext_trans [OF ext_trans [OF ext_trans [OF A(5) B(3)] C(3)] D(3)] by (simp add: yields_def)
qed

end
