(* ===== verification/BasicExprCorrect.thy ===== *)
theory BasicExprCorrect
  imports BasicPrimaries
begin

text \<open>
  The evaluator computes the meaning of every rendered expression: the induction over the syntax
  tree, from the operator levels (\<open>BasicLevels\<close>) and the primaries (\<open>BasicPrimaries\<close>).
\<close>

text \<open>The levels of nesting an expression can need: never more than its tokens.\<close>

fun need :: "bexpr \<Rightarrow> nat" where
  "need (ENeg e) = Suc (need e)"
| "need (ENot e) = Suc (need e)"
| "need (EBin op a b) = Suc (max (need a) (need b))"
| "need (EFn f e) = Suc (need e)"
| "need (ELeft a b) = Suc (max (need a) (need b))"
| "need (ERight a b) = Suc (max (need a) (need b))"
| "need (EMid a b c) = Suc (max (need a) (max (need b) (need c)))"
| "need e = 1"

lemma need_le: "need e \<le> length (render l e)"
proof (induction e arbitrary: l)
  case (EBin op a b)
  have "need a \<le> length (render (if level op = 2 then 3 else level op) a)"
    and "need b \<le> length (render (Suc (level op)) b)" by (rule EBin)+
  then show ?case by (simp only: need.simps render.simps length_append list.size)
next
  case (EMid a b c)
  have "need a \<le> length (render 0 a)" "need b \<le> length (render 0 b)" "need c \<le> length (render 0 c)"
    by (rule EMid)+
  then show ?case by simp
next
  case (ELeft a b)
  have "need a \<le> length (render 0 a)" "need b \<le> length (render 0 b)" by (rule ELeft)+
  then show ?case by simp
next
  case (ERight a b)
  have "need a \<le> length (render 0 a)" "need b \<le> length (render 0 b)" by (rule ERight)+
  then show ?case by simp
qed (auto intro: le_SucI)

definition all_levels :: "nat \<Rightarrow> mem \<Rightarrow> nat \<Rightarrow> bexpr \<Rightarrow> bool" where
  "all_levels d T len e \<longleftrightarrow>
    (\<forall>l \<le> 5. complete l d T len e) \<and> (\<forall>l. loop_level l \<longrightarrow> partial l d T len e)"

lemma all_levelsD: "all_levels d T len e \<Longrightarrow> l \<le> 5 \<Longrightarrow> complete l d T len e"
  by (simp add: all_levels_def)

lemma level_down:
  assumes "complete (l + 1) d T len e" and "render l e = render (l + 1) e" and "spine l e = 0"
    and "l < 5" and "len < LOOPS"
  shows "complete l d T len e" and "loop_level l \<Longrightarrow> partial l d T len e"
proof -
  show p: "partial l d T len e" if "loop_level l"
    using that assms(1-3) by (rule partial_down)
  show "complete l d T len e"
  proof (cases "l = 2")
    case True
    then show ?thesis using assms(1,2) by (simp add: compare_down)
  next
    case False
    then have "loop_level l" using assms(4) unfolding loop_level_def by linarith
    then show ?thesis using complete_partial p assms(5) by blast
  qed
qed

lemma levels_between:
  assumes "complete u d T len e" and "u \<le> 5" and "len < LOOPS" and "k \<le> u"
    and "\<And>l. k \<le> l \<Longrightarrow> l < u \<Longrightarrow> render l e = render (l + 1) e \<and> spine l e = 0"
  shows "complete k d T len e"
  using assms(4,5)
proof (induction "u - k" arbitrary: k)
  case 0
  then show ?case using assms(1) by simp
next
  case (Suc n)
  have "complete (k + 1) d T len e"
    using Suc by (intro Suc.hyps(1)) auto
  then show ?case using level_down(1) [of k d T len e] Suc.prems Suc.hyps(2) assms(2,3) by simp
qed

lemma primary_levels:
  assumes "complete 5 d T len e" and "len < LOOPS" and "\<And>l. render l e = render 5 e" and "\<And>l. spine l e = 0"
  shows "all_levels d T len e"
proof -
  have r: "render l e = render (l + 1) e" for l using assms(3) by metis
  have c: "complete l d T len e" if "l \<le> 5" for l
    using levels_between [OF assms(1) _ assms(2) that] r assms(4) by simp
  have "partial l d T len e" if "loop_level l" for l
    using level_down(2) [OF c r assms(4) _ assms(2) that] that by (auto simp: loop_level_def)
  then show ?thesis using c by (simp add: all_levels_def)
qed

lemma level_le: "level op \<le> 4"
  by (cases op) (simp_all add: level_def)

lemma bin_render:
  "l \<le> level op \<Longrightarrow> render l (EBin op a b) = render (level op) (EBin op a b)"
  "level op < l \<Longrightarrow> render l (EBin op a b) = TTok LPAREN # render 0 (EBin op a b) @ [TTok RPAREN]"
  by auto

lemma bin_levels:
  assumes "\<And>k. max (need a) (need b) \<le> k \<Longrightarrow> all_levels k T len a \<and> all_levels k T len b"
    and "len < LOOPS" and "Suc (max (need a) (need b)) \<le> d"
  shows "all_levels d T len (EBin op a b)"
proof -
  let ?e = "EBin op a b" and ?L = "level op"
  have L4: "?L \<le> 4" by (rule level_le)
  have own: "complete ?L k T len ?e" "loop_level ?L \<Longrightarrow> partial ?L k T len ?e" if "max (need a) (need b) \<le> k" for k
  proof -
    note ab = assms(1) [OF that]
    show p: "loop_level ?L \<Longrightarrow> partial ?L k T len ?e"
      using ab L4 by (intro partial_bin assms(2)) (auto simp: all_levels_def)
    show "complete ?L k T len ?e"
    proof (cases "loop_level ?L")
      case True
      then show ?thesis using complete_partial p assms(2) by blast
    next
      case False
      then obtain t where "op = BCmp t" by (cases op) (auto simp: loop_level_def level_def)
      then show ?thesis using ab by (auto simp: level_def all_levels_def intro!: compare_bin)
    qed
  qed
  have low: "complete l k T len ?e" if "max (need a) (need b) \<le> k" "l \<le> ?L" for k l
    using levels_between [OF own(1) [OF that(1)] _ assms(2) that(2)] bin_render(1) L4 by simp
  have same: "render l ?e = render (l + 1) ?e" "spine l ?e = 0" if "l \<noteq> ?L" for l
    using that bin_render by (cases "l < ?L"; simp)+
  obtain d' where d: "d = Suc d'" "max (need a) (need b) \<le> d'" using assms(3) by (cases d) auto
  have "complete 5 d T len ?e"
    unfolding d(1) using paren_complete low [OF d(2), of 0] bin_render(2) L4 by simp
  then have high: "complete l d T len ?e" if "?L < l" "l \<le> 5" for l
    using levels_between [OF _ _ assms(2) that(2)] same that(1) by simp
  have c: "complete l d T len ?e" if "l \<le> 5" for l
  proof (cases "l \<le> ?L")
    case True
    have "max (need a) (need b) \<le> d" using assms(3) by linarith
    then show ?thesis using True by (rule low)
  next
    case False
    then show ?thesis using high that by simp
  qed
  have "partial l d T len ?e" if "loop_level l" for l
  proof (cases "l = ?L")
    case True
    have "max (need a) (need b) \<le> d" using assms(3) by linarith
    from own(2) [OF this] show ?thesis using True that by simp
  next
    case False
    have "l < 5" using that by (auto simp: loop_level_def)
    then show ?thesis using level_down(2) [OF c same [OF False] _ assms(2) that] by simp
  qed
  then show ?thesis using c by (simp add: all_levels_def)
qed

lemma every_level:
  assumes "len < LOOPS" and "need e \<le> d"
  shows "all_levels d T len e"
  using assms(2)
proof (induction e arbitrary: d)
  case (ENum n)
  then show ?case using num_complete assms(1) by (cases d) (auto intro!: primary_levels)
next
  case (EStr t)
  then show ?case using lit_complete assms(1) by (cases d) (auto intro!: primary_levels)
next
  case (EVar c i)
  then show ?case using var_complete assms(1) by (cases d) (auto intro!: primary_levels)
next
  case (EStrVar c)
  then show ?case using strvar_complete assms(1) by (cases d) (auto intro!: primary_levels)
next
  case (ENeg e)
  then show ?case
    by (cases d) (auto intro!: primary_levels [OF neg_complete(1) [OF all_levelsD] assms(1)])
next
  case (ENot e)
  then show ?case
    by (cases d) (auto intro!: primary_levels [OF neg_complete(2) [OF all_levelsD] assms(1)])
next
  case (EBin op a b)
  then show ?case using bin_levels [OF _ assms(1)] by simp
next
  case (EFn f e)
  then show ?case
    by (cases d) (auto intro!: primary_levels [OF fn_complete [OF all_levelsD] assms(1)])
next
  case (ELeft a b)
  then show ?case
    by (cases d) (auto intro!: primary_levels [OF left_right_complete(1) [OF all_levelsD all_levelsD] assms(1)])
next
  case (ERight a b)
  then show ?case
    by (cases d) (auto intro!: primary_levels [OF left_right_complete(2) [OF all_levelsD all_levelsD] assms(1)])
next
  case (EMid a b c)
  then show ?case
    by (cases d) (auto intro!: primary_levels [OF mid_complete [OF all_levelsD all_levelsD all_levelsD] assms(1)])
qed

text \<open>
  C5: On every token array that holds the tokens of an expression, with any number of spaces before
  each of them, and a following token that cannot continue it, \<open>expr_eval\<close> returns the value of the
  expression: precedence, left associativity, BASIC truth values, wrap-around arithmetic, string
  functions and comparisons as in \<open>eval\<close>; no error is set, the variables and live strings are
  unchanged, and the position is behind the expression.
\<close>

theorem expr_eval_correct:
  assumes "len < 256" and "\<not> expr_error s"
    and "stream T len pos (render 0 e) q" and "follow 0 (nxt T len q)"
    and "eval s e (spool_pos s) = Some (x, m)"
  shows "\<exists>v s' pos'. expr_eval T len s pos = Some (v, s', pos') \<and> vrep s' v x \<and> ext s s' \<and>
    spool_pos s' = m \<and> skip_spaces T len pos' = skip_spaces T len q"
proof -
  have len: "len < LOOPS" using assms(1) by (simp add: LOOPS_def)
  have "need e \<le> LOOPS"
    using need_le [of e 0] stream_bound [OF assms(3) render_nonempty] len by linarith
  then have "complete 0 LOOPS T len e" using every_level [OF len] all_levelsD by blast
  then have "yields T len s x m q (parser_at 0 LOOPS T len s pos)"
    using assms(2-5) unfolding complete_def by blast
  then show ?thesis by (simp add: yields_def expr_eval_def parser_at_def)
qed

definition benv0 :: benv where
  "benv0 = \<lparr>num_vars = (\<lambda>_. 0), str_vars = (\<lambda>_ _. 0), spool = (\<lambda>_. 0), spool_pos = 0, expr_error = False,
     rnd_state = 12345, ram = (\<lambda>_. 0)\<rparr>"

definition sample_tokens :: mem where
  "sample_tokens = arr_of [TOK_NUM, 1, 0, 0, 0, SP, 43, TOK_NUM, 2, 0, 0, 0, 42, TOK_NUM, 3, 0, 0, 0] (\<lambda>_. 0)"

theorem expr_eval_correct_witness:
  "\<exists>v s' pos'. expr_eval sample_tokens 18 benv0 0 = Some (v, s', pos') \<and> vrep s' v (SN 7) \<and> ext benv0 s' \<and>
    spool_pos s' = 0 \<and> skip_spaces sample_tokens 18 pos' = skip_spaces sample_tokens 18 18"
proof (rule expr_eval_correct [where e = "EBin BAdd (ENum 1) (EBin BMul (ENum 2) (ENum 3))"])
  show "stream sample_tokens 18 0 (render 0 (EBin BAdd (ENum 1) (EBin BMul (ENum 2) (ENum 3)))) 18"
    by (simp add: level_def op_tok_def sample_tokens_def skip_spaces.simps arr_of_def tk_at_def tk_len_def num_of_bytes_def)
  show "follow 0 (nxt sample_tokens 18 18)"
    by (simp add: nxt_def peek_tok_def skip_spaces.simps follow_def is_op_def is_comparison_def)
qed (simp_all add: benv0_def binop_val_def)

end
