(* ===== verification/BasicExecInv.thy ===== *)
theory BasicExecInv
  imports BasicExec
begin

text \<open>
  What every statement of BASIC keeps, for arbitrary tokens: the GOSUB and FOR stacks within their
  arrays, the string pool within its 2048 bytes, every string variable terminated within its 81
  bytes, and the line pointers at lines of the program, which no statement changes.
\<close>

section \<open>Expressions change only the pool, the random state and the error flag\<close>

definition expr_frame :: "benv \<Rightarrow> benv \<Rightarrow> bool" where
  "expr_frame s s' \<longleftrightarrow> num_vars s' = num_vars s \<and> str_vars s' = str_vars s \<and> ram s' = ram s \<and>
    (spool_pos s \<le> STRING_POOL_SIZE \<longrightarrow> spool_pos s' \<le> STRING_POOL_SIZE)"

definition framed :: "parser \<Rightarrow> bool" where
  "framed f \<longleftrightarrow> (\<forall>s p v s' p'. f s p = Some (v, s', p') \<longrightarrow> expr_frame s s')"

lemma framedD: "framed f \<Longrightarrow> f s p = Some (v, s', p') \<Longrightarrow> expr_frame s s'"
  unfolding framed_def by blast

lemma expr_frame_refl [simp]: "expr_frame s s"
  by (simp add: expr_frame_def)

lemma expr_frame_trans: "expr_frame s s' \<Longrightarrow> expr_frame s' s'' \<Longrightarrow> expr_frame s s''"
  by (simp add: expr_frame_def)

lemma expr_frame_fields [simp]:
  "expr_frame s (s'\<lparr>expr_error := b\<rparr>) = expr_frame s s'" "expr_frame s (s'\<lparr>spool := m\<rparr>) = expr_frame s s'"
  "expr_frame s (s'\<lparr>rnd_state := r\<rparr>) = expr_frame s s'"
  by (simp_all add: expr_frame_def)

lemma alloc_frame: "string_pool_alloc s l = (r, s') \<Longrightarrow> expr_frame s s'"
  by (auto simp: string_pool_alloc_def expr_frame_def split: if_splits)

lemma fail_frame: "fail s p = Some (v, s', p') \<Longrightarrow> expr_frame s s'"
  by (auto simp: fail_def)

lemma substring_frame: "substring s q src n = Some (v, s', p') \<Longrightarrow> expr_frame s s'"
  by (auto simp: substring_def split: prod.splits option.splits dest!: alloc_frame fail_frame intro: expr_frame_trans)

lemma concat_frame: "concat_strings s p1 l1 p2 l2 = Some (v, s') \<Longrightarrow> expr_frame s s'"
  by (auto simp: concat_strings_def Let_def split: prod.splits option.splits dest!: alloc_frame)

lemma rnd_frame: "basic_rnd s n = (r, s') \<Longrightarrow> expr_frame s s'"
  by (auto simp: basic_rnd_def Let_def)

lemma func1_frame: "func1 f a s q = Some (v, s', p') \<Longrightarrow> expr_frame s s'"
  by (cases a) (auto simp: func1_def Let_def split: if_splits prod.splits option.splits
      dest!: alloc_frame fail_frame rnd_frame intro: expr_frame_trans)

lemma variable_frame: "parse_variable t T len s p = Some (v, s', p') \<Longrightarrow> expr_frame s s'"
  by (auto simp: parse_variable_def Let_def split: Option.bind_split_asm if_splits prod.splits option.splits
      dest!: alloc_frame fail_frame intro: expr_frame_trans)

lemma function_framed:
  assumes "framed f"
  shows "framed (parse_function f t T len)"
  unfolding framed_def
proof (intro allI impI)
  fix s p v s' p'
  assume "parse_function f t T len s p = Some (v, s', p')"
  then show "expr_frame s s'"
    using framedD [OF assms]
    by (auto simp: parse_function_def Let_def split: Option.bind_split_asm if_splits bas_value.splits
        dest!: func1_frame substring_frame fail_frame; meson expr_frame_trans)
qed

lemma mul_loop_framed: "framed f \<Longrightarrow> framed (mul_loop n f T len left)"
proof (induction n arbitrary: left)
  case (Suc n)
  show ?case
    unfolding framed_def
  proof (intro allI impI)
    fix s p v s' p'
    assume "mul_loop (Suc n) f T len left s p = Some (v, s', p')"
    then show "expr_frame s s'"
      using framedD [OF Suc.prems] framedD [OF Suc.IH [OF Suc.prems]]
      by (auto simp: Let_def split: Option.bind_split_asm if_splits bas_value.splits
          dest!: fail_frame; meson expr_frame_trans)
  qed
qed (simp add: framed_def)

lemma add_loop_framed: "framed f \<Longrightarrow> framed (add_loop n f T len left)"
proof (induction n arbitrary: left)
  case (Suc n)
  show ?case
    unfolding framed_def
  proof (intro allI impI)
    fix s p v s' p'
    assume "add_loop (Suc n) f T len left s p = Some (v, s', p')"
    then show "expr_frame s s'"
      using framedD [OF Suc.prems] framedD [OF Suc.IH [OF Suc.prems]]
      by (auto simp: Let_def split: Option.bind_split_asm if_splits bas_value.splits option.splits
          dest!: fail_frame concat_frame; meson expr_frame_trans)
  qed
qed (simp add: framed_def)

lemma and_loop_framed: "framed f \<Longrightarrow> framed (and_loop n f T len left)"
proof (induction n arbitrary: left)
  case (Suc n)
  show ?case
    unfolding framed_def
  proof (intro allI impI)
    fix s p v s' p'
    assume "and_loop (Suc n) f T len left s p = Some (v, s', p')"
    then show "expr_frame s s'"
      using framedD [OF Suc.prems] framedD [OF Suc.IH [OF Suc.prems]]
      by (auto simp: Let_def split: Option.bind_split_asm if_splits; meson expr_frame_trans)
  qed
qed (simp add: framed_def)

lemma or_loop_framed: "framed f \<Longrightarrow> framed (or_loop n f T len left)"
proof (induction n arbitrary: left)
  case (Suc n)
  show ?case
    unfolding framed_def
  proof (intro allI impI)
    fix s p v s' p'
    assume "or_loop (Suc n) f T len left s p = Some (v, s', p')"
    then show "expr_frame s s'"
      using framedD [OF Suc.prems] framedD [OF Suc.IH [OF Suc.prems]]
      by (auto simp: Let_def split: Option.bind_split_asm if_splits; meson expr_frame_trans)
  qed
qed (simp add: framed_def)

text \<open>An operand followed by the loop of its level.\<close>

lemma then_framed:
  assumes "framed f" and "\<And>v. framed (g v)"
  shows "framed (\<lambda>s p. f s p \<bind> (\<lambda>(v, s1, p1). if expr_error s1 then Some (v, s1, p1) else g v s1 p1))"
  unfolding framed_def
proof (intro allI impI)
  fix s p v s' p'
  assume "f s p \<bind> (\<lambda>(v, s1, p1). if expr_error s1 then Some (v, s1, p1) else g v s1 p1) = Some (v, s', p')"
  then show "expr_frame s s'"
    using framedD [OF assms(1)] framedD [OF assms(2)]
    by (auto split: Option.bind_split_asm if_splits; meson expr_frame_trans)
qed

lemma compare_framed:
  assumes "framed f"
  shows "framed (compare_level f T len)"
  unfolding framed_def
proof (intro allI impI)
  fix s p v s' p'
  assume "compare_level f T len s p = Some (v, s', p')"
  then show "expr_frame s s'"
    using framedD [OF assms]
    by (auto simp: compare_level_def Let_def split: Option.bind_split_asm if_splits bas_value.splits
        dest!: fail_frame; meson expr_frame_trans)
qed

lemma level_framed:
  "framed f \<Longrightarrow> framed (mul_level f T len)" "framed f \<Longrightarrow> framed (add_level f T len)"
  "framed f \<Longrightarrow> framed (and_level f T len)" "framed f \<Longrightarrow> framed (or_level f T len)"
  using then_framed [where f = f and g = "mul_loop LOOPS f T len"] mul_loop_framed then_framed [where f = f and g = "add_loop LOOPS f T len"] add_loop_framed
    then_framed [where f = f and g = "and_loop LOOPS f T len"] and_loop_framed then_framed [where f = f and g = "or_loop LOOPS f T len"] or_loop_framed
  by (auto simp: mul_level_def [abs_def] add_level_def [abs_def] and_level_def [abs_def] or_level_def [abs_def])

lemma parse_or_framed: "framed f \<Longrightarrow> framed (parse_or f T len)"
  by (simp add: parse_or_def parse_and_def parse_compare_def parse_add_def parse_mul_def level_framed compare_framed)

lemma primary_framed: "framed (parse_primary d T len)"
proof (induction d)
  case (Suc d)
  show ?case
    unfolding framed_def
  proof (intro allI impI)
    fix s p v s' p'
    assume "parse_primary (Suc d) T len s p = Some (v, s', p')"
    then show "expr_frame s s'"
      using framedD [OF Suc] framedD [OF parse_or_framed [OF Suc]]
        framedD [OF function_framed [OF parse_or_framed [OF Suc]]]
      by (auto simp: primary_step_def Let_def read_num_literal_def
          split: Option.bind_split_asm if_splits bas_value.splits prod.splits option.splits
          dest!: fail_frame alloc_frame variable_frame; meson expr_frame_trans)
  qed
qed (simp add: framed_def)

lemma expr_eval_frame: "expr_eval T len s p = Some (v, s', p') \<Longrightarrow> expr_frame s s'"
  using framedD [OF parse_or_framed [OF primary_framed]] by (simp add: expr_eval_def)

section \<open>The invariant of the interpreter\<close>

definition line_offsets :: "line list \<Rightarrow> nat set" where
  "line_offsets ls = {length (enc_prog xs) |xs l ys. ls = xs @ l # ys}"

definition line_ref :: "line list \<Rightarrow> nat option \<Rightarrow> bool" where
  "line_ref ls l \<longleftrightarrow> (case l of None \<Rightarrow> True | Some k \<Rightarrow> k \<in> line_offsets ls)"

definition xw_ok :: "line list \<Rightarrow> xw \<Rightarrow> bool" where
  "xw_ok ls w \<longleftrightarrow> prog_rep (prg w) ls \<and> gosub_sp w \<le> 32 \<and> for_sp w \<le> 8 \<and>
    spool_pos (env w) \<le> STRING_POOL_SIZE \<and>
    (\<forall>row < MAX_STR_VARS. \<exists>i \<le> STR_MAX_LEN. str_vars (env w) row i = 0) \<and>
    line_ref ls (current_line w) \<and> (\<forall>i < gosub_sp w. line_ref ls (gosub_line w i)) \<and>
    (\<forall>i < for_sp w. line_ref ls (fline (for_stack w i)))"

named_theorems keeps \<open>updates that keep \<open>xw_ok\<close>\<close>

lemma xw_ok_fields [keeps]:
  "xw_ok ls (w\<lparr>pos := p\<rparr>) = xw_ok ls w" "xw_ok ls (w\<lparr>running := b\<rparr>) = xw_ok ls w"
  "xw_ok ls (w\<lparr>jumped := b\<rparr>) = xw_ok ls w" "xw_ok ls (w\<lparr>console := c\<rparr>) = xw_ok ls w"
  "xw_ok ls (w\<lparr>keys := k\<rparr>) = xw_ok ls w" "xw_ok ls (w\<lparr>has_error := b\<rparr>) = xw_ok ls w"
  "xw_ok ls (w\<lparr>error_msg := m\<rparr>) = xw_ok ls w" "xw_ok ls (w\<lparr>error_line_num := n\<rparr>) = xw_ok ls w"
  by (simp_all add: xw_ok_def)

lemma xw_ok_helpers [keeps]:
  "xw_ok ls (advance w) = xw_ok ls w" "xw_ok ls (skip_sp T len w) = xw_ok ls w"
  "xw_ok ls (vga_putchar c w) = xw_ok ls w" "xw_ok ls (vga_write s w) = xw_ok ls w"
  "xw_ok ls (exec_set_error m w) = xw_ok ls w"
  by (simp_all add: advance_def skip_sp_def vga_putchar_def vga_write_def exec_set_error_def keeps)

lemma syntax_error_ok: "syntax_error w = Some w' \<Longrightarrow> xw_ok ls w \<Longrightarrow> xw_ok ls w'"
  by (auto simp: syntax_error_def keeps)

lemma xw_ok_frame: "expr_frame (env w) e \<Longrightarrow> xw_ok ls w \<Longrightarrow> xw_ok ls (w\<lparr>env := e\<rparr>)"
  by (simp add: xw_ok_def expr_frame_def)

lemma eval_expr_ok:
  assumes "eval_expr T len w = Some (v, w')" and "xw_ok ls w"
  shows "xw_ok ls w'"
proof -
  obtain e p where e: "expr_eval T len (expr_clear_error (env w)) (pos w) = Some (v, e, p)" and w': "w' = w\<lparr>env := e, pos := p\<rparr>"
    using assms(1) by (auto simp: eval_expr_def split: option.splits)
  have "expr_frame (env w) e"
    using expr_eval_frame [OF e] by (simp add: expr_frame_def expr_clear_error_def)
  then show ?thesis using xw_ok_frame assms(2) by (simp add: w' keeps)
qed

lemma eval_num_ok: "eval_num T len w = Some (r, w') \<Longrightarrow> xw_ok ls w \<Longrightarrow> xw_ok ls w'"
  by (auto simp: eval_num_def split: option.splits bas_value.splits dest: eval_expr_ok)

lemma parse_var_ok: "parse_var_target T len w = (r, w') \<Longrightarrow> xw_ok ls w \<Longrightarrow> xw_ok ls w'"
  by (auto simp: parse_var_target_def Let_def keeps split: if_splits)

lemma set_num_ok [keeps]: "xw_ok ls (set_num n i v w) = xw_ok ls w"
  by (simp add: set_num_def xw_ok_def split: option.split)

lemma set_str_ok:
  assumes "xw_ok ls w" and "\<And>row M. \<exists>i \<le> STR_MAX_LEN. f row M i = 0"
  shows "xw_ok ls (set_str n f w)"
  using assms by (auto simp: set_str_def xw_ok_def split: option.split)

lemma read_input_ok: "read_input_line m w = Some (buf, w') \<Longrightarrow> xw_ok ls w \<Longrightarrow> xw_ok ls w'"
  by (auto simp: read_input_line_def keeps split: option.splits prod.splits)

lemma read_line_length:
  "read_line brk m buf out ks = Some (buf', out', ks') \<Longrightarrow> length buf < m \<Longrightarrow> length buf' < m"
  by (induction brk m buf out ks rule: read_line.induct) (auto split: if_splits)

lemma ref_find:
  assumes "prog_rep P ls" and "prog_find_line P n = Some (Some l)"
  shows "l \<in> line_offsets ls"
proof -
  have n: "n \<in> fst ` set ls" and l: "l = length (enc_prog (before n ls))"
    using assms find_line_rep [OF assms(1), of n] by (auto split: if_splits)
  have so: "sorted_wrt (\<lambda>a b. fst a < fst b) ls" using assms(1) by (simp add: prog_rep_def)
  obtain t where "ls = before n ls @ (n, t) # after n ls"
    using split_sorted [OF so, of n] n by metis
  then show ?thesis unfolding line_offsets_def l by blast
qed

lemma ref_next:
  assumes "prog_rep P ls" and "k \<in> line_offsets ls"
  shows "line_ref ls (prog_next_line P k)"
proof -
  obtain xs l ys where ls: "ls = xs @ l # ys" "k = length (enc_prog xs)"
    using assms(2) by (auto simp: line_offsets_def)
  have rep: "prog_rep P (xs @ l # ys)" using assms(1) ls(1) by simp
  show ?thesis
  proof (cases ys)
    case Nil
    then show ?thesis using line_at(3) [OF rep] ls by (simp add: line_ref_def)
  next
    case (Cons l' ys')
    then have "length (enc_prog (xs @ [l])) \<in> line_offsets ls"
      unfolding line_offsets_def ls(1) by (auto intro!: exI [of _ "xs @ [l]"])
    then show ?thesis using line_at(3) [OF rep] ls Cons by (simp add: line_ref_def)
  qed
qed

lemma ref_first: "prog_rep P ls \<Longrightarrow> line_ref ls (prog_first_line P)"
proof -
  assume rep: "prog_rep P ls"
  have "ls \<noteq> [] \<Longrightarrow> 0 \<in> line_offsets ls"
    unfolding line_offsets_def by (cases ls) (auto intro!: exI [of _ "[]"])
  moreover have "prog_end P = length (enc_prog ls)" using prog_rep_length [OF rep] by simp
  ultimately show ?thesis by (cases "ls = []") (auto simp: prog_first_line_def line_ref_def)
qed

lemma jump_ok:
  assumes "jump_to n w = Some w'" and "xw_ok ls w"
  shows "xw_ok ls w'"
proof (cases "prog_find_line (prg w) (unat n mod 65536)")
  case None
  then show ?thesis using assms by (simp add: jump_to_def)
next
  case (Some r)
  show ?thesis
  proof (cases r)
    case None
    then show ?thesis using assms Some by (auto simp: jump_to_def keeps)
  next
    case (Some l)
    then have "prog_find_line (prg w) (unat n mod 65536) = Some (Some l)"
      using \<open>prog_find_line _ _ = Some r\<close> by simp
    moreover from this have "l \<in> line_offsets ls" using ref_find assms(2) by (auto simp: xw_ok_def)
    ultimately show ?thesis using assms by (auto simp: jump_to_def xw_ok_def line_ref_def)
  qed
qed

section \<open>Every statement keeps it\<close>

lemma print_loop_ok: "print_loop n T len nl w = Some w' \<Longrightarrow> xw_ok ls w \<Longrightarrow> xw_ok ls w'"
proof (induction n arbitrary: nl w)
  case (Suc n)
  have pv: "xw_ok ls (print_value v w1) = xw_ok ls w1" for v w1
    by (simp add: print_value_def keeps split: bas_value.split)
  show ?case
    using Suc.prems Suc.IH
    by (auto simp: Let_def keeps pv split: if_splits option.splits dest!: eval_expr_ok [where ls = ls] syntax_error_ok [where ls = ls])
qed simp

lemma stmt_print_ok: "stmt_print T len w = Some w' \<Longrightarrow> xw_ok ls w \<Longrightarrow> xw_ok ls w'"
  unfolding stmt_print_def by (erule print_loop_ok) (simp add: keeps)

lemma put_prompt_ok [keeps]: "xw_ok ls (put_prompt T n w) = xw_ok ls w"
  by (induction n arbitrary: w) (simp_all add: keeps)

lemma input_prompt_ok [keeps]: "xw_ok ls (input_prompt T len w) = xw_ok ls w"
  by (simp add: input_prompt_def Let_def keeps)

lemma stmt_input_ok:
  assumes "stmt_input T len w = Some w'" and "xw_ok ls w"
  shows "xw_ok ls w'"
proof -
  define w2 where "w2 = vga_write (bytes_of ''? '') (input_prompt T len (skip_sp T len (advance w)))"
  have w2: "xw_ok ls w2" using assms(2) by (simp add: w2_def keeps)
  obtain r w3 where pv: "parse_var_target T len w2 = (r, w3)" by fastforce
  have w3: "xw_ok ls w3" using parse_var_ok [OF pv w2] .
  have run: "stmt_input T len w = (case parse_var_target T len w2 of
       (None, w3) \<Rightarrow> syntax_error w3
     | (Some (name, idx, is_str), w3) \<Rightarrow>
         (case read_input_line 80 w3 of
            None \<Rightarrow> None
          | Some (ibuf, w4) \<Rightarrow>
              if is_str
              then Some (set_str name (\<lambda>_ row. blit row 0 (arr_of (ibuf @ [0]) (\<lambda>_. 0)) 0 (length ibuf + 1)) w4)
              else Some (set_num name idx (str_to_i32 ibuf) w4)))"
    by (simp only: stmt_input_def Let_def w2_def)
  show ?thesis
  proof (cases r)
    case None
    then show ?thesis using assms(1) run pv w3 syntax_error_ok by simp
  next
    case (Some nis)
    obtain name idx is_str where nis: "nis = (name, idx, is_str)" by (cases nis)
    obtain ibuf w4 where rd: "read_input_line 80 w3 = Some (ibuf, w4)"
      and w': "w' = (if is_str
              then set_str name (\<lambda>_ row. blit row 0 (arr_of (ibuf @ [0]) (\<lambda>_. 0)) 0 (length ibuf + 1)) w4
              else set_num name idx (str_to_i32 ibuf) w4)"
      using assms(1) run pv Some nis by (auto split: option.splits if_splits)
    have w4: "xw_ok ls w4" using read_input_ok [OF rd w3] .
    have "length ibuf < 80"
      using rd read_line_length [of "[]" 80 "[]"] by (auto simp: read_input_line_def split: option.splits prod.splits)
    then have nul: "\<exists>i \<le> STR_MAX_LEN. blit row 0 (arr_of (ibuf @ [0]) (\<lambda>_. 0)) 0 (length ibuf + 1) i = 0" for row
      by (intro exI [of _ "length ibuf"]) (simp add: arr_of_def nth_append STR_MAX_LEN_def)
    show ?thesis
    proof (cases is_str)
      case True
      then show ?thesis using w' set_str_ok [OF w4 nul] by simp
    next
      case False
      then show ?thesis using w' w4 by (simp add: keeps)
    qed
  qed
qed

lemma stmt_assign_ok:
  assumes "stmt_assign T len w = Some w'" and "xw_ok ls w"
  shows "xw_ok ls w'"
proof -
  have str: "\<exists>i \<le> STR_MAX_LEN. ((blit row 0 sp p (min l STR_MAX_LEN))(min l STR_MAX_LEN := 0)) i = 0"
    for row sp :: mem and p l by (intro exI [of _ "min l STR_MAX_LEN"]) simp
  show ?thesis
    using assms
    by (auto simp: stmt_assign_def Let_def keeps split: prod.splits option.splits if_splits bas_value.splits
        dest!: parse_var_ok [where ls = ls] syntax_error_ok [where ls = ls] eval_expr_ok [where ls = ls]
        intro!: set_str_ok str)
qed

lemma for_push_ok:
  assumes "for_push name idx start limit step w = Some w'" and "xw_ok ls w"
  shows "xw_ok ls w'"
proof (cases "var_num name idx")
  case None
  then show ?thesis using assms syntax_error_ok by (simp add: for_push_def)
next
  case (Some slot)
  define w1 where "w1 = set_num name idx start w"
  have w1: "xw_ok ls w1" using assms(2) by (simp add: w1_def keeps)
  have run: "for_push name idx start limit step w =
      (if for_sp w1 \<ge> 8 then Some (exec_set_error ''OUT OF MEMORY'' w1)
       else Some (w1\<lparr>for_stack := (for_stack w1)(for_sp w1 :=
              \<lparr>fvar = name, fvar_idx = idx, flimit = limit, fstep = step, fline = current_line w1, fpos = pos w1\<rparr>),
            for_sp := for_sp w1 + 1\<rparr>))"
    by (simp add: for_push_def Some w1_def Let_def)
  show ?thesis
  proof (cases "for_sp w1 \<ge> 8")
    case True
    then show ?thesis using assms(1) run w1 by (auto simp: keeps)
  next
    case False
    then have "w' = w1\<lparr>for_stack := (for_stack w1)(for_sp w1 :=
              \<lparr>fvar = name, fvar_idx = idx, flimit = limit, fstep = step, fline = current_line w1, fpos = pos w1\<rparr>),
            for_sp := for_sp w1 + 1\<rparr>"
      using assms(1) run by simp
    then show ?thesis using w1 False by (simp add: xw_ok_def less_Suc_eq)
  qed
qed

lemma stmt_for_ok:
  assumes "stmt_for T len w = Some w'" and "xw_ok ls w"
  shows "xw_ok ls w'"
  using assms
  by (auto simp: stmt_for_def for_step_def Let_def keeps split: prod.splits option.splits if_splits
      dest!: parse_var_ok [where ls = ls] syntax_error_ok [where ls = ls] eval_num_ok [where ls = ls] for_push_ok [where ls = ls])

lemma xw_ok_vars:
  "xw_ok ls (w\<lparr>env := (env w)\<lparr>num_vars := f\<rparr>\<rparr>) = xw_ok ls w"
  "xw_ok ls (w\<lparr>env := (env w)\<lparr>ram := r\<rparr>\<rparr>) = xw_ok ls w"
  "xw_ok ls w \<Longrightarrow> xw_ok ls (w\<lparr>env := string_pool_reset (env w)\<rparr>)"
  "xw_ok ls w \<Longrightarrow> xw_ok ls (w\<lparr>env := vars_clear (env w)\<rparr>)"
  by (auto simp: xw_ok_def string_pool_reset_def vars_clear_def intro: exI [of _ 0])

lemma stmt_goto_ok: "stmt_goto T len w = Some w' \<Longrightarrow> xw_ok ls w \<Longrightarrow> xw_ok ls w'"
  by (auto simp: stmt_goto_def keeps split: prod.splits option.splits
      dest!: syntax_error_ok [where ls = ls] eval_num_ok [where ls = ls] jump_ok [where ls = ls])

lemma gosub_push_ok:
  "xw_ok ls w \<Longrightarrow> gosub_sp w < 32 \<Longrightarrow>
    xw_ok ls (w\<lparr>gosub_line := (gosub_line w)(gosub_sp w := current_line w),
      gosub_pos := (gosub_pos w)(gosub_sp w := p), gosub_sp := gosub_sp w + 1\<rparr>)"
  by (simp add: xw_ok_def less_Suc_eq)

lemma stmt_gosub_ok:
  assumes "stmt_gosub T len w = Some w'" and "xw_ok ls w"
  shows "xw_ok ls w'"
proof (cases "eval_num T len (advance w)")
  case None
  then show ?thesis using assms by (simp add: stmt_gosub_def)
next
  case (Some r)
  obtain n w1 where r: "r = (n, w1)" by (cases r)
  have w1: "xw_ok ls w1" using eval_num_ok Some r assms(2) by (simp add: keeps)
  show ?thesis
  proof (cases n)
    case None
    then show ?thesis using assms(1) Some r w1 syntax_error_ok by (simp add: stmt_gosub_def)
  next
    case (Some m)
    show ?thesis
    proof (cases "gosub_sp w1 \<ge> 32")
      case True
      then show ?thesis using assms(1) \<open>eval_num _ _ _ = _\<close> Some r w1 by (auto simp: stmt_gosub_def keeps)
    next
      case False
      then show ?thesis
        using assms(1) \<open>eval_num _ _ _ = _\<close> Some r jump_ok gosub_push_ok [OF w1, of "pos w1"]
        by (simp add: stmt_gosub_def)
    qed
  qed
qed

lemma stmt_return_ok: "stmt_return w = Some w' \<Longrightarrow> xw_ok ls w \<Longrightarrow> xw_ok ls w'"
  by (auto simp: stmt_return_def Let_def keeps xw_ok_def advance_def exec_set_error_def split: if_splits)

lemma find_for_bound: "find_for st name idx n = Some fi \<Longrightarrow> fi < n"
  by (induction n) (auto split: if_splits)

lemma next_step_ok:
  assumes "next_step fi w = Some w'" and "xw_ok ls w" and "fi < for_sp w"
  shows "xw_ok ls w'"
proof (cases "var_num (fvar (for_stack w fi)) (fvar_idx (for_stack w fi))")
  case None
  then show ?thesis using assms syntax_error_ok by (simp add: next_step_def)
next
  case (Some slot)
  then show ?thesis
    using assms by (auto simp: next_step_def Let_def xw_ok_def split: if_splits)
qed

lemma stmt_next_ok:
  assumes "stmt_next T len w = Some w'" and "xw_ok ls w"
  shows "xw_ok ls w'"
proof -
  obtain name idx w1 where nv: "next_var T len (advance w) = ((name, idx), w1)"
    by (metis surj_pair)
  have w1: "xw_ok ls w1"
    using nv assms(2) by (auto simp: next_var_def Let_def keeps split: if_splits)
  show ?thesis
    using assms(1) nv w1 next_step_ok [OF _ w1] find_for_bound
    by (auto simp: stmt_next_def keeps split: if_splits option.splits)
qed

lemma stmt_poke_ok: "stmt_poke T len w = Some w' \<Longrightarrow> xw_ok ls w \<Longrightarrow> xw_ok ls w'"
  by (auto simp: stmt_poke_def Let_def keeps xw_ok_vars split: prod.splits option.splits if_splits
      dest!: syntax_error_ok [where ls = ls] eval_num_ok [where ls = ls])

lemma other_stmt_ok: "other_stmt t len w = Some w' \<Longrightarrow> xw_ok ls w \<Longrightarrow> xw_ok ls w'"
  using xw_ok_vars(4) [of ls "advance w"]
  by (auto simp: other_stmt_def keeps advance_def split: if_splits dest: syntax_error_ok)

lemma break_poll_ok: "break_poll w = Some (b, w') \<Longrightarrow> xw_ok ls w \<Longrightarrow> xw_ok ls w'"
  by (auto simp: break_poll_def Let_def keeps split: if_splits option.splits prod.splits bool.splits)

lemma stmt_if_ok:
  assumes run: "stmt_if f T len w = Some w'" and w: "xw_ok ls w"
    and f: "\<And>w w'. f w = Some w' \<Longrightarrow> xw_ok ls w \<Longrightarrow> xw_ok ls w'"
  shows "xw_ok ls w'"
  using run w
  by (auto simp: stmt_if_def Let_def keeps split: prod.splits option.splits if_splits bas_value.splits
      dest!: syntax_error_ok [where ls = ls] eval_expr_ok [where ls = ls] jump_ok [where ls = ls] f)

lemma exec_statement_ok: "exec_statement d T len w = Some w' \<Longrightarrow> xw_ok ls w \<Longrightarrow> xw_ok ls w'"
proof (induction d arbitrary: w w')
  case (Suc d)
  have w1: "xw_ok ls (skip_sp T len w)" using Suc.prems(2) by (simp add: keeps)
  show ?case
  proof (cases "pos (skip_sp T len w) \<ge> len")
    case True
    then show ?thesis using Suc.prems(1) w1 by (simp add: Let_def)
  next
    case False
    obtain b w2 where bp: "break_poll (skip_sp T len w) = Some (b, w2)"
      using Suc.prems(1) False by (auto simp: Let_def split: option.splits)
    have w2: "xw_ok ls w2" using break_poll_ok [OF bp w1] .
    have adv: "xw_ok ls (advance w2)" using w2 by (simp add: keeps)
    show ?thesis
      using Suc.prems(1) False bp w2
      by (auto simp: Let_def split: bool.splits if_splits
          intro: stmt_print_ok stmt_input_ok stmt_assign_ok [OF _ adv] stmt_assign_ok
            stmt_if_ok [OF _ _ Suc.IH] stmt_goto_ok stmt_gosub_ok stmt_return_ok stmt_for_ok
            stmt_next_ok stmt_poke_ok other_stmt_ok)
  qed
qed simp

lemma line_loop_ok: "line_loop n T len w = Some w' \<Longrightarrow> xw_ok ls w \<Longrightarrow> xw_ok ls w'"
proof (induction n arbitrary: w)
  case (Suc n)
  show ?case
    using Suc.prems Suc.IH
    by (auto simp: Let_def keeps simp del: exec_statement.simps split: if_splits option.splits
        dest!: exec_statement_ok [where ls = ls])
qed simp

lemma exec_line_at_ok: "exec_line_at T len p w = Some w' \<Longrightarrow> xw_ok ls w \<Longrightarrow> xw_ok ls w'"
  unfolding exec_line_at_def
  by (erule line_loop_ok) (auto simp: keeps xw_ok_def string_pool_reset_def)

end
