(* ===== verification/BasicRun.thy ===== *)
theory BasicRun
  imports BasicExecInv BasicShell
begin

text \<open>
  The interpreter as a whole: what a run of a program and a whole session at the prompt keep, and
  what NEXT does to a loop.
\<close>

section \<open>Runs\<close>

definition session_ok :: "xw \<Rightarrow> bool" where
  "session_ok w \<longleftrightarrow> (\<exists>ls. xw_ok ls (exec_init w))"

lemma xw_ok_exec_init: "xw_ok ls w \<Longrightarrow> xw_ok ls (exec_init w)"
  by (simp add: xw_ok_def exec_init_def line_ref_def)

lemma xw_ok_session: "xw_ok ls w \<Longrightarrow> session_ok w"
  using xw_ok_exec_init session_ok_def by blast

lemma run_loop_ok:
  assumes "run_loop r w = Some w'" and "xw_ok ls w"
  shows "xw_ok ls w'"
proof -
  have "xw_ok ls w \<longrightarrow> xw_ok ls w'"
  proof (rule run_loop.raw_induct [where P = "\<lambda>r w w'. xw_ok ls w \<longrightarrow> xw_ok ls w'", OF _ assms(1)])
    fix rl :: "nat \<Rightarrow> xw \<Rightarrow> xw option" and r w y
    assume IH: "\<And>r w y. rl r w = Some y \<Longrightarrow> xw_ok ls w \<longrightarrow> xw_ok ls y"
    assume body: "(case current_line w of
       None \<Rightarrow> Some w
     | Some line \<Rightarrow>
         if \<not> running w \<or> has_error w then Some w
         else
           let data_len = u8 (prog_line_length (prg w) line + 253);
               tokens = (\<lambda>i. prog_buf (prg w) (line + 3 + i)) in
           case exec_line_at tokens data_len r (w\<lparr>jumped := False\<rparr>) of
             None \<Rightarrow> None
           | Some w1 \<Rightarrow>
               if running w1 \<and> \<not> has_error w1 then
                 if jumped w1 then rl (pos w1) w1
                 else
                   case current_line w1 of
                     None \<Rightarrow> None
                   | Some l \<Rightarrow> rl 0 (w1\<lparr>current_line := prog_next_line (prg w1) l\<rparr>)
               else rl 0 w1) = Some y"
    show "xw_ok ls w \<longrightarrow> xw_ok ls y"
    proof
      assume ok: "xw_ok ls w"
      show "xw_ok ls y"
      proof (cases "\<exists>line. current_line w = Some line \<and> running w \<and> \<not> has_error w")
        case False
        then show ?thesis using body ok by (auto split: option.splits if_splits)
      next
        case True
        then obtain line where line: "current_line w = Some line" and go: "running w" "\<not> has_error w" by blast
        obtain w1 where ex: "exec_line_at (\<lambda>i. prog_buf (prg w) (line + 3 + i))
            (u8 (prog_line_length (prg w) line + 253)) r (w\<lparr>jumped := False\<rparr>) = Some w1"
          using body line go by (auto simp: Let_def split: option.splits)
        have w1: "xw_ok ls w1" using exec_line_at_ok [OF ex] ok by (simp add: keeps)
        have "xw_ok ls (w1\<lparr>current_line := prog_next_line (prg w1) l\<rparr>)" if "current_line w1 = Some l" for l
        proof -
          have "prog_rep (prg w1) ls" and "l \<in> line_offsets ls"
            using w1 that by (simp_all add: xw_ok_def line_ref_def)
          then have "line_ref ls (prog_next_line (prg w1) l)" by (rule ref_next)
          then show ?thesis using w1 by (simp add: xw_ok_def)
        qed
        then show ?thesis
          using body line go ex w1 IH by (auto simp: Let_def split: option.splits if_splits)
      qed
    qed
  qed
  then show ?thesis using assms(2) by simp
qed

lemma report_error_ok [keeps]: "xw_ok ls (report_error w) = xw_ok ls w"
  by (simp add: report_error_def Let_def keeps)

lemma cmd_run_ok:
  assumes "xw_ok ls (exec_init w)" and "cmd_run w = Some w'"
  shows "xw_ok ls w'"
proof -
  have rep: "prog_rep (prg w) ls" using assms(1) by (simp add: xw_ok_def exec_init_def)
  have "xw_ok ls (exec_clear_error (exec_init w))" using assms(1) by (simp add: exec_clear_error_def keeps)
  then have "xw_ok ls ((exec_clear_error (exec_init w))\<lparr>env := string_pool_reset (vars_clear (env (exec_clear_error (exec_init w))))\<rparr>)"
    using xw_ok_vars(3) [OF xw_ok_vars(4)] by simp
  then have "xw_ok ls (run_start w)"
    using ref_first [OF rep] by (simp add: run_start_def Let_def xw_ok_def exec_clear_error_def exec_init_def)
  then show ?thesis
    using assms(2) run_loop_ok by (auto simp: cmd_run_def keeps)
qed

section \<open>Sessions\<close>

lemma session_ok_iff:
  "session_ok w \<longleftrightarrow> prog_ok (prg w) \<and> spool_pos (env w) \<le> STRING_POOL_SIZE \<and>
    (\<forall>row < MAX_STR_VARS. \<exists>i \<le> STR_MAX_LEN. str_vars (env w) row i = 0)"
  by (auto simp: session_ok_def xw_ok_def exec_init_def line_ref_def prog_ok_def)

lemma session_fields:
  "session_ok (w\<lparr>console := c\<rparr>) = session_ok w" "session_ok (w\<lparr>keys := k\<rparr>) = session_ok w"
  "session_ok (vga_write s w) = session_ok w" "session_ok (vga_putchar b w) = session_ok w"
  "session_ok (exec_clear_error w) = session_ok w" "session_ok (exec_init w) = session_ok w"
  by (simp_all add: session_ok_iff vga_write_def vga_putchar_def exec_clear_error_def exec_init_def)

lemma session_prog: "session_ok w \<Longrightarrow> prog_ok P \<Longrightarrow> session_ok (w\<lparr>prg := P\<rparr>)"
  by (simp add: session_ok_iff)

lemma session_run: "session_ok w \<Longrightarrow> cmd_run w = Some w' \<Longrightarrow> session_ok w'"
  using cmd_run_ok xw_ok_session session_ok_def by blast

lemma session_immediate:
  assumes "session_ok w" and "exec_immediate T len w = Some w'"
  shows "session_ok w'"
proof -
  obtain ls where "xw_ok ls (exec_init w)" using assms(1) session_ok_def by blast
  then have "xw_ok ls (exec_clear_error ((exec_init w)\<lparr>running := True\<rparr>))"
    by (simp add: exec_clear_error_def keeps)
  then show ?thesis
    using assms(2) exec_line_at_ok xw_ok_session unfolding exec_immediate_def exec_line_def by blast
qed

declare tokenize_loop.simps(2) [simp del]

text \<open>A tokenized line is never longer than its buffer.\<close>

lemma copy_rem_bound: "copy_rem m src out = (src', out') \<Longrightarrow> length out \<le> m \<Longrightarrow> length out' \<le> m"
  by (induction m src out rule: copy_rem.induct) (auto split: if_splits)

lemma copy_str_bound: "copy_str m src out n = (src', out', n') \<Longrightarrow> length out \<le> m \<Longrightarrow> length out' \<le> m"
  by (induction m src out n rule: copy_str.induct) (auto split: if_splits)

lemma tokenize_loop_bound: "length out \<le> m \<Longrightarrow> length (tokenize_loop m src out) \<le> m"
proof (induction "length src" arbitrary: src out rule: less_induct)
  case less
  show ?case
  proof (cases "src = [] \<or> \<not> length out + 5 < m")
    case True
    then show ?thesis using less.prems by (cases src) (simp_all add: tokenize_loop.simps(2))
  next
    case False
    then obtain c rest where src: "src = c # rest" and room: "length out + 5 < m" by (cases src) auto
    have IH: "length (tokenize_loop m s o') \<le> m" if "length s < length (c # rest)" "length o' \<le> m" for s o'
      using less.hyps that src by blast
    show ?thesis
    proof (cases rule: tok_cases [where c = c and rest = rest])
      case space
      then show ?thesis using IH [of rest "out @ [SP]"] room by (simp add: src loop_steps [OF room])
    next
      case (keyword klen tok)
      then show ?thesis
        using IH [OF step_shorter(1) [OF keyword(2)], of "out @ [tok]"] room by (simp add: src loop_steps [OF room])
    next
      case (remark klen)
      obtain s2 o2 where cr: "copy_rem m (drop klen (c # rest)) (out @ [TOK_REM]) = (s2, o2)" by fastforce
      have "length s2 < length (c # rest)"
        using copy_rem_shorter [OF cr] step_shorter(1) [OF remark(2)] by linarith
      then show ?thesis
        using IH [of s2 o2] copy_rem_bound [OF cr] cr remark room by (simp add: src loop_steps [OF room])
    next
      case (number val adv)
      then show ?thesis
        using IH [OF step_shorter(2) [OF number(2,3)], of "out @ TOK_NUM # num_bytes val"] room
          loop_steps(4) [OF room number]
        by (simp add: src length_num_bytes)
    next
      case string
      obtain s2 o2 n2 where cs: "copy_str m rest (out @ [TOK_STR_LIT, 0]) 0 = (s2, o2, n2)" by (metis prod_cases3)
      let ?s = "if at_nul s2 = QUOTE then tl s2 else s2" and ?o = "o2[length out + 1 := word_of_nat n2]"
      have "length ?s < length (c # rest)" using copy_str_shorter [OF cs] by (cases s2) auto
      moreover have "length ?o \<le> m" using copy_str_bound [OF cs] room by simp
      ultimately have "length (tokenize_loop m ?s ?o) \<le> m" by (rule IH)
      moreover have "tokenize_loop m src out = tokenize_loop m ?s ?o"
        using string cs by (simp add: src loop_steps [OF room])
      ultimately show ?thesis by simp
    next
      case (oper tok)
      then show ?thesis using IH [OF step_shorter(3), of "out @ [tok]"] room by (simp add: src loop_steps [OF room])
    next
      case other
      then show ?thesis using IH [of rest "out @ [c]"] room by (simp add: src loop_steps [OF room])
    qed
  qed
qed

lemma tokenize_bound: "length (tokenize src m) \<le> m"
  using tokenize_loop_bound [of "[]" m src] by (simp add: tokenize_def)

lemma enter_line_ok:
  assumes "prog_ok P" and "num < 65536" and "enter_line num src P = Some P'"
  shows "prog_ok P'"
proof -
  obtain ls where rep: "prog_rep P ls" using assms(1) by (auto simp: prog_ok_def)
  have "length (tokenize src 120) + 3 < 256" using tokenize_bound [of src 120] by simp
  from insert_line_rep [OF rep assms(2) this, of "arr_of (tokenize src 120) (\<lambda>_. 0)"]
  show ?thesis
    using assms by (auto simp: enter_line_def Let_def store_line_def prog_ok_def split: if_splits)
qed

lemma line_digits_u16: "num < 65536 \<Longrightarrow> line_digits s num i = (n, j) \<Longrightarrow> n < 65536"
  by (induction s num i rule: line_digits.induct) (auto split: if_splits)

lemma parse_line_number_u16: "parse_line_number s = (n, j) \<Longrightarrow> n < 65536"
  using line_digits_u16 [of 0 s 0] by (auto simp: parse_line_number_def split: prod.splits if_splits)

lemma load_loop_ok: "load_loop data P = Some P' \<Longrightarrow> prog_ok P \<Longrightarrow> prog_ok P'"
proof (induction data P rule: load_loop.induct)
  case (1 data P)
  show ?case
  proof (cases "data = []")
    case True
    then show ?thesis using "1.prems" by (simp add: load_loop.simps)
  next
    case False
    obtain l r where tl: "take_line 158 data = (l, r)" by fastforce
    obtain num adv where pl: "parse_line_number (cstr l) = (num, adv)" by fastforce
    note IH = "1.IH" [OF False tl [symmetric] refl]
    consider "l = []" | "l \<noteq> []" "num = 0" | "l \<noteq> []" "num \<noteq> 0" by blast
    then show ?thesis
    proof cases
      case 1
      then show ?thesis using "1.prems" False tl IH(1) by (subst (asm) load_loop.simps) simp
    next
      case 2
      then show ?thesis
        using "1.prems" False tl pl IH(2) [OF refl 2(1) refl refl pl [symmetric] 2(2)] by (subst (asm) load_loop.simps) simp
    next
      case 3
      obtain P1 where P1: "enter_line num (skip_blanks (drop adv (cstr l))) P = Some P1"
        and rec: "load_loop (skip_newline r) P1 = Some P'"
        using "1.prems"(1) False tl pl 3 by (subst (asm) load_loop.simps) (auto split: option.splits)
      show ?thesis
        using IH(3) [OF refl 3(1) refl refl pl [symmetric] 3(2) P1 rec]
          enter_line_ok [OF "1.prems"(2) parse_line_number_u16 [OF pl] P1] .
    qed
  qed
qed

lemma list_loop_console:
  assumes "list_loop a b p w = Some w'"
  shows "\<exists>c. w' = w\<lparr>console := c\<rparr>"
proof (rule list_loop.raw_induct [where P = "\<lambda>a b p w w'. \<exists>c. w' = w\<lparr>console := c\<rparr>", OF _ assms])
  fix ll :: "nat \<Rightarrow> nat \<Rightarrow> nat option \<Rightarrow> xw \<Rightarrow> xw option" and a b p w y
  assume IH: "\<And>a b p w y. ll a b p w = Some y \<Longrightarrow> \<exists>c. y = w\<lparr>console := c\<rparr>"
    and body: "(case p of
       None \<Rightarrow> Some w
     | Some line \<Rightarrow>
         (let num = prog_line_number (prg w) line;
              w1 = (if a \<le> num \<and> num \<le> b
                    then vga_putchar 10 (vga_write (list_line (prg w) line) w) else w)
          in ll a b (prog_next_line (prg w) line) w1)) = Some y"
  show "\<exists>c. y = w\<lparr>console := c\<rparr>"
    using body
    by (auto simp: Let_def vga_putchar_def vga_write_def split: option.splits if_splits dest!: IH
        intro: exI [of _ "console w"])
qed

lemma session_number:
  assumes "session_ok w" and "num < 65536" and "shell_number num src w = Some w'"
  shows "session_ok w'"
proof -
  have P: "prog_ok (prg w)" using assms(1) by (simp add: session_ok_iff)
  then obtain ls where rep: "prog_rep (prg w) ls" by (auto simp: prog_ok_def)
  have d: "prog_ok P'" if "prog_delete_line (prg w) num = Some P'" for P'
    using delete_line_rep [OF rep, of num] that by (auto simp: prog_ok_def)
  show ?thesis
    using assms enter_line_ok [OF P assms(2)] d by (auto simp: shell_number_def intro: session_prog split: if_splits)
qed

lemma prog_init_ok: "prog_ok (prog_init P)"
  using prog_init_rep by (auto simp: prog_ok_def)

lemma session_load:
  assumes "session_ok w" and "cmd_load rd name (w, fs) = Some (w', fs')"
  shows "session_ok w'"
  using assms
  by (auto simp: cmd_load_def session_fields split: if_splits option.splits
      intro!: session_prog dest: load_loop_ok [OF _ prog_init_ok])

lemma session_save: "session_ok w \<Longrightarrow> cmd_save wr name (w, fs) = Some (w', fs') \<Longrightarrow> session_ok w'"
  by (auto simp: cmd_save_def session_fields split: if_splits option.splits)

lemma session_shell_immediate: "session_ok w \<Longrightarrow> shell_immediate input w = Some w' \<Longrightarrow> session_ok w'"
  by (auto simp: shell_immediate_def Let_def session_fields split: if_splits option.splits dest: session_immediate)

lemma session_new:
  "session_ok w \<Longrightarrow> session_ok (w\<lparr>prg := prog_init (prg w), env := vars_clear (env w)\<rparr>)"
  using prog_init_ok by (auto simp: session_ok_iff vars_clear_def intro: exI [of _ 0])

lemma session_command:
  assumes "shell_command wr rd input (w, fs) = Some (w', fs')" and "session_ok w"
  shows "session_ok w'"
proof -
  obtain n adv where pl: "parse_line_number input = (n, adv)" by fastforce
  have lst: "session_ok w1" if "cmd_list a w = Some w1" for a w1
    using that list_loop_console assms(2) by (fastforce simp: cmd_list_def session_fields split: prod.splits)
  show ?thesis
    using assms pl
    by (auto simp: shell_command_def session_fields split: if_splits
        dest: session_number [OF _ parse_line_number_u16 [OF pl]] session_run session_save session_load
          session_shell_immediate lst intro: session_new)
qed

lemma basic_readline_ok: "basic_readline m w = Some (s, w') \<Longrightarrow> session_ok w \<Longrightarrow> session_ok w'"
  by (auto simp: basic_readline_def session_fields split: option.splits prod.splits)

lemma session_loop:
  assumes "shell_loop wr rd s = Some s'" and "session_ok (fst s)"
  shows "session_ok (fst s')"
proof -
  have "session_ok (fst s) \<longrightarrow> session_ok (fst s')"
  proof (rule shell_loop.raw_induct [where P = "\<lambda>wr rd s s'. session_ok (fst s) \<longrightarrow> session_ok (fst s')", OF _ assms(1)])
    fix sl and wr :: "byte list \<Rightarrow> byte list \<Rightarrow> 'a \<Rightarrow> (int \<times> 'a) option" and rd and s y :: "xw \<times> 'a"
    assume IH: "\<And>wr rd s y. sl wr rd s = Some y \<Longrightarrow> session_ok (fst s) \<longrightarrow> session_ok (fst y)"
      and body: "(case basic_readline INPUT_MAX (fst s) of
         None \<Rightarrow> None
       | Some (input, w) \<Rightarrow>
           if input = [] then sl wr rd (w, snd s)
           else if cmd_match input (bytes_of ''SYSTEM'') then Some (w, snd s)
           else
             (case shell_command wr rd input (w, snd s) of
                None \<Rightarrow> None
              | Some w_fs' \<Rightarrow> sl wr rd w_fs')) = Some y"
    show "session_ok (fst s) \<longrightarrow> session_ok (fst y)"
    proof
      assume ok: "session_ok (fst s)"
      obtain input w where rl: "basic_readline INPUT_MAX (fst s) = Some (input, w)"
        using body by (auto split: option.splits)
      have w: "session_ok w" using basic_readline_ok [OF rl ok] .
      have c: "session_ok (fst t)" if "shell_command wr rd input (w, snd s) = Some t" for t
        using that session_command w by (cases t) fastforce
      show "session_ok (fst y)"
        using body rl w IH c by (auto split: if_splits option.splits)
    qed
  qed
  then show ?thesis using assms(2) by simp
qed

section \<open>FOR and NEXT\<close>







text \<open>A sample state of the machine: an interpreter that has not started, and a key sequence.\<close>

definition sample_env :: benv where
  "sample_env = \<lparr>num_vars = (\<lambda>_. 0), str_vars = (\<lambda>_ _. 0), spool = (\<lambda>_. 0), spool_pos = 0, expr_error = False,
     rnd_state = 12345, ram = (\<lambda>_. 0)\<rparr>"

definition sample_xw :: "int option list \<Rightarrow> xw" where
  "sample_xw ks = \<lparr>env = sample_env, prg = \<lparr>prog_buf = (\<lambda>_. 0), prog_end = 0\<rparr>, current_line = None, pos = 0,
     running = False, jumped = False, gosub_line = (\<lambda>_. None), gosub_pos = (\<lambda>_. 0), gosub_sp = 0,
     for_stack = (\<lambda>_. \<lparr>fvar = 0, fvar_idx = -1, flimit = 0, fstep = 0, fline = None, fpos = 0\<rparr>), for_sp = 0,
     error_msg = [], error_line_num = 0, has_error = False, console = [], keys = ks\<rparr>"



text \<open>
  C13: Whatever the token bytes are (they need not come from the tokenizer), executing a line keeps
  the invariant of the interpreter: the GOSUB and FOR stacks stay within their 32 and 8 entries, the
  string pool within 2048 bytes, every string variable has its NUL within 81 bytes, the program is
  unchanged, and every line pointer the interpreter holds (current line, return addresses, loops)
  points at a line of the program.
\<close>

theorem exec_line_invariant:
  assumes "xw_ok ls w" and "exec_line_at tokens len start w = Some w'"
  shows "prog_rep (prg w') ls \<and> gosub_sp w' \<le> 32 \<and> for_sp w' \<le> 8 \<and> spool_pos (env w') \<le> STRING_POOL_SIZE \<and>
    (\<forall>row < MAX_STR_VARS. \<exists>i \<le> STR_MAX_LEN. str_vars (env w') row i = 0) \<and>
    line_ref ls (current_line w') \<and> (\<forall>i < gosub_sp w'. line_ref ls (gosub_line w' i)) \<and>
    (\<forall>i < for_sp w'. line_ref ls (fline (for_stack w' i)))"
  using exec_line_at_ok [OF assms(2,1)] unfolding xw_ok_def by blast

lemma sample_xw_ok: "xw_ok [] ((sample_xw ks)\<lparr>running := b\<rparr>)"
  by (auto simp: xw_ok_def sample_xw_def sample_env_def prog_rep_def line_ref_def)

lemmas exec_numeral = line_loop.simps(2) [of "pred_numeral k" for k, folded numeral_eq_Suc]
  exec_statement.simps(2) [of "pred_numeral k" for k, folded numeral_eq_Suc]

lemma sample_cls:
  "exec_line_at (arr_of [TOK_CLS] (\<lambda>_. 0)) 1 0 ((sample_xw [])\<lparr>running := True\<rparr>) =
     Some ((sample_xw [])\<lparr>running := True, pos := 1, console := [Clear]\<rparr>)"
proof -
  show ?thesis
    by (simp add: Let_def skip_spaces.simps exec_line_at_def LINE_ROUNDS_def LOOPS_def exec_numeral skip_sp_def sample_xw_def sample_env_def string_pool_reset_def
        break_poll_def keyboard_poll_def is_letter_def is_upper_def pred_numeral_simps other_stmt_def advance_def arr_of_def)
qed

theorem exec_line_invariant_witness:
  "\<exists>w'. exec_line_at (arr_of [TOK_CLS] (\<lambda>_. 0)) 1 0 ((sample_xw [])\<lparr>running := True\<rparr>) = Some w' \<and>
     prog_rep (prg w') [] \<and> gosub_sp w' \<le> 32"
  using exec_line_invariant [OF sample_xw_ok sample_cls] sample_cls by blast

text \<open>
  C32: A whole session at the prompt (typing and deleting lines, RUN, LIST, NEW, SAVE, LOAD,
  immediate statements, in any order, with any file system and any keys) that ends with SYSTEM
  leaves a sorted, well-formed program in the 8192 bytes of the buffer, the string pool within its
  bounds and every string variable terminated; and so does the run of a program, which moreover
  leaves the program as it was.
\<close>

theorem session_invariant:
  assumes "basic_run wr rd (w, fs) = Some (w', fs')" and "spool_pos (env w) \<le> STRING_POOL_SIZE"
  shows "prog_ok (prg w') \<and> spool_pos (env w') \<le> STRING_POOL_SIZE \<and>
    (\<forall>row < MAX_STR_VARS. \<exists>i \<le> STR_MAX_LEN. str_vars (env w') row i = 0)"
proof -
  have "session_ok (w\<lparr>prg := prog_init (prg w), env := vars_clear (env w)\<rparr>)"
    using assms(2) prog_init_ok by (auto simp: session_ok_iff vars_clear_def intro: exI [of _ 0])
  then have "session_ok (shell_init w)" by (simp add: shell_init_def session_fields)
  then have st: "session_ok (fst ((shell_init w)\<lparr>console := c\<rparr>, fs))" for c by (simp add: session_fields)
  have "\<exists>c. shell_loop wr rd ((shell_init w)\<lparr>console := c\<rparr>, fs) = Some (w', fs')"
    using assms(1) unfolding basic_run_def Let_def fst_conv snd_conv by blast
  then have "session_ok (fst (w', fs'))" using session_loop st by blast
  then show ?thesis by (simp add: session_ok_iff)
qed

theorem session_invariant_witness:
  "\<exists>w' fs'. basic_run (\<lambda>_ _ _. None) (\<lambda>_ _ _. None) (sample_xw (map (Some \<circ> of_char) ''SYSTEM\<newline>''), ()) = Some (w', fs') \<and>
     prog_ok (prg w')"
proof -
  let ?ks = "map (Some \<circ> of_char) ''SYSTEM\<newline>'' :: int option list"
  have "\<exists>w'. basic_run (\<lambda>_ _ _. None) (\<lambda>_ _ _. None) (sample_xw ?ks, ()) = Some (w', ())"
    unfolding basic_run_def Let_def
    by (subst shell_loop.simps)
      (simp add: basic_readline_def sample_xw_def shell_init_def exec_init_def exec_clear_error_def INPUT_MAX_def
        basic_upper_def at_nul_def)
  then show ?thesis
    using session_invariant [of "\<lambda>_ _ _. None" "\<lambda>_ _ _. None" "sample_xw ?ks" "()"]
    by (auto simp: sample_xw_def sample_env_def)
qed

end
