(* ===== verification/BasicStatements.thy ===== *)
theory BasicStatements
  imports BasicExprCorrect BasicRun
begin

text \<open>
  What single statements do, over the correctness of expressions: assignment, and GOTO as RUN
  continues it.
\<close>

text \<open>The evaluator as the statements call it.\<close>

lemma eval_expr_correct:
  assumes "len < 256" and "stream T len (pos w) (render 0 e) q" and "follow 0 (nxt T len q)"
    and "eval (expr_clear_error (env w)) e (spool_pos (env w)) = Some (x, m)"
  obtains v s p where "eval_expr T len w = Some (v, w\<lparr>env := s, pos := p\<rparr>)" and "vrep s v x"
    and "ext (expr_clear_error (env w)) s" and "skip_spaces T len p = skip_spaces T len q" and "\<not> expr_error s"
proof -
  have ne: "\<not> expr_error (expr_clear_error (env w))" by (simp add: expr_clear_error_def)
  have m: "spool_pos (expr_clear_error (env w)) = spool_pos (env w)" by (simp add: expr_clear_error_def)
  obtain v s p where "expr_eval T len (expr_clear_error (env w)) (pos w) = Some (v, s, p)" "vrep s v x"
    "ext (expr_clear_error (env w)) s" "skip_spaces T len p = skip_spaces T len q"
    using expr_eval_correct [OF assms(1) ne assms(2,3)] assms(4) m by metis
  moreover then have "\<not> expr_error s" using ne by (simp add: ext_def)
  ultimately show ?thesis using that by (simp add: eval_expr_def)
qed

section \<open>Assignment\<close>

lemma parse_var_num:
  assumes "tk_at T len (skip_spaces T len (pos w)) (TVar c i)" and "is_letter c" and "-1 \<le> i" and "i \<le> 9"
  shows "parse_var_target T len w =
    (Some (upcase c, i, False), w\<lparr>pos := skip_spaces T len (pos w) + tk_len (TVar c i)\<rparr>)"
proof (cases "i < 0")
  case True
  then have "i = -1" using assms(3) by simp
  moreover have "\<not> is_digit 0" by (simp add: is_digit_def)
  ultimately show ?thesis
    using assms(1,2)
    by (auto simp: parse_var_target_def Let_def tok_here_def skip_sp_def advance_def tk_at_def tk_len_def peek_tok_def
        split: if_splits)
next
  case False
  have d: "T (skip_spaces T len (pos w) + 1) = word_of_int (48 + i)"
    using assms(1) False by (simp add: tk_at_def)
  have u: "uint (word_of_int (48 + i) :: byte) = 48 + i"
    unfolding uint_word_of_int using False assms(4) by simp
  have dig: "is_digit (word_of_int (48 + i))"
    using u False assms(4) by (simp add: is_digit_def word_le_def)
  have nd: "(word_of_int (48 + i) :: byte) \<noteq> DOLLAR"
  proof
    assume "(word_of_int (48 + i) :: byte) = DOLLAR"
    then have "uint (word_of_int (48 + i) :: byte) = uint DOLLAR" by (rule arg_cong)
    with u False show False by simp
  qed
  show ?thesis
    using assms(1,2) False d dig nd u
    by (simp add: parse_var_target_def Let_def tok_here_def skip_sp_def advance_def tk_at_def tk_len_def peek_tok_def)
qed

lemma letter_tokens: "is_letter c \<Longrightarrow> c \<noteq> TOK_PRINT \<and> c \<noteq> TOK_INPUT \<and> c \<noteq> TOK_LET"
  by (auto simp: is_letter_def is_upper_def)

lemma poll_no_keys: "keys w = [] \<Longrightarrow> break_poll w = Some (False, w)"
  by (simp add: break_poll_def keyboard_poll_def)

text \<open>
  C34: On tokens that hold a numeric variable, \<open>=\<close> and an expression with a numeric value, with any
  spaces, the statement stores the value in the slot of that variable and nowhere else, leaves the
  strings, the program, the stacks, the console and the error state alone, and stops behind the
  expression.
\<close>

theorem assignment_correct:
  assumes "len < 256" and "keys w = []"
    and "stream T len (pos w) (TVar c i # TTok EQ # render 0 e) q" and "is_letter c" and "-1 \<le> i" and "i \<le> 9"
    and "follow 0 (nxt T len q)"
    and "eval (expr_clear_error (env w)) e (spool_pos (env w)) = Some (SN n, m)"
    and "var_num (upcase c) i = Some slot"
  shows "\<exists>s p. exec_statement (Suc d) T len w =
      Some (w\<lparr>env := s\<lparr>num_vars := (num_vars (env w))(slot := n)\<rparr>, pos := p\<rparr>) \<and>
      str_vars s = str_vars (env w) \<and> ram s = ram (env w) \<and> rnd_state s = rnd_state (env w) \<and>
      skip_spaces T len p = skip_spaces T len q"
proof -
  let ?p0 = "skip_spaces T len (pos w)"
  let ?p1 = "skip_spaces T len (?p0 + tk_len (TVar c i))"
  have tv: "tk_at T len ?p0 (TVar c i)" and te: "tk_at T len ?p1 (TTok EQ)"
    and ts: "stream T len (?p1 + 1) (render 0 e) q"
    using assms(3) by (simp_all add: tk_len_def)
  have l0: "?p0 < len" and c0: "T ?p0 = c" using tv by (auto simp: tk_at_def tk_len_def split: if_splits)
  have l1: "?p1 < len" and c1: "T ?p1 = EQ" using te by (auto simp: tk_at_def tk_len_def)
  have pk: "peek_tok T len ?p1 = EQ" using l1 c1 by (simp add: peek_tok_def)
  let ?w0 = "w\<lparr>pos := ?p0\<rparr>" and ?w1 = "w\<lparr>pos := ?p1\<rparr>" and ?w2 = "w\<lparr>pos := ?p1 + 1\<rparr>"
  have pv: "parse_var_target T len ?w0 = (Some (upcase c, i, False), w\<lparr>pos := ?p0 + tk_len (TVar c i)\<rparr>)"
    using parse_var_num [of T len ?w0 c i] tv assms(4-6) by (simp add: skip_idem)
  have s2: "stream T len (pos ?w2) (render 0 e) q" using ts by simp
  have e2: "eval (expr_clear_error (env ?w2)) e (spool_pos (env ?w2)) = Some (SN n, m)" using assms(8) by simp
  obtain v s p where ev: "eval_expr T len ?w2 = Some (v, ?w2\<lparr>env := s, pos := p\<rparr>)" and v: "vrep s v (SN n)"
    and ex: "ext (expr_clear_error (env ?w2)) s" and sk: "skip_spaces T len p = skip_spaces T len q"
    and ne: "\<not> expr_error s"
    by (rule eval_expr_correct [OF assms(1) s2 assms(7) e2])
  have asn: "stmt_assign T len ?w0 = Some (set_num (upcase c) i n (w\<lparr>env := s, pos := p\<rparr>))"
    using v ne
    by (simp add: stmt_assign_def Let_def pv skip_sp_def tok_here_def pk advance_def ev [simplified] vrep_def)
  have "exec_statement (Suc d) T len w = stmt_assign T len ?w0"
    using l0 c0 letter_tokens [OF assms(4)] assms(2,4)
    by (simp add: Let_def skip_sp_def poll_no_keys)
  moreover have "set_num (upcase c) i n (w\<lparr>env := s, pos := p\<rparr>) =
      w\<lparr>env := s\<lparr>num_vars := (num_vars (env w))(slot := n)\<rparr>, pos := p\<rparr>"
    using ex assms(9) by (simp add: set_num_def ext_def expr_clear_error_def)
  ultimately show ?thesis
    using asn ex sk by (auto simp: ext_def expr_clear_error_def)
qed

theorem assignment_correct_witness:
  "\<exists>s p. exec_statement (Suc 0) (arr_of [65, EQ, TOK_NUM, 7, 0, 0, 0] (\<lambda>_. 0)) 7 (sample_xw []) =
      Some ((sample_xw [])\<lparr>env := s\<lparr>num_vars := (\<lambda>_. 0)(0 := 7)\<rparr>, pos := p\<rparr>)"
proof -
  let ?T = "arr_of [65, EQ, TOK_NUM, 7, 0, 0, 0] (\<lambda>_. 0)"
  have "stream ?T 7 (pos (sample_xw [])) (TVar 65 (-1) # TTok EQ # render 0 (ENum 7)) 7"
    by (simp add: sample_xw_def skip_spaces.simps arr_of_def tk_at_def tk_len_def num_of_bytes_def peek_tok_def is_digit_def)
  moreover have "follow 0 (nxt ?T 7 7)"
    by (simp add: nxt_def peek_tok_def skip_spaces.simps follow_def is_op_def is_comparison_def)
  ultimately show ?thesis
    using assignment_correct [of 7 "sample_xw []" ?T 65 "-1" "ENum 7" 7 7 "0" 0 0]
    by (simp add: is_letter_def is_upper_def upcase_def var_num_def expr_clear_error_def)
       (auto simp: sample_xw_def sample_env_def)
qed

section \<open>GOTO\<close>

text \<open>The bytes of a line in the program buffer, as RUN hands them to the statements.\<close>

lemma line_bytes:
  assumes "prog_rep P (xs @ l # ys)" and "i < length (snd l)"
  shows "prog_buf P (length (enc_prog xs) + 3 + i) = snd l ! i"
  using line_at(4) [OF assms(1)] assms(2) by (metis nth_seg)

definition goto_line :: "nat \<Rightarrow> byte list" where
  "goto_line m = TOK_GOTO # TOK_NUM # num_bytes (word_of_nat m)"

lemma skip_last: "skip_spaces T len p = q \<Longrightarrow> p < q \<Longrightarrow> T (q - 1) = SP"
proof (induction T len p rule: skip_spaces.induct)
  case (1 T len p)
  show ?case
  proof (cases "p < len \<and> T p = SP")
    case True
    then have "skip_spaces T len (p + 1) = q" using "1.prems" skip_spaces.simps [of T len p] by simp
    moreover have "p + 1 < q \<or> q = p + 1" using "1.prems"(2) by linarith
    ultimately show ?thesis using "1.IH" [OF True] True by auto
  next
    case False
    then show ?thesis using "1.prems" skip_stop by auto
  qed
qed

lemma goto_statement:
  assumes "\<And>i. i < 6 \<Longrightarrow> T i = goto_line m ! i" and "m < 65536" and "keys w = []" and "pos w = 0"
    and "prog_rep (prg w) ls" and "m \<in> fst ` set ls"
  shows "\<exists>s. exec_statement (Suc d) T 6 w =
    Some (w\<lparr>env := s, pos := 6, current_line := Some (length (enc_prog (before m ls))), jumped := True\<rparr>)"
proof -
  obtain b0 b1 b2 b3 where b: "num_bytes (word_of_nat m) = [b0, b1, b2, b3]" by (simp add: num_bytes_def)
  have T: "T 0 = TOK_GOTO" "T 1 = TOK_NUM" "T 2 = b0" "T 3 = b1" "T 4 = b2" "T 5 = b3"
    using assms(1) [of 0] assms(1) [of 1] assms(1) [of 2] assms(1) [of 3] assms(1) [of 4] assms(1) [of 5]
    by (simp_all add: goto_line_def b)
  have b3: "b3 \<noteq> SP"
  proof -
    have "b3 = ucast (drop_bit 24 (word_of_nat m :: i32) AND 0xFF)" using b by (simp add: num_bytes_def)
    moreover have "drop_bit 24 (word_of_nat m :: i32) = 0"
    proof -
      have "unat (word_of_nat m :: i32) = m" using assms(2) by (simp add: unat_of_nat)
      then have "unat (drop_bit 24 (word_of_nat m :: i32)) = 0"
        using assms(2) by (simp only: unsigned_drop_bit_eq) (simp add: drop_bit_eq_div take_bit_nat_eq_self)
      then show ?thesis by (rule unat_eq_zero [THEN iffD1])
    qed
    ultimately show ?thesis by simp
  qed
  have num: "num_of_bytes b0 b1 b2 b3 = word_of_nat m" by (rule num_of_bytes_inverse [OF b])
  have s0: "skip_spaces T 6 0 = 0" and s1: "skip_spaces T 6 1 = 1" and s6: "skip_spaces T 6 6 = 6"
    using T by (simp_all add: skip_stop)
  let ?w1 = "w\<lparr>pos := 1\<rparr>"
  have st: "stream T 6 (pos ?w1) (render 0 (ENum (word_of_nat m))) 6"
    using T s1 num by (simp add: tk_at_def tk_len_def eval_nat_numeral)
  have fo: "follow 0 (nxt T 6 6)"
    by (simp add: nxt_def s6 peek_tok_def follow_def is_op_def is_comparison_def)
  have ev0: "eval (expr_clear_error (env ?w1)) (ENum (word_of_nat m)) (spool_pos (env ?w1)) = Some (SN (word_of_nat m), spool_pos (env w))"
    by simp
  obtain v s p where ev: "eval_expr T 6 ?w1 = Some (v, ?w1\<lparr>env := s, pos := p\<rparr>)" and v: "vrep s v (SN (word_of_nat m))"
    and sk: "skip_spaces T 6 p = skip_spaces T 6 6" and ne: "\<not> expr_error s"
    by (rule eval_expr_correct [OF _ st fo ev0]) simp_all
  have p: "p = 6"
    using sk skip_last [of T 6 p 6] skip_ge [of p T 6] T(6) b3 unfolding s6 by fastforce
  obtain l where l: "prog_find_line (prg w) m = Some (Some l)" and off: "l = length (enc_prog (before m ls))"
    using find_line_rep [OF assms(5), of m] assms(6) by simp
  have "unat (word_of_nat m :: i32) mod 65536 = m" using assms(2) by (simp add: unat_of_nat)
  then have "jump_to (word_of_nat m) (w\<lparr>env := s, pos := 6\<rparr>) =
      Some (w\<lparr>env := s, pos := 6, current_line := Some l, jumped := True\<rparr>)"
    using l by (simp add: jump_to_def)
  then have "stmt_goto T 6 w = Some (w\<lparr>env := s, pos := 6, current_line := Some l, jumped := True\<rparr>)"
    using ev v ne assms(4) by (simp add: stmt_goto_def eval_num_def advance_def vrep_def p)
  moreover have wp: "stmt_goto T 6 (w\<lparr>pos := 0\<rparr>) = stmt_goto T 6 w"
    using assms(4) by (intro arg_cong [where f = "stmt_goto T 6"]) simp
  have "exec_statement (Suc d) T 6 w = stmt_goto T 6 w"
    using T(1) s0 assms(3,4) by (simp add: wp Let_def skip_sp_def poll_no_keys is_letter_def is_upper_def)
  ultimately show ?thesis using off by auto
qed

lemma line_len:
  assumes "prog_rep P (xs @ l # ys)"
  shows "u8 (prog_line_length P (length (enc_prog xs)) + 253) = length (snd l)"
  using line_at(2) [OF assms] assms by (simp add: prog_line_length_def prog_rep_def line_valid_def u8_def)

lemma line_rounds: "line_loop LINE_ROUNDS T len w =
    (if \<not> (pos w < len \<and> running w \<and> \<not> has_error w) then Some w
     else
       let w = skip_sp T len w in
       if pos w \<ge> len then Some w
       else if T (pos w) = COLON then line_loop 8447 T len (advance w)
       else case exec_statement LOOPS T len w of
         None \<Rightarrow> None
       | Some w1 \<Rightarrow> if jumped w1 then Some w1 else line_loop 8447 T len w1)"
proof -
  have r: "LINE_ROUNDS = Suc 8447" by (simp add: LINE_ROUNDS_def)
  show ?thesis unfolding r by (rule line_loop.simps(2))
qed

lemma loops_Suc: "LOOPS = Suc 255"
  by (simp add: LOOPS_def)

lemma goto_resumes:
  assumes rep: "prog_rep (prg w) (xs @ (n, goto_line m) # ys)" and cur: "current_line w = Some (length (enc_prog xs))"
    and run: "running w" "\<not> has_error w" and keys: "keys w = []"
    and m: "m \<in> fst ` set (xs @ (n, goto_line m) # ys)"
  shows "\<exists>e. run_loop 0 w = run_loop 6 (w\<lparr>env := e, pos := 6,
      current_line := Some (length (enc_prog (before m (xs @ (n, goto_line m) # ys)))), jumped := True\<rparr>)"
proof -
  let ?T = "\<lambda>i. prog_buf (prg w) (length (enc_prog xs) + 3 + i)"
  let ?w = "w\<lparr>jumped := False, env := string_pool_reset (env w), pos := 0\<rparr>"
  have len: "length (goto_line m) = 6" by (simp add: goto_line_def num_bytes_def)
  have T: "?T i = goto_line m ! i" if "i < 6" for i
    using line_bytes [OF rep, of i] that len by simp
  have m16: "m < 65536" using rep m by (auto simp: prog_rep_def line_valid_def list_all_iff)
  obtain s where st: "exec_statement LOOPS ?T 6 ?w = Some (?w\<lparr>env := s, pos := 6,
      current_line := Some (length (enc_prog (before m (xs @ (n, goto_line m) # ys)))), jumped := True\<rparr>)"
    using goto_statement [of ?T m ?w "xs @ (n, goto_line m) # ys" 255] T m16 keys rep m unfolding loops_Suc by auto
  have T0: "?T 0 = TOK_GOTO" using T [of 0] by (simp add: goto_line_def)
  then have s0: "skip_spaces ?T 6 0 = 0" by (intro skip_stop) simp
  have "exec_line_at ?T 6 0 (w\<lparr>jumped := False\<rparr>) = Some (?w\<lparr>env := s, pos := 6,
      current_line := Some (length (enc_prog (before m (xs @ (n, goto_line m) # ys)))), jumped := True\<rparr>)"
    using st T0 run by (simp add: exec_line_at_def line_rounds skip_sp_def s0)
  then have "run_loop 0 w = run_loop 6 (?w\<lparr>env := s, pos := 6,
      current_line := Some (length (enc_prog (before m (xs @ (n, goto_line m) # ys)))), jumped := True\<rparr>)"
    using line_len [OF rep] len run cur by (subst run_loop.simps) simp
  then show ?thesis by auto
qed

text \<open>
  C35: RUN continues after a GOTO in the middle of the line it jumps to: with the line
  \<open>GOTO m\<close> (a byte for GOTO and five for the number), the target line is entered at position 6, so a
  target of at most six token bytes, such as \<open>CLS\<close>, \<open>END\<close> or \<open>RETURN\<close>, is not executed at all, and the
  run goes on with the line behind it.
\<close>

theorem goto_skips_target:
  assumes "prog_rep (prg w) (xs @ (n, goto_line m) # ys)" and "current_line w = Some (length (enc_prog xs))"
    and "running w" and "\<not> has_error w" and "keys w = []"
    and "xs @ (n, goto_line m) # ys = us @ (m, t) # vs" and "length t \<le> 6"
  shows "\<exists>e. run_loop 0 w = run_loop 0 (w\<lparr>pos := 6, jumped := False, env := e,
      current_line := (if vs = [] then None else Some (length (enc_prog (us @ [(m, t)]))))\<rparr>)"
proof -
  let ?ls = "xs @ (n, goto_line m) # ys"
  have rep: "prog_rep (prg w) (us @ (m, t) # vs)" using assms(1,6) by simp
  have "before m ?ls = us"
    using rep unfolding assms(6) prog_rep_def before_def
    by (auto simp: sorted_wrt_append takeWhile_append)
  moreover have "m \<in> fst ` set ?ls" unfolding assms(6) by simp
  ultimately obtain e where e: "run_loop 0 w = run_loop 6 (w\<lparr>env := e, pos := 6,
      current_line := Some (length (enc_prog us)), jumped := True\<rparr>)"
    using goto_resumes [OF assms(1-5)] by auto
  let ?w = "w\<lparr>env := e, pos := 6, current_line := Some (length (enc_prog us)), jumped := True\<rparr>"
  let ?T = "\<lambda>i. prog_buf (prg w) (length (enc_prog us) + 3 + i)"
  have "exec_line_at ?T (length t) 6 (?w\<lparr>jumped := False\<rparr>) =
      Some (?w\<lparr>jumped := False, env := string_pool_reset e\<rparr>)"
    using assms(7) by (simp add: exec_line_at_def line_rounds)
  then have "run_loop 6 ?w = run_loop 0 (w\<lparr>pos := 6, jumped := False, env := string_pool_reset e,
      current_line := prog_next_line (prg w) (length (enc_prog us))\<rparr>)"
    using line_len [OF rep] assms(3,4) by (subst run_loop.simps) simp
  then show ?thesis using e line_at(3) [OF rep] by auto
qed

definition goto_prog :: "line list" where
  "goto_prog = [(10, goto_line 20), (20, [TOK_CLS])]"

theorem goto_skips_target_witness:
  "\<exists>e. run_loop 0 ((sample_xw [])\<lparr>prg := \<lparr>prog_buf = arr_of (enc_prog goto_prog) (\<lambda>_. 0), prog_end = 13\<rparr>,
       current_line := Some 0, running := True\<rparr>) =
     Some ((sample_xw [])\<lparr>prg := \<lparr>prog_buf = arr_of (enc_prog goto_prog) (\<lambda>_. 0), prog_end = 13\<rparr>,
       running := True, pos := 6, env := e, current_line := None\<rparr>)"
proof -
  let ?w = "(sample_xw [])\<lparr>prg := \<lparr>prog_buf = arr_of (enc_prog goto_prog) (\<lambda>_. 0), prog_end = 13\<rparr>,
       current_line := Some 0, running := True\<rparr>"
  have len: "length (enc_prog goto_prog) = 13" by (simp add: goto_prog_def goto_line_def num_bytes_def)
  have "prog_rep (prg ?w) goto_prog"
    using seg_arr_of [of "enc_prog goto_prog" "\<lambda>_. 0"] len
    by (simp add: prog_rep_def PROG_SIZE_def) (simp add: goto_prog_def line_valid_def goto_line_def num_bytes_def)
  then have "prog_rep (prg ?w) ([] @ (10, goto_line 20) # [(20, [TOK_CLS])])" by (simp add: goto_prog_def)
  from goto_skips_target [OF this, where us = "[(10, goto_line 20)]" and vs = "[]" and t = "[TOK_CLS]"]
  obtain e where e: "run_loop 0 ?w = run_loop 0 (?w\<lparr>pos := 6, jumped := False, env := e, current_line := None\<rparr>)"
    by (auto simp: sample_xw_def)
  also have "\<dots> = Some (?w\<lparr>pos := 6, jumped := False, env := e, current_line := None\<rparr>)"
    by (subst run_loop.simps) simp
  finally show ?thesis by (auto simp: sample_xw_def)
qed

end
