(* ===== verification/CLexer.thy ===== *)
theory CLexer
  imports CString
begin

text \<open>
  The lexer of the C compiler, \<open>kernel/cc/lexer.c\<close> and \<open>token.h\<close>.

  \<^item> \<open>inp\<close> is the source from \<open>pos\<close> on: \<open>pos < src_len\<close> is \<open>inp \<noteq> []\<close> and \<open>src[pos]\<close> its head.
  \<^item> \<open>cur_str\<close> is the contents of the string buffer, \<open>cur_str_len\<close> its length; the C string in it
    ends at the first NUL (\<open>lex_str_val\<close>), which a string literal may contain.
  \<^item> A token value is an \<open>int\<close>: number literals wrap, a character literal is sign extended.
\<close>

section \<open>Tokens\<close>

datatype (plugins only: code size) ctok =
    TOK_INT | TOK_CHAR | TOK_VOID | TOK_IF | TOK_ELSE | TOK_WHILE
  | TOK_FOR | TOK_DO | TOK_RETURN | TOK_BREAK | TOK_CONTINUE
  | TOK_NUM_LIT | TOK_STR_LIT | TOK_CHAR_LIT | TOK_IDENT
  | TOK_PLUS | TOK_MINUS | TOK_STAR | TOK_SLASH | TOK_PERCENT
  | TOK_AMP | TOK_PIPE | TOK_CARET | TOK_TILDE | TOK_BANG
  | TOK_AND | TOK_OR | TOK_EQ | TOK_NE | TOK_LT | TOK_GT | TOK_LE | TOK_GE
  | TOK_SHL | TOK_SHR | TOK_ASSIGN
  | TOK_PLUSEQ | TOK_MINUSEQ | TOK_STAREQ | TOK_SLASHEQ | TOK_INC | TOK_DEC
  | TOK_LPAREN | TOK_RPAREN | TOK_LBRACE | TOK_RBRACE | TOK_LBRACKET | TOK_RBRACKET
  | TOK_SEMI | TOK_COMMA | TOK_EOF

definition LEX_IDENT_MAX :: nat where "LEX_IDENT_MAX = 63"
definition LEX_STR_MAX :: nat where "LEX_STR_MAX = 255"

record lexst =
  inp :: "byte list"
  lex_line :: nat
  cur_tok :: ctok
  cur_num :: i32
  cur_str :: "byte list"
  has_peeked :: bool

section \<open>Characters\<close>

definition c_alpha :: "byte \<Rightarrow> bool" where
  "c_alpha c \<longleftrightarrow> (97 \<le> c \<and> c \<le> 122) \<or> (65 \<le> c \<and> c \<le> 90) \<or> c = 95"

definition c_digit :: "byte \<Rightarrow> bool" where
  "c_digit c \<longleftrightarrow> 48 \<le> c \<and> c \<le> 57"

definition c_hex :: "byte \<Rightarrow> bool" where
  "c_hex c \<longleftrightarrow> c_digit c \<or> (97 \<le> c \<and> c \<le> 102) \<or> (65 \<le> c \<and> c \<le> 70)"

definition c_alnum :: "byte \<Rightarrow> bool" where
  "c_alnum c \<longleftrightarrow> c_alpha c \<or> c_digit c"

definition c_space :: "byte \<Rightarrow> bool" where
  "c_space c \<longleftrightarrow> c = 32 \<or> c = 9 \<or> c = 13 \<or> c = 10"

text \<open>\<open>next_char\<close> counts the newlines it passes.\<close>

definition bump :: "byte \<Rightarrow> nat \<Rightarrow> nat" where
  "bump c l = (if c = 10 then l + 1 else l)"

section \<open>Blanks and comments\<close>

fun skip_block :: "byte list \<Rightarrow> nat \<Rightarrow> byte list \<times> nat" where
  "skip_block (c # d # r) l =
    (if c = 42 \<and> d = 47 then (r, bump c l) else skip_block (d # r) (bump c l))"
| "skip_block s l = (s, l)"

lemma skip_block_shorter: "length (fst (skip_block s l)) \<le> length s"
  by (induction s l rule: skip_block.induct) auto

lemma skip_block_tl: "(case skip_block (tl r) l of (s, l) \<Rightarrow> length s) \<le> length r"
  using skip_block_shorter [of "tl r" l] by (simp add: case_prod_beta)

function skip_whitespace :: "byte list \<Rightarrow> nat \<Rightarrow> byte list \<times> nat" where
  "skip_whitespace [] l = ([], l)"
| "skip_whitespace (c # r) l =
    (if c_space c then skip_whitespace r (bump c l)
     else if c = 47 \<and> r \<noteq> [] \<and> hd r = 47 then skip_whitespace (dropWhile (\<lambda>d. d \<noteq> 10) r) l
     else if c = 47 \<and> r \<noteq> [] \<and> hd r = 42 then
       (case skip_block (tl r) l of (r', l') \<Rightarrow> skip_whitespace r' l')
     else (c # r, l))"
  by pat_completeness auto
termination
  by (relation "measure (\<lambda>(s, l). length s)")
    (auto simp: less_Suc_eq_le length_dropWhile_le skip_block_tl dest!: arg_cong [where f = fst])

section \<open>Literals and names\<close>

definition escape :: "byte \<Rightarrow> byte" where
  "escape c = (if c = 110 then 10 else if c = 116 then 9 else if c = 114 then 13 else if c = 48 then 0 else c)"

fun scan_dec :: "byte list \<Rightarrow> i32 \<Rightarrow> byte list \<times> i32" where
  "scan_dec [] n = ([], n)"
| "scan_dec (c # r) n = (if c_digit c then scan_dec r (n * 10 + (ucast c - 48)) else (c # r, n))"

definition hex_val :: "byte \<Rightarrow> i32" where
  "hex_val h =
    (if 48 \<le> h \<and> h \<le> 57 then ucast h - 48 else if 97 \<le> h \<and> h \<le> 102 then ucast h - 97 + 10
     else ucast h - 65 + 10)"

fun scan_hex :: "byte list \<Rightarrow> i32 \<Rightarrow> byte list \<times> i32" where
  "scan_hex [] n = ([], n)"
| "scan_hex (c # r) n = (if c_hex c then scan_hex r (n * 16 + hex_val c) else (c # r, n))"

definition scan_number :: "byte \<Rightarrow> byte list \<Rightarrow> byte list \<times> i32" where
  "scan_number c r =
    (if c = 48 \<and> r \<noteq> [] \<and> (hd r = 120 \<or> hd r = 88) then scan_hex (tl r) 0
     else scan_dec r (ucast c - 48))"

text \<open>\<open>scan_ident n s\<close>: at most \<open>n\<close> more characters of a name, and the rest.\<close>

fun scan_ident :: "nat \<Rightarrow> byte list \<Rightarrow> byte list \<times> byte list" where
  "scan_ident (Suc n) (c # r) =
    (if c_alnum c then (case scan_ident n r of (w, r') \<Rightarrow> (c # w, r')) else ([], c # r))"
| "scan_ident n r = ([], r)"

definition cc_keywords :: "(byte list \<times> ctok) list" where
  "cc_keywords =
    [(bytes_of ''int'', TOK_INT), (bytes_of ''char'', TOK_CHAR), (bytes_of ''void'', TOK_VOID),
     (bytes_of ''if'', TOK_IF), (bytes_of ''else'', TOK_ELSE), (bytes_of ''while'', TOK_WHILE),
     (bytes_of ''for'', TOK_FOR), (bytes_of ''do'', TOK_DO), (bytes_of ''return'', TOK_RETURN),
     (bytes_of ''break'', TOK_BREAK), (bytes_of ''continue'', TOK_CONTINUE)]"

definition check_keyword :: "byte list \<Rightarrow> ctok" where
  "check_keyword s = (case map_of cc_keywords s of Some t \<Rightarrow> t | None \<Rightarrow> TOK_IDENT)"

text \<open>
  A string literal after its opening quote: the rest (from the closing quote on), the line and the
  characters. A backslash at the end of the source escapes the NUL \<open>next_char\<close> returns there.
\<close>

fun scan_str :: "byte list \<Rightarrow> nat \<Rightarrow> byte list \<Rightarrow> byte list \<times> nat \<times> byte list" where
  "scan_str [] l a = ([], l, a)"
| "scan_str [c] l a =
    (if c = 34 then ([c], l, a) else if c = 92 then ([], l, a @ [escape 0]) else ([], bump c l, a @ [c]))"
| "scan_str (c # d # r) l a =
    (if c = 34 then (c # d # r, l, a)
     else if c = 92 then
       (if length a + 1 \<ge> LEX_STR_MAX then (r, bump d l, a @ [escape d])
        else scan_str r (bump d l) (a @ [escape d]))
     else if length a + 1 \<ge> LEX_STR_MAX then (d # r, bump c l, a @ [c])
     else scan_str (d # r) (bump c l) (a @ [c]))"

definition skip_quote :: "byte list \<times> nat \<times> byte list \<Rightarrow> byte list \<times> nat \<times> byte list" where
  "skip_quote x = (case x of (s, l, a) \<Rightarrow> if s = [] then ([], l, a) else (tl s, bump (hd s) l, a))"

text \<open>A character literal after its quote: the rest, the line and the character.\<close>

definition scan_char :: "byte list \<Rightarrow> nat \<Rightarrow> byte list \<times> nat \<times> byte" where
  "scan_char s l =
    (case (case s of
             [] \<Rightarrow> ([], l, 0)
           | c # r \<Rightarrow>
               if c = 92 then (case r of [] \<Rightarrow> ([], l, escape 0) | d # r' \<Rightarrow> (r', bump d l, escape d))
               else (r, bump c l, c)) of
       (s', l', v) \<Rightarrow> (if s' \<noteq> [] \<and> hd s' = 39 then tl s' else s', l', v))"

section \<open>Operators\<close>

definition followed :: "byte list \<Rightarrow> byte \<Rightarrow> bool" where
  "followed r d \<longleftrightarrow> r \<noteq> [] \<and> hd r = d"

definition scan_op :: "byte \<Rightarrow> byte list \<Rightarrow> ctok \<times> byte list" where
  "scan_op c r =
    (if c = 43 then
       (if followed r 43 then (TOK_INC, tl r) else if followed r 61 then (TOK_PLUSEQ, tl r) else (TOK_PLUS, r))
     else if c = 45 then
       (if followed r 45 then (TOK_DEC, tl r) else if followed r 61 then (TOK_MINUSEQ, tl r) else (TOK_MINUS, r))
     else if c = 42 then (if followed r 61 then (TOK_STAREQ, tl r) else (TOK_STAR, r))
     else if c = 47 then (if followed r 61 then (TOK_SLASHEQ, tl r) else (TOK_SLASH, r))
     else if c = 37 then (TOK_PERCENT, r)
     else if c = 38 then (if followed r 38 then (TOK_AND, tl r) else (TOK_AMP, r))
     else if c = 124 then (if followed r 124 then (TOK_OR, tl r) else (TOK_PIPE, r))
     else if c = 94 then (TOK_CARET, r)
     else if c = 126 then (TOK_TILDE, r)
     else if c = 33 then (if followed r 61 then (TOK_NE, tl r) else (TOK_BANG, r))
     else if c = 61 then (if followed r 61 then (TOK_EQ, tl r) else (TOK_ASSIGN, r))
     else if c = 60 then
       (if followed r 61 then (TOK_LE, tl r) else if followed r 60 then (TOK_SHL, tl r) else (TOK_LT, r))
     else if c = 62 then
       (if followed r 61 then (TOK_GE, tl r) else if followed r 62 then (TOK_SHR, tl r) else (TOK_GT, r))
     else if c = 40 then (TOK_LPAREN, r) else if c = 41 then (TOK_RPAREN, r)
     else if c = 123 then (TOK_LBRACE, r) else if c = 125 then (TOK_RBRACE, r)
     else if c = 91 then (TOK_LBRACKET, r) else if c = 93 then (TOK_RBRACKET, r)
     else if c = 59 then (TOK_SEMI, r) else if c = 44 then (TOK_COMMA, r)
     else (TOK_EOF, r))"

section \<open>The scanner\<close>

definition lex_scan :: "lexst \<Rightarrow> ctok \<times> lexst" where
  "lex_scan s =
    (case skip_whitespace (inp s) (lex_line s) of
       ([], l) \<Rightarrow> (TOK_EOF, s\<lparr>inp := [], lex_line := l\<rparr>)
     | (c # r, l) \<Rightarrow>
         if c_digit c then
           (case scan_number c r of (r', n) \<Rightarrow> (TOK_NUM_LIT, s\<lparr>inp := r', lex_line := l, cur_num := n\<rparr>))
         else if c_alpha c then
           (case scan_ident (LEX_IDENT_MAX - 1) r of
              (w, r') \<Rightarrow> (check_keyword (c # w), s\<lparr>inp := r', lex_line := l, cur_str := c # w\<rparr>))
         else if c = 34 then
           (case skip_quote (scan_str r l []) of
              (r', l', a) \<Rightarrow> (TOK_STR_LIT, s\<lparr>inp := r', lex_line := l', cur_str := a\<rparr>))
         else if c = 39 then
           (case scan_char r l of
              (r', l', v) \<Rightarrow> (TOK_CHAR_LIT, s\<lparr>inp := r', lex_line := l', cur_num := scast v\<rparr>))
         else (case scan_op c r of (t, r') \<Rightarrow> (t, s\<lparr>inp := r', lex_line := l\<rparr>)))"

definition lex_init :: "byte list \<Rightarrow> lexst" where
  "lex_init source = \<lparr>inp = source, lex_line = 1, cur_tok = TOK_EOF, cur_num = 0, cur_str = [], has_peeked = False\<rparr>"

definition lex_next :: "lexst \<Rightarrow> ctok \<times> lexst" where
  "lex_next s =
    (if has_peeked s then (cur_tok s, s\<lparr>has_peeked := False\<rparr>)
     else case lex_scan s of (t, s') \<Rightarrow> (t, s'\<lparr>cur_tok := t\<rparr>))"

definition lex_peek :: "lexst \<Rightarrow> ctok \<times> lexst" where
  "lex_peek s =
    (if has_peeked s then (cur_tok s, s)
     else case lex_scan s of (t, s') \<Rightarrow> (t, s'\<lparr>cur_tok := t, has_peeked := True\<rparr>))"

definition lex_str_val :: "lexst \<Rightarrow> byte list" where
  "lex_str_val s = takeWhile (\<lambda>c. c \<noteq> 0) (cur_str s)"

end
