(* ===== verification/CSym.thy ===== *)
theory CSym
  imports CString
begin

text \<open>
  The symbol tables of the C compiler, \<open>kernel/cc/sym.c\<close>: one of global symbols and one of the
  parameters and variables of the function being compiled.

  \<^item> A table is the list of its entries in use; a \<open>struct symbol *\<close> is the table and the index
    (\<open>symref\<close>), NULL is \<^const>\<open>None\<close>.
  \<^item> A name is the C string (no NUL). Entries keep its first 23 characters.
\<close>

section \<open>State\<close>

definition SYM_MAX_GLOBAL :: nat where "SYM_MAX_GLOBAL = 128"
definition SYM_MAX_LOCAL :: nat where "SYM_MAX_LOCAL = 32"
definition SYM_NAME_MAX :: nat where "SYM_NAME_MAX = 23"

datatype skind = SYM_GLOBAL_VAR | SYM_LOCAL_VAR | SYM_FUNCTION | SYM_PARAM
datatype dtype = DT_INT | DT_CHAR | DT_VOID | DT_PTR_INT | DT_PTR_CHAR

record symbol =
  sname :: "byte list"
  skind :: skind
  stype :: dtype
  soffset :: i32
  ssize :: i32
  sdefined :: bool

datatype symref = Glob nat | Loc nat

record symtab =
  globals :: "symbol list"
  locals :: "symbol list"
  locals_offset :: i32

section \<open>Operations\<close>

definition sym_init :: "symtab" where
  "sym_init = \<lparr>globals = [], locals = [], locals_offset = 0\<rparr>"

definition sym_at :: "symtab \<Rightarrow> symref \<Rightarrow> symbol" where
  "sym_at t r = (case r of Glob i \<Rightarrow> globals t ! i | Loc i \<Rightarrow> locals t ! i)"

definition sym_update :: "symref \<Rightarrow> (symbol \<Rightarrow> symbol) \<Rightarrow> symtab \<Rightarrow> symtab" where
  "sym_update r f t =
    (case r of
       Glob i \<Rightarrow> t\<lparr>globals := (globals t)[i := f (globals t ! i)]\<rparr>
     | Loc i \<Rightarrow> t\<lparr>locals := (locals t)[i := f (locals t ! i)]\<rparr>)"

definition sym_add_global :: "byte list \<Rightarrow> skind \<Rightarrow> dtype \<Rightarrow> symtab \<Rightarrow> symref option \<times> symtab" where
  "sym_add_global name k dt t =
    (if length (globals t) \<ge> SYM_MAX_GLOBAL then (None, t)
     else (Some (Glob (length (globals t))),
       t\<lparr>globals := globals t @
          [\<lparr>sname = take SYM_NAME_MAX name, skind = k, stype = dt, soffset = 0, ssize = 0, sdefined = False\<rparr>]\<rparr>))"

fun find_name :: "symbol list \<Rightarrow> byte list \<Rightarrow> nat \<Rightarrow> nat option" where
  "find_name [] name i = None"
| "find_name (s # ss) name i = (if sname s = name then Some i else find_name ss name (i + 1))"

definition sym_find_global :: "symtab \<Rightarrow> byte list \<Rightarrow> symref option" where
  "sym_find_global t name = map_option Glob (find_name (globals t) name 0)"

definition sym_find_local :: "symtab \<Rightarrow> byte list \<Rightarrow> symref option" where
  "sym_find_local t name = map_option Loc (find_name (locals t) name 0)"

definition sym_find :: "symtab \<Rightarrow> byte list \<Rightarrow> symref option" where
  "sym_find t name = (case sym_find_local t name of Some r \<Rightarrow> Some r | None \<Rightarrow> sym_find_global t name)"

definition sym_begin_locals :: "symtab \<Rightarrow> symtab" where
  "sym_begin_locals t = t\<lparr>locals := [], locals_offset := 0\<rparr>"

text \<open>The loop that recounts the parameters: the \<open>k\<close>-th one is at \<open>8 + 4 * k\<close>.\<close>

fun number_params :: "symbol list \<Rightarrow> i32 \<Rightarrow> symbol list" where
  "number_params [] k = []"
| "number_params (s # ss) k =
    (if skind s = SYM_PARAM then s\<lparr>soffset := 8 + k * 4\<rparr> # number_params ss (k + 1)
     else s # number_params ss k)"

definition sym_add_local :: "byte list \<Rightarrow> skind \<Rightarrow> dtype \<Rightarrow> symtab \<Rightarrow> symref option \<times> symtab" where
  "sym_add_local name k dt t =
    (if length (locals t) \<ge> SYM_MAX_LOCAL then (None, t)
     else
       let n = length (locals t);
           s = \<lparr>sname = take SYM_NAME_MAX name, skind = k, stype = dt, soffset = 8 + word_of_nat n * 4,
                ssize = 0, sdefined = True\<rparr>
       in (Some (Loc n),
           if k = SYM_PARAM then t\<lparr>locals := number_params (locals t @ [s]) 0\<rparr>
           else t\<lparr>locals := locals t @ [s\<lparr>soffset := - (locals_offset t + 4)\<rparr>],
                  locals_offset := locals_offset t + 4\<rparr>))"

definition sym_locals_size :: "symtab \<Rightarrow> i32" where
  "sym_locals_size t = locals_offset t"

end
