(* ===== verification/CCodegen.thy ===== *)
theory CCodegen
  imports CLexer CSym
begin

text \<open>
  The code generator of the C compiler, \<open>kernel/cc/codegen.c\<close>: x86 code is appended to a buffer of
  8192 bytes, jumps, calls and data references are recorded as fixups, and \<open>cg_output\<close> lays out
  the program (a jump to \<open>main\<close>, the code, the strings, the zeroed data) and patches them.

  \<^item> \<open>code\<close> and \<open>strings\<close> are the parts of the buffers in use, so \<open>code_pos\<close> is a length. Bytes that
    do not fit are dropped, as in the source.
  \<^item> The special label ids -2 and -3 are the constructors \<open>FGlobal\<close> and \<open>FSym\<close>.
\<close>

section \<open>State\<close>

definition CG_CODE_MAX :: nat where "CG_CODE_MAX = 8192"
definition CG_DATA_MAX :: nat where "CG_DATA_MAX = 4096"
definition CG_FIXUP_MAX :: nat where "CG_FIXUP_MAX = 256"
definition CG_LABEL_MAX :: nat where "CG_LABEL_MAX = 256"
definition CG_STRING_MAX :: nat where "CG_STRING_MAX = 2048"
definition CG_STR_FIXUP_MAX :: nat where "CG_STR_FIXUP_MAX = 128"
definition CG_LOAD_ADDR :: i32 where "CG_LOAD_ADDR = 0x200000"

datatype fix_kind = FLabel nat | FGlobal | FSym "symref option"

record fixup =
  code_offset :: nat
  label_id :: fix_kind

record cgst =
  code :: "byte list"
  strings :: "byte list"
  label_pos :: "nat \<Rightarrow> i32"
  num_labels :: nat
  fixups :: "fixup list"
  str_fixups :: "nat list"
  global_data_offset :: i32
  func_epilogue_label :: nat

definition cg_init :: "cgst \<Rightarrow> cgst" where
  "cg_init s = s\<lparr>code := [], strings := [], num_labels := 0, fixups := [], str_fixups := [],
     global_data_offset := 0, label_pos := (\<lambda>i. if i < CG_LABEL_MAX then - 1 else label_pos s i)\<rparr>"

section \<open>Emitting bytes\<close>

definition cg_emit_byte :: "byte \<Rightarrow> cgst \<Rightarrow> cgst" where
  "cg_emit_byte b s = (if length (code s) < CG_CODE_MAX then s\<lparr>code := code s @ [b]\<rparr> else s)"

definition dword_bytes :: "i32 \<Rightarrow> byte list" where
  "dword_bytes d = [ucast d, ucast (drop_bit 8 d), ucast (drop_bit 16 d), ucast (drop_bit 24 d)]"

text \<open>A sequence of \<open>cg_emit_byte\<close> calls.\<close>

definition emit :: "byte list \<Rightarrow> cgst \<Rightarrow> cgst" where
  "emit bs s = fold cg_emit_byte bs s"

definition cg_emit_dword :: "i32 \<Rightarrow> cgst \<Rightarrow> cgst" where
  "cg_emit_dword d s = emit (dword_bytes d) s"

definition add_fixup :: "fix_kind \<Rightarrow> cgst \<Rightarrow> cgst" where
  "add_fixup k s =
    (if length (fixups s) < CG_FIXUP_MAX
     then s\<lparr>fixups := fixups s @ [\<lparr>code_offset = length (code s), label_id = k\<rparr>]\<rparr> else s)"

definition emit_rel_jump :: "byte \<Rightarrow> nat \<Rightarrow> cgst \<Rightarrow> cgst" where
  "emit_rel_jump opcode label s = cg_emit_dword 0 (add_fixup (FLabel label) (cg_emit_byte opcode s))"

definition emit_rel_jump2 :: "byte \<Rightarrow> byte \<Rightarrow> nat \<Rightarrow> cgst \<Rightarrow> cgst" where
  "emit_rel_jump2 b1 b2 label s =
    cg_emit_dword 0 (add_fixup (FLabel label) (cg_emit_byte b2 (cg_emit_byte b1 s)))"

section \<open>Loads, stores and the stack\<close>

definition cg_load_num :: "i32 \<Rightarrow> cgst \<Rightarrow> cgst" where
  "cg_load_num v s = cg_emit_dword v (cg_emit_byte 0xB8 s)"

definition cg_load_global :: "i32 \<Rightarrow> cgst \<Rightarrow> cgst" where
  "cg_load_global addr s = cg_emit_dword addr (add_fixup FGlobal (cg_emit_byte 0xA1 s))"

definition cg_load_local :: "i32 \<Rightarrow> cgst \<Rightarrow> cgst" where
  "cg_load_local off s = cg_emit_dword off (emit [0x8B, 0x85] s)"

definition cg_lea_local :: "i32 \<Rightarrow> cgst \<Rightarrow> cgst" where
  "cg_lea_local off s = cg_emit_dword off (emit [0x8D, 0x85] s)"

definition cg_store_global :: "i32 \<Rightarrow> cgst \<Rightarrow> cgst" where
  "cg_store_global addr s = cg_emit_dword addr (add_fixup FGlobal (cg_emit_byte 0xA3 s))"

definition cg_store_local :: "i32 \<Rightarrow> cgst \<Rightarrow> cgst" where
  "cg_store_local off s = cg_emit_dword off (emit [0x89, 0x85] s)"

definition cg_push :: "cgst \<Rightarrow> cgst" where "cg_push = emit [0x50]"
definition cg_pop_into_ecx :: "cgst \<Rightarrow> cgst" where "cg_pop_into_ecx = emit [0x59]"
definition cg_pop_to_eax :: "cgst \<Rightarrow> cgst" where "cg_pop_to_eax = emit [0x58]"

definition cg_add_esp :: "i32 \<Rightarrow> cgst \<Rightarrow> cgst" where
  "cg_add_esp n s = cg_emit_dword n (emit [0x81, 0xC4] s)"

section \<open>Operators\<close>

definition cg_add :: "cgst \<Rightarrow> cgst" where "cg_add = emit [0x01, 0xC8]"
definition cg_sub :: "cgst \<Rightarrow> cgst" where "cg_sub = emit [0x29, 0xC1, 0x89, 0xC8]"
definition cg_mul :: "cgst \<Rightarrow> cgst" where "cg_mul = emit [0x0F, 0xAF, 0xC1]"
definition cg_div :: "cgst \<Rightarrow> cgst" where "cg_div = emit [0x91, 0x99, 0xF7, 0xF9]"
definition cg_mod :: "cgst \<Rightarrow> cgst" where "cg_mod = emit [0x91, 0x99, 0xF7, 0xF9, 0x89, 0xD0]"
definition cg_bitand :: "cgst \<Rightarrow> cgst" where "cg_bitand = emit [0x21, 0xC8]"
definition cg_bitor :: "cgst \<Rightarrow> cgst" where "cg_bitor = emit [0x09, 0xC8]"
definition cg_bitxor :: "cgst \<Rightarrow> cgst" where "cg_bitxor = emit [0x31, 0xC8]"
definition cg_shl :: "cgst \<Rightarrow> cgst" where "cg_shl = emit [0x91, 0xD3, 0xE0]"
definition cg_shr :: "cgst \<Rightarrow> cgst" where "cg_shr = emit [0x91, 0xD3, 0xE8]"

definition cg_shl_imm :: "byte \<Rightarrow> cgst \<Rightarrow> cgst" where
  "cg_shl_imm bits = emit [0xC1, 0xE0, bits]"

definition cg_negate :: "cgst \<Rightarrow> cgst" where "cg_negate = emit [0xF7, 0xD8]"

definition cg_logical_not :: "cgst \<Rightarrow> cgst" where
  "cg_logical_not = emit [0x85, 0xC0, 0x0F, 0x94, 0xC0, 0x0F, 0xB6, 0xC0]"

definition cg_bitwise_not :: "cgst \<Rightarrow> cgst" where "cg_bitwise_not = emit [0xF7, 0xD0]"

definition setcc :: "ctok \<Rightarrow> byte" where
  "setcc op =
    (if op = TOK_EQ then 0x94 else if op = TOK_NE then 0x95 else if op = TOK_LT then 0x9C
     else if op = TOK_GT then 0x9F else if op = TOK_LE then 0x9E else if op = TOK_GE then 0x9D else 0x94)"

definition cg_cmp :: "ctok \<Rightarrow> cgst \<Rightarrow> cgst" where
  "cg_cmp op = emit [0x39, 0xC1, 0x0F, setcc op, 0xC0, 0x0F, 0xB6, 0xC0]"

definition cg_deref_dword :: "cgst \<Rightarrow> cgst" where "cg_deref_dword = emit [0x8B, 0x00]"
definition cg_deref_byte :: "cgst \<Rightarrow> cgst" where "cg_deref_byte = emit [0x0F, 0xB6, 0x00]"
definition cg_store_deref_dword :: "cgst \<Rightarrow> cgst" where "cg_store_deref_dword = emit [0x89, 0x01]"
definition cg_store_deref_byte :: "cgst \<Rightarrow> cgst" where "cg_store_deref_byte = emit [0x88, 0x01]"

section \<open>Labels and jumps\<close>

text \<open>With all 256 labels in use, \<open>cg_new_label\<close> hands out label 0 again.\<close>

definition cg_new_label :: "cgst \<Rightarrow> nat \<times> cgst" where
  "cg_new_label s =
    (if num_labels s \<ge> CG_LABEL_MAX then (0, s)
     else (num_labels s, s\<lparr>num_labels := num_labels s + 1, label_pos := (label_pos s)(num_labels s := - 1)\<rparr>))"

definition cg_label :: "nat \<Rightarrow> cgst \<Rightarrow> cgst" where
  "cg_label i s =
    (if i < CG_LABEL_MAX then s\<lparr>label_pos := (label_pos s)(i := word_of_nat (length (code s)))\<rparr> else s)"

definition cg_jump :: "nat \<Rightarrow> cgst \<Rightarrow> cgst" where "cg_jump l = emit_rel_jump 0xE9 l"

definition cg_jump_zero :: "nat \<Rightarrow> cgst \<Rightarrow> cgst" where
  "cg_jump_zero l s = emit_rel_jump2 0x0F 0x84 l (emit [0x85, 0xC0] s)"

definition cg_jump_nonzero :: "nat \<Rightarrow> cgst \<Rightarrow> cgst" where
  "cg_jump_nonzero l s = emit_rel_jump2 0x0F 0x85 l (emit [0x85, 0xC0] s)"

section \<open>Functions and calls\<close>

text \<open>The address of the function is also recorded in its symbol: \<open>parse_function\<close> does both.\<close>

definition cg_func_begin :: "cgst \<Rightarrow> cgst" where
  "cg_func_begin s =
    (case cg_new_label s of (l, s1) \<Rightarrow>
       emit [0x53, 0x56, 0x57]
        (cg_emit_dword 128 (emit [0x55, 0x89, 0xE5, 0x81, 0xEC] (s1\<lparr>func_epilogue_label := l\<rparr>))))"

definition cg_func_end :: "cgst \<Rightarrow> cgst" where
  "cg_func_end s = emit [0x5F, 0x5E, 0x5B, 0x89, 0xEC, 0x5D, 0xC3] (cg_label (func_epilogue_label s) s)"

definition cg_call_symbol :: "symref option \<Rightarrow> cgst \<Rightarrow> cgst" where
  "cg_call_symbol fn s = cg_emit_dword 0 (add_fixup (FSym fn) (cg_emit_byte 0xE8 s))"

definition cg_call_syscall :: "i32 \<Rightarrow> cgst \<Rightarrow> cgst" where
  "cg_call_syscall index s = emit [0xCD, 0x80] (cg_emit_dword index (emit [0x89, 0xE3, 0xB8] s))"

definition swap_code :: "nat \<Rightarrow> nat \<Rightarrow> byte list" where
  "swap_code n i =
    (let lo = word_of_nat (i * 4); hi = word_of_nat ((n - 1 - i) * 4) in
     [0x8B, 0x44, 0x24, lo, 0x8B, 0x4C, 0x24, hi, 0x89, 0x4C, 0x24, lo, 0x89, 0x44, 0x24, hi])"

definition cg_reverse_stack :: "nat \<Rightarrow> cgst \<Rightarrow> cgst" where
  "cg_reverse_stack n s = fold (\<lambda>i. emit (swap_code n i)) [0..<n div 2] s"

definition cg_return :: "cgst \<Rightarrow> cgst" where
  "cg_return s = cg_jump (func_epilogue_label s) s"

section \<open>Strings and data\<close>

fun put_string :: "byte list \<Rightarrow> byte list \<Rightarrow> byte list" where
  "put_string out [] = out"
| "put_string out (c # cs) = (if length out < CG_STRING_MAX then put_string (out @ [c]) cs else out)"

definition cg_add_string :: "byte list \<Rightarrow> cgst \<Rightarrow> i32 \<times> cgst" where
  "cg_add_string str s =
    (let offset = word_of_nat (length (strings s));
         out1 = put_string (strings s) str;
         out2 = (if length out1 < CG_STRING_MAX then out1 @ [0] else out1);
         s1 = s\<lparr>strings := out2\<rparr>
     in (offset,
         if length (str_fixups s1) < CG_STR_FIXUP_MAX
         then s1\<lparr>str_fixups := str_fixups s1 @ [length (code s1) + 1]\<rparr> else s1))"

definition cg_alloc_global :: "i32 \<Rightarrow> cgst \<Rightarrow> i32 \<times> cgst" where
  "cg_alloc_global bytes s =
    (let offset = global_data_offset s in
     (offset, s\<lparr>global_data_offset := (offset + bytes + 3) AND NOT 3\<rparr>))"

section \<open>Output\<close>

definition OUTPUT_SIZE :: nat where "OUTPUT_SIZE = CG_CODE_MAX + CG_STRING_MAX + CG_DATA_MAX"

definition get_dword :: "mem \<Rightarrow> nat \<Rightarrow> i32" where
  "get_dword m a =
    ucast (m a) OR push_bit 8 (ucast (m (a + 1))) OR push_bit 16 (ucast (m (a + 2))) OR push_bit 24 (ucast (m (a + 3)))"

definition put_dword :: "mem \<Rightarrow> nat \<Rightarrow> i32 \<Rightarrow> mem" where
  "put_dword m a d = m(a := ucast d, a + 1 := ucast (drop_bit 8 d), a + 2 := ucast (drop_bit 16 d), a + 3 := ucast (drop_bit 24 d))"

text \<open>
  One fixup; \<open>data_start\<close> is the offset of the data section. A call through a NULL symbol (the table
  of globals was full) dereferences NULL: \<^const>\<open>None\<close>.
\<close>

definition fix_target :: "symtab \<Rightarrow> cgst \<Rightarrow> i32 \<Rightarrow> mem \<Rightarrow> nat \<Rightarrow> fix_kind \<Rightarrow> i32 option" where
  "fix_target t s data_start m co k =
    (case k of
       FGlobal \<Rightarrow> Some (CG_LOAD_ADDR + data_start + get_dword m co)
     | FSym None \<Rightarrow> None
     | FSym (Some r) \<Rightarrow> Some (5 + soffset (sym_at t r) - (word_of_nat co + 4))
     | FLabel l \<Rightarrow> Some (5 + label_pos s l - (word_of_nat co + 4)))"

fun apply_fixups :: "symtab \<Rightarrow> cgst \<Rightarrow> i32 \<Rightarrow> fixup list \<Rightarrow> mem \<Rightarrow> mem option" where
  "apply_fixups t s data_start [] m = Some m"
| "apply_fixups t s data_start (f # fs) m =
    (let co = code_offset f + 5 in
     case fix_target t s data_start m co (label_id f) of
       None \<Rightarrow> None
     | Some d \<Rightarrow> apply_fixups t s data_start fs (put_dword m co d))"

fun apply_str_fixups :: "i32 \<Rightarrow> nat list \<Rightarrow> mem \<Rightarrow> mem" where
  "apply_str_fixups string_start [] m = m"
| "apply_str_fixups string_start (f # fs) m =
    apply_str_fixups string_start fs (put_dword m (f + 5) (CG_LOAD_ADDR + string_start + get_dword m (f + 5)))"

text \<open>
  \<open>buf\<close> is what the output buffer holds from the last compilation. The result is the buffer and the
  size of the program. The data section is cleared without a check against the 14336 bytes of the
  buffer: \<^const>\<open>None\<close> where that runs beyond it.
\<close>

definition cg_output :: "symtab \<Rightarrow> cgst \<Rightarrow> mem \<Rightarrow> (mem \<times> nat) option" where
  "cg_output t s buf =
    (let main_offset = (case sym_find_global t (bytes_of ''main'') of None \<Rightarrow> 0 | Some r \<Rightarrow> soffset (sym_at t r));
         m0 = put_dword (buf(0 := 0xE9)) 1 main_offset;
         string_start = 5 + length (code s);
         data_start = string_start + length (strings s);
         m1 = blit m0 5 (arr_of (code s) (\<lambda>_. 0)) 0 (length (code s)) in
     case apply_fixups t s (word_of_nat data_start) (fixups s) m1 of
       None \<Rightarrow> None
     | Some m2 \<Rightarrow>
         (let m3 = blit m2 string_start (arr_of (strings s) (\<lambda>_. 0)) 0 (length (strings s));
              m4 = apply_str_fixups (word_of_nat string_start) (str_fixups s) m3;
              n = unat (global_data_offset s) in
          if data_start + n > OUTPUT_SIZE then None
          else Some ((\<lambda>i. if data_start \<le> i \<and> i < data_start + n then 0 else m4 i), data_start + n)))"

end
