(* ===== verification/CParser.thy ===== *)
theory CParser
  imports CCodegen "HOL-Library.Monad_Syntax"
begin

text \<open>
  The one-pass parser of the C compiler, \<open>kernel/cc/parser.c\<close>: recursive descent over the tokens,
  emitting code as it goes; an expression leaves its value in EAX.

  \<^item> \<open>cst\<close> is the whole state of a compilation: lexer, symbol tables, code generator, the error flag,
    the labels of the enclosing loops and what is written to the screen.
  \<^item> A parsing function is a \<open>step\<close>. \<^const>\<open>None\<close> is undefined behaviour of the C code (a name of
    more than 23 characters copied into \<open>name[24]\<close>, a \<open>break\<close> 17 loops deep, a NULL symbol that is
    written through) or the end of the fuel: the recursion gets \<open>FUEL\<close> levels and each loop as many
    rounds, and every round and every second level consumes a token of the at most 8191 bytes.
  \<^item> Recursive calls are arguments of the definition of one function (\<open>asg\<close>, \<open>una\<close>, \<open>stm\<close>) and are
    tied together at the end.
\<close>

section \<open>State\<close>

datatype msg = Color nat nat | Text "byte list"

record cst =
  lx :: lexst
  sy :: symtab
  cg :: cgst
  had_error :: bool
  break_labels :: "nat \<Rightarrow> nat"
  continue_labels :: "nat \<Rightarrow> nat"
  loop_depth :: nat
  screen :: "msg list"

type_synonym step = "cst \<Rightarrow> cst option"

definition MAX_LOOP_DEPTH :: nat where "MAX_LOOP_DEPTH = 16"
definition FUEL :: nat where "FUEL = 32768"

section \<open>Plumbing\<close>

definition peek :: "cst \<Rightarrow> ctok \<times> cst" where
  "peek s = (case lex_peek (lx s) of (t, l) \<Rightarrow> (t, s\<lparr>lx := l\<rparr>))"

definition next_tok :: "cst \<Rightarrow> ctok \<times> cst" where
  "next_tok s = (case lex_next (lx s) of (t, l) \<Rightarrow> (t, s\<lparr>lx := l\<rparr>))"

definition skip_tok :: "cst \<Rightarrow> cst" where
  "skip_tok s = snd (next_tok s)"

definition gen :: "(cgst \<Rightarrow> cgst) \<Rightarrow> cst \<Rightarrow> cst" where
  "gen f s = s\<lparr>cg := f (cg s)\<rparr>"

definition new_label :: "cst \<Rightarrow> nat \<times> cst" where
  "new_label s = (case cg_new_label (cg s) of (l, c) \<Rightarrow> (l, s\<lparr>cg := c\<rparr>))"

text \<open>\<open>strcpy(name, lex_str_val())\<close> into \<open>char name[24]\<close>.\<close>

definition copy_name :: "cst \<Rightarrow> byte list option" where
  "copy_name s = (let n = lex_str_val (lx s) in if length n \<le> SYM_NAME_MAX then Some n else None)"

section \<open>Errors\<close>

fun dec_digits_of :: "nat \<Rightarrow> byte list" where
  "dec_digits_of val = (if val < 10 then [word_of_nat (48 + val)] else dec_digits_of (val div 10) @ [word_of_nat (48 + val mod 10)])"

declare dec_digits_of.simps [simp del]

definition error :: "string \<Rightarrow> cst \<Rightarrow> cst" where
  "error m s =
    (if had_error s then s
     else s\<lparr>had_error := True,
       screen := screen s @ [Color 12 0, Text (bytes_of ''cc error line ''), Text (dec_digits_of (lex_line (lx s))),
         Text (bytes_of '': ''), Text (bytes_of m), Text [10], Color 15 0]\<rparr>)"

definition quoted :: "char \<Rightarrow> string" where
  "quoted c = ''expected '' @ [CHR 0x27, c, CHR 0x27]"

definition expect_msg :: "ctok \<Rightarrow> string" where
  "expect_msg t =
    (if t = TOK_SEMI then quoted (CHR 0x3B) else if t = TOK_RPAREN then quoted (CHR 0x29)
     else if t = TOK_RBRACE then quoted (CHR 0x7D) else if t = TOK_LBRACE then quoted (CHR 0x7B)
     else ''unexpected token'')"

definition expect :: "ctok \<Rightarrow> cst \<Rightarrow> cst" where
  "expect t s = (case next_tok s of (t', s1) \<Rightarrow> if t' \<noteq> t then error (expect_msg t) s1 else s1)"

section \<open>Types and built-in functions\<close>

definition is_type :: "ctok \<Rightarrow> bool" where
  "is_type t \<longleftrightarrow> t = TOK_INT \<or> t = TOK_CHAR \<or> t = TOK_VOID"

definition parse_type :: "cst \<Rightarrow> dtype \<times> cst" where
  "parse_type s =
    (case next_tok s of (t, s1) \<Rightarrow>
       if \<not> is_type t then (DT_INT, error ''expected type'' s1)
       else
         let dt = (if t = TOK_INT then DT_INT else if t = TOK_CHAR then DT_CHAR else DT_VOID) in
         (case peek s1 of (p, s2) \<Rightarrow>
            if p = TOK_STAR then
              (let s3 = skip_tok s2 in
               if dt = DT_INT then (DT_PTR_INT, s3) else if dt = DT_CHAR then (DT_PTR_CHAR, s3) else (dt, s3))
            else (dt, s2)))"

definition dt_size :: "dtype \<Rightarrow> i32" where
  "dt_size dt = (if dt = DT_CHAR then 1 else 4)"

definition builtins :: "(byte list \<times> i32) list" where
  "builtins = [(bytes_of ''putchar'', 0), (bytes_of ''getchar'', 1), (bytes_of ''puts'', 2), (bytes_of ''exit'', 3),
     (bytes_of ''peek'', 4), (bytes_of ''poke'', 5), (bytes_of ''memset'', 6), (bytes_of ''printf'', 7)]"

definition builtin_syscall_index :: "byte list \<Rightarrow> i32 option" where
  "builtin_syscall_index name = map_of builtins name"

definition emit_builtin_call :: "i32 \<Rightarrow> nat \<Rightarrow> cgst \<Rightarrow> cgst" where
  "emit_builtin_call idx argc s =
    (let s1 = (if argc \<ge> 2 then cg_reverse_stack argc s else s); s2 = cg_call_syscall idx s1 in
     if argc > 0 then cg_add_esp (word_of_nat (argc * 4)) s2 else s2)"

section \<open>Variables and calls\<close>

definition on_stack :: "symbol \<Rightarrow> bool" where
  "on_stack y \<longleftrightarrow> skind y = SYM_LOCAL_VAR \<or> skind y = SYM_PARAM"

definition load_base :: "symbol \<Rightarrow> cgst \<Rightarrow> cgst" where
  "load_base y = (if on_stack y then cg_lea_local (soffset y) else cg_load_num (soffset y))"

definition load_var :: "symbol \<Rightarrow> cgst \<Rightarrow> cgst" where
  "load_var y =
    (if on_stack y then (if 0 < sint (ssize y) then cg_lea_local (soffset y) else cg_load_local (soffset y))
     else (if 0 < sint (ssize y) then cg_load_num (soffset y) else cg_load_global (soffset y)))"

definition store_var :: "symbol \<Rightarrow> cgst \<Rightarrow> cgst" where
  "store_var y = (if on_stack y then cg_store_local (soffset y) else cg_store_global (soffset y))"

definition deref :: "symbol \<Rightarrow> cgst \<Rightarrow> cgst" where
  "deref y = (if stype y = DT_CHAR then cg_deref_byte else cg_deref_dword)"

text \<open>The arguments of a call behind the first: \<open>while (lex_peek() == TOK_COMMA)\<close>.\<close>

fun more_args :: "nat \<Rightarrow> step \<Rightarrow> nat \<Rightarrow> cst \<Rightarrow> (nat \<times> cst) option" where
  "more_args 0 asg argc s = None"
| "more_args (Suc n) asg argc s =
    (case peek s of (t, s1) \<Rightarrow>
       if t = TOK_COMMA then do { s2 \<leftarrow> asg (skip_tok s1); more_args n asg (argc + 1) (gen cg_push s2) }
       else Some (argc, s1))"

text \<open>A call behind the name, from its opening parenthesis on (both copies of this code are equal).\<close>

definition parse_call :: "step \<Rightarrow> byte list \<Rightarrow> step" where
  "parse_call asg name s0 =
    (case peek (skip_tok s0) of (t, s1) \<Rightarrow> do {
       (argc, s2) \<leftarrow> (if t \<noteq> TOK_RPAREN
          then do { sa \<leftarrow> asg s1; more_args FUEL asg 1 (gen cg_push sa) } else Some (0, s1));
       let s3 = expect TOK_RPAREN s2;
       (case builtin_syscall_index name of
          Some idx \<Rightarrow> Some (gen (emit_builtin_call idx argc) s3)
        | None \<Rightarrow>
            let (fn, s4) = (case sym_find_global (sy s3) name of
                  Some r \<Rightarrow> (Some r, s3)
                | None \<Rightarrow> (case sym_add_global name SYM_FUNCTION DT_INT (sy s3) of (r, t') \<Rightarrow> (r, s3\<lparr>sy := t'\<rparr>)));
                s5 = gen (cg_call_symbol fn) s4
            in Some (if argc > 0 then gen (cg_add_esp (word_of_nat (argc * 4))) s5 else s5))
     })"

definition undeclared :: "cst \<Rightarrow> cst" where
  "undeclared s = gen (cg_load_num 0) (error ''undeclared variable'' s)"

section \<open>Expressions\<close>

text \<open>The pointer stars of a cast.\<close>

fun skip_stars :: "nat \<Rightarrow> step" where
  "skip_stars 0 s = None"
| "skip_stars (Suc n) s =
    (case peek s of (t, s1) \<Rightarrow> if t = TOK_STAR then skip_stars n (skip_tok s1) else Some s1)"

definition parse_index :: "step \<Rightarrow> byte list \<Rightarrow> step" where
  "parse_index asg name s0 =
    (case sym_find (sy s0) name of
       None \<Rightarrow> Some (undeclared s0)
     | Some r \<Rightarrow>
         let y = sym_at (sy s0) r in do {
           s2 \<leftarrow> asg (skip_tok (gen cg_push (gen (load_base y) s0)));
           let y' = sym_at (sy s2) r;
           let s3 = (if dt_size (stype y') = 4 then gen (cg_shl_imm 2) s2 else s2);
           Some (expect TOK_RBRACKET (gen (deref y') (gen cg_add (gen cg_pop_into_ecx s3))))
         })"

definition parse_name :: "step \<Rightarrow> byte list \<Rightarrow> step" where
  "parse_name asg name s0 =
    (case peek s0 of (t, s1) \<Rightarrow>
       if t = TOK_LPAREN then parse_call asg name s1
       else if t = TOK_LBRACKET then parse_index asg name s1
       else case sym_find (sy s1) name of
              None \<Rightarrow> Some (undeclared s1)
            | Some r \<Rightarrow> Some (gen (load_var (sym_at (sy s1) r)) s1))"

definition parse_primary_expr :: "step \<Rightarrow> step \<Rightarrow> step" where
  "parse_primary_expr asg una s0 =
    (case peek s0 of (t, s) \<Rightarrow>
       if t = TOK_NUM_LIT \<or> t = TOK_CHAR_LIT then
         (let s1 = skip_tok s in Some (gen (cg_load_num (cur_num (lx s1))) s1))
       else if t = TOK_STR_LIT then
         (let s1 = skip_tok s in
          case cg_add_string (cur_str (lx s1)) (cg s1) of
            (addr, c) \<Rightarrow> Some (gen (cg_load_num addr) (s1\<lparr>cg := c\<rparr>)))
       else if t = TOK_IDENT then
         (let s1 = skip_tok s in do { name \<leftarrow> copy_name s1; parse_name asg name s1 })
       else if t = TOK_LPAREN then
         (case peek (skip_tok s) of (t', s1) \<Rightarrow>
            if is_type t' then do { s2 \<leftarrow> skip_stars FUEL (skip_tok s1); una (expect TOK_RPAREN s2) }
            else do { s2 \<leftarrow> asg s1; Some (expect TOK_RPAREN s2) })
       else Some (gen (cg_load_num 0) (skip_tok (error ''expected expression'' s))))"

fun skip_incdec :: "nat \<Rightarrow> step" where
  "skip_incdec 0 s = None"
| "skip_incdec (Suc n) s =
    (case peek s of (t, s1) \<Rightarrow>
       if t = TOK_INC \<or> t = TOK_DEC then skip_incdec n (skip_tok s1) else Some s1)"

definition parse_postfix_expr :: "step \<Rightarrow> step \<Rightarrow> step" where
  "parse_postfix_expr asg una s = do { s1 \<leftarrow> parse_primary_expr asg una s; skip_incdec FUEL s1 }"

definition parse_address :: "step" where
  "parse_address s0 =
    (case peek s0 of (t, s) \<Rightarrow>
       if t = TOK_IDENT then
         (let s1 = skip_tok s in
          case sym_find (sy s1) (lex_str_val (lx s1)) of
            None \<Rightarrow> Some (undeclared s1)
          | Some r \<Rightarrow> Some (gen (load_base (sym_at (sy s1) r)) s1))
       else Some (gen (cg_load_num 0) (error ''expected identifier after &'' s)))"

definition unary_step :: "step \<Rightarrow> step \<Rightarrow> step" where
  "unary_step asg una s0 =
    (case peek s0 of (t, s) \<Rightarrow>
       if t = TOK_MINUS then do { s1 \<leftarrow> una (skip_tok s); Some (gen cg_negate s1) }
       else if t = TOK_BANG then do { s1 \<leftarrow> una (skip_tok s); Some (gen cg_logical_not s1) }
       else if t = TOK_TILDE then do { s1 \<leftarrow> una (skip_tok s); Some (gen cg_bitwise_not s1) }
       else if t = TOK_STAR then do { s1 \<leftarrow> una (skip_tok s); Some (gen cg_deref_dword s1) }
       else if t = TOK_AMP then parse_address (skip_tok s)
       else parse_postfix_expr asg una s)"

text \<open>
  The binary levels have one shape: an operand, and while an operator of the level follows, a push
  of the left value, the next operand, a pop into ECX and the operator.
\<close>

fun binary_loop :: "nat \<Rightarrow> (ctok \<Rightarrow> (cgst \<Rightarrow> cgst) option) \<Rightarrow> step \<Rightarrow> step" where
  "binary_loop 0 ops sub s = None"
| "binary_loop (Suc n) ops sub s =
    (case peek s of (t, s1) \<Rightarrow>
       (case ops t of
          None \<Rightarrow> Some s1
        | Some g \<Rightarrow> do {
            s2 \<leftarrow> sub (gen cg_push (skip_tok s1));
            binary_loop n ops sub (gen g (gen cg_pop_into_ecx s2)) }))"

definition binary_level :: "(ctok \<Rightarrow> (cgst \<Rightarrow> cgst) option) \<Rightarrow> step \<Rightarrow> step" where
  "binary_level ops sub s = do { s1 \<leftarrow> sub s; binary_loop FUEL ops sub s1 }"

definition mul_ops :: "ctok \<Rightarrow> (cgst \<Rightarrow> cgst) option" where
  "mul_ops t = (if t = TOK_STAR then Some cg_mul else if t = TOK_SLASH then Some cg_div
     else if t = TOK_PERCENT then Some cg_mod else None)"

definition add_ops :: "ctok \<Rightarrow> (cgst \<Rightarrow> cgst) option" where
  "add_ops t = (if t = TOK_PLUS then Some cg_add else if t = TOK_MINUS then Some cg_sub else None)"

definition shift_ops :: "ctok \<Rightarrow> (cgst \<Rightarrow> cgst) option" where
  "shift_ops t = (if t = TOK_SHL then Some cg_shl else if t = TOK_SHR then Some cg_shr else None)"

definition rel_ops :: "ctok \<Rightarrow> (cgst \<Rightarrow> cgst) option" where
  "rel_ops t = (if t = TOK_LT \<or> t = TOK_GT \<or> t = TOK_LE \<or> t = TOK_GE then Some (cg_cmp t) else None)"

definition eq_ops :: "ctok \<Rightarrow> (cgst \<Rightarrow> cgst) option" where
  "eq_ops t = (if t = TOK_EQ \<or> t = TOK_NE then Some (cg_cmp t) else None)"

definition one_op :: "ctok \<Rightarrow> (cgst \<Rightarrow> cgst) \<Rightarrow> ctok \<Rightarrow> (cgst \<Rightarrow> cgst) option" where
  "one_op op g t = (if t = op then Some g else None)"

definition parse_mul_expr :: "step \<Rightarrow> step" where "parse_mul_expr una = binary_level mul_ops una"
definition parse_add_expr :: "step \<Rightarrow> step" where "parse_add_expr una = binary_level add_ops (parse_mul_expr una)"
definition parse_shift_expr :: "step \<Rightarrow> step" where "parse_shift_expr una = binary_level shift_ops (parse_add_expr una)"
definition parse_rel_expr :: "step \<Rightarrow> step" where "parse_rel_expr una = binary_level rel_ops (parse_shift_expr una)"
definition parse_eq_expr :: "step \<Rightarrow> step" where "parse_eq_expr una = binary_level eq_ops (parse_rel_expr una)"

definition parse_bitand_expr :: "step \<Rightarrow> step" where
  "parse_bitand_expr una = binary_level (one_op TOK_AMP cg_bitand) (parse_eq_expr una)"

definition parse_bitxor_expr :: "step \<Rightarrow> step" where
  "parse_bitxor_expr una = binary_level (one_op TOK_CARET cg_bitxor) (parse_bitand_expr una)"

definition parse_bitor_expr :: "step \<Rightarrow> step" where
  "parse_bitor_expr una = binary_level (one_op TOK_PIPE cg_bitor) (parse_bitxor_expr una)"

text \<open>
  The short-circuit operators: the jump on the left value, the right operand, the same jump, and the
  two results.
\<close>

definition short_circuit :: "(nat \<Rightarrow> cgst \<Rightarrow> cgst) \<Rightarrow> i32 \<Rightarrow> i32 \<Rightarrow> step \<Rightarrow> step" where
  "short_circuit jump both early sub s0 =
    (case new_label s0 of (l, s1) \<Rightarrow> do {
       s2 \<leftarrow> sub (gen (jump l) s1);
       let s3 = gen (cg_load_num both) (gen (jump l) s2);
       (case new_label s3 of (e, s4) \<Rightarrow>
          Some (gen (cg_label e) (gen (cg_load_num early) (gen (cg_label l) (gen (cg_jump e) s4)))))
     })"

fun logic_loop :: "nat \<Rightarrow> ctok \<Rightarrow> step \<Rightarrow> step" where
  "logic_loop 0 op rest s = None"
| "logic_loop (Suc n) op rest s =
    (case peek s of (t, s1) \<Rightarrow>
       if t = op then do { s2 \<leftarrow> rest (skip_tok s1); logic_loop n op rest s2 } else Some s1)"

definition parse_and_expr :: "step \<Rightarrow> step" where
  "parse_and_expr una s = do {
     s1 \<leftarrow> parse_bitor_expr una s;
     logic_loop FUEL TOK_AND (short_circuit cg_jump_zero 1 0 (parse_bitor_expr una)) s1 }"

definition parse_or_expr :: "step \<Rightarrow> step" where
  "parse_or_expr una s = do {
     s1 \<leftarrow> parse_and_expr una s;
     logic_loop FUEL TOK_OR (short_circuit cg_jump_nonzero 0 1 (parse_and_expr una)) s1 }"

section \<open>Assignment\<close>

definition assign_plain :: "step \<Rightarrow> byte list \<Rightarrow> step" where
  "assign_plain asg name s0 = do {
     s1 \<leftarrow> asg (skip_tok s0);
     (case sym_find (sy s1) name of
        None \<Rightarrow> Some (error ''undeclared variable'' s1)
      | Some r \<Rightarrow> Some (gen (store_var (sym_at (sy s1) r)) s1)) }"

definition compound_op :: "ctok \<Rightarrow> (cgst \<Rightarrow> cgst) option" where
  "compound_op t = (if t = TOK_PLUSEQ then Some cg_add else if t = TOK_MINUSEQ then Some cg_sub
     else if t = TOK_STAREQ then Some cg_mul else if t = TOK_SLASHEQ then Some cg_div else None)"

definition assign_compound :: "step \<Rightarrow> byte list \<Rightarrow> (cgst \<Rightarrow> cgst) \<Rightarrow> step" where
  "assign_compound asg name g s0 =
    (let s = skip_tok s0 in
     case sym_find (sy s) name of
       None \<Rightarrow> Some (error ''undeclared variable'' s)
     | Some r \<Rightarrow>
         let y = sym_at (sy s) r;
             ld = (if on_stack y then cg_load_local (soffset y) else cg_load_global (soffset y)) in do {
           s1 \<leftarrow> asg (gen cg_push (gen ld s));
           Some (gen (store_var (sym_at (sy s1) r)) (gen g (gen cg_pop_into_ecx s1))) })"

text \<open>
  \<open>ident[expr]\<close>, as a store and as a load. The store leaves the address on the stack once too often;
  the load pops it into ECX and then pops once more.
\<close>

definition assign_index :: "step \<Rightarrow> byte list \<Rightarrow> step" where
  "assign_index asg name s0 =
    (case sym_find (sy s0) name of
       None \<Rightarrow> Some (error ''undeclared variable'' s0)
     | Some r \<Rightarrow> do {
         s1 \<leftarrow> asg (gen cg_push (gen (load_base (sym_at (sy s0) r)) (skip_tok s0)));
         let y = sym_at (sy s1) r;
         let s2 = (if dt_size (stype y) = 4 then gen (cg_shl_imm 2) s1 else s1);
         let s3 = expect TOK_RBRACKET (gen cg_push (gen cg_add (gen cg_pop_into_ecx s2)));
         (case peek s3 of (t, s4) \<Rightarrow>
            if t = TOK_ASSIGN then do {
              s5 \<leftarrow> asg (gen cg_push (skip_tok s4));
              Some (gen (if stype (sym_at (sy s5) r) = DT_CHAR then cg_store_deref_byte else cg_store_deref_dword)
                      (gen cg_pop_into_ecx s5)) }
            else Some (gen (deref y) (gen cg_pop_to_eax (gen cg_pop_into_ecx s4))))
       })"

text \<open>The operators behind a name or a dereference: \<open>continue_binops\<close>, with one flat precedence.\<close>

definition flat_op :: "step \<Rightarrow> ctok \<Rightarrow> (step \<times> (cgst \<Rightarrow> cgst)) option" where
  "flat_op una t =
    (case add_ops t of Some g \<Rightarrow> Some (binary_level mul_ops una, g) | None \<Rightarrow>
     (case mul_ops t of Some g \<Rightarrow> Some (una, g) | None \<Rightarrow>
      if t \<in> {TOK_EQ, TOK_NE, TOK_LT, TOK_GT, TOK_LE, TOK_GE} then Some (parse_add_expr una, cg_cmp t)
      else if t = TOK_AMP then Some (parse_eq_expr una, cg_bitand)
      else if t = TOK_PIPE then Some (parse_eq_expr una, cg_bitor)
      else if t = TOK_CARET then Some (parse_eq_expr una, cg_bitxor)
      else map_option (\<lambda>g. (parse_add_expr una, g)) (shift_ops t)))"

fun continue_binops :: "nat \<Rightarrow> step \<Rightarrow> step" where
  "continue_binops 0 una s = None"
| "continue_binops (Suc n) una s =
    (case peek s of (t, s1) \<Rightarrow>
       (case flat_op una t of
          Some (sub, g) \<Rightarrow> do {
            s2 \<leftarrow> sub (gen cg_push (skip_tok s1));
            continue_binops n una (gen g (gen cg_pop_into_ecx s2)) }
        | None \<Rightarrow>
            if t = TOK_AND then do {
              s2 \<leftarrow> short_circuit cg_jump_zero 1 0 (parse_bitor_expr una) (skip_tok s1); continue_binops n una s2 }
            else if t = TOK_OR then do {
              s2 \<leftarrow> short_circuit cg_jump_nonzero 0 1 (parse_and_expr una) (skip_tok s1); continue_binops n una s2 }
            else Some s1))"

definition load_name :: "byte list \<Rightarrow> cst \<Rightarrow> cst" where
  "load_name name s =
    (case sym_find (sy s) name of
       None \<Rightarrow> undeclared s
     | Some r \<Rightarrow>
         let y = sym_at (sy s) r in
         if skind y = SYM_FUNCTION then gen (cg_load_num (soffset y)) s else gen (load_var y) s)"

definition assign_ident :: "step \<Rightarrow> step \<Rightarrow> byte list \<Rightarrow> step" where
  "assign_ident asg una name s0 =
    (case peek s0 of (t, s) \<Rightarrow>
       if t = TOK_ASSIGN then assign_plain asg name s
       else case compound_op t of
         Some g \<Rightarrow> assign_compound asg name g s
       | None \<Rightarrow>
           if t = TOK_LBRACKET then assign_index asg name s
           else do {
             s1 \<leftarrow> (if t = TOK_LPAREN then parse_call asg name s else Some (load_name name s));
             continue_binops FUEL una s1 })"

definition assign_step :: "step \<Rightarrow> step \<Rightarrow> step" where
  "assign_step asg una s0 =
    (case peek s0 of (t, s) \<Rightarrow>
       if t = TOK_IDENT then (let s1 = skip_tok s in do { name \<leftarrow> copy_name s1; assign_ident asg una name s1 })
       else if t = TOK_STAR then do {
         s1 \<leftarrow> una (skip_tok s);
         (case peek s1 of (t', s2) \<Rightarrow>
            if t' = TOK_ASSIGN then do {
              s3 \<leftarrow> asg (gen cg_push (skip_tok s2));
              Some (gen cg_store_deref_dword (gen cg_pop_into_ecx s3)) }
            else continue_binops FUEL una (gen cg_deref_dword s2)) }
       else parse_or_expr una s)"

fun parse_assign_expr :: "nat \<Rightarrow> step" and parse_unary_expr :: "nat \<Rightarrow> step" where
  "parse_assign_expr 0 s = None"
| "parse_assign_expr (Suc d) s = assign_step (parse_assign_expr d) (parse_unary_expr d) s"
| "parse_unary_expr 0 s = None"
| "parse_unary_expr (Suc d) s = unary_step (parse_assign_expr d) (parse_unary_expr d) s"

definition parse_expr :: "step" where "parse_expr = parse_assign_expr FUEL"

section \<open>Statements\<close>

definition parse_if :: "step \<Rightarrow> step" where
  "parse_if stm s0 = do {
     s1 \<leftarrow> parse_expr (expect TOK_LPAREN s0);
     (case new_label (expect TOK_RPAREN s1) of (els, s2) \<Rightarrow> do {
        s3 \<leftarrow> stm (gen (cg_jump_zero els) s2);
        (case peek s3 of (t, s4) \<Rightarrow>
           if t = TOK_ELSE then
             (case new_label (skip_tok s4) of (e, s5) \<Rightarrow> do {
                s6 \<leftarrow> stm (gen (cg_label els) (gen (cg_jump e) s5));
                Some (gen (cg_label e) s6) })
           else Some (gen (cg_label els) s4)) }) }"

definition enter_loop :: "nat \<Rightarrow> nat \<Rightarrow> cst \<Rightarrow> cst" where
  "enter_loop brk cnt s =
    (let s1 = (if loop_depth s < MAX_LOOP_DEPTH
       then s\<lparr>break_labels := (break_labels s)(loop_depth s := brk),
              continue_labels := (continue_labels s)(loop_depth s := cnt)\<rparr> else s)
     in s1\<lparr>loop_depth := loop_depth s1 + 1\<rparr>)"

definition leave_loop :: "cst \<Rightarrow> cst" where
  "leave_loop s = s\<lparr>loop_depth := loop_depth s - 1\<rparr>"

definition parse_while :: "step \<Rightarrow> step" where
  "parse_while stm s0 =
    (case new_label s0 of (beg, s1) \<Rightarrow> case new_label s1 of (e, s2) \<Rightarrow> do {
       s3 \<leftarrow> parse_expr (expect TOK_LPAREN (gen (cg_label beg) (enter_loop e beg s2)));
       s4 \<leftarrow> stm (gen (cg_jump_zero e) (expect TOK_RPAREN s3));
       Some (leave_loop (gen (cg_label e) (gen (cg_jump beg) s4))) })"

definition opt_expr :: "ctok \<Rightarrow> (cst \<Rightarrow> cst) \<Rightarrow> step" where
  "opt_expr stop dflt s0 = (case peek s0 of (t, s) \<Rightarrow> if t \<noteq> stop then parse_expr s else Some (dflt s))"

definition parse_for :: "step \<Rightarrow> step" where
  "parse_for stm s0 = do {
     s1 \<leftarrow> opt_expr TOK_SEMI id (expect TOK_LPAREN s0);
     (case new_label (expect TOK_SEMI s1) of (beg, s2) \<Rightarrow> case new_label s2 of (e, s3) \<Rightarrow>
      case new_label s3 of (stp, s4) \<Rightarrow> do {
        s5 \<leftarrow> opt_expr TOK_SEMI (gen (cg_load_num 1)) (gen (cg_label beg) (enter_loop e stp s4));
        (case new_label (gen (cg_jump_zero e) (expect TOK_SEMI s5)) of (body, s6) \<Rightarrow> do {
           s7 \<leftarrow> opt_expr TOK_RPAREN id (gen (cg_label stp) (gen (cg_jump body) s6));
           s8 \<leftarrow> stm (gen (cg_label body) (gen (cg_jump beg) (expect TOK_RPAREN s7)));
           Some (leave_loop (gen (cg_label e) (gen (cg_jump stp) s8))) }) }) }"

definition parse_do_while :: "step \<Rightarrow> step" where
  "parse_do_while stm s0 =
    (case new_label s0 of (beg, s1) \<Rightarrow> case new_label s1 of (e, s2) \<Rightarrow> case new_label s2 of (cont, s3) \<Rightarrow> do {
       s4 \<leftarrow> stm (gen (cg_label beg) (enter_loop e cont s3));
       s5 \<leftarrow> parse_expr (expect TOK_LPAREN (expect TOK_WHILE (gen (cg_label cont) s4)));
       let s6 = expect TOK_SEMI (expect TOK_RPAREN s5);
       Some (leave_loop (gen (cg_label e) (gen (cg_jump_nonzero beg) s6))) })"

definition parse_return :: "step" where
  "parse_return s0 = do {
     s1 \<leftarrow> opt_expr TOK_SEMI id s0;
     Some (gen cg_return (expect TOK_SEMI s1)) }"

text \<open>One declarator of \<open>parse_local_decl\<close>: the flag tells whether the function has returned.\<close>

definition local_declarator :: "dtype \<Rightarrow> cst \<Rightarrow> (bool \<times> cst) option" where
  "local_declarator dt s0 =
    (case peek s0 of (t, s) \<Rightarrow>
       if t \<noteq> TOK_IDENT then Some (True, error ''expected identifier'' s)
       else
         let s1 = skip_tok s in do {
           name \<leftarrow> copy_name s1;
           (case sym_add_local name SYM_LOCAL_VAR dt (sy s1) of
              (None, _) \<Rightarrow> Some (True, error ''too many local variables'' s1)
            | (Some r, tab) \<Rightarrow>
                (case peek (s1\<lparr>sy := tab\<rparr>) of (t', s2) \<Rightarrow>
                   if t' = TOK_LBRACKET then
                     (case peek (skip_tok s2) of (t'', s3) \<Rightarrow>
                        if t'' \<noteq> TOK_NUM_LIT then Some (True, error ''expected array size'' s3)
                        else
                          let s4 = skip_tok s3 in
                          Some (False, expect TOK_RBRACKET
                            (s4\<lparr>sy := sym_update r (\<lambda>y. y\<lparr>ssize := cur_num (lx s4)\<rparr>) (sy s4)\<rparr>)))
                   else if t' = TOK_ASSIGN then do {
                     s3 \<leftarrow> parse_expr (skip_tok s2);
                     Some (False, gen (cg_store_local (soffset (sym_at (sy s3) r))) s3) }
                   else Some (False, s2))) })"

fun parse_local_decl :: "nat \<Rightarrow> dtype \<Rightarrow> step" where
  "parse_local_decl 0 dt s = None"
| "parse_local_decl (Suc n) dt s = do {
     (stop, s1) \<leftarrow> local_declarator dt s;
     if stop then Some s1
     else (case peek s1 of (t, s2) \<Rightarrow>
             if t = TOK_COMMA then parse_local_decl n dt (skip_tok s2) else Some (expect TOK_SEMI s2)) }"

fun block_loop :: "nat \<Rightarrow> step \<Rightarrow> step" where
  "block_loop 0 stm s = None"
| "block_loop (Suc n) stm s =
    (case peek s of (t, s1) \<Rightarrow>
       if t \<noteq> TOK_RBRACE \<and> t \<noteq> TOK_EOF \<and> \<not> had_error s1
       then do { s2 \<leftarrow> stm s1; block_loop n stm s2 } else Some (expect TOK_RBRACE s1))"

definition parse_block :: "step \<Rightarrow> step" where
  "parse_block stm s = block_loop FUEL stm (expect TOK_LBRACE s)"

text \<open>\<open>break\<close> and \<open>continue\<close>; the arrays of labels have 16 entries.\<close>

definition loop_jump :: "(cst \<Rightarrow> nat \<Rightarrow> nat) \<Rightarrow> string \<Rightarrow> step" where
  "loop_jump labels m s0 =
    (let s = expect TOK_SEMI (skip_tok s0) in
     if loop_depth s = 0 then Some (error m s)
     else if loop_depth s > MAX_LOOP_DEPTH then None
     else Some (gen (cg_jump (labels s (loop_depth s - 1))) s))"

definition statement_step :: "step \<Rightarrow> step" where
  "statement_step stm s0 =
    (if had_error s0 then Some s0
     else case peek s0 of (t, s) \<Rightarrow>
       if t = TOK_LBRACE then parse_block stm s
       else if t = TOK_IF then parse_if stm (skip_tok s)
       else if t = TOK_WHILE then parse_while stm (skip_tok s)
       else if t = TOK_FOR then parse_for stm (skip_tok s)
       else if t = TOK_DO then parse_do_while stm (skip_tok s)
       else if t = TOK_RETURN then parse_return (skip_tok s)
       else if t = TOK_BREAK then loop_jump break_labels ''break outside loop'' s
       else if t = TOK_CONTINUE then loop_jump continue_labels ''continue outside loop'' s
       else if is_type t then (case parse_type s of (dt, s1) \<Rightarrow> parse_local_decl FUEL dt s1)
       else if t = TOK_SEMI then Some (skip_tok s)
       else do { s1 \<leftarrow> parse_expr s; Some (expect TOK_SEMI s1) })"

primrec parse_statement :: "nat \<Rightarrow> step" where
  "parse_statement 0 s = None"
| "parse_statement (Suc d) s = statement_step (parse_statement d) s"

section \<open>Declarations\<close>

fun parse_params :: "nat \<Rightarrow> cst \<Rightarrow> cst option" where
  "parse_params 0 s = None"
| "parse_params (Suc n) s0 =
    (case parse_type s0 of (pt, s1) \<Rightarrow> case peek s1 of (t, s2) \<Rightarrow>
       if t \<noteq> TOK_IDENT then Some (error ''expected parameter name'' s2)
       else
         let s3 = skip_tok s2;
             s4 = s3\<lparr>sy := snd (sym_add_local (lex_str_val (lx s3)) SYM_PARAM pt (sy s3))\<rparr> in
         (case peek s4 of (t', s5) \<Rightarrow>
            if t' = TOK_COMMA then parse_params n (skip_tok s5) else Some s5))"

definition parse_function :: "byte list \<Rightarrow> dtype \<Rightarrow> step" where
  "parse_function name rt s0 =
    (let (fn, s1) = (case sym_find_global (sy s0) name of
           Some r \<Rightarrow> (Some r, s0)
         | None \<Rightarrow> (case sym_add_global name SYM_FUNCTION rt (sy s0) of (r, t') \<Rightarrow> (r, s0\<lparr>sy := t'\<rparr>))) in
     case fn of
       None \<Rightarrow> None
     | Some r \<Rightarrow>
         let s2 = s1\<lparr>sy := sym_begin_locals (sym_update r (\<lambda>y. y\<lparr>sdefined := True\<rparr>) (sy s1))\<rparr> in
         (case peek s2 of (t, s3) \<Rightarrow> do {
            s4 \<leftarrow> (if t \<noteq> TOK_RPAREN then parse_params FUEL s3 else Some s3);
            let s5 = expect TOK_RPAREN s4;
            let s6 = s5\<lparr>sy := sym_update r (\<lambda>y. y\<lparr>soffset := word_of_nat (length (code (cg s5)))\<rparr>) (sy s5)\<rparr>;
            s7 \<leftarrow> parse_block (parse_statement FUEL) (gen cg_func_begin s6);
            Some (gen cg_func_end s7) }))"

definition alloc_global :: "symref \<Rightarrow> i32 \<Rightarrow> cst \<Rightarrow> cst" where
  "alloc_global r bytes s =
    (case cg_alloc_global bytes (cg s) of
       (off, c) \<Rightarrow> s\<lparr>cg := c, sy := sym_update r (\<lambda>y. y\<lparr>soffset := off\<rparr>) (sy s)\<rparr>)"

fun more_globals :: "nat \<Rightarrow> dtype \<Rightarrow> step" where
  "more_globals 0 dt s = None"
| "more_globals (Suc n) dt s0 =
    (case peek s0 of (t, s) \<Rightarrow>
       if t \<noteq> TOK_COMMA then Some (expect TOK_SEMI s)
       else case peek (skip_tok s) of (t', s1) \<Rightarrow>
         if t' \<noteq> TOK_IDENT then Some (error ''expected identifier'' s1)
         else
           let s2 = skip_tok s1 in
           (case sym_add_global (lex_str_val (lx s2)) SYM_GLOBAL_VAR dt (sy s2) of
              (None, _) \<Rightarrow> more_globals n dt s2
            | (Some r, tab) \<Rightarrow> more_globals n dt (alloc_global r (dt_size dt) (s2\<lparr>sy := tab\<rparr>))))"

definition parse_global_var :: "byte list \<Rightarrow> dtype \<Rightarrow> step" where
  "parse_global_var name dt s0 =
    (case sym_add_global name SYM_GLOBAL_VAR dt (sy s0) of
       (None, _) \<Rightarrow> Some (error ''too many globals'' s0)
     | (Some r, tab) \<Rightarrow>
         (case peek (s0\<lparr>sy := tab\<rparr>) of (t, s1) \<Rightarrow>
            let s2 = (if t = TOK_LBRACKET then
                  (case peek (skip_tok s1) of (t', sa) \<Rightarrow>
                     let sb = (if t' = TOK_NUM_LIT then
                           (let sc = skip_tok sa in sc\<lparr>sy := sym_update r (\<lambda>y. y\<lparr>ssize := cur_num (lx sc)\<rparr>) (sy sc)\<rparr>)
                         else sa)
                     in expect TOK_RBRACKET sb)
                else s1);
                sz = ssize (sym_at (sy s2) r);
                total = (if 0 < sint sz then sz * dt_size dt else dt_size dt)
            in more_globals FUEL dt (alloc_global r total s2)))"

fun program_loop :: "nat \<Rightarrow> step" where
  "program_loop 0 s = None"
| "program_loop (Suc n) s0 =
    (case peek s0 of (t, s) \<Rightarrow>
       if t = TOK_EOF \<or> had_error s then Some s
       else case parse_type s of (dt, s1) \<Rightarrow> case peek s1 of (t', s2) \<Rightarrow>
         if t' \<noteq> TOK_IDENT then Some (error ''expected identifier'' s2)
         else
           let s3 = skip_tok s2 in do {
             name \<leftarrow> copy_name s3;
             s4 \<leftarrow> (case peek s3 of (p, sp) \<Rightarrow>
                if p = TOK_LPAREN then parse_function name dt (skip_tok sp) else parse_global_var name dt sp);
             program_loop n s4 })"

definition parse_program :: "step" where
  "parse_program s = program_loop FUEL (s\<lparr>had_error := False, loop_depth := 0\<rparr>)"

end
