(* ===== verification/CPreproc.thy ===== *)
theory CPreproc
  imports CParser
begin

text \<open>
  The preprocessor, \<open>kernel/cc/preproc.c\<close>, and the driver of the compiler, \<open>kernel/cc/cc.c\<close>.

  \<^item> The source is read through \<open>src :: ppst \<Rightarrow> nat \<Rightarrow> byte\<close>: the file being compiled is fixed, but an
    included file is read from \<open>include_buf\<close>, which is part of the state because a nested include
    overwrites it while it is still being read.
  \<^item> \<open>preprocess\<close> returns -1 (\<open>False\<close>) or the output (\<open>True\<close>); \<^const>\<open>None\<close> is the end of the fuel:
    a file that includes itself recurses without end in C.
  \<^item> File access is a parameter: \<open>rd name size\<close> is \<open>fat12_read_file\<close>, \<open>wr name data\<close> is
    \<open>diskfs_write_file\<close>.
\<close>

section \<open>Macros\<close>

definition MAX_MACROS :: nat where "MAX_MACROS = 64"
definition MACRO_NAME_MAX :: nat where "MACRO_NAME_MAX = 31"
definition MACRO_VAL_MAX :: nat where "MACRO_VAL_MAX = 127"
definition INCLUDE_BUF_SZ :: nat where "INCLUDE_BUF_SZ = 4096"
definition MAX_IF_DEPTH :: nat where "MAX_IF_DEPTH = 16"

record ppst =
  macros :: "(byte list \<times> byte list) list"
  include_buf :: mem
  ip :: nat
  ppout :: "byte list"
  ifs :: "(bool \<times> bool) list"
  active :: bool

fun find_macro_from :: "(byte list \<times> byte list) list \<Rightarrow> byte list \<Rightarrow> nat \<Rightarrow> nat option" where
  "find_macro_from [] name i = None"
| "find_macro_from (m # ms) name i = (if fst m = name then Some i else find_macro_from ms name (i + 1))"

definition find_macro :: "ppst \<Rightarrow> byte list \<Rightarrow> nat option" where
  "find_macro s name = find_macro_from (macros s) name 0"

definition add_macro :: "byte list \<Rightarrow> byte list \<Rightarrow> ppst \<Rightarrow> ppst" where
  "add_macro name value s =
    (if length (macros s) \<ge> MAX_MACROS then s
     else case find_macro s name of
       Some i \<Rightarrow> s\<lparr>macros := (macros s)[i := (fst (macros s ! i), value)]\<rparr>
     | None \<Rightarrow> s\<lparr>macros := macros s @ [(take MACRO_NAME_MAX name, take MACRO_VAL_MAX value)]\<rparr>)"

section \<open>Reading and writing\<close>

definition is_ident_start :: "byte \<Rightarrow> bool" where
  "is_ident_start c \<longleftrightarrow> (97 \<le> c \<and> c \<le> 122) \<or> (65 \<le> c \<and> c \<le> 90) \<or> c = 95"

definition is_ident_char :: "byte \<Rightarrow> bool" where
  "is_ident_char c \<longleftrightarrow> (97 \<le> c \<and> c \<le> 122) \<or> (65 \<le> c \<and> c \<le> 90) \<or> (48 \<le> c \<and> c \<le> 57) \<or> c = 95"

text \<open>The source from \<open>ip\<close> on.\<close>

definition pending_src :: "(ppst \<Rightarrow> mem) \<Rightarrow> nat \<Rightarrow> ppst \<Rightarrow> byte list" where
  "pending_src src len s = seg (src s) (ip s) (len - ip s)"

definition read_word :: "(ppst \<Rightarrow> mem) \<Rightarrow> nat \<Rightarrow> nat \<Rightarrow> ppst \<Rightarrow> byte list \<times> ppst" where
  "read_word src len buf_max s =
    (let w = take buf_max (takeWhile is_ident_char (pending_src src len s)) in (w, s\<lparr>ip := ip s + length w\<rparr>))"

definition pp_skip_spaces :: "(ppst \<Rightarrow> mem) \<Rightarrow> nat \<Rightarrow> ppst \<Rightarrow> ppst" where
  "pp_skip_spaces src len s =
    s\<lparr>ip := ip s + length (takeWhile (\<lambda>c. c = 32 \<or> c = 9) (pending_src src len s))\<rparr>"

definition trim :: "byte list \<Rightarrow> byte list" where
  "trim s = rev (dropWhile (\<lambda>c. c = 32 \<or> c = 9 \<or> c = 13) (rev s))"

definition pp_read_line :: "(ppst \<Rightarrow> mem) \<Rightarrow> nat \<Rightarrow> nat \<Rightarrow> ppst \<Rightarrow> byte list \<times> ppst" where
  "pp_read_line src len buf_max s =
    (let w = take buf_max (takeWhile (\<lambda>c. c \<noteq> 10) (pending_src src len s))
     in (trim w, s\<lparr>ip := ip s + length w\<rparr>))"

definition pp_emit :: "nat \<Rightarrow> byte \<Rightarrow> ppst \<Rightarrow> ppst" where
  "pp_emit out_max c s = (if length (ppout s) + 1 \<ge> out_max then s else s\<lparr>ppout := ppout s @ [c]\<rparr>)"

definition emit_str :: "nat \<Rightarrow> byte list \<Rightarrow> ppst \<Rightarrow> ppst" where
  "emit_str out_max cs s = fold (pp_emit out_max) cs s"

text \<open>Characters passed through unchanged.\<close>

definition pass :: "nat \<Rightarrow> byte list \<Rightarrow> ppst \<Rightarrow> ppst" where
  "pass out_max cs s = (emit_str out_max cs s)\<lparr>ip := ip s + length cs\<rparr>"

text \<open>A literal behind its opening quote, up to and with the closing one.\<close>

fun quoted_part :: "byte \<Rightarrow> byte list \<Rightarrow> byte list" where
  "quoted_part q [] = []"
| "quoted_part q [c] = [c]"
| "quoted_part q (c # d # r) =
    (if c = q then [c] else if c = 92 then c # d # quoted_part q r else c # quoted_part q (d # r))"

text \<open>\<open>while (ip < len && source[ip] != newline) ip++;\<close> and the newline itself.\<close>

definition skip_line :: "(ppst \<Rightarrow> mem) \<Rightarrow> nat \<Rightarrow> nat \<Rightarrow> ppst \<Rightarrow> ppst" where
  "skip_line src len out_max s =
    (let p = ip s + length (takeWhile (\<lambda>c. c \<noteq> 10) (pending_src src len s)) in
     if p < len then (pp_emit out_max 10 s)\<lparr>ip := p + 1\<rparr> else s\<lparr>ip := p\<rparr>)"

section \<open>Directives\<close>

definition pp_define :: "(ppst \<Rightarrow> mem) \<Rightarrow> nat \<Rightarrow> ppst \<Rightarrow> ppst" where
  "pp_define src len s =
    (case read_word src len MACRO_NAME_MAX s of (name, s1) \<Rightarrow>
     case pp_read_line src len MACRO_VAL_MAX (pp_skip_spaces src len s1) of (value, s2) \<Rightarrow>
       add_macro name value s2)"

definition pp_ifdef :: "bool \<Rightarrow> (ppst \<Rightarrow> mem) \<Rightarrow> nat \<Rightarrow> ppst \<Rightarrow> ppst" where
  "pp_ifdef wanted src len s =
    (if length (ifs s) < MAX_IF_DEPTH then
       (case read_word src len MACRO_NAME_MAX s of (name, s1) \<Rightarrow>
          let a = (active s1 \<and> ((find_macro s1 name \<noteq> None) = wanted))
          in s1\<lparr>ifs := (a, a) # ifs s1, active := a\<rparr>)
     else s)"

definition pp_else :: "ppst \<Rightarrow> ppst" where
  "pp_else s =
    (case ifs s of
       [] \<Rightarrow> s
     | (a, d) # r \<Rightarrow>
         let parent_active = (case r of [] \<Rightarrow> True | (p, _) # _ \<Rightarrow> p) in
         if parent_active \<and> \<not> d then s\<lparr>ifs := (True, True) # r, active := True\<rparr>
         else s\<lparr>ifs := (False, d) # r, active := False\<rparr>)"

definition pp_endif :: "ppst \<Rightarrow> ppst" where
  "pp_endif s =
    (case ifs s of
       [] \<Rightarrow> s
     | _ # r \<Rightarrow> s\<lparr>ifs := r, active := (case r of [] \<Rightarrow> True | (p, _) # _ \<Rightarrow> p)\<rparr>)"

text \<open>The quoted name of an include: the name, and the position behind it; none without a quote.\<close>

definition include_name :: "(ppst \<Rightarrow> mem) \<Rightarrow> nat \<Rightarrow> ppst \<Rightarrow> byte list option \<times> ppst" where
  "include_name src len s0 =
    (let s = pp_skip_spaces src len s0 in
     case pending_src src len s of
       [] \<Rightarrow> (None, s)
     | c # r \<Rightarrow>
         if c \<noteq> 34 then (None, s)
         else
           let fname = take 31 (takeWhile (\<lambda>d. d \<noteq> 34) r); p = ip s + 1 + length fname
           in (Some fname, s\<lparr>ip := (if p < len then p + 1 else p)\<rparr>))"

section \<open>The main loop\<close>

text \<open>
  One directive, with \<open>inc\<close> for the recursive call on an included file: it gets the length and the
  state with the file in \<open>include_buf\<close>.
\<close>

definition pp_include ::
  "(byte list \<Rightarrow> nat \<Rightarrow> byte list option) \<Rightarrow> (nat \<Rightarrow> ppst \<Rightarrow> (bool \<times> ppst) option) \<Rightarrow> (ppst \<Rightarrow> mem) \<Rightarrow> nat \<Rightarrow> nat \<Rightarrow>
   ppst \<Rightarrow> (bool \<times> ppst) option" where
  "pp_include rd inc src len out_max s0 =
    (case include_name src len s0 of
       (None, s) \<Rightarrow> Some (True, s)
     | (Some fname, s) \<Rightarrow>
         (case rd fname (INCLUDE_BUF_SZ - 1) of
            None \<Rightarrow> Some (True, s)
          | Some data \<Rightarrow>
              let s1 = s\<lparr>include_buf := blit (include_buf s) 0 (arr_of data (\<lambda>_. 0)) 0 (length data)\<rparr> in
              if data = [] then Some (True, s1)
              else
                (case inc (length data)
                    (s1\<lparr>include_buf := (include_buf s1)(length data := 0), macros := [], ip := 0, ppout := [],
                        ifs := [], active := True\<rparr>) of
                   None \<Rightarrow> None
                 | Some (ok, si) \<Rightarrow>
                     let s2 = s1\<lparr>macros := macros si, include_buf := include_buf si\<rparr> in
                     if \<not> ok then Some (True, s2)
                     else if length (ppout s2) + length (ppout si) + 1 > out_max then Some (False, emit_str out_max (ppout si) s2)
                     else Some (True, emit_str out_max (ppout si) s2))))"

definition pp_directive ::
  "(byte list \<Rightarrow> nat \<Rightarrow> byte list option) \<Rightarrow> (nat \<Rightarrow> ppst \<Rightarrow> (bool \<times> ppst) option) \<Rightarrow> (ppst \<Rightarrow> mem) \<Rightarrow> nat \<Rightarrow> nat \<Rightarrow>
   ppst \<Rightarrow> (bool \<times> ppst) option" where
  "pp_directive rd inc src len out_max s0 =
    (case read_word src len 15 (pp_skip_spaces src len (s0\<lparr>ip := ip s0 + 1\<rparr>)) of
       (d, s1) \<Rightarrow>
         let s = pp_skip_spaces src len s1 in
         if d = bytes_of ''define'' \<and> active s then Some (True, pp_define src len s)
         else if d = bytes_of ''include'' \<and> active s then pp_include rd inc src len out_max s
         else if d = bytes_of ''ifdef'' then Some (True, pp_ifdef True src len s)
         else if d = bytes_of ''ifndef'' then Some (True, pp_ifdef False src len s)
         else if d = bytes_of ''else'' then Some (True, pp_else s)
         else if d = bytes_of ''endif'' then Some (True, pp_endif s)
         else Some (True, s))"

text \<open>One round on ordinary text: a literal, a name or any other character.\<close>

definition pp_text :: "(ppst \<Rightarrow> mem) \<Rightarrow> nat \<Rightarrow> nat \<Rightarrow> byte \<Rightarrow> ppst \<Rightarrow> ppst" where
  "pp_text src len out_max c s =
    (if c = 34 \<or> c = 39 then pass out_max (c # quoted_part c (tl (pending_src src len s))) s
     else if is_ident_start c then
       (case read_word src len MACRO_NAME_MAX s of (w, s1) \<Rightarrow>
          (case find_macro s1 w of
             Some i \<Rightarrow> emit_str out_max (snd (macros s1 ! i)) s1
           | None \<Rightarrow> emit_str out_max w s1))
     else pass out_max [c] s)"

primrec pp_loop ::
  "nat \<Rightarrow> (byte list \<Rightarrow> nat \<Rightarrow> byte list option) \<Rightarrow> (ppst \<Rightarrow> mem) \<Rightarrow> nat \<Rightarrow> nat \<Rightarrow> ppst \<Rightarrow> (bool \<times> ppst) option" where
  "pp_loop 0 rd src len out_max s = None"
| "pp_loop (Suc n) rd src len out_max s =
    (if \<not> ip s < len then Some (True, s)
     else
       let c = src s (ip s) in
       if c = 35 then
         (case pp_directive rd (\<lambda>len' s'. pp_loop n rd include_buf len' INCLUDE_BUF_SZ s') src len out_max s of
            None \<Rightarrow> None
          | Some (False, s1) \<Rightarrow> Some (False, s1)
          | Some (True, s1) \<Rightarrow> pp_loop n rd src len out_max (skip_line src len out_max s1))
       else if \<not> active s then pp_loop n rd src len out_max (skip_line src len out_max s)
       else pp_loop n rd src len out_max (pp_text src len out_max c s))"

definition preprocess :: "nat \<Rightarrow> (byte list \<Rightarrow> nat \<Rightarrow> byte list option) \<Rightarrow> byte list \<Rightarrow> nat \<Rightarrow> ppst \<Rightarrow> (bool \<times> ppst) option" where
  "preprocess fuel rd source out_max s =
    pp_loop fuel rd (\<lambda>_. arr_of source (\<lambda>_. 0)) (length source) out_max
      (s\<lparr>macros := [], ip := 0, ppout := [], ifs := [], active := True\<rparr>)"

section \<open>The compiler driver\<close>

definition SRC_BUF_SIZE :: nat where "SRC_BUF_SIZE = 8192"
definition PP_BUF_SIZE :: nat where "PP_BUF_SIZE = 8192"

fun last_dot :: "byte list \<Rightarrow> nat \<Rightarrow> nat option" where
  "last_dot s 0 = None"
| "last_dot s (Suc j) = (if s ! j = 46 then Some j else last_dot s j)"

definition make_output_name :: "byte list \<Rightarrow> nat \<Rightarrow> byte list" where
  "make_output_name input max_len =
    (let out = take (max_len - 5) input in
     case last_dot out (length out) of
       Some d \<Rightarrow> take d out @ bytes_of ''.bin''
     | None \<Rightarrow> out @ bytes_of ''.bin'')"

record ccst =
  pp :: ppst
  cc :: cst
  output_buf :: mem

definition say :: "msg list \<Rightarrow> ccst \<Rightarrow> ccst" where
  "say ms s = s\<lparr>cc := (cc s)\<lparr>screen := screen (cc s) @ ms\<rparr>\<rparr>"

definition red :: "msg list \<Rightarrow> msg list" where
  "red ms = Color 12 0 # ms @ [Color 15 0]"

text \<open>What \<open>cc_compile\<close> returns (0 or -1), the state and the file system.\<close>

definition cc_compile ::
  "(byte list \<Rightarrow> nat \<Rightarrow> 'fs \<Rightarrow> byte list option) \<Rightarrow> (byte list \<Rightarrow> byte list \<Rightarrow> 'fs \<Rightarrow> int \<times> 'fs) \<Rightarrow> nat \<Rightarrow>
   byte list \<Rightarrow> ccst \<times> 'fs \<Rightarrow> (int \<times> ccst \<times> 'fs) option" where
  "cc_compile rd wr fuel filename s_fs =
    (case s_fs of (s, fs) \<Rightarrow>
     case rd filename (SRC_BUF_SIZE - 1) fs of
       None \<Rightarrow> Some (- 1, say [Color 12 0, Text (bytes_of ''File not found: ''), Color 15 0, Text filename, Text [10]] s, fs)
     | Some source \<Rightarrow>
       (case preprocess fuel (\<lambda>name m. rd name m fs) source PP_BUF_SIZE (pp s) of
          None \<Rightarrow> None
        | Some (False, p) \<Rightarrow> Some (- 1, say (red [Text (bytes_of ''Preprocessor error\<newline>'')]) (s\<lparr>pp := p\<rparr>), fs)
        | Some (True, p) \<Rightarrow>
          (case parse_program ((cc s)\<lparr>lx := lex_init (ppout p), sy := sym_init, cg := cg_init (cg (cc s))\<rparr>) of
             None \<Rightarrow> None
           | Some c \<Rightarrow>
               let s1 = s\<lparr>pp := p, cc := c\<rparr> in
               if had_error c then Some (- 1, s1, fs)
               else
                 (case cg_output (sy c) (cg c) (output_buf s) of
                    None \<Rightarrow> None
                  | Some (out, n) \<Rightarrow>
                      let s2 = s1\<lparr>output_buf := out\<rparr>; name = make_output_name filename 32 in
                      (case wr name (seg out 0 n) fs of
                         (r, fs') \<Rightarrow>
                           if r < 0 then Some (- 1, say (red [Text (bytes_of ''Failed to write ''), Text name, Text [10]]) s2, fs')
                           else Some (0, say [Color 10 0, Text (bytes_of ''Compiled ''), Text filename, Text (bytes_of '' -> ''), Text name,
                              Text (bytes_of '' (''), Text (dec_digits_of n), Text (bytes_of '' bytes)\<newline>''), Color 15 0] s2, fs'))))))"

end
