(* ===== verification/Syscalls.thy ===== *)
theory Syscalls
  imports CString
begin

text \<open>
  The system calls of ring-3 programs and the loading of programs, \<open>kernel/cc/runtime.c\<close>.

  \<^item> \<open>kmem\<close> is the memory as the kernel sees it in ring 0; an address is a \<open>uint32_t\<close>.
  \<^item> The devices are what the handlers write to them (\<open>events\<close>) and what they read from them: the
    keys that will be typed (\<open>None\<close>: no key at a poll), the clock, the keys held down, the ROM font,
    the size of the screen.
  \<^item> \<open>prog_fault\<close> and \<open>sys_exit\<close> do not return: a computation ends in \<open>Inl\<close> of the final state or
    goes on with \<open>Inr\<close>. \<^const>\<open>None\<close> is waiting for a key that never comes, or a read that runs
    through the memory without finding a NUL.
  \<^item> Files are behind the parameters \<open>rd\<close> and \<open>wr\<close> (\<open>fat12_read_file\<close>, \<open>diskfs_write_file\<close>).
\<close>

section \<open>State\<close>

datatype event =
  Out byte | Cls | SetColor byte byte | PutAt byte byte byte byte byte | SetCursor byte byte
  | Blit "byte list" | Flush | Wait | Serial "byte list" | Halted

record machine =
  kmem :: "i32 \<Rightarrow> byte"
  events :: "event list"
  keyq :: "i32 option list"
  ticks :: i32
  down :: "byte \<Rightarrow> bool"
  ext_down :: "byte \<Rightarrow> bool"
  rom_font :: "byte list"
  dims :: "byte \<times> byte"
  prog_arg :: "byte list"
  prog_exited :: bool
  prog_exit_code :: i32

type_synonym 'a outcome = "(machine + 'a) option"

definition USER_REGION_BASE :: i32 where "USER_REGION_BASE = 0x200000"
definition USER_REGION_TOP :: i32 where "USER_REGION_TOP = 0x300000"
definition USER_STACK_TOP :: i32 where "USER_STACK_TOP = 0x300000"
definition USER_EXIT_STUB :: i32 where "USER_EXIT_STUB = 0x2F0000"
definition PROG_LOAD_ADDR :: i32 where "PROG_LOAD_ADDR = 0x200000"

definition SYS_COUNT :: i32 where "SYS_COUNT = 24"

definition out :: "byte list \<Rightarrow> machine \<Rightarrow> machine" where
  "out cs m = m\<lparr>events := events m @ map Out cs\<rparr>"

definition device_event :: "event \<Rightarrow> machine \<Rightarrow> machine" where
  "device_event e m = m\<lparr>events := events m @ [e]\<rparr>"

definition prog_set_arg :: "byte list \<Rightarrow> machine \<Rightarrow> machine" where
  "prog_set_arg arg m = m\<lparr>prog_arg := take 63 arg\<rparr>"

section \<open>Memory\<close>

definition load :: "machine \<Rightarrow> i32 \<Rightarrow> nat \<Rightarrow> byte list" where
  "load m a n = map (\<lambda>i. kmem m (a + word_of_nat i)) [0..<n]"

definition store :: "i32 \<Rightarrow> byte list \<Rightarrow> machine \<Rightarrow> machine" where
  "store a bs m = m\<lparr>kmem := fold (\<lambda>(i, b) k. k(a + word_of_nat i := b)) (zip [0..<length bs] bs) (kmem m)\<rparr>"

definition load32 :: "machine \<Rightarrow> i32 \<Rightarrow> i32" where
  "load32 m a = ucast (kmem m a) OR push_bit 8 (ucast (kmem m (a + 1))) OR push_bit 16 (ucast (kmem m (a + 2)))
     OR push_bit 24 (ucast (kmem m (a + 3)))"

text \<open>The C string at an address; \<^const>\<open>None\<close> when the whole memory holds no NUL.\<close>

fun cstr_from :: "nat \<Rightarrow> machine \<Rightarrow> i32 \<Rightarrow> byte list option" where
  "cstr_from 0 m a = None"
| "cstr_from (Suc n) m a =
    (if kmem m a = 0 then Some [] else map_option ((#) (kmem m a)) (cstr_from n m (a + 1)))"

definition ALL_MEMORY :: nat where "ALL_MEMORY = 2 ^ 32"

definition cstr_at :: "machine \<Rightarrow> i32 \<Rightarrow> byte list option" where
  "cstr_at m a = cstr_from ALL_MEMORY m a"

section \<open>Faults and exits\<close>

definition prog_fault :: "string \<Rightarrow> machine \<Rightarrow> machine" where
  "prog_fault reason m =
    device_event (SetColor 15 0) (out (bytes_of '']\<newline>'') (out (bytes_of reason) (out (bytes_of ''\<newline>[program killed: '')
      (device_event (SetColor 12 0) m))))\<lparr>prog_exit_code := - 1, prog_exited := True\<rparr>"

definition sys_exit :: "i32 \<Rightarrow> machine \<Rightarrow> machine" where
  "sys_exit code m = m\<lparr>prog_exit_code := code, prog_exited := True\<rparr>"

section \<open>Validation of pointers\<close>

definition user_range_ok :: "i32 \<Rightarrow> i32 \<Rightarrow> bool" where
  "user_range_ok addr len =
    (let e = addr + len in
     len = 0 \<or> (addr \<le> e \<and> USER_REGION_BASE \<le> addr \<and> e \<le> USER_REGION_TOP))"

text \<open>\<open>scan_nul n m p\<close>: a NUL among the \<open>n\<close> bytes from \<open>p\<close> on.\<close>

fun scan_nul :: "nat \<Rightarrow> machine \<Rightarrow> i32 \<Rightarrow> bool" where
  "scan_nul 0 m p = False"
| "scan_nul (Suc n) m p = (if kmem m p = 0 then True else scan_nul n m (p + 1))"

definition user_str_ok :: "machine \<Rightarrow> i32 \<Rightarrow> bool" where
  "user_str_ok m addr =
    (if addr < USER_REGION_BASE \<or> USER_REGION_TOP \<le> addr then False
     else scan_nul (unat (USER_REGION_TOP - addr)) m addr)"

definition check_ptr :: "i32 \<Rightarrow> i32 \<Rightarrow> machine \<Rightarrow> machine outcome" where
  "check_ptr addr len m =
    Some (if user_range_ok addr len then Inr m else Inl (prog_fault ''bad syscall pointer'' m))"

definition check_str :: "i32 \<Rightarrow> machine \<Rightarrow> machine outcome" where
  "check_str addr m = Some (if user_str_ok m addr then Inr m else Inl (prog_fault ''bad syscall pointer'' m))"

text \<open>\<open>andthen r f\<close>: go on with \<open>f\<close> unless the program was killed.\<close>

definition andthen :: "machine outcome \<Rightarrow> (machine \<Rightarrow> 'a outcome) \<Rightarrow> 'a outcome" where
  "andthen r f = (case r of None \<Rightarrow> None | Some (Inl m) \<Rightarrow> Some (Inl m) | Some (Inr m) \<Rightarrow> f m)"

section \<open>printf\<close>

fun digits_of :: "nat \<Rightarrow> nat \<Rightarrow> (nat \<Rightarrow> byte) \<Rightarrow> nat \<Rightarrow> byte list" where
  "digits_of 0 base chr n = []"
| "digits_of (Suc k) base chr n = (if n = 0 then [] else digits_of k base chr (n div base) @ [chr (n mod base)])"

definition dec_char :: "nat \<Rightarrow> byte" where "dec_char d = word_of_nat (48 + d)"

definition hex_char :: "nat \<Rightarrow> byte" where
  "hex_char d = (if d < 10 then word_of_nat (48 + d) else word_of_nat (97 + d - 10))"

text \<open>For \<open>INT_MIN\<close> the negation leaves the value negative, and no digit is written.\<close>

definition print_dec :: "i32 \<Rightarrow> machine \<Rightarrow> machine" where
  "print_dec v m =
    (let m1 = (if sint v < 0 then out [45] m else m); v1 = (if sint v < 0 then - v else v) in
     if v1 = 0 then out [48] m1
     else out (if 0 < sint v1 then digits_of 10 10 dec_char (unat v1) else []) m1)"

definition print_unsigned :: "i32 \<Rightarrow> machine \<Rightarrow> machine" where
  "print_unsigned v m = (if v = 0 then out [48] m else out (digits_of 10 10 dec_char (unat v)) m)"

definition print_hex :: "i32 \<Rightarrow> machine \<Rightarrow> machine" where
  "print_hex v m = (if v = 0 then out [48] m else out (digits_of 8 16 hex_char (unat v)) m)"

definition next_arg :: "i32 \<Rightarrow> machine \<Rightarrow> (i32 \<times> machine) outcome" where
  "next_arg ap m = andthen (check_ptr ap 4 m) (\<lambda>m. Some (Inr (load32 m ap, m)))"

definition with_arg :: "i32 \<Rightarrow> machine \<Rightarrow> (i32 \<Rightarrow> machine \<Rightarrow> machine outcome) \<Rightarrow> machine outcome" where
  "with_arg ap m f =
    (case next_arg ap m of None \<Rightarrow> None | Some (Inl m') \<Rightarrow> Some (Inl m') | Some (Inr (v, m')) \<Rightarrow> f v m')"

definition write_cstr :: "i32 \<Rightarrow> machine \<Rightarrow> machine outcome" where
  "write_cstr a m = (case cstr_at m a of None \<Rightarrow> None | Some s \<Rightarrow> Some (Inr (out s m)))"

text \<open>
  One conversion: the character behind the percent sign. The result tells whether it took an argument.
\<close>

definition conversion :: "byte \<Rightarrow> i32 \<Rightarrow> machine \<Rightarrow> machine outcome \<times> bool" where
  "conversion c ap m =
    (if c = 100 then (with_arg ap m (\<lambda>v m. Some (Inr (print_dec v m))), True)
     else if c = 117 then (with_arg ap m (\<lambda>v m. Some (Inr (print_unsigned v m))), True)
     else if c = 120 then (with_arg ap m (\<lambda>v m. Some (Inr (print_hex v m))), True)
     else if c = 115 then
       (with_arg ap m (\<lambda>v m. if v \<noteq> 0 then andthen (check_str v m) (write_cstr v) else Some (Inr m)), True)
     else if c = 99 then (with_arg ap m (\<lambda>v m. Some (Inr (out [ucast v] m))), True)
     else if c = 37 then (Some (Inr (out [37] m)), False)
     else (Some (Inr (out [37, c] m)), False))"

text \<open>
  \<open>fmt\<close> is the address in the format string. A percent sign as the last character makes the NUL its
  conversion character, and the loop goes on behind it.
\<close>

fun do_printf :: "nat \<Rightarrow> i32 \<Rightarrow> i32 \<Rightarrow> machine \<Rightarrow> machine outcome" where
  "do_printf 0 fmt ap m = None"
| "do_printf (Suc n) fmt ap m =
    (if kmem m fmt = 0 then Some (Inr m)
     else if kmem m fmt = 37 then
       (case conversion (kmem m (fmt + 1)) ap m of
          (r, used) \<Rightarrow> andthen r (do_printf n (fmt + 2) (if used then ap + 4 else ap)))
     else do_printf n (fmt + 1) ap (out [kmem m fmt] m))"

section \<open>The dispatcher\<close>

definition sys_argc :: "i32 \<Rightarrow> i32" where
  "sys_argc n = [1, 0, 1, 1, 1, 2, 3, 1, 0, 1, 1, 1, 1, 0, 0, 0, 5, 2, 0, 3, 3, 2, 2, 0] ! unat n"

fun wait_key :: "i32 option list \<Rightarrow> (i32 \<times> i32 option list) option" where
  "wait_key [] = None"
| "wait_key (None # r) = wait_key r"
| "wait_key (Some c # r) = Some (c, r)"

definition poll_key :: "i32 option list \<Rightarrow> bool \<times> i32 option list" where
  "poll_key q = (case q of [] \<Rightarrow> (False, []) | None # r \<Rightarrow> (False, r) | Some c # r \<Rightarrow> (True, q))"

definition bool32 :: "bool \<Rightarrow> i32" where "bool32 b = (if b then 1 else 0)"

definition returns :: "i32 \<Rightarrow> machine \<Rightarrow> (i32 \<times> machine) outcome" where
  "returns v m = Some (Inr (v, m))"

definition and_return :: "i32 \<Rightarrow> machine outcome \<Rightarrow> (i32 \<times> machine) outcome" where
  "and_return v r = andthen r (returns v)"

text \<open>
  The call \<open>n\<close> with the arguments at \<open>b\<close>: the value EAX has afterwards (\<open>n\<close> itself, when the call
  returns nothing) and the machine.
\<close>

definition console_call :: "i32 \<Rightarrow> (nat \<Rightarrow> i32) \<Rightarrow> machine \<Rightarrow> (i32 \<times> machine) outcome" where
  "console_call n a m =
    (if n = 0 then returns n (out [ucast (a 0)] m)
     else if n = 1 then (case wait_key (keyq m) of None \<Rightarrow> None | Some (c, q) \<Rightarrow> returns c (m\<lparr>keyq := q\<rparr>))
     else if n = 2 then and_return n (andthen (check_str (a 0) m) (write_cstr (a 0)))
     else if n = 3 then Some (Inl (sys_exit (a 0) m))
     else if n = 4 then andthen (check_ptr (a 0) 1 m) (\<lambda>m. returns (ucast (kmem m (a 0))) m)
     else if n = 5 then and_return n (andthen (check_ptr (a 0) 1 m) (\<lambda>m. Some (Inr (store (a 0) [ucast (a 1)] m))))
     else if n = 6 then
       and_return n (andthen (check_ptr (a 0) (a 2) m) (\<lambda>m. Some (Inr (store (a 0) (replicate (unat (a 2)) (ucast (a 1))) m))))
     else None)"

definition game_call :: "i32 \<Rightarrow> (nat \<Rightarrow> i32) \<Rightarrow> machine \<Rightarrow> (i32 \<times> machine) outcome" where
  "game_call n a m =
    (if n = 8 then returns (ticks m) m
     else if n = 9 then returns (bool32 (down m (ucast (a 0)))) m
     else if n = 10 then returns (bool32 (ext_down m (ucast (a 0)))) m
     else if n = 11 then
       and_return n (andthen (check_ptr (a 0) 480000 m) (\<lambda>m. Some (Inr (device_event (Blit (load m (a 0) 480000)) m))))
     else if n = 12 then and_return n (andthen (check_ptr (a 0) 4096 m) (\<lambda>m. Some (Inr (store (a 0) (take 4096 (rom_font m)) m))))
     else if n = 13 then returns n (device_event Wait m)
     else if n = 14 then returns n (device_event Cls m)
     else if n = 15 then returns n (device_event Flush (m\<lparr>keyq := dropWhile (\<lambda>k. k \<noteq> None) (keyq m)\<rparr>))
     else if n = 16 then returns n (device_event (PutAt (ucast (a 0)) (ucast (a 1)) (ucast (a 2)) (ucast (a 3)) (ucast (a 4))) m)
     else if n = 17 then returns n (device_event (SetCursor (ucast (a 0)) (ucast (a 1))) m)
     else if n = 18 then returns (push_bit 8 (ucast (fst (dims m))) OR ucast (snd (dims m))) m
     else if n = 22 then returns n (device_event (SetColor (ucast (a 0)) (ucast (a 1))) m)
     else if n = 23 then (case poll_key (keyq m) of (b, q) \<Rightarrow> returns (bool32 b) (m\<lparr>keyq := q\<rparr>))
     else returns n m)"

text \<open>The loop of \<open>SYS_GETARG\<close>: the argument up to \<open>m - 1\<close> characters, and a NUL if there is room.\<close>

definition getarg_bytes :: "i32 \<Rightarrow> byte list \<Rightarrow> byte list" where
  "getarg_bytes n arg = (if n = 0 then [] else take (unat n - 1) arg @ [0])"

definition file_call ::
  "(byte list \<Rightarrow> nat \<Rightarrow> 'fs \<Rightarrow> byte list option) \<Rightarrow> (byte list \<Rightarrow> byte list \<Rightarrow> 'fs \<Rightarrow> i32 \<times> 'fs) \<Rightarrow>
   i32 \<Rightarrow> (nat \<Rightarrow> i32) \<Rightarrow> machine \<Rightarrow> 'fs \<Rightarrow> (machine + (i32 \<times> machine) \<times> 'fs) option" where
  "file_call rd wr n a m fs =
    (case andthen (check_str (a 0) m) (check_ptr (a 1) (a 2)) of
       None \<Rightarrow> None
     | Some (Inl m') \<Rightarrow> Some (Inl m')
     | Some (Inr m') \<Rightarrow>
         (case cstr_at m' (a 0) of
            None \<Rightarrow> None
          | Some name \<Rightarrow>
              if n = 19 then
                (case rd name (unat (a 2)) fs of
                   None \<Rightarrow> Some (Inr ((- 1, m'), fs))
                 | Some data \<Rightarrow> Some (Inr ((word_of_nat (length data), store (a 1) data m'), fs)))
              else (case wr name (load m' (a 1) (unat (a 2))) fs of (r, fs') \<Rightarrow> Some (Inr ((r, m'), fs')))))"

definition without_fs :: "'fs \<Rightarrow> (i32 \<times> machine) outcome \<Rightarrow> (machine + (i32 \<times> machine) \<times> 'fs) option" where
  "without_fs fs r =
    (case r of None \<Rightarrow> None | Some (Inl m) \<Rightarrow> Some (Inl m) | Some (Inr vm) \<Rightarrow> Some (Inr (vm, fs)))"

definition syscall_handler ::
  "(byte list \<Rightarrow> nat \<Rightarrow> 'fs \<Rightarrow> byte list option) \<Rightarrow> (byte list \<Rightarrow> byte list \<Rightarrow> 'fs \<Rightarrow> i32 \<times> 'fs) \<Rightarrow>
   i32 \<Rightarrow> i32 \<Rightarrow> machine \<Rightarrow> 'fs \<Rightarrow> (machine + (i32 \<times> machine) \<times> 'fs) option" where
  "syscall_handler rd wr eax ebx m fs =
    (if SYS_COUNT \<le> eax \<or> \<not> user_range_ok ebx (sys_argc eax * 4)
     then Some (Inl (prog_fault ''bad syscall args'' m))
     else
       let a = (\<lambda>i. load32 m (ebx + 4 * word_of_nat i)) in
       if eax = 7 then
         without_fs fs (andthen (check_str (a 0) m)
           (\<lambda>m. andthen (do_printf ALL_MEMORY (a 0) (ebx + 4) m) (returns 0)))
       else if eax = 19 \<or> eax = 20 then file_call rd wr eax a m fs
       else if eax = 21 then
         without_fs fs (and_return eax (andthen (check_ptr (a 0) (a 1) m)
           (\<lambda>m. Some (Inr (store (a 0) (getarg_bytes (a 1) (prog_arg m)) m)))))
       else without_fs fs (if eax < 7 then console_call eax a m else game_call eax a m))"

text \<open>The general protection fault: kill a ring-3 program, halt the kernel otherwise.\<close>

definition gpf_handler :: "i32 \<Rightarrow> i32 \<Rightarrow> machine \<Rightarrow> machine" where
  "gpf_handler cs eip m =
    (if cs AND 3 = 3 then prog_fault ''protection fault'' m else device_event Halted (device_event (Serial (bytes_of ''KERNEL #GP'')) m))"

section \<open>Loading a program\<close>

definition stub_code :: "byte list" where
  "stub_code = [0x6A, 0x00, 0x89, 0xE3, 0xB8, 3, 0x00, 0x00, 0x00, 0xCD, 0x80]"

definition prog_load :: "(byte list \<Rightarrow> nat \<Rightarrow> byte list option) \<Rightarrow> byte list \<Rightarrow> machine \<Rightarrow> i32 \<times> machine" where
  "prog_load rd filename m =
    (case rd filename 65536 of
       None \<Rightarrow> (0, out [10] (out filename (device_event (SetColor 15 0) (out (bytes_of ''File not found: '') (device_event (SetColor 12 0) m)))))
     | Some data \<Rightarrow>
         (let m1 = store USER_EXIT_STUB stub_code (store PROG_LOAD_ADDR data m);
              ustack = USER_STACK_TOP - 4
          in (ustack, store ustack [0x00, 0x00, 0x2F, 0x00] m1)))"

end
