(* ===== verification/SyscallSpec.thy ===== *)
theory SyscallSpec
  imports Syscalls
begin

text \<open>
  What protects the kernel from a ring-3 program: a system call writes only inside the user window,
  for any call number, any argument pointer and any arguments. Reads are confined as well, except
  by printf.
\<close>

section \<open>The user window\<close>

definition window :: "i32 \<Rightarrow> bool" where
  "window p \<longleftrightarrow> USER_REGION_BASE \<le> p \<and> p < USER_REGION_TOP"

lemma window_unat: "window p \<longleftrightarrow> 0x200000 \<le> unat p \<and> unat p < 0x300000"
  by (simp add: window_def USER_REGION_BASE_def USER_REGION_TOP_def word_le_nat_alt word_less_nat_alt)

lemma range_ok_unat:
  "user_range_ok a n \<longleftrightarrow> n = 0 \<or> (unat a + unat n \<le> 0x300000 \<and> 0x200000 \<le> unat a)"
proof (cases "unat a + unat n < 2 ^ 32")
  case True
  then have "unat (a + n) = unat a + unat n" by (simp add: unat_word_ariths)
  then show ?thesis
    by (auto simp: user_range_ok_def Let_def USER_REGION_BASE_def USER_REGION_TOP_def word_le_nat_alt)
next
  case False
  have "unat a < 2 ^ 32" "unat n < 2 ^ 32" using unsigned_less [of a] unsigned_less [of n] by simp_all
  then have "unat (a + n) = unat a + unat n - 2 ^ 32"
    using False by (simp add: unat_word_ariths mod_if)
  then have "\<not> a \<le> a + n" using False \<open>unat n < 2 ^ 32\<close> by (simp add: word_le_nat_alt)
  then show ?thesis using False by (simp add: user_range_ok_def Let_def)
qed

lemma window_offset:
  assumes "user_range_ok a n" and "i < unat n"
  shows "window (a + word_of_nat i)" and "unat (a + word_of_nat i) = unat a + i"
proof -
  have r: "unat a + unat n \<le> 0x300000" "0x200000 \<le> unat a"
    using assms range_ok_unat [of a n] by (auto simp: unat_eq_zero)
  then have "unat (word_of_nat i :: i32) = i" using assms(2) by (simp add: unat_of_nat)
  then show u: "unat (a + word_of_nat i) = unat a + i"
    using r assms(2) by (simp add: unat_word_ariths)
  show "window (a + word_of_nat i)" unfolding window_unat u using r assms(2) by simp
qed

section \<open>Stores\<close>

definition frames :: "machine \<Rightarrow> machine \<Rightarrow> bool" where
  "frames m m' \<longleftrightarrow> (\<forall>p. \<not> window p \<longrightarrow> kmem m' p = kmem m p)"

lemma frames_refl [simp]: "frames m m"
  by (simp add: frames_def)

lemma frames_trans: "frames m m' \<Longrightarrow> frames m' m'' \<Longrightarrow> frames m m''"
  by (simp add: frames_def)

lemma kmem_simps [simp]:
  "kmem (out cs m) = kmem m" "kmem (device_event e m) = kmem m" "kmem (prog_fault r m) = kmem m"
  "kmem (sys_exit c m) = kmem m" "kmem (print_dec v m) = kmem m" "kmem (print_unsigned v m) = kmem m"
  "kmem (print_hex v m) = kmem m"
  by (simp_all add: out_def device_event_def prog_fault_def sys_exit_def print_dec_def print_unsigned_def print_hex_def Let_def)

lemma frames_kmem: "kmem m' = kmem m \<Longrightarrow> frames m m'"
  by (simp add: frames_def)

lemma fold_upd_out:
  "\<forall>(i, b) \<in> set xs. p \<noteq> a + word_of_nat i \<Longrightarrow> fold (\<lambda>(i, b) k. k(a + word_of_nat i := b)) xs k p = k p"
  by (induction xs arbitrary: k) auto

lemma store_out:
  assumes "\<forall>i < length bs. p \<noteq> a + word_of_nat i"
  shows "kmem (store a bs m) p = kmem m p"
  unfolding store_def using assms by (auto intro!: fold_upd_out dest!: set_zip_leftD)

lemma store_frames:
  assumes "user_range_ok a n" and "length bs \<le> unat n"
  shows "frames m (store a bs m)"
  using window_offset(1) [OF assms(1)] assms(2) store_out unfolding frames_def by (metis less_le_trans)

section \<open>Every call is confined\<close>

definition confined :: "machine \<Rightarrow> ('a \<Rightarrow> machine) \<Rightarrow> 'a outcome \<Rightarrow> bool" where
  "confined m f r \<longleftrightarrow> (case r of None \<Rightarrow> True | Some (Inl m') \<Rightarrow> frames m m' | Some (Inr x) \<Rightarrow> frames m (f x))"

lemma confined_simps [simp]:
  "confined m f None" "confined m f (Some (Inl m')) = frames m m'" "confined m f (Some (Inr x)) = frames m (f x)"
  by (simp_all add: confined_def)

lemma andthen_confined:
  assumes "confined m id r" and "\<And>m'. r = Some (Inr m') \<Longrightarrow> confined m' f (g m')"
  shows "confined m f (andthen r g)"
proof (cases r)
  case (Some x)
  then show ?thesis
  proof (cases x)
    case (Inr m')
    then have "confined m' f (g m')" "frames m m'" using assms Some by simp_all
    then show ?thesis
      using Some Inr by (auto simp: andthen_def confined_def intro: frames_trans split: option.splits sum.splits)
  qed (use assms Some in \<open>simp add: andthen_def\<close>)
qed (simp add: andthen_def)

lemma confined_trans: "frames m m1 \<Longrightarrow> confined m1 f r \<Longrightarrow> confined m f r"
  by (auto simp: confined_def intro: frames_trans split: option.splits sum.splits)

lemma check_confined: "confined m id (check_ptr a n m)" "confined m id (check_str a m)"
  by (simp_all add: check_ptr_def check_str_def frames_kmem)

lemma check_ptr_ok: "check_ptr a n m = Some (Inr m') \<Longrightarrow> user_range_ok a n \<and> m' = m"
  by (auto simp: check_ptr_def split: if_splits)

lemma write_cstr_confined: "confined m id (write_cstr a m)"
  by (simp add: write_cstr_def frames_kmem split: option.split)

lemma with_arg_confined:
  assumes "\<And>v m'. confined m' id (f v m')"
  shows "confined m id (with_arg ap m f)"
  using assms check_ptr_ok
  by (auto simp: with_arg_def next_arg_def check_ptr_def andthen_def frames_kmem)

lemma conversion_confined: "confined m id (fst (conversion c ap m))"
  by (auto simp: conversion_def frames_kmem intro!: with_arg_confined andthen_confined check_confined write_cstr_confined)

lemma printf_confined: "confined m id (do_printf n fmt ap m)"
proof (induction n arbitrary: fmt ap m)
  case (Suc n)
  show ?case
  proof (cases "kmem m fmt = 37")
    case True
    then show ?thesis
      using conversion_confined [of m "kmem m (fmt + 1)" ap] Suc.IH
      by (auto intro!: andthen_confined split: prod.split)
  next
    case False
    have f: "frames m (out [kmem m fmt] m)" by (simp add: frames_kmem)
    have IH: "confined (out [kmem m fmt] m) id (do_printf n (fmt + 1) ap (out [kmem m fmt] m))" by (rule Suc.IH)
    from confined_trans [OF f IH] show ?thesis using False by (simp add: id_def frames_kmem)
  qed
qed simp

lemma returns_confined: "frames m m' \<Longrightarrow> confined m snd (returns v m')"
  by (simp add: returns_def)

lemma and_return_confined: "confined m id r \<Longrightarrow> confined m snd (and_return v r)"
  unfolding and_return_def by (rule andthen_confined) (simp_all add: returns_def)

lemma checked_store:
  "length bs \<le> unat n \<Longrightarrow>
    confined m id (andthen (check_ptr a n m) (\<lambda>m'. Some (Inr (store a bs m'))))"
  by (rule andthen_confined [OF check_confined(1)]) (auto dest!: check_ptr_ok intro: store_frames)

lemma getarg_length: "length arg < 2 ^ 32 \<Longrightarrow> length (getarg_bytes n arg) \<le> unat n"
proof (cases "n = 0")
  case False
  then have "0 < unat n" by (simp add: unat_gt_0)
  then show ?thesis by (simp add: getarg_bytes_def False)
qed (simp add: getarg_bytes_def)

lemma console_confined: "confined m snd (console_call n a m)"
  by (auto simp: console_call_def returns_def frames_kmem
      intro!: and_return_confined checked_store andthen_confined check_confined write_cstr_confined
      split: option.split prod.split)

lemma game_confined: "confined m snd (game_call n a m)"
  by (auto simp: game_call_def returns_def frames_kmem
      intro!: and_return_confined andthen_confined check_confined
        store_frames dest!: check_ptr_ok split: option.split prod.split)

lemma file_confined:
  assumes law: "\<And>name n d. rd name n fs = Some d \<Longrightarrow> length d \<le> n"
  shows "confined m (snd \<circ> fst) (file_call rd wr n a m fs)"
proof -
  have c: "confined m id (andthen (check_str (a 0) m) (check_ptr (a 1) (a 2)))"
    by (rule andthen_confined [OF check_confined(2) check_confined(1)])
  have ok: "user_range_ok (a 1) (a 2) \<and> frames m m'"
    if "andthen (check_str (a 0) m) (check_ptr (a 1) (a 2)) = Some (Inr m')" for m'
    using that by (auto simp: andthen_def check_str_def check_ptr_def split: if_splits)
  show ?thesis
    using c by (auto simp: file_call_def simp del: One_nat_def split: option.split sum.split prod.split
        dest!: ok law intro: frames_trans store_frames)
qed

lemma without_fs_confined: "confined m snd r \<Longrightarrow> confined m (snd \<circ> fst) (without_fs fs r)"
  by (auto simp: without_fs_def confined_def split: option.splits sum.splits)

lemma getarg_confined:
  assumes "length arg < 2 ^ 32"
  shows "confined m id (andthen (check_ptr p n m) (\<lambda>m. Some (Inr (store p (getarg_bytes n arg) m))))"
  by (rule checked_store [OF getarg_length [OF assms]])

lemma handler_confined:
  assumes "\<And>name n d. rd name n fs = Some d \<Longrightarrow> length d \<le> n" and "length (prog_arg m) < 2 ^ 32"
  shows "confined m (snd \<circ> fst) (syscall_handler rd wr eax ebx m fs)"
proof -
  have p: "confined m snd (andthen (check_str a m) (\<lambda>m. andthen (do_printf k a ap m) (returns 0)))" for a k ap
    by (rule andthen_confined [OF check_confined(2)], rule andthen_confined [OF printf_confined])
       (simp add: returns_def)
  have g: "confined m id (andthen (check_ptr q n m) (\<lambda>m. Some (Inr (store q (getarg_bytes n (prog_arg m)) m))))" for q n
    by (rule andthen_confined [OF check_confined(1)])
       (auto dest!: check_ptr_ok intro: store_frames simp: getarg_length [OF assms(2)])
  show ?thesis
    unfolding syscall_handler_def Let_def
    using file_confined [OF assms(1)] console_confined game_confined
    by (auto simp: frames_kmem intro!: without_fs_confined p and_return_confined g)
qed

section \<open>Strings that were checked\<close>

lemma scan_cstr:
  "scan_nul n m p \<Longrightarrow> n \<le> k \<Longrightarrow> \<exists>s. cstr_from k m p = Some s \<and> length s < n"
proof (induction n m p arbitrary: k rule: scan_nul.induct)
  case (2 n m p)
  then obtain j where k: "k = Suc j" and j: "n \<le> j" by (cases k) auto
  show ?case
  proof (cases "kmem m p = 0")
    case False
    then have "scan_nul n m (p + 1)" using 2(2) by simp
    from 2(1) [OF False this j] show ?thesis using k False by auto
  qed (simp add: k)
qed simp

lemma cstr_scan: "cstr_from k m p = Some s \<Longrightarrow> length s < n \<Longrightarrow> scan_nul n m p"
proof (induction k m p arbitrary: s n rule: cstr_from.induct)
  case (2 k m p)
  then show ?case by (cases n) (auto split: if_splits)
qed simp

lemma user_str_ok_cstr:
  "user_str_ok m a \<longleftrightarrow> (\<exists>s. cstr_at m a = Some s \<and> 0x200000 \<le> unat a \<and> unat a + length s < 0x300000)"
proof (cases "window a")
  case True
  then have w: "0x200000 \<le> unat a" "unat a < 0x300000" by (simp_all add: window_unat)
  then have d: "unat (USER_REGION_TOP - a) = 0x300000 - unat a"
    by (simp add: USER_REGION_TOP_def unat_sub word_le_nat_alt)
  have "user_str_ok m a = scan_nul (0x300000 - unat a) m a"
    using True d leD by (auto simp: user_str_ok_def window_def)
  also have "\<dots> \<longleftrightarrow> (\<exists>s. cstr_at m a = Some s \<and> length s < 0x300000 - unat a)"
    unfolding cstr_at_def
    using scan_cstr [of "0x300000 - unat a" m a ALL_MEMORY] cstr_scan [of ALL_MEMORY m a _ "0x300000 - unat a"]
    by (auto simp: ALL_MEMORY_def)
  finally show ?thesis using w by auto
next
  case False
  then show ?thesis
    by (auto simp: user_str_ok_def window_def window_unat not_less word_le_nat_alt USER_REGION_BASE_def USER_REGION_TOP_def)
qed

section \<open>Properties\<close>

text \<open>
  C3: A system call made by a user program, with any call number, any argument pointer and any
  memory contents, changes no byte of memory outside the user window from 0x200000 up to 0x300000,
  whether it returns to the program or ends it. The file reader behind it returns at most as many
  bytes as it was asked for.
\<close>

theorem syscall_confined:
  assumes "\<And>name n d. rd name n fs = Some d \<Longrightarrow> length d \<le> n" and "length (prog_arg m) < 2 ^ 32"
    and "syscall_handler rd wr eax ebx m fs = Some r"
    and "m' = (case r of Inl m1 \<Rightarrow> m1 | Inr res \<Rightarrow> snd (fst res))"
    and "p < 0x200000 \<or> 0x300000 \<le> p"
  shows "kmem m' p = kmem m p"
proof -
  have "confined m (snd \<circ> fst) (syscall_handler rd wr eax ebx m fs)" by (rule handler_confined [OF assms(1,2)])
  then have "frames m m'" using assms(3,4) by (cases r) auto
  moreover have "\<not> window p"
    using assms(5) by (auto simp: window_def USER_REGION_BASE_def USER_REGION_TOP_def)
  ultimately show ?thesis by (simp add: frames_def)
qed

definition demo_machine :: machine where
  "demo_machine =
    \<lparr>kmem = (\<lambda>p. if p = 0x200002 then 0x20 else if p = 0x200004 then 0x2A else 0), events = [], keyq = [], ticks = 0,
     down = (\<lambda>_. False), ext_down = (\<lambda>_. False), rom_font = [], dims = (80, 25), prog_arg = [],
     prog_exited = False, prog_exit_code = 0\<rparr>"

lemma syscall_confined_witness:
  "\<exists>m'. syscall_handler (\<lambda>name n fs. None) (\<lambda>name d fs. (0, fs)) 5 0x200000 demo_machine () = Some (Inr ((5, m'), ())) \<and>
    kmem m' 0x200000 = 0x2A \<and> kmem m' 0x100000 = 0"
proof -
  let ?h = "syscall_handler (\<lambda>name n fs. None) (\<lambda>name d fs. (0, fs)) 5 0x200000 demo_machine ()"
  have h: "?h = Some (Inr ((5, store 0x200000 [0x2A] demo_machine), ()))"
    by (simp add: syscall_handler_def SYS_COUNT_def sys_argc_def user_range_ok_def Let_def USER_REGION_BASE_def
        USER_REGION_TOP_def console_call_def load32_def demo_machine_def check_ptr_def andthen_def and_return_def
        returns_def without_fs_def word_le_nat_alt word_less_nat_alt)
  have "kmem (store 0x200000 [0x2A] demo_machine) 0x100000 = kmem demo_machine 0x100000"
    by (rule syscall_confined [OF _ _ h]) (simp_all add: demo_machine_def)
  then show ?thesis using h by (auto simp: store_def demo_machine_def)
qed

text \<open>
  C36: The pointer checks of the system calls are exact: a range passes when it is empty or lies in
  the user window as a range of natural numbers (the 32-bit sum cannot wrap), and a string passes
  when it starts in the window and its NUL is in the window, in which case reading it ends there.
\<close>

theorem pointer_checks_exact:
  "(user_range_ok a n \<longleftrightarrow> n = 0 \<or> (0x200000 \<le> unat a \<and> unat a + unat n \<le> 0x300000)) \<and>
   (user_str_ok m a \<longleftrightarrow> (\<exists>s. cstr_at m a = Some s \<and> 0x200000 \<le> unat a \<and> unat a + length s < 0x300000))"
  using range_ok_unat user_str_ok_cstr by auto

text \<open>
  C37: A format string that ends in a percent sign makes printf read behind its NUL: with the format
  in the last two bytes of the user window, the call passes every check and writes the kernel's bytes
  behind the window to the screen.
\<close>

theorem printf_reads_behind_window:
  assumes "user_range_ok ebx 4" and "load32 m ebx = 0x2FFFFE"
    and "kmem m 0x2FFFFE = 37" and "kmem m 0x2FFFFF = 0"
    and "kmem m 0x300000 = c" and "c \<noteq> 0" and "c \<noteq> 37" and "kmem m 0x300001 = 0"
  shows "syscall_handler rd wr 7 ebx m fs = Some (Inr ((0, m\<lparr>events := events m @ [Out 37, Out 0, Out c]\<rparr>), fs))"
proof -
  have "ALL_MEMORY = Suc (Suc (Suc (2 ^ 32 - 3)))" by (simp add: ALL_MEMORY_def)
  then obtain k where k: "ALL_MEMORY = Suc (Suc (Suc k))" by blast
  have "cstr_at m 0x2FFFFE = Some [37]" unfolding cstr_at_def k using assms(3,4) by simp
  then have s: "user_str_ok m 0x2FFFFE" by (simp add: user_str_ok_cstr)
  have "do_printf ALL_MEMORY 0x2FFFFE ap m = Some (Inr (m\<lparr>events := events m @ [Out 37, Out 0, Out c]\<rparr>))" for ap
    unfolding k using assms by (simp add: conversion_def andthen_def out_def)
  then show ?thesis
    using assms s by (simp add: syscall_handler_def SYS_COUNT_def sys_argc_def Let_def check_str_def andthen_def
        returns_def without_fs_def)
qed

lemma printf_reads_behind_window_witness:
  "\<exists>m. syscall_handler (\<lambda>name n fs. None) (\<lambda>name d fs. (0, fs)) 7 0x200000 m () =
      Some (Inr ((0, m\<lparr>events := [Out 37, Out 0, Out 0x53]\<rparr>), ()))"
proof -
  let ?m = "demo_machine\<lparr>kmem := (\<lambda>_. 0)(0x200000 := 0xFE, 0x200001 := 0xFF, 0x200002 := 0x2F, 0x2FFFFE := 37, 0x300000 := 0x53)\<rparr>"
  have "syscall_handler (\<lambda>name n fs. None) (\<lambda>name d fs. (0, fs)) 7 0x200000 ?m () =
      Some (Inr ((0, ?m\<lparr>events := events ?m @ [Out 37, Out 0, Out 0x53]\<rparr>), ()))"
    by (rule printf_reads_behind_window)
       (simp_all add: user_range_ok_def USER_REGION_BASE_def USER_REGION_TOP_def load32_def word_le_nat_alt)
  then have "syscall_handler (\<lambda>name n fs. None) (\<lambda>name d fs. (0, fs)) 7 0x200000 ?m () =
      Some (Inr ((0, ?m\<lparr>events := [Out 37, Out 0, Out 0x53]\<rparr>), ()))"
    by (simp add: demo_machine_def)
  then show ?thesis by blast
qed

end
