(* ===== verification/CMachine.thy ===== *)
theory CMachine
  imports CCodegen "HOL-Library.Signed_Division" "HOL-Library.Sublist"
begin

unbundle bit_operations_syntax

text \<open>
  The part of the x86 instruction set that straight-line expression code of the C compiler uses, as an
  interpreter of its bytes, and the meaning of C expressions on 32-bit integers.

  The flags are what \<open>cmp\<close> and \<open>test\<close> leave for the \<open>setcc\<close> behind them; no generated code reads
  flags that another instruction set.
\<close>

section \<open>The machine\<close>

record x86 =
  eax :: i32
  ecx :: i32
  edx :: i32
  stk :: "i32 list"
  frame :: "i32 \<Rightarrow> i32"
  zf :: bool
  lt :: bool

definition set_al :: "bool \<Rightarrow> x86 \<Rightarrow> x86" where
  "set_al b m = m\<lparr>eax := (eax m AND NOT 0xFF) OR (if b then 1 else 0)\<rparr>"

definition idiv :: "x86 \<Rightarrow> x86 option" where
  "idiv m =
    (let n = sint (edx m) * 2 ^ 32 + uint (eax m); d = sint (ecx m); q = n sdiv d in
     if d = 0 \<or> \<not> (- (2 ^ 31) \<le> q \<and> q < 2 ^ 31) then None
     else Some (m\<lparr>eax := word_of_int q, edx := word_of_int (n smod d)\<rparr>))"

definition pop :: "(i32 \<Rightarrow> x86 \<Rightarrow> x86) \<Rightarrow> x86 \<Rightarrow> x86 option" where
  "pop f m = (case stk m of [] \<Rightarrow> None | v # r \<Rightarrow> Some (f v (m\<lparr>stk := r\<rparr>)))"

definition instructions :: "(byte list \<times> (x86 \<Rightarrow> x86 option)) list" where
  "instructions =
    [([0x50], \<lambda>m. Some (m\<lparr>stk := eax m # stk m\<rparr>)),
     ([0x59], pop (\<lambda>v m. m\<lparr>ecx := v\<rparr>)),
     ([0x58], pop (\<lambda>v m. m\<lparr>eax := v\<rparr>)),
     ([0x01, 0xC8], \<lambda>m. Some (m\<lparr>eax := eax m + ecx m\<rparr>)),
     ([0x29, 0xC1], \<lambda>m. Some (m\<lparr>ecx := ecx m - eax m\<rparr>)),
     ([0x89, 0xC8], \<lambda>m. Some (m\<lparr>eax := ecx m\<rparr>)),
     ([0x0F, 0xAF, 0xC1], \<lambda>m. Some (m\<lparr>eax := eax m * ecx m\<rparr>)),
     ([0x91], \<lambda>m. Some (m\<lparr>eax := ecx m, ecx := eax m\<rparr>)),
     ([0x99], \<lambda>m. Some (m\<lparr>edx := (if sint (eax m) < 0 then - 1 else 0)\<rparr>)),
     ([0xF7, 0xF9], idiv),
     ([0x89, 0xD0], \<lambda>m. Some (m\<lparr>eax := edx m\<rparr>)),
     ([0x21, 0xC8], \<lambda>m. Some (m\<lparr>eax := eax m AND ecx m\<rparr>)),
     ([0x09, 0xC8], \<lambda>m. Some (m\<lparr>eax := eax m OR ecx m\<rparr>)),
     ([0x31, 0xC8], \<lambda>m. Some (m\<lparr>eax := eax m XOR ecx m\<rparr>)),
     ([0xD3, 0xE0], \<lambda>m. Some (m\<lparr>eax := push_bit (unat (ecx m AND 31)) (eax m)\<rparr>)),
     ([0xD3, 0xE8], \<lambda>m. Some (m\<lparr>eax := drop_bit (unat (ecx m AND 31)) (eax m)\<rparr>)),
     ([0xF7, 0xD8], \<lambda>m. Some (m\<lparr>eax := - eax m\<rparr>)),
     ([0xF7, 0xD0], \<lambda>m. Some (m\<lparr>eax := NOT (eax m)\<rparr>)),
     ([0x85, 0xC0], \<lambda>m. Some (m\<lparr>zf := (eax m = 0), lt := (sint (eax m) < 0)\<rparr>)),
     ([0x39, 0xC1], \<lambda>m. Some (m\<lparr>zf := (ecx m = eax m), lt := (sint (ecx m) < sint (eax m))\<rparr>)),
     ([0x0F, 0x94, 0xC0], \<lambda>m. Some (set_al (zf m) m)),
     ([0x0F, 0x95, 0xC0], \<lambda>m. Some (set_al (\<not> zf m) m)),
     ([0x0F, 0x9C, 0xC0], \<lambda>m. Some (set_al (lt m) m)),
     ([0x0F, 0x9D, 0xC0], \<lambda>m. Some (set_al (\<not> lt m) m)),
     ([0x0F, 0x9E, 0xC0], \<lambda>m. Some (set_al (lt m \<or> zf m) m)),
     ([0x0F, 0x9F, 0xC0], \<lambda>m. Some (set_al (\<not> lt m \<and> \<not> zf m) m)),
     ([0x0F, 0xB6, 0xC0], \<lambda>m. Some (m\<lparr>eax := eax m AND 0xFF\<rparr>))]"

text \<open>The immediate or displacement in front of the rest of the code.\<close>

definition imm32 :: "byte list \<Rightarrow> i32" where
  "imm32 bs = ucast (bs ! 0) OR push_bit 8 (ucast (bs ! 1)) OR push_bit 16 (ucast (bs ! 2)) OR push_bit 24 (ucast (bs ! 3))"

definition x86_step :: "byte list \<Rightarrow> x86 \<Rightarrow> (byte list \<times> x86) option" where
  "x86_step bs m =
    (if prefix [0xB8] bs \<and> 5 \<le> length bs then Some (drop 5 bs, m\<lparr>eax := imm32 (drop 1 bs)\<rparr>)
     else if prefix [0x8B, 0x85] bs \<and> 6 \<le> length bs then Some (drop 6 bs, m\<lparr>eax := frame m (imm32 (drop 2 bs))\<rparr>)
     else case find (\<lambda>(p, f). prefix p bs) instructions of
            None \<Rightarrow> None
          | Some (p, f) \<Rightarrow> map_option (\<lambda>m'. (drop (length p) bs, m')) (f m))"

text \<open>Run the bytes from the first to the last; every instruction is at least one byte long.\<close>

fun run_steps :: "nat \<Rightarrow> byte list \<Rightarrow> x86 \<Rightarrow> x86 option" where
  "run_steps 0 bs m = (if bs = [] then Some m else None)"
| "run_steps (Suc n) bs m =
    (if bs = [] then Some m else case x86_step bs m of None \<Rightarrow> None | Some (r, m') \<Rightarrow> run_steps n r m')"

definition run_code :: "byte list \<Rightarrow> x86 \<Rightarrow> x86 option" where
  "run_code bs m = run_steps (length bs) bs m"

section \<open>Running code piece by piece\<close>

text \<open>\<open>does bs f\<close>: in front of any code, \<open>bs\<close> is a sequence of instructions with the effect \<open>f\<close>.\<close>

definition does :: "byte list \<Rightarrow> x86 \<Rightarrow> x86 \<Rightarrow> bool" where
  "does bs m m' \<longleftrightarrow> (\<exists>k \<le> length bs. \<forall>n r. run_steps (n + k) (bs @ r) m = run_steps n r m')"

lemma does_nil [intro!]: "does [] m m"
  by (simp add: does_def)

lemma does_append: "does bs m m1 \<Longrightarrow> does cs m1 m2 \<Longrightarrow> does (bs @ cs) m m2"
proof -
  assume "does bs m m1" "does cs m1 m2"
  then obtain k j where kj: "k \<le> length bs" "j \<le> length cs"
    "\<And>n r. run_steps (n + k) (bs @ r) m = run_steps n r m1" "\<And>n r. run_steps (n + j) (cs @ r) m1 = run_steps n r m2"
    unfolding does_def by blast
  have "run_steps (n + (j + k)) ((bs @ cs) @ r) m = run_steps n r m2" for n r
    using kj(3) [of "n + j" "cs @ r"] kj(4) [of n r] by (simp add: add.assoc)
  then show ?thesis unfolding does_def using kj(1,2) by (intro exI [of _ "j + k"]) auto
qed

lemma does_step:
  assumes "bs \<noteq> []" and "\<And>r. x86_step (bs @ r) m = Some (r, m')"
  shows "does bs m m'"
  unfolding does_def using assms by (intro exI [of _ 1]) (cases bs, auto)

lemma does_run: "does bs m m' \<Longrightarrow> run_code bs m = Some m'"
proof -
  assume "does bs m m'"
  then obtain k where k: "k \<le> length bs" "\<And>n r. run_steps (n + k) (bs @ r) m = run_steps n r m'"
    unfolding does_def by blast
  have "run_steps (length bs - k) [] m' = Some m'" by (cases "length bs - k") auto
  then show ?thesis using k(1) k(2) [of "length bs - k" "[]"] by (simp add: run_code_def)
qed

lemma dword_of_bytes:
  "ucast (ucast (d :: i32) :: byte) OR push_bit 8 (ucast (ucast (drop_bit 8 d) :: byte)) OR
   push_bit 16 (ucast (ucast (drop_bit 16 d) :: byte)) OR push_bit 24 (ucast (ucast (drop_bit 24 d) :: byte)) = d"
proof (rule bit_word_eqI)
  fix n
  assume n: "n < LENGTH(32)"
  consider "n < 8" | "8 \<le> n" "n < 16" | "16 \<le> n" "n < 24" | "24 \<le> n" by linarith
  then show "bit (ucast (ucast d :: byte) OR push_bit 8 (ucast (ucast (drop_bit 8 d) :: byte)) OR
      push_bit 16 (ucast (ucast (drop_bit 16 d) :: byte)) OR push_bit 24 (ucast (ucast (drop_bit 24 d) :: byte)) :: i32) n = bit d n"
    using n by cases (auto simp: bit_simps)
qed

lemma imm32_dword: "imm32 (dword_bytes d @ r) = d"
  using dword_of_bytes [of d] by (simp add: imm32_def dword_bytes_def)

lemma does_mov: "does (0xB8 # dword_bytes v) m (m\<lparr>eax := v\<rparr>)"
  by (rule does_step) (auto simp: x86_step_def imm32_dword [unfolded dword_bytes_def append_Cons append_Nil] dword_bytes_def)

lemma does_load: "does ([0x8B, 0x85] @ dword_bytes off) m (m\<lparr>eax := frame m off\<rparr>)"
  by (rule does_step) (auto simp: x86_step_def imm32_dword [unfolded dword_bytes_def append_Cons append_Nil] dword_bytes_def)

lemma find_unique:
  assumes "y \<in> set xs" and "P y" and "\<And>z. z \<in> set xs \<Longrightarrow> P z \<Longrightarrow> z = y"
  shows "find P xs = Some y"
proof (cases "find P xs")
  case None
  then show ?thesis using assms(1,2) by (simp add: find_None_iff)
next
  case (Some z)
  then have "z \<in> set xs \<and> P z" by (auto simp: find_Some_iff)
  then show ?thesis using Some assms(3) [of z] by blast
qed

lemma find_prefix_free:
  assumes "\<And>p q. p \<in> fst ` set xs \<Longrightarrow> q \<in> fst ` set xs \<Longrightarrow> prefix p q \<Longrightarrow> p = q"
    and "distinct (map fst xs)" and "(p, f) \<in> set xs"
  shows "find (\<lambda>(q, g). prefix q (p @ r)) xs = Some (p, f)"
proof (rule find_unique [OF assms(3)])
  show "case (p, f) of (q, g) \<Rightarrow> prefix q (p @ r)" by simp
next
  fix z
  assume z: "z \<in> set xs" "case z of (q, g) \<Rightarrow> prefix q (p @ r)"
  obtain q g where q: "z = (q, g)" by (cases z)
  have "p \<in> fst ` set xs" "q \<in> fst ` set xs" using imageI [OF assms(3), of fst] imageI [OF z(1), of fst] q by simp_all
  moreover have "prefix q p \<or> prefix p q" using prefix_same_cases [of q "p @ r" p] z(2) q by simp
  ultimately have "q = p" using assms(1) by metis
  then show "z = (p, f)" using eq_key_imp_eq_value [OF assms(2,3)] z(1) q by metis
qed

lemma instructions_prefix_free:
  "list_all (\<lambda>p. list_all (\<lambda>q. prefix p q \<longrightarrow> p = q) (map fst instructions)) (map fst instructions) \<and> distinct (map fst instructions) \<and>
   list_all (\<lambda>p. p \<noteq> [] \<and> hd p \<noteq> 0xB8 \<and> hd p \<noteq> 0x8B) (map fst instructions)"
  unfolding instructions_def list.map fst_conv by code_simp

lemma does_instr:
  assumes "(p, f) \<in> set instructions" and "f m = Some m'"
  shows "does p m m'"
proof -
  have p: "p \<noteq> []" "hd p \<noteq> 0xB8" "hd p \<noteq> 0x8B"
    using instructions_prefix_free assms(1) by (auto simp: list_all_iff)
  have "find (\<lambda>(q, g). prefix q (p @ r)) instructions = Some (p, f)" for r
    by (rule find_prefix_free) (use instructions_prefix_free assms(1) in \<open>auto simp: list_all_iff\<close>)
  then have "x86_step (p @ r) m = Some (r, m')" for r
    using assms(2) p by (cases p) (auto simp: x86_step_def)
  then show ?thesis using p(1) by (intro does_step)
qed

end
