(* ===== verification/CLexerSpec.thy ===== *)
theory CLexerSpec
  imports CLexer CParser
begin

text \<open>
  What the C lexer promises: the text of a list of lexemes is read back as these lexemes. The parser
  lemmas rest on \<open>sees\<close>, which abstracts from the lookahead flag.
\<close>

section \<open>Lexemes and their text\<close>

datatype lexeme = LNum i32 | LName "byte list" | LStr "byte list" | LChr byte | LTok ctok

definition spelling :: "(ctok \<times> byte list) list" where
  "spelling =
    [(TOK_INT, bytes_of ''int''), (TOK_CHAR, bytes_of ''char''), (TOK_VOID, bytes_of ''void''),
     (TOK_IF, bytes_of ''if''), (TOK_ELSE, bytes_of ''else''), (TOK_WHILE, bytes_of ''while''),
     (TOK_FOR, bytes_of ''for''), (TOK_DO, bytes_of ''do''), (TOK_RETURN, bytes_of ''return''),
     (TOK_BREAK, bytes_of ''break''), (TOK_CONTINUE, bytes_of ''continue''),
     (TOK_PLUS, bytes_of ''+''), (TOK_MINUS, bytes_of ''-''), (TOK_STAR, bytes_of ''*''), (TOK_SLASH, bytes_of ''/''),
     (TOK_PERCENT, bytes_of ''%''), (TOK_AMP, bytes_of ''&''), (TOK_PIPE, bytes_of ''|''), (TOK_CARET, bytes_of ''^''),
     (TOK_TILDE, bytes_of ''~''), (TOK_BANG, bytes_of ''!''), (TOK_AND, bytes_of ''&&''), (TOK_OR, bytes_of ''||''),
     (TOK_EQ, bytes_of ''==''), (TOK_NE, bytes_of ''!=''), (TOK_LT, bytes_of ''<''), (TOK_GT, bytes_of ''>''),
     (TOK_LE, bytes_of ''<=''), (TOK_GE, bytes_of ''>=''), (TOK_SHL, bytes_of ''<<''), (TOK_SHR, bytes_of ''>>''),
     (TOK_ASSIGN, bytes_of ''=''), (TOK_PLUSEQ, bytes_of ''+=''), (TOK_MINUSEQ, bytes_of ''-=''),
     (TOK_STAREQ, bytes_of ''*=''), (TOK_SLASHEQ, bytes_of ''/=''), (TOK_INC, bytes_of ''++''), (TOK_DEC, bytes_of ''--''),
     (TOK_LPAREN, bytes_of ''(''), (TOK_RPAREN, bytes_of '')''), (TOK_LBRACE, bytes_of ''{''), (TOK_RBRACE, bytes_of ''}''),
     (TOK_LBRACKET, bytes_of ''[''), (TOK_RBRACKET, bytes_of '']''), (TOK_SEMI, bytes_of '';''), (TOK_COMMA, bytes_of '','')]"

definition esc :: "byte \<Rightarrow> byte list" where
  "esc c =
    (if c = 10 then [92, 110] else if c = 9 then [92, 116] else if c = 13 then [92, 114] else if c = 0 then [92, 48]
     else if c = 92 \<or> c = 34 \<or> c = 39 then [92, c] else [c])"

definition spell :: "lexeme \<Rightarrow> byte list" where
  "spell x =
    (case x of
       LNum n \<Rightarrow> dec_digits_of (unat n)
     | LName w \<Rightarrow> w
     | LStr s \<Rightarrow> 34 # concat (map esc s) @ [34]
     | LChr c \<Rightarrow> 39 # esc c @ [39]
     | LTok t \<Rightarrow> the (map_of spelling t))"

definition good_lexeme :: "lexeme \<Rightarrow> bool" where
  "good_lexeme x =
    (case x of
       LNum n \<Rightarrow> True
     | LName w \<Rightarrow> w \<noteq> [] \<and> c_alpha (hd w) \<and> list_all c_alnum w \<and> length w \<le> LEX_IDENT_MAX \<and> map_of cc_keywords w = None
     | LStr s \<Rightarrow> length s < LEX_STR_MAX
     | LChr c \<Rightarrow> True
     | LTok t \<Rightarrow> t \<in> fst ` set spelling)"

text \<open>Every lexeme is followed by a blank.\<close>

definition source_text :: "lexeme list \<Rightarrow> byte list" where
  "source_text xs = concat (map (\<lambda>x. spell x @ [32]) xs)"

definition tok_of :: "lexeme \<Rightarrow> ctok" where
  "tok_of x = (case x of LNum n \<Rightarrow> TOK_NUM_LIT | LName w \<Rightarrow> TOK_IDENT | LStr s \<Rightarrow> TOK_STR_LIT | LChr c \<Rightarrow> TOK_CHAR_LIT | LTok t \<Rightarrow> t)"

text \<open>The value of the token is in the lexer.\<close>

definition holds_value :: "lexeme \<Rightarrow> lexst \<Rightarrow> bool" where
  "holds_value x l =
    (case x of LNum n \<Rightarrow> cur_num l = n | LName w \<Rightarrow> cur_str l = w | LStr s \<Rightarrow> cur_str l = s | LChr c \<Rightarrow> cur_num l = scast c
       | LTok t \<Rightarrow> True)"

lemma source_text_simps [simp]: "source_text [] = []" "source_text (x # xs) = spell x @ 32 # source_text xs"
  by (simp_all add: source_text_def)

section \<open>Scanning one lexeme\<close>

lemma scan_dec_digits:
  "list_all c_digit ds \<Longrightarrow> scan_dec (ds @ r) n = scan_dec r (foldl (\<lambda>n c. n * 10 + (ucast c - 48)) n ds)"
  by (induction ds arbitrary: n) auto

lemma digit_facts:
  assumes "d < 10"
  shows "c_digit (word_of_nat (48 + d))" and "ucast (word_of_nat (48 + d) :: byte) - 48 = (word_of_nat d :: i32)"
proof -
  have "d = 0 \<or> d = 1 \<or> d = 2 \<or> d = 3 \<or> d = 4 \<or> d = 5 \<or> d = 6 \<or> d = 7 \<or> d = 8 \<or> d = 9" using assms by arith
  then show "c_digit (word_of_nat (48 + d))" "ucast (word_of_nat (48 + d) :: byte) - 48 = (word_of_nat d :: i32)"
    by (elim disjE; simp add: c_digit_def word_le_nat_alt)+
qed

lemma dec_digits_digits: "list_all c_digit (dec_digits_of n)"
proof (induction n rule: dec_digits_of.induct)
  case (1 n)
  have "n mod 10 < 10" by simp
  then show ?case using 1 digit_facts(1) [of n] digit_facts(1) [of "n mod 10"] by (subst dec_digits_of.simps) auto
qed

lemma dec_digits_value:
  "foldl (\<lambda>n c. n * 10 + (ucast c - 48)) 0 (dec_digits_of n) = (word_of_nat n :: i32)"
proof (induction n rule: dec_digits_of.induct)
  case (1 n)
  have m: "n mod 10 < 10" by simp
  have "word_of_nat n = (word_of_nat (n div 10 * 10 + n mod 10) :: i32)" by (simp only: div_mult_mod_eq)
  then have e: "word_of_nat (n div 10) * 10 + word_of_nat (n mod 10) = (word_of_nat n :: i32)"
    by (simp only: of_nat_add of_nat_mult of_nat_numeral)
  show ?case
  proof (cases "n < 10")
    case True
    then show ?thesis using digit_facts(2) [OF True] by (subst dec_digits_of.simps) (simp del: of_nat_add)
  next
    case False
    then have "dec_digits_of n = dec_digits_of (n div 10) @ [word_of_nat (48 + n mod 10)]"
      by (subst dec_digits_of.simps) simp
    then show ?thesis
      by (simp only: foldl_append foldl.simps 1 [OF False] digit_facts(2) [OF m] e)
  qed
qed

lemma dec_digits_Cons:
  obtains c ds where "dec_digits_of n = c # ds" "c_digit c" "list_all c_digit ds"
proof -
  have "dec_digits_of n \<noteq> []" by (subst dec_digits_of.simps) simp
  then obtain c ds where d: "dec_digits_of n = c # ds" by (cases "dec_digits_of n") auto
  then show ?thesis using dec_digits_digits [of n] that by simp
qed

lemma scan_number_digits:
  assumes "list_all c_digit (c # ds)"
  shows "scan_number c (ds @ 32 # r) = (32 # r, foldl (\<lambda>n c. n * 10 + (ucast c - 48)) 0 (c # ds))"
proof -
  have "hd (ds @ 32 # r) \<noteq> 120 \<and> hd (ds @ 32 # r) \<noteq> 88"
    using assms by (cases ds) (auto simp: c_digit_def word_le_nat_alt)
  then show ?thesis using assms by (auto simp: scan_number_def scan_dec_digits c_digit_def)
qed

lemma scan_ident_name:
  "list_all c_alnum w \<Longrightarrow> length w \<le> n \<Longrightarrow> scan_ident n (w @ 32 # r) = (w, 32 # r)"
proof (induction n arbitrary: w)
  case (Suc n)
  then show ?case by (cases w) (auto simp: c_alnum_def c_alpha_def c_digit_def)
qed auto

lemma escape_esc: "esc c = [92, e] \<Longrightarrow> escape e = c"
  by (auto simp: esc_def escape_def split: if_splits)

lemma esc_cases:
  obtains e where "esc c = [92, e]" "escape e = c" "e \<noteq> 10" | "esc c = [c]" "c \<noteq> 10" "c \<noteq> 92" "c \<noteq> 34" "c \<noteq> 39"
proof (cases "c = 10 \<or> c = 9 \<or> c = 13 \<or> c = 0 \<or> c = 92 \<or> c = 34 \<or> c = 39")
  case True
  then show ?thesis using that(1) by (auto simp: esc_def escape_def)
next
  case False
  then show ?thesis using that(2) by (auto simp: esc_def)
qed

lemma scan_str_text:
  "length a + length s < LEX_STR_MAX \<Longrightarrow> scan_str (concat (map esc s) @ 34 # r) l a = (34 # r, l, a @ s)"
proof (induction s arbitrary: a)
  case Nil
  then show ?case by (cases r) auto
next
  case (Cons c s)
  then have IH: "scan_str (concat (map esc s) @ 34 # r) l (a @ [c]) = (34 # r, l, a @ c # s)" by simp
  show ?case
  proof (cases c rule: esc_cases)
    case (1 e)
    then show ?thesis using IH Cons.prems by (simp add: bump_def)
  next
    case 2
    obtain d q where dq: "concat (map esc s) @ 34 # r = d # q" by (cases "concat (map esc s) @ 34 # r") auto
    then show ?thesis using 2 IH Cons.prems by (simp add: bump_def)
  qed
qed

lemma scan_char_text: "scan_char (esc c @ 39 # r) l = (r, l, c)"
  by (cases c rule: esc_cases) (auto simp: scan_char_def bump_def)

lemma skip_blank: "skip_whitespace (32 # r) l = skip_whitespace r l"
  by (simp add: c_space_def bump_def)

lemma skip_none:
  "\<not> c_space c \<Longrightarrow> c \<noteq> 47 \<or> (hd r \<noteq> 47 \<and> hd r \<noteq> 42) \<Longrightarrow> skip_whitespace (c # r) l = (c # r, l)"
  by auto

declare skip_whitespace.simps(2) [simp del] skip_blank [simp] skip_none [simp]

lemma keyword_spelling:
  "(t, w) \<in> set (take 11 spelling) \<Longrightarrow>
    check_keyword w = t \<and> w \<noteq> [] \<and> c_alpha (hd w) \<and> list_all c_alnum w \<and> length w \<le> LEX_IDENT_MAX"
  unfolding spelling_def
  by (simp del: set_simps(1), elim disjE; simp add: check_keyword_def cc_keywords_def c_alpha_def c_alnum_def LEX_IDENT_MAX_def)

lemma scan_op_rest:
  "scan_op c (x # r) = (fst (scan_op c [x]), if snd (scan_op c [x]) = [] then r else x # r)"
  by (simp add: scan_op_def followed_def)

definition symbol_ok :: "ctok \<times> byte list \<Rightarrow> bool" where
  "symbol_ok p =
    (case p of (t, w) \<Rightarrow>
       let c = hd w; v = tl w in w \<noteq> [] \<and> \<not> c_digit c \<and> \<not> c_alpha c \<and> c \<noteq> 34 \<and> c \<noteq> 39 \<and> \<not> c_space c \<and>
         (c \<noteq> 47 \<or> (hd (v @ [32]) \<noteq> 47 \<and> hd (v @ [32]) \<noteq> 42)) \<and>
         (v = [] \<and> scan_op c [32] = (t, [32]) \<or> length v = 1 \<and> scan_op c v = (t, [])))"

lemma symbols_ok: "list_all symbol_ok (drop 11 spelling)"
  by code_simp

lemma symbol_spelling:
  assumes "(t, w) \<in> set (drop 11 spelling)"
  shows "\<exists>c v. w = c # v \<and> \<not> c_digit c \<and> \<not> c_alpha c \<and> c \<noteq> 34 \<and> c \<noteq> 39 \<and>
      skip_whitespace (c # v @ 32 # r) l = (c # v @ 32 # r, l) \<and> scan_op c (v @ 32 # r) = (t, 32 # r)"
proof -
  have ok: "symbol_ok (t, w)" using assms symbols_ok by (auto simp: list_all_iff)
  then obtain c v where w: "w = c # v" by (cases w) (auto simp: symbol_ok_def)
  have "hd (v @ 32 # r) = hd (v @ [32])" by (cases v) auto
  then have sk: "skip_whitespace (c # v @ 32 # r) l = (c # v @ 32 # r, l)"
    using ok w by (intro skip_none) (auto simp: symbol_ok_def)
  have "scan_op c (v @ 32 # r) = (t, 32 # r)"
  proof (cases v)
    case Nil
    then show ?thesis using ok w scan_op_rest [of c 32 r] by (simp add: symbol_ok_def)
  next
    case (Cons d u)
    then have "v = [d]" "scan_op c [d] = (t, [])" using ok w by (auto simp: symbol_ok_def)
    then show ?thesis using scan_op_rest [of c d "32 # r"] by simp
  qed
  then show ?thesis using ok w sk by (auto simp: symbol_ok_def)
qed

lemma spelling_split: "t \<in> fst ` set spelling \<Longrightarrow>
    (t, the (map_of spelling t)) \<in> set (take 11 spelling) \<or> (t, the (map_of spelling t)) \<in> set (drop 11 spelling)"
proof -
  assume "t \<in> fst ` set spelling"
  then obtain w where "map_of spelling t = Some w" by (metis map_of_eq_None_iff not_None_eq)
  then have "(t, the (map_of spelling t)) \<in> set spelling" by (simp add: map_of_SomeD)
  then show ?thesis by (metis Un_iff append_take_drop_id set_append)
qed

lemma alpha_not: "c_alpha c \<Longrightarrow> \<not> c_digit c \<and> \<not> c_space c \<and> c \<noteq> 47"
  by (auto simp: c_alpha_def c_digit_def c_space_def word_le_nat_alt)

lemma digit_not: "c_digit c \<Longrightarrow> \<not> c_space c \<and> c \<noteq> 47"
  by (auto simp: c_digit_def c_space_def word_le_nat_alt)

text \<open>A scan, up to the fields the lexeme does not determine.\<close>

definition scans :: "lexst \<Rightarrow> lexeme \<Rightarrow> byte list \<Rightarrow> bool" where
  "scans l x r \<longleftrightarrow>
    (case lex_scan l of (t, l') \<Rightarrow>
       t = tok_of x \<and> inp l' = 32 # r \<and> lex_line l' = lex_line l \<and> has_peeked l' = has_peeked l \<and> holds_value x l')"

lemma scans_name:
  assumes "w \<noteq> []" "c_alpha (hd w)" "list_all c_alnum w" "length w \<le> LEX_IDENT_MAX" "inp l = w @ 32 # r \<or> inp l = 32 # w @ 32 # r"
  shows "lex_scan l = (check_keyword w, l\<lparr>inp := 32 # r, cur_str := w\<rparr>)"
proof -
  obtain c v where w: "w = c # v" using assms(1) by (cases w) auto
  have "skip_whitespace (inp l) (lex_line l) = (c # v @ 32 # r, lex_line l)"
    using assms(2,5) alpha_not [of c] w by auto
  moreover have "scan_ident (LEX_IDENT_MAX - 1) (v @ 32 # r) = (v, 32 # r)"
    using assms(3,4) w by (intro scan_ident_name) (auto simp: LEX_IDENT_MAX_def)
  ultimately show ?thesis using assms(2) alpha_not [of c] w by (simp add: lex_scan_def)
qed

lemma scans_text:
  assumes "good_lexeme x" and "inp l = spell x @ 32 # r \<or> inp l = 32 # spell x @ 32 # r"
  shows "scans l x r"
proof (cases x)
  case (LNum n)
  obtain c ds where d: "dec_digits_of (unat n) = c # ds" "c_digit c" "list_all c_digit ds" by (rule dec_digits_Cons)
  have "skip_whitespace (inp l) (lex_line l) = (c # ds @ 32 # r, lex_line l)"
    using assms(2) LNum d digit_not [of c] by (auto simp: spell_def)
  moreover have "scan_number c (ds @ 32 # r) = (32 # r, n)"
    using scan_number_digits [of c ds r] dec_digits_value [of "unat n"] d by simp
  ultimately show ?thesis using LNum d(2) by (simp add: scans_def lex_scan_def tok_of_def holds_value_def)
next
  case (LName w)
  then have "lex_scan l = (check_keyword w, l\<lparr>inp := 32 # r, cur_str := w\<rparr>)"
    using assms by (intro scans_name) (auto simp: good_lexeme_def spell_def)
  then show ?thesis
    using LName assms(1) by (simp add: scans_def tok_of_def holds_value_def good_lexeme_def check_keyword_def)
next
  case (LStr s)
  have "skip_whitespace (inp l) (lex_line l) = (34 # concat (map esc s) @ 34 # 32 # r, lex_line l)"
    using assms(2) LStr by (auto simp: spell_def c_space_def)
  moreover have "scan_str (concat (map esc s) @ 34 # 32 # r) (lex_line l) [] = (34 # 32 # r, lex_line l, s)"
    using assms(1) LStr scan_str_text [of "[]" s "32 # r"] by (simp add: good_lexeme_def)
  ultimately show ?thesis using LStr
    by (simp add: scans_def lex_scan_def tok_of_def holds_value_def c_digit_def c_alpha_def skip_quote_def bump_def)
next
  case (LChr c)
  have "skip_whitespace (inp l) (lex_line l) = (39 # esc c @ 39 # 32 # r, lex_line l)"
    using assms(2) LChr by (auto simp: spell_def c_space_def)
  then show ?thesis using LChr scan_char_text [of c "32 # r"]
    by (simp add: scans_def lex_scan_def tok_of_def holds_value_def c_digit_def c_alpha_def)
next
  case (LTok t)
  let ?w = "the (map_of spelling t)"
  from assms(1) LTok have "t \<in> fst ` set spelling" by (simp add: good_lexeme_def)
  then consider "(t, ?w) \<in> set (take 11 spelling)" | "(t, ?w) \<in> set (drop 11 spelling)" using spelling_split by blast
  then show ?thesis
  proof cases
    case 1
    note k = keyword_spelling [OF 1]
    have "lex_scan l = (check_keyword ?w, l\<lparr>inp := 32 # r, cur_str := ?w\<rparr>)"
      using k assms(2) LTok by (intro scans_name) (auto simp: spell_def)
    then show ?thesis using k LTok by (simp add: scans_def tok_of_def holds_value_def)
  next
    case 2
    obtain c v where c: "?w = c # v" "\<not> c_digit c" "\<not> c_alpha c" "c \<noteq> 34" "c \<noteq> 39"
      "skip_whitespace (c # v @ 32 # r) (lex_line l) = (c # v @ 32 # r, lex_line l)" "scan_op c (v @ 32 # r) = (t, 32 # r)"
      using symbol_spelling [OF 2] by blast
    have "skip_whitespace (inp l) (lex_line l) = (c # v @ 32 # r, lex_line l)"
      using assms(2) LTok c(1,6) by (auto simp: spell_def)
    then show ?thesis using c LTok by (simp add: scans_def lex_scan_def tok_of_def holds_value_def)
  qed
qed

section \<open>What the parser sees\<close>

text \<open>
  The lexer is in front of the lexemes \<open>xs\<close>: it has not looked at the first one yet, or has it as its
  current token.
\<close>

definition in_front :: "lexst \<Rightarrow> lexeme list \<Rightarrow> bool" where
  "in_front l xs \<longleftrightarrow> list_all good_lexeme xs \<and>
    (if has_peeked l then
       xs \<noteq> [] \<and> cur_tok l = tok_of (hd xs) \<and> holds_value (hd xs) l \<and> inp l = 32 # source_text (tl xs)
     else inp l = source_text xs \<or> inp l = 32 # source_text xs)"

lemma holds_value_tok [simp]:
  "holds_value x (l\<lparr>cur_tok := t\<rparr>) = holds_value x l" "holds_value x (l\<lparr>has_peeked := b\<rparr>) = holds_value x l"
  by (simp_all add: holds_value_def split: lexeme.split)

lemma scan_in_front:
  assumes "in_front l (x # xs)" and "\<not> has_peeked l"
  obtains l' where "lex_scan l = (tok_of x, l')" "inp l' = 32 # source_text xs" "lex_line l' = lex_line l"
    "\<not> has_peeked l'" "holds_value x l'"
proof -
  have "scans l x (source_text xs)"
    using assms by (intro scans_text) (auto simp: in_front_def)
  then show ?thesis using assms(2) by (auto simp: scans_def intro: that)
qed

lemma peek_in_front:
  assumes "in_front l (x # xs)"
  obtains l' where "lex_peek l = (tok_of x, l')" "in_front l' (x # xs)" "lex_line l' = lex_line l"
proof (cases "has_peeked l")
  case True
  then show ?thesis using assms by (intro that [of l]) (auto simp: lex_peek_def in_front_def)
next
  case False
  obtain l' where "lex_scan l = (tok_of x, l')" "inp l' = 32 # source_text xs" "lex_line l' = lex_line l"
    "\<not> has_peeked l'" "holds_value x l'"
    using scan_in_front [OF assms False] by blast
  then show ?thesis using assms False
    by (intro that [of "l'\<lparr>cur_tok := tok_of x, has_peeked := True\<rparr>"]) (auto simp: lex_peek_def in_front_def)
qed

lemma next_in_front:
  assumes "in_front l (x # xs)"
  obtains l' where "lex_next l = (tok_of x, l')" "in_front l' xs" "lex_line l' = lex_line l" "holds_value x l'" "\<not> has_peeked l'"
proof (cases "has_peeked l")
  case True
  then show ?thesis using assms by (intro that [of "l\<lparr>has_peeked := False\<rparr>"]) (auto simp: lex_next_def in_front_def)
next
  case False
  obtain l' where "lex_scan l = (tok_of x, l')" "inp l' = 32 # source_text xs" "lex_line l' = lex_line l"
    "\<not> has_peeked l'" "holds_value x l'"
    using scan_in_front [OF assms False] by blast
  then show ?thesis using assms False
    by (intro that [of "l'\<lparr>cur_tok := tok_of x\<rparr>"]) (auto simp: lex_next_def in_front_def)
qed

section \<open>Reading a whole source text\<close>

text \<open>The value the lexer has behind a token, as a lexeme.\<close>

definition lexeme_of :: "ctok \<Rightarrow> lexst \<Rightarrow> lexeme" where
  "lexeme_of t l =
    (if t = TOK_NUM_LIT then LNum (cur_num l) else if t = TOK_IDENT then LName (lex_str_val l)
     else if t = TOK_STR_LIT then LStr (cur_str l) else if t = TOK_CHAR_LIT then LChr (ucast (cur_num l)) else LTok t)"

fun read_tokens :: "nat \<Rightarrow> lexst \<Rightarrow> lexeme list \<times> lexst" where
  "read_tokens 0 l = ([], l)"
| "read_tokens (Suc n) l =
    (case lex_next l of (t, l1) \<Rightarrow> case read_tokens n l1 of (xs, l2) \<Rightarrow> (lexeme_of t l1 # xs, l2))"

lemma name_no_nul: "list_all c_alnum w \<Longrightarrow> takeWhile (\<lambda>c. c \<noteq> 0) w = w"
  by (induction w) (auto simp: c_alnum_def c_alpha_def c_digit_def)

lemma spelled_toks: "t \<in> fst ` set spelling \<Longrightarrow> t \<noteq> TOK_NUM_LIT \<and> t \<noteq> TOK_IDENT \<and> t \<noteq> TOK_STR_LIT \<and> t \<noteq> TOK_CHAR_LIT \<and> t \<noteq> TOK_EOF"
  by (auto simp: spelling_def)

lemma ucast_scast_byte [simp]: "ucast (scast (c :: byte) :: i32) = c"
  by (rule bit_word_eqI) (simp add: bit_simps)

lemma lexeme_of_value: "good_lexeme x \<Longrightarrow> holds_value x l \<Longrightarrow> lexeme_of (tok_of x) l = x"
  by (cases x)
    (auto simp: good_lexeme_def holds_value_def lexeme_of_def tok_of_def lex_str_val_def name_no_nul dest!: spelled_toks)

lemma read_tokens_in_front:
  "in_front l (xs @ ys) \<Longrightarrow> \<exists>l'. read_tokens (length xs) l = (xs, l') \<and> in_front l' ys \<and> lex_line l' = lex_line l \<and>
     (xs \<noteq> [] \<longrightarrow> \<not> has_peeked l')"
proof (induction xs arbitrary: l)
  case (Cons x xs)
  then have "in_front l (x # (xs @ ys))" by simp
  then obtain l1 where l1: "lex_next l = (tok_of x, l1)" "in_front l1 (xs @ ys)" "lex_line l1 = lex_line l" "holds_value x l1"
    "\<not> has_peeked l1" by (rule next_in_front)
  have g: "good_lexeme x" using Cons.prems by (simp add: in_front_def)
  from Cons.IH [OF l1(2)] l1 lexeme_of_value [OF g l1(4)] show ?case by (cases xs) auto
qed simp

text \<open>
  C15: Lexing the text of any list of lexemes (numbers in decimal, names, strings and characters with
  their escapes, keywords and operators, each followed by a blank) returns exactly these lexemes with
  their values, and then the end of the file, all on line 1.
\<close>

theorem lexer_roundtrip:
  assumes "list_all good_lexeme xs"
  shows "\<exists>l. read_tokens (length xs) (lex_init (source_text xs)) = (xs, l) \<and> fst (lex_next l) = TOK_EOF \<and> lex_line l = 1"
proof -
  have "in_front (lex_init (source_text xs)) (xs @ [])" using assms by (simp add: in_front_def lex_init_def)
  from read_tokens_in_front [OF this] obtain l where
    l: "read_tokens (length xs) (lex_init (source_text xs)) = (xs, l)" "in_front l []" "lex_line l = 1"
    by (auto simp: lex_init_def)
  then have "\<not> has_peeked l" "inp l = [] \<or> inp l = [32]" by (auto simp: in_front_def split: if_splits)
  then have "fst (lex_next l) = TOK_EOF" by (auto simp: lex_next_def lex_scan_def)
  then show ?thesis using l by blast
qed

definition demo_lexemes :: "lexeme list" where
  "demo_lexemes = [LTok TOK_INT, LName (bytes_of ''x''), LTok TOK_ASSIGN, LChr 10, LStr [34, 0], LTok TOK_SEMI]"

lemma lexer_roundtrip_witness:
  "\<exists>l. read_tokens (length demo_lexemes) (lex_init (source_text demo_lexemes)) = (demo_lexemes, l) \<and> fst (lex_next l) = TOK_EOF"
proof -
  have "list_all good_lexeme demo_lexemes"
    by (simp add: demo_lexemes_def good_lexeme_def spelling_def c_alpha_def c_alnum_def LEX_IDENT_MAX_def LEX_STR_MAX_def cc_keywords_def)
  from lexer_roundtrip [OF this] show ?thesis by blast
qed

end
