(* ===== verification/CExprSpec.thy ===== *)
theory CExprSpec
  imports CMachine CLexerSpec
begin

unbundle bit_operations_syntax

text \<open>
  The code of C expressions: what an expression means, the code that computes it, and (by running that
  code) that it leaves the value in EAX and the stack and the variables as they were.
\<close>

section \<open>Expressions and their values\<close>

datatype cexp = CNum i32 | CVar "byte list" | CUn ctok cexp | CBin ctok cexp cexp

fun nodes :: "cexp \<Rightarrow> nat" where
  "nodes (CNum n) = 1"
| "nodes (CVar x) = 1"
| "nodes (CUn op e) = Suc (nodes e)"
| "nodes (CBin op a b) = Suc (nodes a + nodes b)"

definition truth32 :: "bool \<Rightarrow> i32" where "truth32 b = (if b then 1 else 0)"

definition unop :: "ctok \<Rightarrow> bool" where "unop t \<longleftrightarrow> t = TOK_MINUS \<or> t = TOK_BANG \<or> t = TOK_TILDE"

definition un_value :: "ctok \<Rightarrow> i32 \<Rightarrow> i32" where
  "un_value t v = (if t = TOK_MINUS then - v else if t = TOK_BANG then truth32 (v = 0) else NOT v)"

text \<open>
  The eight levels of binary operators, from the tightest: the rank of an operator. The division is
  that of C (towards zero), undefined for a zero divisor and when the quotient does not fit; shifts
  take the low five bits of the count, and the shift to the right is the logical one.
\<close>

definition ranks :: "(ctok \<times> nat) list" where
  "ranks =
    [(TOK_STAR, 0), (TOK_SLASH, 0), (TOK_PERCENT, 0), (TOK_PLUS, 1), (TOK_MINUS, 1), (TOK_SHL, 2), (TOK_SHR, 2),
     (TOK_LT, 3), (TOK_GT, 3), (TOK_LE, 3), (TOK_GE, 3), (TOK_EQ, 4), (TOK_NE, 4), (TOK_AMP, 5), (TOK_CARET, 6), (TOK_PIPE, 7)]"

definition rank_of :: "ctok \<Rightarrow> nat option" where "rank_of t = map_of ranks t"

definition quotient_fits :: "i32 \<Rightarrow> i32 \<Rightarrow> bool" where
  "quotient_fits a b \<longleftrightarrow> b \<noteq> 0 \<and> - (2 ^ 31) \<le> sint a sdiv sint b \<and> sint a sdiv sint b < 2 ^ 31"

definition bin_value :: "ctok \<Rightarrow> i32 \<Rightarrow> i32 \<Rightarrow> i32 option" where
  "bin_value t a b =
    (if t = TOK_STAR then Some (a * b)
     else if t = TOK_SLASH then (if quotient_fits a b then Some (word_of_int (sint a sdiv sint b)) else None)
     else if t = TOK_PERCENT then (if quotient_fits a b then Some (word_of_int (sint a smod sint b)) else None)
     else if t = TOK_PLUS then Some (a + b) else if t = TOK_MINUS then Some (a - b)
     else if t = TOK_SHL then Some (push_bit (unat (b AND 31)) a)
     else if t = TOK_SHR then Some (drop_bit (unat (b AND 31)) a)
     else if t = TOK_LT then Some (truth32 (sint a < sint b)) else if t = TOK_GT then Some (truth32 (sint b < sint a))
     else if t = TOK_LE then Some (truth32 (sint a \<le> sint b)) else if t = TOK_GE then Some (truth32 (sint b \<le> sint a))
     else if t = TOK_EQ then Some (truth32 (a = b)) else if t = TOK_NE then Some (truth32 (a \<noteq> b))
     else if t = TOK_AMP then Some (a AND b) else if t = TOK_CARET then Some (a XOR b)
     else if t = TOK_PIPE then Some (a OR b) else None)"

text \<open>The offset of a variable from EBP, in the tables of the parser.\<close>

definition var_offset :: "symtab \<Rightarrow> byte list \<Rightarrow> i32" where
  "var_offset tab x = (case sym_find tab x of None \<Rightarrow> 0 | Some r \<Rightarrow> soffset (sym_at tab r))"

fun cvalue :: "symtab \<Rightarrow> (i32 \<Rightarrow> i32) \<Rightarrow> cexp \<Rightarrow> i32 option" where
  "cvalue tab fr (CNum n) = Some n"
| "cvalue tab fr (CVar x) = Some (fr (var_offset tab x))"
| "cvalue tab fr (CUn op e) = map_option (un_value op) (cvalue tab fr e)"
| "cvalue tab fr (CBin op a b) =
    (case cvalue tab fr a of None \<Rightarrow> None | Some u \<Rightarrow>
     case cvalue tab fr b of None \<Rightarrow> None | Some v \<Rightarrow> bin_value op u v)"

section \<open>The code of an expression\<close>

definition un_code :: "ctok \<Rightarrow> byte list" where
  "un_code t =
    (if t = TOK_MINUS then [0xF7, 0xD8] else if t = TOK_BANG then [0x85, 0xC0, 0x0F, 0x94, 0xC0, 0x0F, 0xB6, 0xC0]
     else [0xF7, 0xD0])"

definition bin_code :: "ctok \<Rightarrow> byte list" where
  "bin_code t =
    (if t = TOK_STAR then [0x0F, 0xAF, 0xC1] else if t = TOK_SLASH then [0x91, 0x99, 0xF7, 0xF9]
     else if t = TOK_PERCENT then [0x91, 0x99, 0xF7, 0xF9, 0x89, 0xD0] else if t = TOK_PLUS then [0x01, 0xC8]
     else if t = TOK_MINUS then [0x29, 0xC1, 0x89, 0xC8] else if t = TOK_SHL then [0x91, 0xD3, 0xE0]
     else if t = TOK_SHR then [0x91, 0xD3, 0xE8] else if t = TOK_AMP then [0x21, 0xC8]
     else if t = TOK_CARET then [0x31, 0xC8] else if t = TOK_PIPE then [0x09, 0xC8]
     else [0x39, 0xC1, 0x0F, setcc t, 0xC0, 0x0F, 0xB6, 0xC0])"

fun code_of :: "symtab \<Rightarrow> cexp \<Rightarrow> byte list" where
  "code_of tab (CNum n) = 0xB8 # dword_bytes n"
| "code_of tab (CVar x) = [0x8B, 0x85] @ dword_bytes (var_offset tab x)"
| "code_of tab (CUn op e) = code_of tab e @ un_code op"
| "code_of tab (CBin op a b) = code_of tab a @ [0x50] @ code_of tab b @ [0x59] @ bin_code op"

fun wf_ops :: "cexp \<Rightarrow> bool" where
  "wf_ops (CUn op e) \<longleftrightarrow> unop op \<and> wf_ops e"
| "wf_ops (CBin op a b) \<longleftrightarrow> rank_of op \<noteq> None \<and> wf_ops a \<and> wf_ops b"
| "wf_ops e \<longleftrightarrow> True"

text \<open>The machine holds \<open>v\<close>, with the stack and the frame of \<open>m\<close>.\<close>

definition holds :: "i32 \<Rightarrow> x86 \<Rightarrow> x86 \<Rightarrow> bool" where
  "holds v m m' \<longleftrightarrow> eax m' = v \<and> stk m' = stk m \<and> frame m' = frame m"

lemma does_seq: "does bs m m1 \<Longrightarrow> does cs m1 m2 \<Longrightarrow> ds = bs @ cs \<Longrightarrow> does ds m m2"
  using does_append by simp

lemma does_push: "does [0x50] m (m\<lparr>stk := eax m # stk m\<rparr>)"
  by (rule does_instr [where f = "\<lambda>m. Some (m\<lparr>stk := eax m # stk m\<rparr>)"]) (simp_all add: instructions_def)

lemma does_add: "does [0x01, 0xC8] m (m\<lparr>eax := eax m + ecx m\<rparr>)"
  by (rule does_instr [where f = "\<lambda>m. Some (m\<lparr>eax := eax m + ecx m\<rparr>)"]) (simp_all add: instructions_def)

lemma does_sub: "does [0x29, 0xC1] m (m\<lparr>ecx := ecx m - eax m\<rparr>)"
  by (rule does_instr [where f = "\<lambda>m. Some (m\<lparr>ecx := ecx m - eax m\<rparr>)"]) (simp_all add: instructions_def)

lemma does_mov_ecx: "does [0x89, 0xC8] m (m\<lparr>eax := ecx m\<rparr>)"
  by (rule does_instr [where f = "\<lambda>m. Some (m\<lparr>eax := ecx m\<rparr>)"]) (simp_all add: instructions_def)

lemma does_imul: "does [0x0F, 0xAF, 0xC1] m (m\<lparr>eax := eax m * ecx m\<rparr>)"
  by (rule does_instr [where f = "\<lambda>m. Some (m\<lparr>eax := eax m * ecx m\<rparr>)"]) (simp_all add: instructions_def)

lemma does_xchg: "does [0x91] m (m\<lparr>eax := ecx m, ecx := eax m\<rparr>)"
  by (rule does_instr [where f = "\<lambda>m. Some (m\<lparr>eax := ecx m, ecx := eax m\<rparr>)"]) (simp_all add: instructions_def)

lemma does_cdq: "does [0x99] m (m\<lparr>edx := (if sint (eax m) < 0 then - 1 else 0)\<rparr>)"
  by (rule does_instr [where f = "\<lambda>m. Some (m\<lparr>edx := (if sint (eax m) < 0 then - 1 else 0)\<rparr>)"]) (simp_all add: instructions_def)

lemma does_mov_edx: "does [0x89, 0xD0] m (m\<lparr>eax := edx m\<rparr>)"
  by (rule does_instr [where f = "\<lambda>m. Some (m\<lparr>eax := edx m\<rparr>)"]) (simp_all add: instructions_def)

lemma does_and: "does [0x21, 0xC8] m (m\<lparr>eax := eax m AND ecx m\<rparr>)"
  by (rule does_instr [where f = "\<lambda>m. Some (m\<lparr>eax := eax m AND ecx m\<rparr>)"]) (simp_all add: instructions_def)

lemma does_or: "does [0x09, 0xC8] m (m\<lparr>eax := eax m OR ecx m\<rparr>)"
  by (rule does_instr [where f = "\<lambda>m. Some (m\<lparr>eax := eax m OR ecx m\<rparr>)"]) (simp_all add: instructions_def)

lemma does_xor: "does [0x31, 0xC8] m (m\<lparr>eax := eax m XOR ecx m\<rparr>)"
  by (rule does_instr [where f = "\<lambda>m. Some (m\<lparr>eax := eax m XOR ecx m\<rparr>)"]) (simp_all add: instructions_def)

lemma does_shl: "does [0xD3, 0xE0] m (m\<lparr>eax := push_bit (unat (ecx m AND 31)) (eax m)\<rparr>)"
  by (rule does_instr [where f = "\<lambda>m. Some (m\<lparr>eax := push_bit (unat (ecx m AND 31)) (eax m)\<rparr>)"]) (simp_all add: instructions_def)

lemma does_shr: "does [0xD3, 0xE8] m (m\<lparr>eax := drop_bit (unat (ecx m AND 31)) (eax m)\<rparr>)"
  by (rule does_instr [where f = "\<lambda>m. Some (m\<lparr>eax := drop_bit (unat (ecx m AND 31)) (eax m)\<rparr>)"]) (simp_all add: instructions_def)

lemma does_neg: "does [0xF7, 0xD8] m (m\<lparr>eax := - eax m\<rparr>)"
  by (rule does_instr [where f = "\<lambda>m. Some (m\<lparr>eax := - eax m\<rparr>)"]) (simp_all add: instructions_def)

lemma does_not: "does [0xF7, 0xD0] m (m\<lparr>eax := NOT (eax m)\<rparr>)"
  by (rule does_instr [where f = "\<lambda>m. Some (m\<lparr>eax := NOT (eax m)\<rparr>)"]) (simp_all add: instructions_def)

lemma does_test: "does [0x85, 0xC0] m (m\<lparr>zf := (eax m = 0), lt := (sint (eax m) < 0)\<rparr>)"
  by (rule does_instr [where f = "\<lambda>m. Some (m\<lparr>zf := (eax m = 0), lt := (sint (eax m) < 0)\<rparr>)"]) (simp_all add: instructions_def)

lemma does_cmp: "does [0x39, 0xC1] m (m\<lparr>zf := (ecx m = eax m), lt := (sint (ecx m) < sint (eax m))\<rparr>)"
  by (rule does_instr [where f = "\<lambda>m. Some (m\<lparr>zf := (ecx m = eax m), lt := (sint (ecx m) < sint (eax m))\<rparr>)"]) (simp_all add: instructions_def)

lemma does_movzx: "does [0x0F, 0xB6, 0xC0] m (m\<lparr>eax := eax m AND 0xFF\<rparr>)"
  by (rule does_instr [where f = "\<lambda>m. Some (m\<lparr>eax := eax m AND 0xFF\<rparr>)"]) (simp_all add: instructions_def)

lemma does_pop_ecx: "stk m = v # r \<Longrightarrow> does [0x59] m (m\<lparr>stk := r, ecx := v\<rparr>)"
  by (rule does_instr [where f = "pop (\<lambda>v m. m\<lparr>ecx := v\<rparr>)"]) (simp_all add: instructions_def pop_def)

lemma does_idiv: "idiv m = Some m' \<Longrightarrow> does [0xF7, 0xF9] m m'"
  by (rule does_instr [where f = idiv]) (simp_all add: instructions_def)

lemma low_byte: "(x AND - 256) AND 255 = (0 :: i32)" "(x AND - 256 OR 1) AND 255 = (1 :: i32)"
  by (simp_all add: bit.conj_disj_distrib2 and.assoc)

lemma movzx_al: "(set_al b m)\<lparr>eax := eax (set_al b m) AND 0xFF\<rparr> = m\<lparr>eax := truth32 b\<rparr>"
  using low_byte [of "eax m"] by (cases b) (simp_all add: set_al_def truth32_def)

lemma does_setcc:
  assumes "([0x0F, c, 0xC0], \<lambda>m. Some (set_al (q m) m)) \<in> set instructions"
  shows "does [0x0F, c, 0xC0, 0x0F, 0xB6, 0xC0] m (m\<lparr>eax := truth32 (q m)\<rparr>)"
proof (rule does_seq)
  show "does [0x0F, c, 0xC0] m (set_al (q m) m)" by (rule does_instr [OF assms]) simp
  show "does [0x0F, 0xB6, 0xC0] (set_al (q m) m) (m\<lparr>eax := truth32 (q m)\<rparr>)"
    using does_movzx [of "set_al (q m) m"] by (simp only: movzx_al)
qed simp

section \<open>The code computes the value\<close>

lemma dividend: "sint (if sint a < 0 then - 1 else 0 :: i32) * 2 ^ 32 + uint a = sint (a :: i32)"
proof -
  have r: "- (2 ^ 31) \<le> sint a" "sint a < 2 ^ 31" using sint_greater_eq [of a] sint_less [of a] by simp_all
  have "uint a = sint a mod 2 ^ 32" using uint_sint [of a] by (simp add: take_bit_eq_mod)
  moreover have "sint a mod 2 ^ 32 = (if sint a < 0 then sint a + 2 ^ 32 else sint a)"
    using r mod_pos_pos_trivial [of "sint a + 2 ^ 32" "2 ^ 32"] by auto
  ultimately show ?thesis by auto
qed

lemma does_divide:
  assumes "quotient_fits a b" and "ecx m = a" and "eax m = b"
  shows "\<exists>m'. does [0x91, 0x99, 0xF7, 0xF9] m m' \<and> eax m' = word_of_int (sint a sdiv sint b) \<and>
    edx m' = word_of_int (sint a smod sint b) \<and> stk m' = stk m \<and> frame m' = frame m"
proof -
  let ?m1 = "m\<lparr>eax := a, ecx := b\<rparr>"
  let ?m2 = "?m1\<lparr>edx := (if sint a < 0 then - 1 else 0)\<rparr>"
  have "does [0x91] m ?m1" using does_xchg [of m] assms(2,3) by simp
  moreover have "does [0x99] ?m1 ?m2" using does_cdq [of ?m1] by simp
  moreover have "idiv ?m2 = Some (?m2\<lparr>eax := word_of_int (sint a sdiv sint b), edx := word_of_int (sint a smod sint b)\<rparr>)"
    using assms(1) dividend [of a] signed_eq_0_iff [of b] by (auto simp: idiv_def Let_def quotient_fits_def)
  note this [THEN does_idiv]
  ultimately have "does (([0x91] @ [0x99]) @ [0xF7, 0xF9]) m (?m2\<lparr>eax := word_of_int (sint a sdiv sint b), edx := word_of_int (sint a smod sint b)\<rparr>)"
    using does_append by blast
  then show ?thesis by (intro exI conjI) (simp, simp_all)
qed

lemma un_correct:
  assumes "unop t"
  shows "\<exists>m'. does (un_code t) m m' \<and> holds (un_value t (eax m)) m m'"
proof -
  let ?m1 = "m\<lparr>zf := (eax m = 0), lt := (sint (eax m) < 0)\<rparr>"
  have n: "does ([0x85, 0xC0] @ [0x0F, 0x94, 0xC0, 0x0F, 0xB6, 0xC0]) m (?m1\<lparr>eax := truth32 (eax m = 0)\<rparr>)"
    using does_append [OF does_test [of m] does_setcc [where c = "0x94" and q = zf and m = ?m1]] by (simp add: instructions_def)
  consider "t = TOK_MINUS" | "t = TOK_BANG" | "t = TOK_TILDE" using assms by (auto simp: unop_def)
  then show ?thesis
  proof cases
    case 1 then show ?thesis using does_neg [of m] by (auto simp: un_code_def un_value_def holds_def)
  next
    case 2 then show ?thesis using n by (auto simp: un_code_def un_value_def holds_def)
  next
    case 3 then show ?thesis using does_not [of m] by (auto simp: un_code_def un_value_def holds_def)
  qed
qed

lemma sint_inject: "sint a = sint b \<longleftrightarrow> a = b" for a b :: i32
proof
  assume "sint a = sint b"
  then have "word_of_int (sint a) = (word_of_int (sint b) :: i32)" by simp
  then show "a = b" by simp
qed simp

lemma compare_correct:
  assumes "([0x0F, setcc t, 0xC0], \<lambda>m. Some (set_al (q m) m)) \<in> set instructions"
    and "q (m\<lparr>zf := (ecx m = eax m), lt := (sint (ecx m) < sint (eax m))\<rparr>) = b"
  shows "\<exists>m'. does [0x39, 0xC1, 0x0F, setcc t, 0xC0, 0x0F, 0xB6, 0xC0] m m' \<and> holds (truth32 b) m m'"
proof -
  let ?m1 = "m\<lparr>zf := (ecx m = eax m), lt := (sint (ecx m) < sint (eax m))\<rparr>"
  have "does ([0x39, 0xC1] @ [0x0F, setcc t, 0xC0, 0x0F, 0xB6, 0xC0]) m (?m1\<lparr>eax := truth32 b\<rparr>)"
    using does_append [OF does_cmp [of m] does_setcc [OF assms(1), of ?m1]] assms(2) by simp
  then show ?thesis unfolding holds_def by (intro exI conjI) (simp, simp_all)
qed

lemma bin_correct:
  assumes "bin_value t (ecx m) (eax m) = Some v"
  shows "\<exists>m'. does (bin_code t) m m' \<and> holds v m m'"
proof -
  have one: "does p m m' \<Longrightarrow> holds v m m' \<Longrightarrow> \<exists>m'. does p m m' \<and> holds v m m'" for p m' by blast
  consider "t = TOK_STAR" | "t = TOK_SLASH" | "t = TOK_PERCENT" | "t = TOK_PLUS" | "t = TOK_MINUS" | "t = TOK_SHL" | "t = TOK_SHR"
    | "t = TOK_LT" | "t = TOK_GT" | "t = TOK_LE" | "t = TOK_GE" | "t = TOK_EQ" | "t = TOK_NE" | "t = TOK_AMP" | "t = TOK_CARET" | "t = TOK_PIPE"
    using assms by (auto simp: bin_value_def split: if_splits)
  then show ?thesis
  proof cases
    case 1 then show ?thesis using assms one [OF does_imul [of m]] by (simp add: bin_value_def bin_code_def holds_def mult.commute)
  next
    case 2 then show ?thesis
      using assms does_divide [of "ecx m" "eax m" m] by (auto simp: bin_value_def bin_code_def holds_def split: if_splits)
  next
    case 3
    then have q: "quotient_fits (ecx m) (eax m)" "v = word_of_int (sint (ecx m) smod sint (eax m))"
      using assms by (auto simp: bin_value_def split: if_splits)
    obtain m1 where m1: "does [0x91, 0x99, 0xF7, 0xF9] m m1" "edx m1 = v" "stk m1 = stk m" "frame m1 = frame m"
      using does_divide [OF q(1)] q(2) by blast
    show ?thesis using 3 m1 does_append [OF m1(1) does_mov_edx] by (auto simp: bin_code_def holds_def)
  next
    case 4 then show ?thesis using assms one [OF does_add [of m]] by (simp add: bin_value_def bin_code_def holds_def add.commute)
  next
    case 5
    have "does ([0x29, 0xC1] @ [0x89, 0xC8]) m (m\<lparr>ecx := ecx m - eax m, eax := ecx m - eax m\<rparr>)"
      using does_append [OF does_sub [of m] does_mov_ecx] by simp
    then show ?thesis using 5 assms one by (simp add: bin_value_def bin_code_def holds_def)
  next
    case 6
    have "does ([0x91] @ [0xD3, 0xE0]) m (m\<lparr>ecx := eax m, eax := push_bit (unat (eax m AND 31)) (ecx m)\<rparr>)"
      using does_append [OF does_xchg [of m] does_shl] by simp
    then show ?thesis using 6 assms one by (simp add: bin_value_def bin_code_def holds_def)
  next
    case 7
    have "does ([0x91] @ [0xD3, 0xE8]) m (m\<lparr>ecx := eax m, eax := drop_bit (unat (eax m AND 31)) (ecx m)\<rparr>)"
      using does_append [OF does_xchg [of m] does_shr] by simp
    then show ?thesis using 7 assms one by (simp add: bin_value_def bin_code_def holds_def)
  next
    case 8 then show ?thesis using assms compare_correct [of t lt m] by (simp add: bin_value_def bin_code_def setcc_def instructions_def)
  next
    case 9
    have "(\<not> sint (ecx m) < sint (eax m) \<and> ecx m \<noteq> eax m) = (sint (eax m) < sint (ecx m))"
      using sint_inject [of "ecx m" "eax m"] by auto
    then show ?thesis using 9 assms compare_correct [of t "\<lambda>m. \<not> lt m \<and> \<not> zf m" m]
      by (simp add: bin_value_def bin_code_def setcc_def instructions_def)
  next
    case 10
    have "(sint (ecx m) < sint (eax m) \<or> ecx m = eax m) = (sint (ecx m) \<le> sint (eax m))"
      using sint_inject [of "ecx m" "eax m"] by auto
    then show ?thesis using 10 assms compare_correct [of t "\<lambda>m. lt m \<or> zf m" m]
      by (simp add: bin_value_def bin_code_def setcc_def instructions_def)
  next
    case 11 then show ?thesis using assms compare_correct [of t "\<lambda>m. \<not> lt m" m] by (simp add: bin_value_def bin_code_def setcc_def instructions_def not_less)
  next
    case 12 then show ?thesis using assms compare_correct [of t zf m] by (simp add: bin_value_def bin_code_def setcc_def instructions_def)
  next
    case 13 then show ?thesis using assms compare_correct [of t "\<lambda>m. \<not> zf m" m] by (simp add: bin_value_def bin_code_def setcc_def instructions_def)
  next
    case 14 then show ?thesis using assms one [OF does_and [of m]] by (simp add: bin_value_def bin_code_def holds_def and.commute)
  next
    case 15 then show ?thesis using assms one [OF does_xor [of m]] by (simp add: bin_value_def bin_code_def holds_def xor.commute)
  next
    case 16 then show ?thesis using assms one [OF does_or [of m]] by (simp add: bin_value_def bin_code_def holds_def or.commute)
  qed
qed

lemma code_correct:
  "wf_ops e \<Longrightarrow> cvalue tab (frame m) e = Some v \<Longrightarrow> \<exists>m'. does (code_of tab e) m m' \<and> holds v m m'"
proof (induction e arbitrary: m v)
  case (CNum n)
  then show ?case using does_mov [of n m] by (auto simp: holds_def)
next
  case (CVar x)
  then show ?case using does_load [of "var_offset tab x" m] by (auto simp: holds_def)
next
  case (CUn op e)
  then obtain u where u: "cvalue tab (frame m) e = Some u" "v = un_value op u" by auto
  then obtain m1 where m1: "does (code_of tab e) m m1" "holds u m m1" using CUn by auto
  obtain m2 where "does (un_code op) m1 m2" "holds (un_value op (eax m1)) m1 m2" using un_correct CUn.prems(1) by auto
  then show ?case using m1 u(2) does_append [OF m1(1)] by (auto simp: holds_def)
next
  case (CBin op a b)
  then obtain u w where v: "cvalue tab (frame m) a = Some u" "cvalue tab (frame m) b = Some w" "bin_value op u w = Some v"
    by (auto split: option.splits)
  obtain m1 where m1: "does (code_of tab a) m m1" "holds u m m1" using CBin.IH(1) [OF _ v(1)] CBin.prems(1) by auto
  let ?m2 = "m1\<lparr>stk := u # stk m\<rparr>"
  have m2: "does [0x50] m1 ?m2" using does_push [of m1] m1(2) by (simp add: holds_def)
  obtain m3 where m3: "does (code_of tab b) ?m2 m3" "holds w ?m2 m3"
    using CBin.IH(2) [of ?m2 w] CBin.prems(1) v(2) m1(2) by (auto simp: holds_def)
  let ?m4 = "m3\<lparr>stk := stk m, ecx := u\<rparr>"
  have m4: "does [0x59] m3 ?m4" using does_pop_ecx [of m3 u "stk m"] m3(2) by (simp add: holds_def)
  obtain m5 where m5: "does (bin_code op) ?m4 m5" "holds v ?m4 m5"
    using bin_correct [of op ?m4 v] v(3) m3(2) by (auto simp: holds_def)
  have "does (((code_of tab a @ [0x50]) @ code_of tab b) @ ([0x59] @ bin_code op)) m m5"
    using does_append [OF does_append [OF does_append [OF m1(1) m2] m3(1)] does_append [OF m4 m5(1)]] .
  then show ?case using m1 m3 m5 by (auto simp: holds_def)
qed

end
