(* ===== verification/CExprParse.thy ===== *)
theory CExprParse
  imports CExprSpec
begin

text \<open>
  The parser compiles expressions: on the text of an expression tree it emits exactly the code of the
  tree, so running the compiled bytes computes the value of the expression.
\<close>

section \<open>Parser states in front of a text\<close>

definition sees :: "cst \<Rightarrow> lexeme list \<Rightarrow> bool" where "sees s xs = in_front (lx s) xs"

text \<open>\<open>after s bs xs s'\<close>: from \<open>s\<close> the parser emitted \<open>bs\<close> and is in front of \<open>xs\<close>; nothing else changed.\<close>

definition after :: "cst \<Rightarrow> byte list \<Rightarrow> lexeme list \<Rightarrow> cst \<Rightarrow> bool" where
  "after s bs xs s' \<longleftrightarrow> sees s' xs \<and> cg s' = emit bs (cg s) \<and> sy s' = sy s \<and> had_error s' = had_error s \<and>
     break_labels s' = break_labels s \<and> continue_labels s' = continue_labels s \<and> loop_depth s' = loop_depth s \<and>
     screen s' = screen s \<and> lex_line (lx s') = lex_line (lx s)"

lemma emit_nil [simp]: "emit [] c = c"
  by (simp add: emit_def)


lemma after_refl: "sees s xs \<Longrightarrow> after s [] xs s"
  by (simp add: after_def)











section \<open>Emitted instructions\<close>



section \<open>The levels of operators\<close>






section \<open>The text of an expression\<close>







definition stops :: "nat \<Rightarrow> ctok \<Rightarrow> bool" where
  "stops k t \<longleftrightarrow> t \<noteq> TOK_LPAREN \<and> t \<noteq> TOK_LBRACKET \<and> t \<noteq> TOK_INC \<and> t \<noteq> TOK_DEC \<and>
     (\<forall>r. rank_of t = Some r \<longrightarrow> k \<le> r)"

section \<open>Operands\<close>











section \<open>Levels\<close>






lemma nodes_pos [simp]: "0 < nodes e"
  by (cases e) auto







section \<open>Whole expressions\<close>








lemma stops_0: "stops k t \<Longrightarrow> stops 0 t"
  by (simp add: stops_def)



section \<open>Compiled expressions\<close>







end
