(* ===== verification/Disasm.thy ===== *)
theory Disasm
  imports Prelude "HOL-Library.Sublist"
begin

text \<open>
  The disassembler of the debugger, \<open>kernel/debug/disasm.c\<close>: \<open>disasm_one\<close> reads one instruction of
  the subset that the C compiler emits and returns its text and its length. \<open>instr_shapes\<close> lists the
  instructions by their opcode bytes and the number of operand bytes behind them; every one of them is
  decoded with that length.
\<close>

unbundle bit_operations_syntax

section \<open>The string builder\<close>

text \<open>The text written so far; \<open>sz\<close> is the size of the output array.\<close>

definition s_ch :: "nat \<Rightarrow> byte \<Rightarrow> byte list \<Rightarrow> byte list" where
  "s_ch sz c b = (if length b + 1 < sz then b @ [c] else b)"

definition s_str :: "nat \<Rightarrow> byte list \<Rightarrow> byte list \<Rightarrow> byte list" where
  "s_str sz s b = fold (s_ch sz) s b"

definition hex_digit :: "nat \<Rightarrow> byte" where
  "hex_digit n = (if n < 10 then word_of_nat (48 + n) else word_of_nat (97 + n - 10))"

definition s_hex :: "nat \<Rightarrow> i32 \<Rightarrow> nat \<Rightarrow> byte list \<Rightarrow> byte list" where
  "s_hex sz v digits b =
    fold (\<lambda>i. s_ch sz (hex_digit (unat (drop_bit (i * 4) v AND 0xF)))) (rev [0..<digits]) (s_str sz (bytes_of ''0x'') b)"

text \<open>The digits of a number, the last one first.\<close>

fun s_dec_digits :: "nat \<Rightarrow> byte list" where
  "s_dec_digits v = (if v > 0 then word_of_nat (48 + v mod 10) # s_dec_digits (v div 10) else [])"

declare s_dec_digits.simps [simp del]

definition s_dec :: "nat \<Rightarrow> i32 \<Rightarrow> byte list \<Rightarrow> byte list" where
  "s_dec sz v b =
    (let b = (if sint v < 0 then s_ch sz 45 b else b);
         v = (if sint v < 0 then - v else v);
         t = (if v = 0 then [48] else s_dec_digits (nat (sint v)))
     in fold (s_ch sz) (rev t) b)"

definition s_ebp_disp :: "nat \<Rightarrow> i32 \<Rightarrow> byte list \<Rightarrow> byte list" where
  "s_ebp_disp sz disp b =
    s_ch sz 93
     (if sint disp < 0 then s_dec sz (- disp) (s_ch sz 45 (s_str sz (bytes_of ''[ebp'') b))
      else s_dec sz disp (s_ch sz 43 (s_str sz (bytes_of ''[ebp'') b)))"

definition rd32 :: "mem \<Rightarrow> nat \<Rightarrow> i32" where
  "rd32 c i = ucast (c i) OR push_bit 8 (ucast (c (i + 1))) OR push_bit 16 (ucast (c (i + 2))) OR push_bit 24 (ucast (c (i + 3)))"

section \<open>One instruction\<close>

text \<open>The instructions without operands, by their first byte, their first two, or with a third one.\<close>

definition plain_one :: "(byte \<times> string) list" where
  "plain_one =
    [(0x50, ''push eax''), (0x53, ''push ebx''), (0x56, ''push esi''), (0x57, ''push edi''), (0x55, ''push ebp''),
     (0x58, ''pop  eax''), (0x59, ''pop  ecx''), (0x5B, ''pop  ebx''), (0x5D, ''pop  ebp''), (0x5E, ''pop  esi''),
     (0x5F, ''pop  edi''), (0x91, ''xchg eax, ecx''), (0x99, ''cdq''), (0xC3, ''ret'')]"

definition plain_two :: "((byte \<times> byte) \<times> string) list" where
  "plain_two =
    [((0x01, 0xC8), ''add  eax, ecx''), ((0x29, 0xC1), ''sub  ecx, eax''), ((0x21, 0xC8), ''and  eax, ecx''),
     ((0x09, 0xC8), ''or   eax, ecx''), ((0x31, 0xC8), ''xor  eax, ecx''), ((0x39, 0xC1), ''cmp  ecx, eax''),
     ((0x88, 0x01), ''mov  [ecx], al''), ((0x85, 0xC0), ''test eax, eax''), ((0xD3, 0xE0), ''shl  eax, cl''),
     ((0xD3, 0xE8), ''shr  eax, cl''), ((0xF7, 0xF9), ''idiv ecx''), ((0xF7, 0xD8), ''neg  eax''), ((0xF7, 0xD0), ''not  eax''),
     ((0x89, 0xC8), ''mov  eax, ecx''), ((0x89, 0xD0), ''mov  eax, edx''), ((0x89, 0xE5), ''mov  ebp, esp''),
     ((0x89, 0xEC), ''mov  esp, ebp''), ((0x89, 0xE3), ''mov  ebx, esp''), ((0x89, 0x01), ''mov  [ecx], eax''),
     ((0x8B, 0x00), ''mov  eax, [eax]'')]"

definition plain_three :: "((byte \<times> byte \<times> byte) \<times> string) list" where
  "plain_three =
    [((0x0F, 0xAF, 0xC1), ''imul eax, ecx''), ((0x0F, 0xB6, 0xC0), ''movzx eax, al''), ((0x0F, 0xB6, 0x00), ''movzx eax, byte [eax]'')]"

definition set_names :: "(byte \<times> string) list" where
  "set_names =
    [(0x94, ''sete  al''), (0x95, ''setne al''), (0x9C, ''setl  al''), (0x9D, ''setge al''), (0x9E, ''setle al''), (0x9F, ''setg  al'')]"

text \<open>
  The instructions with operands: the condition of the branch, the text and the length. \<open>c\<close> is the code
  from the instruction on, \<open>addr\<close> its address.
\<close>

definition operand_forms :: "nat \<Rightarrow> mem \<Rightarrow> i32 \<Rightarrow> (bool \<times> byte list \<times> nat) list" where
  "operand_forms sz c addr =
    (let op = c 0; m = c 1; str = (\<lambda>s. s_str sz (bytes_of s)) in
     [(op = 0x6A, s_dec sz (scast m) (str ''push '' []), 2),
      (op = 0xCD, s_hex sz (ucast m) 2 (str ''int  '' []), 2),
      (op = 0xB8, s_hex sz (rd32 c 1) 8 (str ''mov  eax, '' []), 5),
      (op = 0xA1, s_ch sz 93 (s_hex sz (rd32 c 1) 8 (str ''mov  eax, ['' [])), 5),
      (op = 0xA3, str ''], eax'' (s_hex sz (rd32 c 1) 8 (str ''mov  ['' [])), 5),
      (op = 0xE9, s_hex sz (addr + 5 + rd32 c 1) 8 (str ''jmp  '' []), 5),
      (op = 0xE8, s_hex sz (addr + 5 + rd32 c 1) 8 (str ''call '' []), 5),
      (op = 0x89 \<and> m = 0x85, str '', eax'' (s_ebp_disp sz (rd32 c 2) (str ''mov  '' [])), 6),
      (op = 0x89 \<and> m = 0x44 \<and> c 2 = 0x24, str ''], eax'' (s_dec sz (scast (c 3)) (str ''mov  [esp+'' [])), 4),
      (op = 0x89 \<and> m = 0x4C \<and> c 2 = 0x24, str ''], ecx'' (s_dec sz (scast (c 3)) (str ''mov  [esp+'' [])), 4),
      (op = 0x8B \<and> m = 0x85, s_ebp_disp sz (rd32 c 2) (str ''mov  eax, '' []), 6),
      (op = 0x8B \<and> m = 0x44 \<and> c 2 = 0x24, s_ch sz 93 (s_dec sz (scast (c 3)) (str ''mov  eax, [esp+'' [])), 4),
      (op = 0x8B \<and> m = 0x4C \<and> c 2 = 0x24, s_ch sz 93 (s_dec sz (scast (c 3)) (str ''mov  ecx, [esp+'' [])), 4),
      (op = 0x8D \<and> m = 0x85, s_ebp_disp sz (rd32 c 2) (str ''lea  eax, '' []), 6),
      (op = 0x81 \<and> m = 0xC4, s_hex sz (rd32 c 2) 8 (str ''add  esp, '' []), 6),
      (op = 0x81 \<and> m = 0xEC, s_hex sz (rd32 c 2) 8 (str ''sub  esp, '' []), 6),
      (op = 0xC1 \<and> m = 0xE0, s_dec sz (ucast (c 2)) (str ''shl  eax, '' []), 3),
      (op = 0x0F \<and> m = 0x84, s_hex sz (addr + 6 + rd32 c 2) 8 (str ''jz   '' []), 6),
      (op = 0x0F \<and> m = 0x85, s_hex sz (addr + 6 + rd32 c 2) 8 (str ''jnz  '' []), 6)])"

definition with_operand :: "nat \<Rightarrow> mem \<Rightarrow> i32 \<Rightarrow> (byte list \<times> nat) option" where
  "with_operand sz c addr = map_option snd (find fst (operand_forms sz c addr))"

definition disasm_one :: "mem \<Rightarrow> i32 \<Rightarrow> nat \<Rightarrow> byte list \<times> nat" where
  "disasm_one c addr sz =
    (let op = c 0; m = c 1 in
     case map_of plain_one op of
       Some t \<Rightarrow> (s_str sz (bytes_of t) [], 1)
     | None \<Rightarrow>
     case map_of plain_two (op, m) of
       Some t \<Rightarrow> (s_str sz (bytes_of t) [], 2)
     | None \<Rightarrow>
     case map_of plain_three (op, m, c 2) of
       Some t \<Rightarrow> (s_str sz (bytes_of t) [], 3)
     | None \<Rightarrow>
     case (if op = 0x0F then map_of set_names m else None) of
       Some t \<Rightarrow> (s_str sz (bytes_of t) [], 3)
     | None \<Rightarrow>
     case with_operand sz c addr of
       Some r \<Rightarrow> r
     | None \<Rightarrow> (s_hex sz (ucast op) 2 (s_str sz (bytes_of ''db   '') []), 1))"

section \<open>The instructions it knows\<close>

definition instr_shapes :: "(byte list \<times> nat) list" where
  "instr_shapes =
    [([0x50], 0), ([0x53], 0), ([0x56], 0), ([0x57], 0), ([0x55], 0), ([0x58], 0), ([0x59], 0), ([0x5B], 0), ([0x5D], 0),
     ([0x5E], 0), ([0x5F], 0), ([0x91], 0), ([0x99], 0), ([0xC3], 0), ([0x6A], 1), ([0xCD], 1), ([0xB8], 4), ([0xA1], 4),
     ([0xA3], 4), ([0xE9], 4), ([0xE8], 4), ([0x01, 0xC8], 0), ([0x29, 0xC1], 0), ([0x21, 0xC8], 0), ([0x09, 0xC8], 0),
     ([0x31, 0xC8], 0), ([0x39, 0xC1], 0), ([0x88, 0x01], 0), ([0x85, 0xC0], 0), ([0xD3, 0xE0], 0), ([0xD3, 0xE8], 0),
     ([0xF7, 0xF9], 0), ([0xF7, 0xD8], 0), ([0xF7, 0xD0], 0), ([0x89, 0xC8], 0), ([0x89, 0xD0], 0), ([0x89, 0xE5], 0),
     ([0x89, 0xEC], 0), ([0x89, 0xE3], 0), ([0x89, 0x01], 0), ([0x89, 0x85], 4), ([0x89, 0x44, 0x24], 1), ([0x89, 0x4C, 0x24], 1),
     ([0x8B, 0x85], 4), ([0x8B, 0x00], 0), ([0x8B, 0x44, 0x24], 1), ([0x8B, 0x4C, 0x24], 1), ([0x8D, 0x85], 4), ([0x81, 0xC4], 4),
     ([0x81, 0xEC], 4), ([0xC1, 0xE0], 1), ([0x0F, 0xAF, 0xC1], 0), ([0x0F, 0xB6, 0xC0], 0), ([0x0F, 0xB6, 0x00], 0),
     ([0x0F, 0x94], 1), ([0x0F, 0x95], 1), ([0x0F, 0x9C], 1), ([0x0F, 0x9D], 1), ([0x0F, 0x9E], 1), ([0x0F, 0x9F], 1),
     ([0x0F, 0x84], 4), ([0x0F, 0x85], 4)]"

text \<open>The text of an instruction it does not know.\<close>

definition is_data :: "byte list \<Rightarrow> bool" where
  "is_data t \<longleftrightarrow> take 2 t = bytes_of ''db''"

text \<open>The builder only appends.\<close>

lemma s_ch_appends: "prefix b (s_ch sz c b)"
  by (simp add: s_ch_def)

lemma fold_appends: "prefix b (fold (s_ch sz) s b)"
proof (induction s arbitrary: b)
  case (Cons c s)
  then show ?case using prefix_order.trans [OF s_ch_appends [of b sz c]] by simp
qed simp

lemma s_str_appends: "prefix b (s_str sz s b)"
  by (simp add: s_str_def fold_appends)

lemma s_hex_appends: "prefix b (s_hex sz v d b)"
proof -
  have "fold (\<lambda>i. s_ch sz (f i)) xs b = fold (s_ch sz) (map f xs) b" for f and xs :: "nat list" and b
    by (simp add: fold_map comp_def)
  then show ?thesis
    unfolding s_hex_def by (simp only: prefix_order.trans [OF s_str_appends fold_appends])
qed

lemma s_dec_appends: "prefix b (s_dec sz v b)"
  unfolding s_dec_def Let_def using fold_appends prefix_order.trans [OF s_ch_appends fold_appends] by simp

lemma s_ebp_appends: "prefix b (s_ebp_disp sz v b)"
  unfolding s_ebp_disp_def
  by (simp split: if_split) (meson s_str_appends s_ch_appends s_dec_appends prefix_order.trans)

text \<open>The text of a known instruction begins with its name.\<close>

definition named :: "byte list \<Rightarrow> bool" where
  "named t \<longleftrightarrow> 2 \<le> length t \<and> \<not> is_data t"

lemma named_str: "3 \<le> sz \<Longrightarrow> \<not> (x = 100 \<and> y = 98) \<Longrightarrow> named (s_str sz (x # y # r) [])"
proof -
  assume a: "3 \<le> sz" "\<not> (x = 100 \<and> y = 98)"
  then have "s_str sz (x # y # r) [] = s_str sz r [x, y]" by (simp add: s_str_def s_ch_def)
  moreover have "prefix [x, y] (s_str sz r [x, y])" by (rule s_str_appends)
  ultimately show ?thesis using a(2) by (auto simp: named_def is_data_def prefix_def)
qed

lemma named_appends: "named b \<Longrightarrow> prefix b b' \<Longrightarrow> named b'"
  by (auto simp: named_def is_data_def prefix_def)

lemmas named_ops = named_appends [OF _ s_ch_appends] named_appends [OF _ s_str_appends] named_appends [OF _ s_hex_appends]
  named_appends [OF _ s_dec_appends] named_appends [OF _ s_ebp_appends]

lemma plain_named: "3 \<le> sz \<Longrightarrow> (k, t) \<in> set plain_one \<Longrightarrow> named (s_str sz (bytes_of t) [])"
  "3 \<le> sz \<Longrightarrow> (k2, t) \<in> set plain_two \<Longrightarrow> named (s_str sz (bytes_of t) [])"
  "3 \<le> sz \<Longrightarrow> (k3, t) \<in> set plain_three \<Longrightarrow> named (s_str sz (bytes_of t) [])"
  "3 \<le> sz \<Longrightarrow> (k, t) \<in> set set_names \<Longrightarrow> named (s_str sz (bytes_of t) [])"
  by (auto simp: plain_one_def plain_two_def plain_three_def set_names_def intro!: named_str)

lemma operand_named: "(b, t, n) \<in> set (operand_forms sz c addr) \<Longrightarrow> 3 \<le> sz \<Longrightarrow> named t"
  unfolding operand_forms_def Let_def by (auto simp: named_ops named_str)


lemma disasm_cases:
  assumes "3 \<le> sz"
  shows "map_of plain_one (c 0) = Some t \<Longrightarrow> named (fst (disasm_one c addr sz)) \<and> snd (disasm_one c addr sz) = 1"
    and "map_of plain_one (c 0) = None \<Longrightarrow> map_of plain_two (c 0, c 1) = Some t \<Longrightarrow>
      named (fst (disasm_one c addr sz)) \<and> snd (disasm_one c addr sz) = 2"
    and "map_of plain_one (c 0) = None \<Longrightarrow> map_of plain_two (c 0, c 1) = None \<Longrightarrow> map_of plain_three (c 0, c 1, c 2) = Some t \<Longrightarrow>
      named (fst (disasm_one c addr sz)) \<and> snd (disasm_one c addr sz) = 3"
    and "map_of plain_one (c 0) = None \<Longrightarrow> map_of plain_two (c 0, c 1) = None \<Longrightarrow> map_of plain_three (c 0, c 1, c 2) = None \<Longrightarrow>
      c 0 = 0x0F \<Longrightarrow> map_of set_names (c 1) = Some t \<Longrightarrow> named (fst (disasm_one c addr sz)) \<and> snd (disasm_one c addr sz) = 3"
    and "map_of plain_one (c 0) = None \<Longrightarrow> map_of plain_two (c 0, c 1) = None \<Longrightarrow> map_of plain_three (c 0, c 1, c 2) = None \<Longrightarrow>
      (c 0 = 0x0F \<longrightarrow> map_of set_names (c 1) = None) \<Longrightarrow> find fst (operand_forms sz c addr) = Some (True, u, n) \<Longrightarrow>
      named (fst (disasm_one c addr sz)) \<and> snd (disasm_one c addr sz) = n"
proof -
  assume a: "map_of plain_one (c 0) = Some t"
  then show "named (fst (disasm_one c addr sz)) \<and> snd (disasm_one c addr sz) = 1"
    by (simp add: disasm_one_def plain_named(1) [OF assms map_of_SomeD [OF a]])
next
  assume n: "map_of plain_one (c 0) = None" and a: "map_of plain_two (c 0, c 1) = Some t"
  then show "named (fst (disasm_one c addr sz)) \<and> snd (disasm_one c addr sz) = 2"
    by (simp add: disasm_one_def plain_named(2) [OF assms map_of_SomeD [OF a]])
next
  assume n: "map_of plain_one (c 0) = None" "map_of plain_two (c 0, c 1) = None" and a: "map_of plain_three (c 0, c 1, c 2) = Some t"
  then show "named (fst (disasm_one c addr sz)) \<and> snd (disasm_one c addr sz) = 3"
    by (simp add: disasm_one_def plain_named(3) [OF assms map_of_SomeD [OF a]])
next
  assume n: "map_of plain_one (c 0) = None" "map_of plain_two (c 0, c 1) = None" "map_of plain_three (c 0, c 1, c 2) = None" "c 0 = 0x0F"
    and a: "map_of set_names (c 1) = Some t"
  then show "named (fst (disasm_one c addr sz)) \<and> snd (disasm_one c addr sz) = 3"
    by (simp add: disasm_one_def plain_named(4) [OF assms map_of_SomeD [OF a]])
next
  assume n: "map_of plain_one (c 0) = None" "map_of plain_two (c 0, c 1) = None" "map_of plain_three (c 0, c 1, c 2) = None"
      "c 0 = 0x0F \<longrightarrow> map_of set_names (c 1) = None"
    and a: "find fst (operand_forms sz c addr) = Some (True, u, n)"
  have "(True, u, n) \<in> set (operand_forms sz c addr)" using a by (metis find_Some_iff nth_mem)
  then have "named u" using assms by (rule operand_named)
  moreover have "disasm_one c addr sz = (u, n)" using n a by (simp add: disasm_one_def with_operand_def Let_def)
  ultimately show "named (fst (disasm_one c addr sz)) \<and> snd (disasm_one c addr sz) = n" by simp
qed

definition fits :: "mem \<Rightarrow> byte list \<Rightarrow> bool" where
  "fits c p \<longleftrightarrow> (\<forall>i < length p. c i = p ! i)"

lemma fits_simps: "fits c [] = True" "fits c [x] = (c 0 = x)" "fits c [x, y] = (c 0 = x \<and> c 1 = y)"
  "fits c [x, y, z] = (c 0 = x \<and> c 1 = y \<and> c 2 = z)"
  by (auto simp: fits_def All_less_Suc numeral_2_eq_2 numeral_3_eq_3)

definition decodes :: "mem \<Rightarrow> i32 \<Rightarrow> nat \<Rightarrow> nat \<Rightarrow> bool" where
  "decodes c addr sz n \<longleftrightarrow> named (fst (disasm_one c addr sz)) \<and> snd (disasm_one c addr sz) = n"

lemmas decodes_cases = disasm_cases [folded decodes_def]

text \<open>The keys of the tables are distinct, and no byte sequence is in two of them.\<close>

lemma keys_distinct: "distinct (map fst plain_one)" "distinct (map fst plain_two)" "distinct (map fst plain_three)" "distinct (map fst set_names)"
  by code_simp+

lemma keys_apart:
  "\<forall>(x, y) \<in> fst ` set plain_two. x \<notin> fst ` set plain_one"
  "\<forall>(x, y, z) \<in> fst ` set plain_three. x \<notin> fst ` set plain_one \<and> (x, y) \<notin> fst ` set plain_two"
  "\<forall>y \<in> fst ` set set_names. \<forall>z. (0x0F, y, z) \<notin> fst ` set plain_three"
  "\<forall>y. (0x0F, y) \<notin> fst ` set plain_two" "0x0F \<notin> fst ` set plain_one"
  subgoal by code_simp
  subgoal by code_simp
  subgoal by (simp add: set_names_def plain_three_def)
  subgoal by (simp add: plain_two_def)
  subgoal by code_simp
  done

lemma shapes_one:
  assumes "3 \<le> sz" and "(c 0, t) \<in> set plain_one"
  shows "decodes c addr sz 1"
  using decodes_cases(1) [OF assms(1)] map_of_is_SomeI [OF keys_distinct(1) assms(2)] .

lemma shapes_two:
  assumes "3 \<le> sz" and "((c 0, c 1), t) \<in> set plain_two"
  shows "decodes c addr sz 2"
proof -
  have "(c 0, c 1) \<in> fst ` set plain_two" using assms(2) by force
  from bspec [OF keys_apart(1) this] have "map_of plain_one (c 0) = None" by (simp add: map_of_eq_None_iff)
  then show ?thesis using decodes_cases(2) [OF assms(1)] map_of_is_SomeI [OF keys_distinct(2) assms(2)] by blast
qed

lemma shapes_three:
  assumes "3 \<le> sz" and "((c 0, c 1, c 2), t) \<in> set plain_three"
  shows "decodes c addr sz 3"
proof -
  have "(c 0, c 1, c 2) \<in> fst ` set plain_three" using assms(2) by force
  from bspec [OF keys_apart(2) this] have "map_of plain_one (c 0) = None" "map_of plain_two (c 0, c 1) = None"
    by (simp_all add: map_of_eq_None_iff)
  then show ?thesis using decodes_cases(3) [OF assms(1)] map_of_is_SomeI [OF keys_distinct(3) assms(2)] by blast
qed

lemma shapes_set:
  assumes "3 \<le> sz" and "(c 1, t) \<in> set set_names" and "c 0 = 0x0F"
  shows "decodes c addr sz 3"
proof -
  have y: "c 1 \<in> fst ` set set_names" using assms(2) by force
  have "map_of plain_one (c 0) = None" "map_of plain_two (c 0, c 1) = None" "map_of plain_three (c 0, c 1, c 2) = None"
    unfolding map_of_eq_None_iff assms(3) using keys_apart(3-5) y by blast+
  then show ?thesis using decodes_cases(4) [OF assms(1)] map_of_is_SomeI [OF keys_distinct(4) assms(2)] assms(3) by blast
qed

definition operand_shapes :: "(byte list \<times> nat) list" where
  "operand_shapes =
    [([0x6A], 1), ([0xCD], 1), ([0xB8], 4), ([0xA1], 4), ([0xA3], 4), ([0xE9], 4), ([0xE8], 4), ([0x89, 0x85], 4), ([0x89, 0x44, 0x24], 1), ([0x89, 0x4C, 0x24], 1),
     ([0x8B, 0x85], 4), ([0x8B, 0x44, 0x24], 1), ([0x8B, 0x4C, 0x24], 1), ([0x8D, 0x85], 4), ([0x81, 0xC4], 4),
     ([0x81, 0xEC], 4), ([0xC1, 0xE0], 1), ([0x0F, 0x84], 4), ([0x0F, 0x85], 4)]"


lemma not_plain:
  assumes "(p, n) \<in> set operand_shapes" and "fits c p"
  shows "map_of plain_one (c 0) = None \<and> map_of plain_two (c 0, c 1) = None \<and> map_of plain_three (c 0, c 1, c 2) = None \<and>
    (c 0 = 0x0F \<longrightarrow> map_of set_names (c 1) = None)"
  using assms unfolding operand_shapes_def map_of_eq_None_iff
  apply (simp only: set_simps insert_iff empty_iff simp_thms prod.inject)
  apply (elim disjE conjE)
  apply (simp_all only: fits_simps plain_one_def plain_two_def plain_three_def set_names_def)
  apply (simp_all)
  done

lemma found_operand:
  assumes "(p, n) \<in> set operand_shapes" and "fits c p"
  shows "\<exists>u. find fst (operand_forms sz c addr) = Some (True, u, length p + n)"
  using assms unfolding operand_shapes_def
  apply (simp only: set_simps insert_iff empty_iff simp_thms prod.inject)
  apply (elim disjE conjE)
  apply (simp_all only: fits_simps operand_forms_def Let_def find.simps fst_conv)
  apply (simp_all)
  done

lemma shapes_operand:
  "3 \<le> sz \<Longrightarrow> (p, n) \<in> set operand_shapes \<Longrightarrow> fits c p \<Longrightarrow> decodes c addr sz (length p + n)"
  using decodes_cases(5) [of sz c] not_plain [of p n c] found_operand [of p n c sz addr] by blast

lemma shape_classes:
  "set instr_shapes \<subseteq> (\<lambda>(x, t). ([x], 0)) ` set plain_one \<union> (\<lambda>((x, y), t). ([x, y], 0)) ` set plain_two \<union>
     (\<lambda>((x, y, z), t). ([x, y, z], 0)) ` set plain_three \<union> (\<lambda>(y, t). ([0x0F, y], 1)) ` set set_names \<union> set operand_shapes"
  by code_simp

lemma disasm_shape:
  assumes "3 \<le> sz" and "(p, n) \<in> set instr_shapes" and "fits c p"
  shows "decodes c addr sz (length p + n)"
proof -
  consider (one) x t where "p = [x]" "n = 0" "(x, t) \<in> set plain_one"
    | (two) x y t where "p = [x, y]" "n = 0" "((x, y), t) \<in> set plain_two"
    | (three) x y z t where "p = [x, y, z]" "n = 0" "((x, y, z), t) \<in> set plain_three"
    | (flags) y t where "p = [0x0F, y]" "n = 1" "(y, t) \<in> set set_names"
    | (operand) "(p, n) \<in> set operand_shapes"
    using subsetD [OF shape_classes assms(2)] by auto
  then show ?thesis
  proof cases
    case one
    then show ?thesis using shapes_one [OF assms(1), of c t] assms(3) by (simp add: fits_simps)
  next
    case two
    then show ?thesis using shapes_two [OF assms(1), of c t] assms(3) by (simp add: fits_simps numeral_2_eq_2)
  next
    case three
    then show ?thesis using shapes_three [OF assms(1), of c t] assms(3) by (simp add: fits_simps numeral_3_eq_3)
  next
    case flags
    then show ?thesis using shapes_set [OF assms(1), of c t] assms(3) by (simp add: fits_simps numeral_3_eq_3)
  next
    case operand
    then show ?thesis using shapes_operand [OF assms(1) _ assms(3)] by blast
  qed
qed

section \<open>Code made of known instructions\<close>

text \<open>An instruction is its opcode bytes with its operand bytes.\<close>

definition instr_bytes :: "(byte list \<times> byte list) list \<Rightarrow> byte list" where
  "instr_bytes is = concat (map (\<lambda>(p, r). p @ r) is)"

definition known_instr :: "byte list \<times> byte list \<Rightarrow> bool" where
  "known_instr i \<longleftrightarrow> (fst i, length (snd i)) \<in> set instr_shapes"

definition whole :: "byte list \<Rightarrow> bool" where
  "whole bs \<longleftrightarrow> (\<exists>is. bs = instr_bytes is \<and> (\<forall>i \<in> set is. known_instr i))"

lemma instr_bytes_simps [simp]:
  "instr_bytes [] = []" "instr_bytes (i # is) = fst i @ snd i @ instr_bytes is" "instr_bytes (is @ js) = instr_bytes is @ instr_bytes js"
  by (simp_all add: instr_bytes_def case_prod_beta)

lemma whole_append: "whole as \<Longrightarrow> whole bs \<Longrightarrow> whole (as @ bs)"
  unfolding whole_def by (metis instr_bytes_simps(3) Un_iff set_append)

lemma whole_nil [simp]: "whole []"
  unfolding whole_def by (intro exI [of _ "[]"]) simp

lemma whole_step: "(p, length r) \<in> set instr_shapes \<Longrightarrow> whole bs \<Longrightarrow> whole (p @ r @ bs)"
proof -
  assume "(p, length r) \<in> set instr_shapes" "whole bs"
  then obtain "is" where "bs = instr_bytes is" "\<forall>i \<in> set is. known_instr i" "known_instr (p, r)"
    by (auto simp: whole_def known_instr_def)
  then show ?thesis unfolding whole_def by (intro exI [of _ "(p, r) # is"]) auto
qed

lemma whole_opcodes:
  "([x], 0) \<in> set instr_shapes \<Longrightarrow> whole bs \<Longrightarrow> whole (x # bs)"
  "([x, y], 0) \<in> set instr_shapes \<Longrightarrow> whole bs \<Longrightarrow> whole (x # y # bs)"
  "([x, y, z], 0) \<in> set instr_shapes \<Longrightarrow> whole bs \<Longrightarrow> whole (x # y # z # bs)"
  "([x], 1) \<in> set instr_shapes \<Longrightarrow> whole bs \<Longrightarrow> whole (x # i # bs)"
  "([x, y], 1) \<in> set instr_shapes \<Longrightarrow> whole bs \<Longrightarrow> whole (x # y # i # bs)"
  "([x, y, z], 1) \<in> set instr_shapes \<Longrightarrow> whole bs \<Longrightarrow> whole (x # y # z # i # bs)"
  "([x], 4) \<in> set instr_shapes \<Longrightarrow> whole bs \<Longrightarrow> whole (x # i # j # k # l # bs)"
  "([x, y], 4) \<in> set instr_shapes \<Longrightarrow> whole bs \<Longrightarrow> whole (x # y # i # j # k # l # bs)"
  using whole_step [of "[x]" "[]"] whole_step [of "[x, y]" "[]"] whole_step [of "[x, y, z]" "[]"]
    whole_step [of "[x]" "[i]"] whole_step [of "[x, y]" "[i]"] whole_step [of "[x, y, z]" "[i]"]
    whole_step [of "[x]" "[i, j, k, l]"] whole_step [of "[x, y]" "[i, j, k, l]"] by (simp_all add: eval_nat_numeral)

lemmas whole_simps = whole_opcodes instr_shapes_def

end
