(* ===== verification/CParserSteps.thy ===== *)
theory CParserSteps
  imports CParser Disasm
begin

text \<open>
  What every run of the parser respects. \<open>parser_steps\<close> is a reflexive and transitive relation on
  parser states that contains each primitive step (reading a token, an error, emitting code, labels,
  symbols); then it contains every parsing function, up to \<open>parse_program\<close>. The theories behind
  this one interpret it with the properties of whole compilations.
\<close>

section \<open>Emitters\<close>

text \<open>The operations of the code generator that only append code, as whole instructions.\<close>

definition emitter :: "(cgst \<Rightarrow> cgst) \<Rightarrow> bool" where
  "emitter f \<longleftrightarrow> (\<exists>bs. f = emit bs \<and> whole bs)"

lemma emitter_emit: "whole bs \<Longrightarrow> emitter (emit bs)"
  by (auto simp: emitter_def)

lemma emitter_comp: "emitter f \<Longrightarrow> emitter g \<Longrightarrow> emitter (\<lambda>s. g (f s))"
proof -
  assume "emitter f" "emitter g"
  then obtain bs cs where "f = emit bs" "g = emit cs" "whole bs" "whole cs" by (auto simp: emitter_def)
  then have "(\<lambda>s. g (f s)) = emit (bs @ cs)" "whole (bs @ cs)" by (auto simp: emit_def whole_append)
  then show ?thesis unfolding emitter_def by blast
qed

lemma cg_emit_byte_emit: "cg_emit_byte b = emit [b]"
  by (rule ext) (simp add: emit_def)

lemma emit_then: "cg_emit_dword v (emit bs s) = emit (bs @ dword_bytes v) s"
  by (simp add: cg_emit_dword_def emit_def)

lemma emitter_code: "(\<And>s. f s = emit bs s) \<Longrightarrow> whole bs \<Longrightarrow> emitter f"
  by (auto simp: emitter_def fun_eq_iff)

lemma setcc_known: "([0x0F, setcc op], 1) \<in> set instr_shapes"
  by (simp add: setcc_def instr_shapes_def)

lemma whole_cmp: "whole [0x39, 0xC1, 0x0F, setcc op, 0xC0, 0x0F, 0xB6, 0xC0]"
proof -
  have "whole [0x0F, setcc op, 0xC0, 0x0F, 0xB6, 0xC0]"
    by (rule whole_opcodes(5) [OF setcc_known]) (simp add: whole_simps)
  then show ?thesis by (rule whole_opcodes(2) [rotated]) (simp add: instr_shapes_def)
qed

lemmas cg_plain_defs = cg_push_def cg_pop_into_ecx_def cg_pop_to_eax_def cg_add_def cg_sub_def cg_mul_def cg_div_def cg_mod_def
  cg_bitand_def cg_bitor_def cg_bitxor_def cg_shl_def cg_shr_def cg_shl_imm_def cg_negate_def cg_logical_not_def
  cg_bitwise_not_def cg_deref_dword_def cg_deref_byte_def cg_store_deref_dword_def cg_store_deref_byte_def

lemma emitter_plain [intro]:
  "emitter cg_push" "emitter cg_pop_into_ecx" "emitter cg_pop_to_eax"
  "emitter cg_add" "emitter cg_sub" "emitter cg_mul" "emitter cg_div" "emitter cg_mod" "emitter cg_bitand" "emitter cg_bitor"
  "emitter cg_bitxor" "emitter cg_shl" "emitter cg_shr" "emitter (cg_shl_imm n)" "emitter cg_negate" "emitter cg_logical_not"
  "emitter cg_bitwise_not" "emitter cg_deref_dword" "emitter cg_deref_byte" "emitter cg_store_deref_dword" "emitter cg_store_deref_byte"
  unfolding cg_plain_defs by (rule emitter_emit; simp add: whole_simps)+

lemma emitter_operand [intro]:
  "emitter (cg_load_num v)" "emitter (cg_load_local off)" "emitter (cg_lea_local off)" "emitter (cg_store_local off)"
  "emitter (cg_add_esp v)" "emitter (cg_cmp t)"
proof -
  note code = cg_load_num_def cg_load_local_def cg_lea_local_def cg_store_local_def cg_add_esp_def cg_emit_byte_emit emit_then
  show "emitter (cg_load_num v)"
    by (rule emitter_code [of _ "0xB8 # dword_bytes v"]) (simp_all add: code dword_bytes_def whole_simps)
  show "emitter (cg_load_local off)"
    by (rule emitter_code [of _ "0x8B # 0x85 # dword_bytes off"]) (simp_all add: code dword_bytes_def whole_simps)
  show "emitter (cg_lea_local off)"
    by (rule emitter_code [of _ "0x8D # 0x85 # dword_bytes off"]) (simp_all add: code dword_bytes_def whole_simps)
  show "emitter (cg_store_local off)"
    by (rule emitter_code [of _ "0x89 # 0x85 # dword_bytes off"]) (simp_all add: code dword_bytes_def whole_simps)
  show "emitter (cg_add_esp v)"
    by (rule emitter_code [of _ "0x81 # 0xC4 # dword_bytes v"]) (simp_all add: code dword_bytes_def whole_simps)
  show "emitter (cg_cmp t)" unfolding cg_cmp_def by (rule emitter_emit [OF whole_cmp])
qed

lemma emitter_deref [intro]: "emitter (deref y)"
  by (auto simp: deref_def)

lemmas emitter_ops = emitter_plain emitter_operand emitter_deref

lemma emitter_fold: "(\<And>x. emitter (f x)) \<Longrightarrow> emitter (fold f xs)"
proof (induction xs)
  case Nil
  have "fold f [] = emit []" by (rule ext) (simp add: emit_def)
  then show ?case unfolding emitter_def using whole_nil by blast
next
  case (Cons x xs)
  then show ?case using emitter_comp [of "f x" "fold f xs"] by (simp add: comp_def)
qed

lemma emitter_call: "emitter (emit_builtin_call idx argc)"
proof -
  have "whole (swap_code argc i)" for i by (simp add: swap_code_def Let_def whole_simps)
  then have r: "emitter (cg_reverse_stack argc)"
    unfolding cg_reverse_stack_def [abs_def] by (intro emitter_fold emitter_emit)
  have c: "emitter (cg_call_syscall idx)"
    by (rule emitter_code [of _ "[0x89, 0xE3, 0xB8] @ dword_bytes idx @ [0xCD, 0x80]"])
      (simp_all add: cg_call_syscall_def emit_then, simp_all add: emit_def dword_bytes_def whole_simps)
  have e: "emitter (\<lambda>s. s)" by (rule emitter_code [of _ "[]"]) (simp_all add: emit_def)
  have rc: "emitter (\<lambda>s. cg_call_syscall idx (if argc \<ge> 2 then cg_reverse_stack argc s else s))"
    using emitter_comp [OF r c] emitter_comp [OF e c] by (cases "2 \<le> argc") simp_all
  show ?thesis
    unfolding emit_builtin_call_def [abs_def] Let_def
    using emitter_comp [OF rc emitter_operand(5) [of "word_of_nat (argc * 4)"]] rc by (cases "0 < argc") simp_all
qed

lemma emitter_compound: "compound_op t = Some g \<Longrightarrow> emitter g"
  by (auto simp: compound_op_def split: if_splits)

lemma emitter_tables:
  "\<forall>t g. mul_ops t = Some g \<longrightarrow> emitter g" "\<forall>t g. add_ops t = Some g \<longrightarrow> emitter g" "\<forall>t g. shift_ops t = Some g \<longrightarrow> emitter g"
  "\<forall>t g. rel_ops t = Some g \<longrightarrow> emitter g" "\<forall>t g. eq_ops t = Some g \<longrightarrow> emitter g"
  "\<forall>t g. one_op TOK_AMP cg_bitand t = Some g \<longrightarrow> emitter g" "\<forall>t g. one_op TOK_CARET cg_bitxor t = Some g \<longrightarrow> emitter g"
  "\<forall>t g. one_op TOK_PIPE cg_bitor t = Some g \<longrightarrow> emitter g"
  by (auto simp: mul_ops_def add_ops_def shift_ops_def rel_ops_def eq_ops_def one_op_def split: if_splits)

section \<open>Labels and symbols\<close>

lemma new_label_less: "new_label s = (l, s1) \<Longrightarrow> l < CG_LABEL_MAX"
  by (auto simp: new_label_def cg_new_label_def CG_LABEL_MAX_def split: if_splits)

lemma find_name_less: "find_name ss name i = Some j \<Longrightarrow> j < i + length ss"
  by (induction ss name i rule: find_name.induct) (auto split: if_splits)

definition known :: "symtab \<Rightarrow> symref option \<Rightarrow> bool" where
  "known t fn \<longleftrightarrow> (case fn of None \<Rightarrow> True | Some (Glob i) \<Rightarrow> i < length (globals t) | Some (Loc i) \<Rightarrow> False)"

lemma known_find: "sym_find_global t name = Some r \<Longrightarrow> known t (Some r)"
  by (auto simp: sym_find_global_def known_def dest: find_name_less)

lemma known_add: "sym_add_global name k dt t = (r, t') \<Longrightarrow> known t' r"
  by (auto simp: sym_add_global_def known_def split: if_splits)

lemma known_global: "known t (Some r) \<Longrightarrow> \<exists>i. r = Glob i"
  by (cases r) (auto simp: known_def)

lemma known_found: "known t (sym_find_global t name)"
  by (auto simp: known_def split: option.split symref.split dest: known_find known_global)

section \<open>The interface\<close>

definition obeys :: "(cst \<Rightarrow> cst \<Rightarrow> bool) \<Rightarrow> step \<Rightarrow> bool" where
  "obeys R f \<longleftrightarrow> (\<forall>s s'. f s = Some s' \<longrightarrow> R s s')"

locale parser_steps =
  fixes R :: "cst \<Rightarrow> cst \<Rightarrow> bool"
  assumes refl: "R s s"
    and trans: "R s s1 \<Longrightarrow> R s1 s2 \<Longrightarrow> R s s2"
    and lexing: "R s (s\<lparr>lx := lexer\<rparr>)"
    and an_error: "R s (error m s)"
    and emitting: "whole bs \<Longrightarrow> R s (gen (emit bs) s)"
    and global_access: "R s (gen (cg_load_global a) s)" "R s (gen (cg_store_global a) s)"
    and jumping: "l < CG_LABEL_MAX \<Longrightarrow> R s (gen (cg_jump l) s)" "l < CG_LABEL_MAX \<Longrightarrow> R s (gen (cg_jump_zero l) s)"
      "l < CG_LABEL_MAX \<Longrightarrow> R s (gen (cg_jump_nonzero l) s)"
    and placing: "R s (gen (cg_label l) s)"
    and labelling: "R s (snd (new_label s))"
    and framing: "R s (gen cg_func_begin s)" "R s (gen cg_func_end s)" "R s (gen cg_return s)"
    and calling: "known (sy s) fn \<Longrightarrow> R s (gen (cg_call_symbol fn) s)"
    and loading_string: "cg_add_string str (cg s) = (addr, g) \<Longrightarrow> R s (gen (cg_load_num addr) (s\<lparr>cg := g\<rparr>))"
    and allocating: "R s (alloc_global (Glob i) n s)"
    and leaving: "i < MAX_LOOP_DEPTH \<Longrightarrow> R s (gen (cg_jump (break_labels s i)) s)"
      "i < MAX_LOOP_DEPTH \<Longrightarrow> R s (gen (cg_jump (continue_labels s i)) s)"
    and looping: "b < CG_LABEL_MAX \<Longrightarrow> c < CG_LABEL_MAX \<Longrightarrow> R s (enter_loop b c s)" "R s (leave_loop s)"
    and adding: "k = SYM_LOCAL_VAR \<or> k = SYM_PARAM \<Longrightarrow> R s (s\<lparr>sy := snd (sym_add_local name k dt (sy s))\<rparr>)"
      "R s (s\<lparr>sy := snd (sym_add_global name gk dt (sy s))\<rparr>)"
    and updating: "R s (s\<lparr>sy := sym_update (Glob i) f (sy s)\<rparr>)"
      "R s (s\<lparr>sy := sym_update r (\<lambda>y. y\<lparr>ssize := v\<rparr>) (sy s)\<rparr>)"
      "R s (s\<lparr>sy := sym_begin_locals (sy s)\<rparr>)"
begin

text \<open>The primitive steps, each behind a run that is already related.\<close>

lemma post_emitter: "emitter f \<Longrightarrow> R s0 s \<Longrightarrow> R s0 (gen f s)"
  by (auto simp: emitter_def intro: trans emitting)

lemma post_peek: "peek s = (t, s1) \<Longrightarrow> R s0 s \<Longrightarrow> R s0 s1"
  by (auto simp: peek_def split: prod.splits intro: trans lexing)

lemma post_next: "next_tok s = (t, s1) \<Longrightarrow> R s0 s \<Longrightarrow> R s0 s1"
  by (auto simp: next_tok_def split: prod.splits intro: trans lexing)

lemma post_skip: "R s0 s \<Longrightarrow> R s0 (skip_tok s)"
  unfolding skip_tok_def using post_next [of s "fst (next_tok s)" "snd (next_tok s)"] by simp

lemma post_error: "R s0 s \<Longrightarrow> R s0 (error m s)"
  by (rule trans [OF _ an_error])

lemma post_expect: "R s0 s \<Longrightarrow> R s0 (expect t s)"
  by (auto simp: expect_def split: prod.split intro: post_error post_next)

lemma post_label: "new_label s = (l, s1) \<Longrightarrow> R s0 s \<Longrightarrow> R s0 s1"
  using labelling [of s] trans [of s0 s s1] by simp

lemma post_steps:
  "R s0 s \<Longrightarrow> l < CG_LABEL_MAX \<Longrightarrow> R s0 (gen (cg_jump l) s)" "R s0 s \<Longrightarrow> l < CG_LABEL_MAX \<Longrightarrow> R s0 (gen (cg_jump_zero l) s)"
  "R s0 s \<Longrightarrow> l < CG_LABEL_MAX \<Longrightarrow> R s0 (gen (cg_jump_nonzero l) s)" "R s0 s \<Longrightarrow> R s0 (gen (cg_label l) s)"
  "R s0 s \<Longrightarrow> R s0 (gen (cg_load_global a) s)" "R s0 s \<Longrightarrow> R s0 (gen (cg_store_global a) s)"
  "R s0 s \<Longrightarrow> R s0 (gen cg_func_begin s)" "R s0 s \<Longrightarrow> R s0 (gen cg_func_end s)" "R s0 s \<Longrightarrow> R s0 (gen cg_return s)"
  "R s0 s \<Longrightarrow> known (sy s) fn \<Longrightarrow> R s0 (gen (cg_call_symbol fn) s)" "R s0 s \<Longrightarrow> R s0 (alloc_global (Glob i) n s)"
  "R s0 s \<Longrightarrow> R s0 (leave_loop s)" "R s0 s \<Longrightarrow> b < CG_LABEL_MAX \<Longrightarrow> c < CG_LABEL_MAX \<Longrightarrow> R s0 (enter_loop b c s)"
  by (blast intro: trans jumping placing global_access framing calling allocating looping)+

lemma post_step: "f s = Some s' \<Longrightarrow> obeys R f \<Longrightarrow> R s0 s \<Longrightarrow> R s0 s'"
  unfolding obeys_def by (blast intro: trans)

lemma post_load_var: "R s0 s \<Longrightarrow> R s0 (gen (load_var y) s)"
  by (auto simp: load_var_def intro: post_emitter post_steps)

lemma post_store_var: "R s0 s \<Longrightarrow> R s0 (gen (store_var y) s)"
  by (auto simp: store_var_def intro: post_emitter post_steps)

lemma post_load_base: "R s0 s \<Longrightarrow> R s0 (gen (load_base y) s)"
  by (auto simp: load_base_def intro: post_emitter)

lemma post_undeclared: "R s0 s \<Longrightarrow> R s0 (undeclared s)"
  by (auto simp: undeclared_def intro: post_emitter post_error)

lemma post_if: "(b \<Longrightarrow> R s0 s) \<Longrightarrow> (\<not> b \<Longrightarrow> R s0 s') \<Longrightarrow> R s0 (if b then s else s')"
  by simp

lemmas post = refl post_if emitter_ops [THEN post_emitter] emitter_call [THEN post_emitter] post_skip post_error post_expect
  post_steps post_load_var post_store_var post_load_base post_undeclared

lemmas post_eq = post_peek post_next post_label

lemma obeysI: "(\<And>s s'. f s = Some s' \<Longrightarrow> R s s') \<Longrightarrow> obeys R f"
  by (simp add: obeys_def)

section \<open>Expressions\<close>

lemma more_args_R:
  assumes "obeys R asg"
  shows "more_args n asg argc s = Some (argc', s') \<Longrightarrow> R s0 s \<Longrightarrow> R s0 s'"
proof (induction n arbitrary: argc s)
  case (Suc n)
  show ?case
    by (insert Suc.prems, auto split: prod.splits if_splits Option.bind_split_asm;
        (rule post | erule post_eq | erule post_step [OF _ assms] | erule Suc.IH | assumption)+)
qed simp

lemma post_add_global: "sym_add_global name k dt (sy s) = (r, t') \<Longrightarrow> R s0 s \<Longrightarrow> R s0 (s\<lparr>sy := t'\<rparr>)"
  using adding(2) [of s name k dt] by (auto intro: trans)

lemma known_added: "sym_add_global name k dt t = (r, t') \<Longrightarrow> known (sy (s\<lparr>sy := t'\<rparr>)) r"
  by (simp add: known_add)

lemma parse_call_R:
  assumes asg: "obeys R asg"
  shows "obeys R (parse_call asg name)"
  by (rule obeysI, auto simp: parse_call_def Let_def split: prod.splits if_splits Option.bind_split_asm option.splits;
      (rule post | erule post_eq | erule post_step [OF _ asg] | erule more_args_R [OF asg] | erule post_add_global | erule known_added | rule known_found | assumption)+)

lemma skip_stars_R: "skip_stars n s = Some s' \<Longrightarrow> R s0 s \<Longrightarrow> R s0 s'"
  by (induction n arbitrary: s) (auto split: prod.splits if_splits intro: post post_eq)

lemma skip_incdec_R: "skip_incdec n s = Some s' \<Longrightarrow> R s0 s \<Longrightarrow> R s0 s'"
  by (induction n arbitrary: s) (auto split: prod.splits if_splits intro: post post_eq)

lemma parse_index_R:
  assumes asg: "obeys R asg"
  shows "obeys R (parse_index asg name)"
  by (rule obeysI, auto simp: parse_index_def Let_def split: prod.splits if_splits Option.bind_split_asm option.splits;
      (rule post | erule post_eq | erule post_step [OF _ asg] | assumption)+)

lemma parse_name_R:
  assumes asg: "obeys R asg"
  shows "obeys R (parse_name asg name)"
  by (rule obeysI, auto simp: parse_name_def Let_def split: prod.splits if_splits Option.bind_split_asm option.splits;
      (rule post | erule post_eq | erule post_step [OF _ parse_call_R [OF asg]] | erule post_step [OF _ parse_index_R [OF asg]] | assumption)+)

lemma post_string:
  "cg_add_string str (cg s) = (addr, g) \<Longrightarrow> R s0 s \<Longrightarrow> R s0 (gen (cg_load_num addr) (s\<lparr>cg := g\<rparr>))"
  using loading_string trans by blast

lemma parse_primary_R:
  assumes asg: "obeys R asg" and una: "obeys R una"
  shows "obeys R (parse_primary_expr asg una)"
  by (rule obeysI, auto simp: parse_primary_expr_def Let_def split: prod.splits if_splits Option.bind_split_asm option.splits;
      (erule post_string | rule post | erule post_eq | erule post_step [OF _ asg] | erule post_step [OF _ una] | erule post_step [OF _ parse_name_R [OF asg]] | erule skip_stars_R | assumption)+)

lemma parse_postfix_R:
  assumes asg: "obeys R asg" and una: "obeys R una"
  shows "obeys R (parse_postfix_expr asg una)"
  by (rule obeysI, auto simp: parse_postfix_expr_def Let_def split: prod.splits if_splits Option.bind_split_asm option.splits;
      (rule post | erule post_eq | erule post_step [OF _ parse_primary_R [OF asg una]] | erule skip_incdec_R | assumption)+)

lemma parse_address_R:
  shows "obeys R (parse_address)"
  by (rule obeysI, auto simp: parse_address_def Let_def split: prod.splits if_splits Option.bind_split_asm option.splits;
      (rule post | erule post_eq | assumption)+)

lemma unary_R:
  assumes asg: "obeys R asg" and una: "obeys R una"
  shows "obeys R (unary_step asg una)"
  by (rule obeysI, auto simp: unary_step_def Let_def split: prod.splits if_splits Option.bind_split_asm option.splits;
      (rule post | erule post_eq | erule post_step [OF _ una] | erule post_step [OF _ parse_address_R] | erule post_step [OF _ parse_postfix_R [OF asg una]] | assumption)+)

lemma binary_loop_R:
  assumes ops: "\<forall>t g. ops t = Some g \<longrightarrow> emitter g" and sub: "obeys R sub"
  shows "binary_loop n ops sub s = Some s' \<Longrightarrow> R s0 s \<Longrightarrow> R s0 s'"
proof (induction n arbitrary: s)
  case (Suc n)
  show ?case
    by (insert Suc.prems, auto split: prod.splits option.splits Option.bind_split_asm;
        (erule Suc.IH | erule post_step [OF _ sub] | rule post | rule post_emitter | erule ops [rule_format] | erule post_eq | assumption)+)
qed simp

lemma binary_level_R:
  assumes ops: "\<forall>t g. ops t = Some g \<longrightarrow> emitter g" and sub: "obeys R sub"
  shows "obeys R (binary_level ops sub)"
  by (rule obeysI, auto simp: binary_level_def split: Option.bind_split_asm;
      (erule binary_loop_R [OF ops sub] | erule post_step [OF _ sub] | rule refl | assumption)+)

lemma levels_R:
  assumes una: "obeys R una"
  shows "obeys R (parse_mul_expr una)" "obeys R (parse_add_expr una)" "obeys R (parse_shift_expr una)" "obeys R (parse_rel_expr una)"
    "obeys R (parse_eq_expr una)" "obeys R (parse_bitand_expr una)" "obeys R (parse_bitxor_expr una)" "obeys R (parse_bitor_expr una)"
  unfolding parse_mul_expr_def parse_add_expr_def parse_shift_expr_def parse_rel_expr_def parse_eq_expr_def parse_bitand_expr_def
    parse_bitxor_expr_def parse_bitor_expr_def
  by (intro binary_level_R una emitter_tables)+

lemma short_circuit_R:
  assumes sub: "obeys R sub" and jump: "\<And>l s0 s. l < CG_LABEL_MAX \<Longrightarrow> R s0 s \<Longrightarrow> R s0 (gen (jump l) s)"
  shows "obeys R (short_circuit jump both early sub)"
  by (rule obeysI, auto simp: short_circuit_def Let_def split: prod.splits Option.bind_split_asm;
      (erule post_step [OF _ sub] | rule post | erule post_eq | rule jump | erule new_label_less | assumption)+)

lemma logic_loop_R:
  assumes sub: "obeys R sub"
  shows "logic_loop n op sub s = Some s' \<Longrightarrow> R s0 s \<Longrightarrow> R s0 s'"
proof (induction n arbitrary: s)
  case (Suc n)
  show ?case
    by (insert Suc.prems, auto split: prod.splits if_splits Option.bind_split_asm;
        (erule Suc.IH | erule post_step [OF _ sub] | rule post | erule post_eq | assumption)+)
qed simp

lemma and_circuit_R: "obeys R una \<Longrightarrow> obeys R (short_circuit cg_jump_zero 1 0 (parse_bitor_expr una))"
  by (rule short_circuit_R, erule levels_R, erule post_steps, assumption)

lemma parse_and_R:
  assumes una: "obeys R una"
  shows "obeys R (parse_and_expr una)"
  by (rule obeysI, auto simp: parse_and_expr_def split: Option.bind_split_asm;
      (erule logic_loop_R [OF and_circuit_R [OF una]] | erule post_step [OF _ levels_R(8) [OF una]] | rule refl)+)

lemma or_circuit_R: "obeys R una \<Longrightarrow> obeys R (short_circuit cg_jump_nonzero 0 1 (parse_and_expr una))"
  by (rule short_circuit_R, erule parse_and_R, erule post_steps, assumption)

lemma parse_or_R:
  assumes una: "obeys R una"
  shows "obeys R (parse_or_expr una)"
  by (rule obeysI, auto simp: parse_or_expr_def split: Option.bind_split_asm;
      (erule logic_loop_R [OF or_circuit_R [OF una]] | erule post_step [OF _ parse_and_R [OF una]] | rule refl)+)

section \<open>Assignments\<close>

lemma assign_plain_R:
  assumes asg: "obeys R asg"
  shows "obeys R (assign_plain asg name)"
  by (rule obeysI, auto simp: assign_plain_def Let_def split: prod.splits if_splits Option.bind_split_asm option.splits;
      (erule post_step [OF _ asg] | rule post | erule post_eq | assumption)+)

lemma assign_compound_R:
  assumes asg: "obeys R asg" and g: "emitter g"
  shows "obeys R (assign_compound asg name g)"
  by (rule obeysI, auto simp: assign_compound_def Let_def split: if_splits Option.bind_split_asm option.splits;
      (erule post_step [OF _ asg] | rule post | rule post_emitter [OF g] | assumption)+)

lemma post_compound:
  "obeys R asg \<Longrightarrow> assign_compound asg name g s = Some s' \<Longrightarrow> compound_op t = Some g \<Longrightarrow> R s0 s \<Longrightarrow> R s0 s'"
  using post_step [OF _ assign_compound_R [OF _ emitter_compound]] by blast

lemma assign_index_R:
  assumes asg: "obeys R asg"
  shows "obeys R (assign_index asg name)"
  by (rule obeysI, auto simp: assign_index_def Let_def split: prod.splits if_splits Option.bind_split_asm option.splits;
      (erule post_step [OF _ asg] | rule post | erule post_eq | assumption)+)

lemma flat_op_R:
  assumes una: "obeys R una" and "flat_op una t = Some (sub, g)"
  shows "obeys R sub \<and> emitter g"
  by (insert assms, auto simp: flat_op_def split: option.splits if_splits;
      (erule levels_R | rule emitter_ops | erule binary_level_R [OF emitter_tables(1)] | erule emitter_tables [rule_format])+)

lemma continue_binops_R:
  assumes una: "obeys R una"
  shows "continue_binops n una s = Some s' \<Longrightarrow> R s0 s \<Longrightarrow> R s0 s'"
proof (induction n arbitrary: s)
  case (Suc n)
  obtain t s1 where p: "peek s = (t, s1)" by (cases "peek s")
  have s1: "R s0 s1" using post_peek [OF p Suc.prems(2)] .
  show ?case
  proof (cases "flat_op una t")
    case None
    show ?thesis
      by (insert Suc.prems(1) p s1 None, auto split: if_splits Option.bind_split_asm;
          (erule Suc.IH | erule post_step [OF _ and_circuit_R [OF una]] | erule post_step [OF _ or_circuit_R [OF una]] | rule post | assumption)+)
  next
    case (Some q)
    obtain sub g where q: "q = (sub, g)" by (cases q)
    note f = flat_op_R [OF una Some [unfolded q], THEN conjunct1] flat_op_R [OF una Some [unfolded q], THEN conjunct2]
    show ?thesis
      by (insert Suc.prems(1) p s1 Some q, auto split: Option.bind_split_asm;
          (erule Suc.IH | erule post_step [OF _ f(1)] | rule post | rule post_emitter [OF f(2)] | assumption)+)
  qed
qed simp

lemma load_name_R: "R s0 s \<Longrightarrow> R s0 (load_name name s)"
  by (auto simp: load_name_def Let_def split: option.split intro!: post)

lemma assign_ident_R:
  assumes asg: "obeys R asg" and una: "obeys R una"
  shows "obeys R (assign_ident asg una name)"
  by (rule obeysI, auto simp: assign_ident_def Let_def split: prod.splits if_splits Option.bind_split_asm option.splits;
      (erule post_step [OF _ assign_plain_R [OF asg]] | erule post_compound [OF asg] | erule post_step [OF _ assign_index_R [OF asg]] | erule post_step [OF _ parse_call_R [OF asg]] | erule continue_binops_R [OF una] | rule load_name_R | rule post | erule post_eq | assumption)+)

lemma assign_R:
  assumes asg: "obeys R asg" and una: "obeys R una"
  shows "obeys R (assign_step asg una)"
  by (rule obeysI, auto simp: assign_step_def Let_def split: prod.splits if_splits Option.bind_split_asm option.splits;
      (erule post_step [OF _ assign_ident_R [OF asg una]] | erule post_step [OF _ parse_or_R [OF una]] | erule continue_binops_R [OF una] | erule post_step [OF _ asg] | erule post_step [OF _ una] | rule post | erule post_eq | assumption)+)

lemma parse_assign_unary_R: "obeys R (parse_assign_expr d) \<and> obeys R (parse_unary_expr d)"
proof (induction d)
  case (Suc d)
  then have "obeys R (assign_step (parse_assign_expr d) (parse_unary_expr d))" "obeys R (unary_step (parse_assign_expr d) (parse_unary_expr d))"
    using assign_R unary_R by auto
  then show ?case by (simp add: obeys_def)
qed (simp add: obeys_def)

lemma parse_expr_R: "obeys R parse_expr"
  using parse_assign_unary_R by (simp add: parse_expr_def)

section \<open>Statements\<close>

lemma post_enter: "R s0 s \<Longrightarrow> b < CG_LABEL_MAX \<Longrightarrow> c < CG_LABEL_MAX \<Longrightarrow> R s0 (enter_loop b c s)"
  by (rule post_steps)

lemma opt_expr_R:
  assumes d: "\<And>s. R s (dflt s)"
  shows "opt_expr stop dflt s = Some s' \<Longrightarrow> R s0 s \<Longrightarrow> R s0 s'"
  by (auto simp: opt_expr_def split: prod.splits if_splits;
      (erule post_step [OF _ parse_expr_R] | rule trans [OF _ d] | erule post_eq | assumption)+)

lemmas post_opt = opt_expr_R [of id, simplified, OF refl] opt_expr_R [of "gen (cg_load_num 1)", OF emitter_operand(1) [THEN post_emitter, OF refl]]

lemma parse_if_R:
  assumes stm: "obeys R stm"
  shows "obeys R (parse_if stm)"
  by (rule obeysI, auto simp: parse_if_def Let_def split: prod.splits if_splits Option.bind_split_asm option.splits;
      (erule post_step [OF _ parse_expr_R] | erule post_step [OF _ stm] | erule post_opt | erule new_label_less | rule post | erule post_eq | assumption)+)

lemma parse_while_R:
  assumes stm: "obeys R stm"
  shows "obeys R (parse_while stm)"
  by (rule obeysI, auto simp: parse_while_def Let_def split: prod.splits if_splits Option.bind_split_asm option.splits;
      (erule post_step [OF _ parse_expr_R] | erule post_step [OF _ stm] | erule post_opt | erule new_label_less | rule post | erule post_eq | assumption)+)

lemma parse_for_R:
  assumes stm: "obeys R stm"
  shows "obeys R (parse_for stm)"
  by (rule obeysI, auto simp: parse_for_def Let_def split: prod.splits if_splits Option.bind_split_asm option.splits;
      (erule post_step [OF _ parse_expr_R] | erule post_step [OF _ stm] | erule post_opt | erule new_label_less | rule post | erule post_eq | assumption)+)

lemma parse_do_while_R:
  assumes stm: "obeys R stm"
  shows "obeys R (parse_do_while stm)"
  by (rule obeysI, auto simp: parse_do_while_def Let_def split: prod.splits if_splits Option.bind_split_asm option.splits;
      (erule post_step [OF _ parse_expr_R] | erule post_step [OF _ stm] | erule post_opt | erule new_label_less | rule post | erule post_eq | assumption)+)

lemma parse_return_R:
  shows "obeys R (parse_return)"
  by (rule obeysI, auto simp: parse_return_def Let_def split: prod.splits if_splits Option.bind_split_asm option.splits;
      (erule post_opt | rule post | erule post_eq | assumption)+)

lemma parse_type_R: "parse_type s = (dt, s') \<Longrightarrow> R s0 s \<Longrightarrow> R s0 s'"
  by (auto simp: parse_type_def Let_def split: prod.splits if_splits; (rule post | erule post_eq | assumption)+)

lemma post_symbols:
  "R s0 s \<Longrightarrow> R s0 (s\<lparr>sy := sy s\<rparr>)"
  "R s0 (s\<lparr>sy := t\<rparr>) \<Longrightarrow> R s0 (s\<lparr>sy := sym_begin_locals t\<rparr>)"
  "R s0 (s\<lparr>sy := t\<rparr>) \<Longrightarrow> R s0 (s\<lparr>sy := sym_update r (\<lambda>y. y\<lparr>ssize := v\<rparr>) t\<rparr>)"
  "R s0 s \<Longrightarrow> R s0 (s\<lparr>sy := snd (sym_add_local name SYM_PARAM dt (sy s))\<rparr>)"
  using trans [OF _ updating(3)] trans [OF _ updating(2)] trans [OF _ adding(1)] by fastforce+

lemma post_known:
  assumes "known t (Some r)"
  shows "R s0 (s\<lparr>sy := t'\<rparr>) \<Longrightarrow> R s0 (s\<lparr>sy := sym_update r f t'\<rparr>)" and "R s0 s \<Longrightarrow> R s0 (alloc_global r n s)"
  using known_global [OF assms] trans [OF _ updating(1)] trans [OF _ allocating] by fastforce+

lemma post_add_local:
  "sym_add_local name SYM_LOCAL_VAR dt (sy s) = (r, t) \<Longrightarrow> R s0 s \<Longrightarrow> R s0 (s\<lparr>sy := t\<rparr>)"
  using adding(1) [of SYM_LOCAL_VAR s name dt] trans by fastforce

lemma local_declarator_R: "local_declarator dt s = Some (b, s') \<Longrightarrow> R s0 s \<Longrightarrow> R s0 s'"
  by (auto simp: local_declarator_def Let_def split: prod.splits if_splits Option.bind_split_asm option.splits;
      (erule post_step [OF _ parse_expr_R] | erule post_add_local | rule post | erule post_eq | rule post_symbols | assumption)+)

lemma parse_local_decl_R: "parse_local_decl n dt s = Some s' \<Longrightarrow> R s0 s \<Longrightarrow> R s0 s'"
proof (induction n arbitrary: s)
  case (Suc n)
  show ?case
    by (insert Suc.prems, auto split: prod.splits if_splits Option.bind_split_asm;
        (erule Suc.IH | erule local_declarator_R | rule post | erule post_eq | assumption)+)
qed simp

lemma block_loop_R:
  assumes stm: "obeys R stm"
  shows "block_loop n stm s = Some s' \<Longrightarrow> R s0 s \<Longrightarrow> R s0 s'"
proof (induction n arbitrary: s)
  case (Suc n)
  show ?case
    by (insert Suc.prems, auto split: prod.splits if_splits Option.bind_split_asm;
        (erule Suc.IH | erule post_step [OF _ stm] | rule post | erule post_eq | assumption)+)
qed simp

lemma parse_block_R: "obeys R stm \<Longrightarrow> obeys R (parse_block stm)"
  by (rule obeysI, unfold parse_block_def, erule block_loop_R, assumption) (rule post refl)+

lemma loop_jump_R: "obeys R (loop_jump break_labels m)" "obeys R (loop_jump continue_labels m)"
  by (rule obeysI, auto simp: loop_jump_def Let_def split: if_splits;
      (rule trans [OF _ leaving(1)] | rule trans [OF _ leaving(2)] | rule post | simp)+)+

lemma statement_R:
  assumes stm: "obeys R stm"
  shows "obeys R (statement_step stm)"
  by (rule obeysI, auto simp: statement_step_def Let_def split: prod.splits if_splits Option.bind_split_asm option.splits;
      (erule post_step [OF _ parse_block_R [OF stm]] | erule post_step [OF _ parse_if_R [OF stm]] | erule post_step [OF _ parse_while_R [OF stm]] | erule post_step [OF _ parse_for_R [OF stm]] | erule post_step [OF _ parse_do_while_R [OF stm]] | erule post_step [OF _ parse_return_R] | erule post_step [OF _ loop_jump_R(1)] | erule post_step [OF _ loop_jump_R(2)] | erule post_step [OF _ parse_expr_R] | erule parse_local_decl_R | erule parse_type_R | rule post | erule post_eq | assumption)+)

lemma parse_statement_R: "obeys R (parse_statement d)"
proof (induction d)
  case (Suc d)
  then show ?case using statement_R by (simp add: obeys_def)
qed (simp add: obeys_def)

section \<open>Declarations\<close>

lemma parse_params_R: "parse_params n s = Some s' \<Longrightarrow> R s0 s \<Longrightarrow> R s0 s'"
proof (induction n arbitrary: s)
  case (Suc n)
  show ?case
    by (insert Suc.prems, auto simp: Let_def split: prod.splits if_splits;
        (erule Suc.IH | erule parse_type_R | rule post | erule post_eq | rule post_symbols | assumption)+)
qed simp

lemma parse_function_R: "obeys R (parse_function name rt)"
  by (rule obeysI, auto simp: parse_function_def Let_def split: prod.splits if_splits Option.bind_split_asm option.splits;
      (erule post_step [OF _ parse_block_R [OF parse_statement_R]] | erule parse_params_R | erule post_add_global | rule post |
       erule post_eq | rule post_symbols | rule post_known | erule known_find | erule known_add | assumption)+)

lemma more_globals_R: "more_globals n dt s = Some s' \<Longrightarrow> R s0 s \<Longrightarrow> R s0 s'"
proof (induction n arbitrary: s)
  case (Suc n)
  show ?case
    by (insert Suc.prems, auto simp: Let_def split: prod.splits if_splits option.splits;
        (erule Suc.IH | erule post_add_global | rule post_known | erule known_add | rule post | erule post_eq | assumption)+)
qed simp

lemma parse_global_var_R: "obeys R (parse_global_var name dt)"
  by (rule obeysI, auto simp: parse_global_var_def Let_def split: prod.splits if_splits option.splits;
      (erule more_globals_R | erule post_add_global | rule post_known | erule known_add | rule post | erule post_eq |
       rule post_symbols | assumption)+)

lemma program_loop_R: "program_loop n s = Some s' \<Longrightarrow> R s0 s \<Longrightarrow> R s0 s'"
proof (induction n arbitrary: s)
  case (Suc n)
  show ?case
    by (insert Suc.prems, auto simp: Let_def split: prod.splits if_splits Option.bind_split_asm option.splits;
        (erule Suc.IH | erule parse_type_R | erule post_step [OF _ parse_function_R] | erule post_step [OF _ parse_global_var_R] |
         rule post | erule post_eq | assumption)+)
qed simp

theorem parse_program_R: "parse_program s = Some s' \<Longrightarrow> R (s\<lparr>had_error := False, loop_depth := 0\<rparr>) s'"
  unfolding parse_program_def by (erule program_loop_R) (rule refl)

end

end
