(* ===== verification/CParserBounds.thy ===== *)
theory CParserBounds
  imports CParserSteps CPreproc
begin

text \<open>
  The tables and buffers of the compiler stay within their bounds, and the variables of a function
  within its frame.
\<close>

section \<open>Bounds of the code generator\<close>






lemma emit_fields [simp]:
  "strings (emit bs c) = strings c" "fixups (emit bs c) = fixups c" "str_fixups (emit bs c) = str_fixups c"
  "num_labels (emit bs c) = num_labels c" "func_epilogue_label (emit bs c) = func_epilogue_label c"
  "label_pos (emit bs c) = label_pos c" "global_data_offset (emit bs c) = global_data_offset c"
proof -
  have "strings (emit bs c) = strings c \<and> fixups (emit bs c) = fixups c \<and> str_fixups (emit bs c) = str_fixups c \<and>
     num_labels (emit bs c) = num_labels c \<and> func_epilogue_label (emit bs c) = func_epilogue_label c \<and>
     label_pos (emit bs c) = label_pos c \<and> global_data_offset (emit bs c) = global_data_offset c"
    by (induction bs arbitrary: c) (simp_all add: emit_def cg_emit_byte_def)
  then show "strings (emit bs c) = strings c" "fixups (emit bs c) = fixups c" "str_fixups (emit bs c) = str_fixups c"
    "num_labels (emit bs c) = num_labels c" "func_epilogue_label (emit bs c) = func_epilogue_label c"
    "label_pos (emit bs c) = label_pos c" "global_data_offset (emit bs c) = global_data_offset c" by simp_all
qed











section \<open>Bounds of the symbol tables\<close>



lemma number_params_length [simp]: "length (number_params ss k) = length ss"
  by (induction ss k rule: number_params.induct) auto








section \<open>The output buffer\<close>

















end
