(* ===== verification/CParserErrors.thy ===== *)
theory CParserErrors
  imports CParserSteps CPreproc
begin

text \<open>
  Error reporting of the compiler: a compilation writes at most one error message, and then produces
  no file.
\<close>

definition error_lines :: "nat \<Rightarrow> string \<Rightarrow> msg list" where
  "error_lines l m =
    [Color 12 0, Text (bytes_of ''cc error line ''), Text (dec_digits_of l), Text (bytes_of '': ''), Text (bytes_of m),
     Text [10], Color 15 0]"

text \<open>The parser wrote nothing, or the one message of its first error.\<close>

definition reports :: "cst \<Rightarrow> cst \<Rightarrow> bool" where
  "reports s s' \<longleftrightarrow>
    (if had_error s then had_error s' \<and> screen s' = screen s
     else if had_error s' then \<exists>l m. screen s' = screen s @ error_lines l m else screen s' = screen s)"

lemma reports_silent: "had_error s' = had_error s \<Longrightarrow> screen s' = screen s \<Longrightarrow> reports s s'"
  by (simp add: reports_def)

interpretation errors: parser_steps reports
proof (unfold_locales, goal_cases)
  case (2 s s1 s2)
  then show ?case by (auto simp: reports_def split: if_splits)
next
  case (4 s m)
  show ?case by (auto simp: reports_def error_def error_lines_def)
qed (auto intro!: reports_silent
      simp: gen_def new_label_def alloc_global_def enter_loop_def leave_loop_def Let_def split: prod.split)

lemma parse_program_reports: "parse_program s = Some s' \<Longrightarrow> reports (s\<lparr>had_error := False\<rparr>) s'"
  using errors.parse_program_R [of s s'] by (auto simp: reports_def split: if_splits)

definition failed_lines :: "byte list \<Rightarrow> msg list" where
  "failed_lines name = red [Text (bytes_of ''Failed to write ''), Text name, Text [10]]"

definition success_lines :: "byte list \<Rightarrow> byte list \<Rightarrow> nat \<Rightarrow> msg list" where
  "success_lines filename name n =
    [Color 10 0, Text (bytes_of ''Compiled ''), Text filename, Text (bytes_of '' -> ''), Text name,
     Text (bytes_of '' (''), Text (dec_digits_of n), Text (bytes_of '' bytes)\<newline>''), Color 15 0]"

text \<open>
  C10: What a compilation whose source file was read and preprocessed does: either the parser found an
  error, then exactly one message (with a line number) has been written, the result is -1 and the file
  system is as before; or it found none, then it wrote nothing itself and the linked program has been
  handed to the file system under the name of the output file, with result 0 or, when that failed, -1,
  and the one line that says so.
\<close>

theorem compile_error_reporting:
  assumes "rd filename (SRC_BUF_SIZE - 1) fs = Some source"
    and "preprocess fuel (\<lambda>name m. rd name m fs) source PP_BUF_SIZE (pp s) = Some (True, p)"
    and "cc_compile rd wr fuel filename (s, fs) = Some (r, s', fs')"
  shows "(had_error (cc s') \<and> r = - 1 \<and> fs' = fs \<and> (\<exists>l m. screen (cc s') = screen (cc s) @ error_lines l m)) \<or>
    (\<not> had_error (cc s') \<and>
     (\<exists>out n q. cg_output (sy (cc s')) (cg (cc s')) (output_buf s) = Some (out, n) \<and>
        wr (make_output_name filename 32) (seg out 0 n) fs = (q, fs') \<and> r = (if q < 0 then - 1 else 0) \<and>
        screen (cc s') = screen (cc s) @
          (if q < 0 then failed_lines (make_output_name filename 32) else success_lines filename (make_output_name filename 32) n)))"
proof -
  let ?s0 = "(cc s)\<lparr>lx := lex_init (ppout p), sy := sym_init, cg := cg_init (cg (cc s))\<rparr>"
  obtain c where c: "parse_program ?s0 = Some c"
    using assms by (auto simp: cc_compile_def split: option.splits)
  have rep: "reports (?s0\<lparr>had_error := False\<rparr>) c" by (rule parse_program_reports [OF c])
  show ?thesis
  proof (cases "had_error c")
    case True
    then have "r = - 1 \<and> s' = s\<lparr>pp := p, cc := c\<rparr> \<and> fs' = fs"
      using assms c by (simp add: cc_compile_def Let_def)
    then show ?thesis using rep True by (simp add: reports_def)
  next
    case False
    then have sc: "screen c = screen (cc s)" using rep by (simp add: reports_def)
    obtain out n where o: "cg_output (sy c) (cg c) (output_buf s) = Some (out, n)"
      using assms c False by (auto simp: cc_compile_def Let_def split: option.splits)
    obtain q fs1 where w: "wr (make_output_name filename 32) (seg out 0 n) fs = (q, fs1)" by fastforce
    have "fs' = fs1 \<and> r = (if q < 0 then - 1 else 0) \<and> cc s' = c\<lparr>screen := screen c @
        (if q < 0 then failed_lines (make_output_name filename 32) else success_lines filename (make_output_name filename 32) n)\<rparr>"
      using assms c False o w by (auto simp: cc_compile_def Let_def say_def failed_lines_def success_lines_def split: if_splits)
    then show ?thesis using False o w sc by auto
  qed
qed

definition demo_compiler :: ccst where
  "demo_compiler =
    \<lparr>pp = \<lparr>macros = [], include_buf = (\<lambda>_. 0), ip = 0, ppout = [], ifs = [], active = True\<rparr>,
     cc = \<lparr>lx = lex_init [], sy = sym_init,
       cg = \<lparr>code = [], strings = [], label_pos = (\<lambda>_. 0), num_labels = 0, fixups = [], str_fixups = [],
         global_data_offset = 0, func_epilogue_label = 0\<rparr>,
       had_error = False, break_labels = (\<lambda>_. 0), continue_labels = (\<lambda>_. 0), loop_depth = 0, screen = []\<rparr>,
     output_buf = (\<lambda>_. 0)\<rparr>"

lemma demo_error:
  assumes "lx s = lex_init [59]"
  shows "\<exists>c. parse_program s = Some c \<and> had_error c"
proof -
  obtain n where n: "FUEL = Suc n" using that [of 32767] by (simp add: FUEL_def)
  have "fst (peek s') = TOK_SEMI \<and> snd (peek s') = s'\<lparr>lx := (lex_init [59])\<lparr>inp := [], cur_tok := TOK_SEMI, has_peeked := True\<rparr>\<rparr>"
    if "lx s' = lex_init [59]" for s'
    using that by (simp add: peek_def lex_peek_def lex_scan_def lex_init_def c_space_def c_digit_def c_alpha_def scan_op_def)
  then have p: "peek (s\<lparr>had_error := False, loop_depth := 0\<rparr>) = (TOK_SEMI, s\<lparr>had_error := False, loop_depth := 0,
     lx := (lex_init [59])\<lparr>inp := [], cur_tok := TOK_SEMI, has_peeked := True\<rparr>\<rparr>)"
    using assms by (simp add: prod_eq_iff)
  show ?thesis
    unfolding parse_program_def n
    using p by (simp add: parse_type_def next_tok_def lex_next_def is_type_def error_def peek_def lex_peek_def lex_scan_def
        split: prod.split)
qed

lemma compile_error_reporting_witness:
  "\<exists>s'. cc_compile (\<lambda>name n fs. Some [59]) (\<lambda>name d fs. (0, fs)) (Suc (Suc 0)) (bytes_of ''a.c'') (demo_compiler, ()) = Some (- 1, s', ()) \<and>
    (\<exists>l m. screen (cc s') = error_lines l m)"
proof -
  let ?rd = "\<lambda>name n fs. Some [59]" and ?wr = "\<lambda>name d fs. (0, fs)"
  obtain p where p: "preprocess (Suc (Suc 0)) (\<lambda>name m. Some [59]) [59] PP_BUF_SIZE (pp demo_compiler) = Some (True, p)" "ppout p = [59]"
    by (simp add: preprocess_def arr_of_def pp_text_def is_ident_start_def pass_def emit_str_def pp_emit_def
        PP_BUF_SIZE_def demo_compiler_def)
  let ?s0 = "(cc demo_compiler)\<lparr>lx := lex_init (ppout p), sy := sym_init, cg := cg_init (cg (cc demo_compiler))\<rparr>"
  obtain c where c: "parse_program ?s0 = Some c" "had_error c" using demo_error [of ?s0] p(2) by auto
  have r: "cc_compile ?rd ?wr (Suc (Suc 0)) (bytes_of ''a.c'') (demo_compiler, ()) = Some (- 1, demo_compiler\<lparr>pp := p, cc := c\<rparr>, ())"
    using p(1) c by (simp add: cc_compile_def Let_def)
  have "screen (cc demo_compiler) = []" by (simp add: demo_compiler_def)
  then show ?thesis
    using compile_error_reporting [where rd = ?rd and wr = ?wr, OF _ _ r, of "[59]" p] p(1) c(2) r by auto
qed

end
