(* ===== verification/Spec2Isabelle.thy ===== *)
theory Spec2Isabelle
  imports CString ConsoleSpec EditorSession Paging Keyboard RamDiskSpec Fat12Names BasicSaveLoad BasicStatements CPreproc SyscallSpec CExprParse CParserBounds CParserErrors
begin

text \<open>
  Rainbow-OS: a model of the C subsystems of a 32-bit hobby operating system.
\<close>

end
